(* ===== verification/Prelude.thy ===== *)
theory Prelude
  imports Main "HOL-Library.Word" "HOL-Library.Char_ord" "HOL-Library.List_Lexorder"
    "HOL-Library.Product_Lexorder" "HOL-Library.Multiset"
begin

text \<open>
  Prelude of the Zorynex development: the Python data every component shares.

  \<^item> Python \<open>str\<close> is \<open>string\<close>, one \<open>char\<close> per code point.  The model covers the code points
    below 256; \<open>utf8\<close> is \<open>str.encode("utf-8")\<close> on them.
  \<^item> Python \<open>bytes\<close> is a list of \<open>8 word\<close>; \<open>hex\<close> and \<open>fromhex\<close> are \<open>bytes.hex\<close> and
    \<open>bytes.fromhex\<close>, \<open>int16_ok\<close> says when \<open>int(s, 16)\<close> returns.
  \<^item> a call that may raise has type \<open>'e + 'a\<close>; \<open>rbind\<close> runs the next statement when the
    first one did not raise.
  \<^item> an SQL table with an autoincrement key is the list of its rows in key order;
    \<open>db_last\<close> and \<open>db_first\<close> are \<open>ORDER BY id DESC / ASC LIMIT 1\<close>.
  The collections \<open>pystr_simps\<close> and \<open>hex_simps\<close> carry the facts about strings and
  hexadecimal text that the component proofs share.
\<close>

named_theorems pystr_simps
named_theorems hex_simps

type_synonym ident = string
type_synonym state_name = string
type_synonym hash_text = string
type_synonym version = string
type_synonym byte = "8 word"
type_synonym bytes = "byte list"

subsection \<open>Calls that may raise\<close>

fun rbind :: "'e + 'a \<Rightarrow> ('a \<Rightarrow> 'e + 'b) \<Rightarrow> 'e + 'b" where
  "rbind (Inl e) f = Inl e"
| "rbind (Inr a) f = f a"

lemma rbind_Inr_iff [simp]: "rbind r f = Inr b \<longleftrightarrow> (\<exists>a. r = Inr a \<and> f a = Inr b)"
  by (cases r) auto

lemma rbind_Inl_iff: "rbind r f = Inl e \<longleftrightarrow> r = Inl e \<or> (\<exists>a. r = Inr a \<and> f a = Inl e)"
  by (cases r) auto

lemma if_Inl_eq_Inr: "(if c then Inl e else r) = Inr u \<longleftrightarrow> \<not> c \<and> r = Inr u"
  by simp

definition rcheck :: "bool \<Rightarrow> 'e \<Rightarrow> 'e + unit" where
  "rcheck ok e = (if ok then Inr () else Inl e)"

lemma rcheck_Inr [simp]: "rcheck ok e = Inr u \<longleftrightarrow> ok"
  by (simp add: rcheck_def)

lemma rcheck_Inl [simp]: "rcheck ok e = Inl e' \<longleftrightarrow> \<not> ok \<and> e' = e"
  by (auto simp: rcheck_def)

lemma rbind_rcheck: "rbind (rcheck ok e) f = (if ok then f () else Inl e)"
  by (simp add: rcheck_def)

fun rmap_list :: "('a \<Rightarrow> 'e + 'b) \<Rightarrow> 'a list \<Rightarrow> 'e + 'b list" where
  "rmap_list f [] = Inr []"
| "rmap_list f (a # as) = rbind (f a) (\<lambda>b. rbind (rmap_list f as) (\<lambda>bs. Inr (b # bs)))"

definition opt_res :: "'e \<Rightarrow> 'a option \<Rightarrow> 'e + 'a" where
  "opt_res e o1 = (case o1 of None \<Rightarrow> Inl e | Some a \<Rightarrow> Inr a)"

lemma opt_res_simps [simp]:
  "opt_res e None = Inl e" "opt_res e (Some a) = Inr a"
  "opt_res e o1 = Inr a \<longleftrightarrow> o1 = Some a"
  by (auto simp: opt_res_def split: option.splits)

subsection \<open>Characters and strings\<close>

definition cp :: "char \<Rightarrow> nat" where
  "cp c = of_char c"

lemma cp_less [simp]: "cp c < 256"
  by (simp add: cp_def)

lemma cp_inj [simp]: "cp c = cp d \<longleftrightarrow> c = d"
  unfolding cp_def by (rule of_char_eq_iff)

lemma cp_char_of [simp]: "n < 256 \<Longrightarrow> cp (char_of n) = n"
  by (simp add: cp_def)

lemma char_of_cp [simp]: "char_of (cp c) = c"
  by (simp add: cp_def)

definition is_digit :: "char \<Rightarrow> bool" where
  "is_digit c \<longleftrightarrow> 48 \<le> cp c \<and> cp c \<le> 57"

definition py_space :: "char \<Rightarrow> bool" where
  "py_space c \<longleftrightarrow> (let n = cp c in (9 \<le> n \<and> n \<le> 13) \<or> (28 \<le> n \<and> n \<le> 32) \<or> n = 133 \<or> n = 160)"

definition strip :: "string \<Rightarrow> string" where
  "strip s = rev (dropWhile py_space (rev (dropWhile py_space s)))"

definition lower_char :: "char \<Rightarrow> char" where
  "lower_char c = (let n = cp c in
     if (65 \<le> n \<and> n \<le> 90) \<or> (192 \<le> n \<and> n \<le> 222 \<and> n \<noteq> 215) then char_of (n + 32) else c)"

definition lower :: "string \<Rightarrow> string" where
  "lower s = map lower_char s"

lemma length_lower [simp]: "length (lower s) = length s"
  by (simp add: lower_def)

lemma lower_char_idem [simp]: "lower_char (lower_char c) = lower_char c"
proof -
  have "cp c < 256" by simp
  then show ?thesis by (auto simp: lower_char_def Let_def)
qed

lemma lower_idem [simp]: "lower (lower s) = lower s"
  by (simp add: lower_def)

definition startswith :: "string \<Rightarrow> string \<Rightarrow> bool" where
  "startswith s p \<longleftrightarrow> take (length p) s = p"

definition endswith :: "string \<Rightarrow> string \<Rightarrow> bool" where
  "endswith s p \<longleftrightarrow> startswith (rev s) (rev p)"

fun join :: "string \<Rightarrow> string list \<Rightarrow> string" where
  "join sep [] = []"
| "join sep [s] = s"
| "join sep (s # t # ss) = s @ sep @ join sep (t # ss)"

text \<open>\<open>s.split(":", 1)\<close> on a string that contains the separator: the text before it and after it.\<close>

fun split1 :: "char \<Rightarrow> string \<Rightarrow> (string \<times> string) option" where
  "split1 d [] = None"
| "split1 d (c # s) = (if c = d then Some ([], s)
     else map_option (\<lambda>(a, b). (c # a, b)) (split1 d s))"

lemma split1_None: "split1 d s = None \<longleftrightarrow> d \<notin> set s"
  by (induction s) auto

lemma split1_append: "d \<notin> set a \<Longrightarrow> split1 d (a @ d # b) = Some (a, b)"
  by (induction a) auto

subsection \<open>Decimal text\<close>

definition digit :: "nat \<Rightarrow> char" where
  "digit n = char_of (48 + n)"

lemma cp_digit [simp]: "n < 10 \<Longrightarrow> cp (digit n) = 48 + n"
  by (simp add: digit_def)

fun show_nat :: "nat \<Rightarrow> string" where
  "show_nat n = (if n < 10 then [digit n] else show_nat (n div 10) @ [digit (n mod 10)])"

declare show_nat.simps [simp del]

definition show_int :: "int \<Rightarrow> string" where
  "show_int i = (if i < 0 then CHR ''-'' # show_nat (nat (- i)) else show_nat (nat i))"

fun read_nat :: "nat \<Rightarrow> string \<Rightarrow> nat" where
  "read_nat a [] = a"
| "read_nat a (c # cs) = read_nat (10 * a + (cp c - 48)) cs"

lemma read_nat_append: "read_nat a (s @ t) = read_nat (read_nat a s) t"
  by (induction s arbitrary: a) auto

lemma show_nat_digits: "c \<in> set (show_nat n) \<Longrightarrow> is_digit c"
proof (induction n rule: show_nat.induct)
  case (1 n)
  have m: "n mod 10 < 10" by simp
  show ?case
  proof (cases "n < 10")
    case True
    with 1 show ?thesis by (auto simp: show_nat.simps [of n] is_digit_def)
  next
    case False
    have "n mod 10 \<le> 9" using m by linarith
    with 1 False show ?thesis
      by (auto simp: show_nat.simps [of n] is_digit_def)
  qed
qed

lemma show_nat_not_Nil [simp]: "show_nat n \<noteq> []"
  by (simp add: show_nat.simps [of n])

lemma read_show_nat [simp]: "read_nat 0 (show_nat n) = n"
proof (induction n rule: show_nat.induct)
  case (1 n)
  show ?case
  proof (cases "n < 10")
    case True
    then show ?thesis by (simp add: show_nat.simps [of n])
  next
    case False
    with 1 show ?thesis by (simp add: show_nat.simps [of n] read_nat_append)
  qed
qed

lemma show_nat_inj [simp]: "show_nat m = show_nat n \<longleftrightarrow> m = n"
  by (metis read_show_nat)

subsection \<open>UTF-8\<close>

definition utf8_char :: "char \<Rightarrow> bytes" where
  "utf8_char c = (let n = cp c in
     if n < 128 then [word_of_nat n] else [word_of_nat (192 + n div 64), word_of_nat (128 + n mod 64)])"

definition utf8 :: "string \<Rightarrow> bytes" where
  "utf8 s = concat (map utf8_char s)"

lemma unat_byte [simp]: "n < 256 \<Longrightarrow> unat (word_of_nat n :: byte) = n"
  by (simp add: unat_of_nat)

lemma byte_eq_iff: "m < 256 \<Longrightarrow> n < 256 \<Longrightarrow> (word_of_nat m :: byte) = word_of_nat n \<longleftrightarrow> m = n"
  by (metis unat_byte)

lemma utf8_Nil [simp]: "utf8 [] = []"
  by (simp add: utf8_def)

lemma utf8_Cons: "utf8 (c # s) = utf8_char c @ utf8 s"
  by (simp add: utf8_def)

lemma utf8_append [simp]: "utf8 (s @ t) = utf8 s @ utf8 t"
  by (simp add: utf8_def)

lemma utf8_char_not_Nil [simp]: "utf8_char c \<noteq> []"
  by (simp add: utf8_char_def Let_def)

lemma utf8_lead_bounds: "192 + cp c div 64 < 256" "128 + cp c mod 64 < 256"
  using cp_less [of c] by linarith+

lemma utf8_char_prefix:
  assumes "utf8_char c @ r = utf8_char d @ s"
  shows "c = d \<and> r = s"
proof -
  note b = cp_less [of c] cp_less [of d] utf8_lead_bounds [of c] utf8_lead_bounds [of d]
  have small: "cp c < 128 \<longleftrightarrow> cp d < 128"
    using assms b by (auto simp: utf8_char_def Let_def byte_eq_iff simp del: of_nat_add split: if_splits)
  show ?thesis
  proof (cases "cp c < 128")
    case True
    with small assms b show ?thesis by (simp add: utf8_char_def Let_def byte_eq_iff del: of_nat_add)
  next
    case False
    with small assms b have "cp c div 64 = cp d div 64" "cp c mod 64 = cp d mod 64" "r = s"
      by (simp_all add: utf8_char_def Let_def byte_eq_iff del: of_nat_add)
    moreover from this have "cp c = cp d" by (metis div_mult_mod_eq)
    ultimately show ?thesis by simp
  qed
qed

lemma utf8_inj [simp]: "utf8 s = utf8 t \<longleftrightarrow> s = t"
proof
  assume "utf8 s = utf8 t"
  then show "s = t"
  proof (induction s arbitrary: t)
    case Nil
    then show ?case by (cases t) (auto simp: utf8_Cons)
  next
    case (Cons c s)
    then obtain d u where t: "t = d # u" by (cases t) (auto simp: utf8_Cons)
    with Cons.prems have "utf8_char c @ utf8 s = utf8_char d @ utf8 u"
      by (simp add: utf8_Cons)
    from utf8_char_prefix [OF this] Cons.IH t show ?case by simp
  qed
qed simp

subsection \<open>Hexadecimal text\<close>

definition hexdigit :: "nat \<Rightarrow> char" where
  "hexdigit n = (if n < 10 then char_of (48 + n) else char_of (87 + n))"

definition hexval :: "char \<Rightarrow> nat option" where
  "hexval c = (let n = cp c in
     if 48 \<le> n \<and> n \<le> 57 then Some (n - 48)
     else if 97 \<le> n \<and> n \<le> 102 then Some (n - 87)
     else if 65 \<le> n \<and> n \<le> 70 then Some (n - 55) else None)"

definition ascii_space :: "char \<Rightarrow> bool" where
  "ascii_space c \<longleftrightarrow> (9 \<le> cp c \<and> cp c \<le> 13) \<or> cp c = 32"

definition hex :: "bytes \<Rightarrow> string" where
  "hex bs = concat (map (\<lambda>b. [hexdigit (unat b div 16), hexdigit (unat b mod 16)]) bs)"

fun fromhex :: "string \<Rightarrow> bytes option" where
  "fromhex [] = Some []"
| "fromhex (c # cs) =
     (if ascii_space c then fromhex cs
      else case cs of [] \<Rightarrow> None
        | d # ds \<Rightarrow> (case (hexval c, hexval d) of
            (Some h, Some l) \<Rightarrow> map_option (\<lambda>bs. word_of_nat (16 * h + l) # bs) (fromhex ds)
          | _ \<Rightarrow> None))"

definition lower_hex_char :: "char \<Rightarrow> bool" where
  "lower_hex_char c \<longleftrightarrow> (48 \<le> cp c \<and> cp c \<le> 57) \<or> (97 \<le> cp c \<and> cp c \<le> 102)"

definition lower_hex :: "nat \<Rightarrow> string \<Rightarrow> bool" where
  "lower_hex n s \<longleftrightarrow> length s = n \<and> list_all lower_hex_char s"

lemma cp_hexdigit: "n < 16 \<Longrightarrow> cp (hexdigit n) = (if n < 10 then 48 + n else 87 + n)"
  by (simp add: hexdigit_def)

lemma hexval_hexdigit [simp]: "n < 16 \<Longrightarrow> hexval (hexdigit n) = Some n"
  by (auto simp: hexval_def cp_hexdigit Let_def)

lemma hexdigit_not_space [simp]: "n < 16 \<Longrightarrow> \<not> ascii_space (hexdigit n)"
  by (auto simp: ascii_space_def cp_hexdigit)

lemma lower_hex_char_hexdigit [simp]: "n < 16 \<Longrightarrow> lower_hex_char (hexdigit n)"
  by (auto simp: lower_hex_char_def cp_hexdigit)

lemma unat_div16 [simp]: "unat (b :: byte) div 16 < 16"
  using unsigned_less [of b, where ?'a = nat] by (simp add: less_mult_imp_div_less)

lemma byte_join [simp]: "word_of_nat (16 * (unat (b :: byte) div 16) + unat b mod 16) = b"
  by (simp flip: mult_div_mod_eq)

lemma hex_Nil [hex_simps, simp]: "hex [] = []"
  by (simp add: hex_def)

lemma hex_Cons [hex_simps]:
  "hex (b # bs) = hexdigit (unat b div 16) # hexdigit (unat b mod 16) # hex bs"
  by (simp add: hex_def)

lemma length_hex [simp, hex_simps]: "length (hex bs) = 2 * length bs"
  by (induction bs) (auto simp: hex_Cons)

lemma fromhex_hex [simp, hex_simps]: "fromhex (hex bs) = Some bs"
  by (induction bs) (auto simp: hex_Cons)

lemma hex_inj [simp]: "hex a = hex b \<longleftrightarrow> a = b"
  by (metis fromhex_hex option.inject)

lemma lower_hex_hex [simp, hex_simps]: "length bs = n \<Longrightarrow> lower_hex (2 * n) (hex bs)"
  by (simp add: lower_hex_def list_all_iff) (auto simp: hex_def)

lemma lower_hex_hex64 [simp, hex_simps]: "length bs = 32 \<Longrightarrow> lower_hex 64 (hex bs)"
  using lower_hex_hex [of bs 32] by simp

text \<open>
  \<open>int(s, 16)\<close>: outer white space (those code points that \<open>int\<close> skips), a sign, a \<open>0x\<close> prefix,
  then hexadecimal digits with single underscores between them.
\<close>

definition int_space :: "char \<Rightarrow> bool" where
  "int_space c \<longleftrightarrow> ascii_space c \<or> cp c = 133 \<or> cp c = 160"

fun hexrun :: "string \<Rightarrow> bool" where
  "hexrun [] = False"
| "hexrun [c] = (hexval c \<noteq> None)"
| "hexrun (c # d # r) = (hexval c \<noteq> None \<and> (if d = CHR ''_'' then hexrun r else hexrun (d # r)))"

definition drop_sign :: "string \<Rightarrow> string" where
  "drop_sign s = (case s of c # r \<Rightarrow> if c = CHR ''+'' \<or> c = CHR ''-'' then r else s | [] \<Rightarrow> [])"

definition drop_0x :: "string \<Rightarrow> string" where
  "drop_0x s = (case s of
       c # d # r \<Rightarrow> if c = CHR ''0'' \<and> (d = CHR ''x'' \<or> d = CHR ''X'')
         then (case r of e # r' \<Rightarrow> if e = CHR ''_'' then r' else r | [] \<Rightarrow> []) else s
     | _ \<Rightarrow> s)"

definition int16_ok :: "string \<Rightarrow> bool" where
  "int16_ok s = hexrun (drop_0x (drop_sign
     (rev (dropWhile int_space (rev (dropWhile int_space s))))))"

lemma lower_hex_char_val: "lower_hex_char c \<Longrightarrow> hexval c \<noteq> None"
  by (auto simp: lower_hex_char_def hexval_def Let_def)

lemma cp_punct [simp]:
  "cp CHR ''_'' = 95" "cp CHR ''x'' = 120" "cp CHR ''X'' = 88" "cp CHR ''+'' = 43" "cp CHR ''-'' = 45"
  by (simp_all add: cp_def)

lemma lower_hex_char_not:
  "lower_hex_char c \<Longrightarrow> c \<noteq> CHR ''_'' \<and> c \<noteq> CHR ''x'' \<and> c \<noteq> CHR ''X'' \<and> c \<noteq> CHR ''+'' \<and> c \<noteq> CHR ''-''
     \<and> \<not> int_space c"
  by (auto simp: lower_hex_char_def int_space_def ascii_space_def)

lemma hexrun_lower_hex: "s \<noteq> [] \<Longrightarrow> list_all lower_hex_char s \<Longrightarrow> hexrun s"
proof (induction s rule: hexrun.induct)
  case (3 c d r)
  have "d \<noteq> CHR ''_''" using "3.prems" lower_hex_char_not [of d] by simp
  with 3 show ?case by (auto dest: lower_hex_char_val)
qed (auto dest: lower_hex_char_val)

lemma dropWhile_none: "\<not> P (hd s) \<Longrightarrow> dropWhile P s = s"
  by (cases s) auto

lemma dropWhile_lower_hex: "list_all lower_hex_char s \<Longrightarrow> dropWhile int_space s = s"
  by (cases s) (auto dest: lower_hex_char_not)

lemma drop_sign_lower_hex: "list_all lower_hex_char s \<Longrightarrow> drop_sign s = s"
  by (auto simp: drop_sign_def split: list.splits dest: lower_hex_char_not)

lemma drop_0x_lower_hex: "list_all lower_hex_char s \<Longrightarrow> drop_0x s = s"
  by (auto simp: drop_0x_def split: list.splits dest: lower_hex_char_not)

lemma int16_ok_lower_hex [hex_simps]: "lower_hex n s \<Longrightarrow> 0 < n \<Longrightarrow> int16_ok s"
  by (auto simp: int16_ok_def lower_hex_def dropWhile_lower_hex drop_sign_lower_hex
      drop_0x_lower_hex intro!: hexrun_lower_hex)

lemma lower_hex_lower [simp]: "lower_hex n s \<Longrightarrow> lower s = s"
  unfolding lower_hex_def lower_def list_all_iff
  by (intro map_idI) (auto simp: lower_hex_char_def lower_char_def Let_def)

subsection \<open>Dictionaries with string keys and SQL tables\<close>

definition db_last :: "('r \<Rightarrow> bool) \<Rightarrow> 'r list \<Rightarrow> 'r option" where
  "db_last P rows = find P (rev rows)"

definition db_first :: "('r \<Rightarrow> bool) \<Rightarrow> 'r list \<Rightarrow> 'r option" where
  "db_first P rows = find P rows"

lemma db_last_filter: "db_last P rows = (if filter P rows = [] then None else Some (last (filter P rows)))"
  by (induction rows rule: rev_induct) (auto simp: db_last_def)

lemma db_last_snoc [simp]: "db_last P (rows @ [r]) = (if P r then Some r else db_last P rows)"
  by (simp add: db_last_def)

lemma db_last_Nil [simp]: "db_last P [] = None"
  by (simp add: db_last_def)

lemma db_last_SomeD: "db_last P rows = Some r \<Longrightarrow> r \<in> set rows \<and> P r"
  by (induction rows rule: rev_induct) (auto split: if_splits)

lemma db_last_None: "db_last P rows = None \<longleftrightarrow> (\<forall>r\<in>set rows. \<not> P r)"
  by (auto simp: db_last_def find_None_iff)

lemma db_first_SomeD: "db_first P rows = Some r \<Longrightarrow> r \<in> set rows \<and> P r"
  by (auto simp: db_first_def find_Some_iff)

lemma db_first_None: "db_first P rows = None \<longleftrightarrow> (\<forall>r\<in>set rows. \<not> P r)"
  by (auto simp: db_first_def find_None_iff)

lemma db_first_append [simp]:
  "db_first P (a @ b) = (case db_first P a of None \<Rightarrow> db_first P b | Some r \<Rightarrow> Some r)"
  by (induction a) (auto simp: db_first_def)

end
