(* ===== verification/PyValue.thy ===== *)
theory PyValue
  imports Prelude
begin

text \<open>
  The Python values that reach the canonical encoder, the schema and the stores: the JSON types
  plus the types the encoder must reject.  A \<open>dict\<close> is the list of its items in insertion order;
  its keys are strings, integers or objects of another type (type name and \<open>repr\<close>).  A \<open>float\<close>
  carries its \<open>repr\<close>; the other foreign objects carry their class only, which is all the code
  looks at.
\<close>

datatype pykey = KStr string | KInt int | KOther string string

datatype pyclass = CDecimal | CDatetime | CDate | CUUID | CEnum string | CBytes | CSet | CObject string

datatype pyval =
    PyNone
  | PyBool bool
  | PyInt int
  | PyFloat string
  | PyStr string
  | PyList "pyval list"
  | PyTuple "pyval list"
  | PyDict "(pykey \<times> pyval) list"
  | PyOther pyclass

type_synonym pydict = "(pykey \<times> pyval) list"

fun class_name :: "pyclass \<Rightarrow> string" where
  "class_name CDecimal = ''Decimal''"
| "class_name CDatetime = ''datetime''"
| "class_name CDate = ''date''"
| "class_name CUUID = ''UUID''"
| "class_name (CEnum n) = n"
| "class_name CBytes = ''bytes''"
| "class_name CSet = ''set''"
| "class_name (CObject n) = n"

fun type_name :: "pyval \<Rightarrow> string" where
  "type_name PyNone = ''NoneType''"
| "type_name (PyBool _) = ''bool''"
| "type_name (PyInt _) = ''int''"
| "type_name (PyFloat _) = ''float''"
| "type_name (PyStr _) = ''str''"
| "type_name (PyList _) = ''list''"
| "type_name (PyTuple _) = ''tuple''"
| "type_name (PyDict _) = ''dict''"
| "type_name (PyOther c) = class_name c"

fun key_type_name :: "pykey \<Rightarrow> string" where
  "key_type_name (KStr _) = ''str''"
| "key_type_name (KInt _) = ''int''"
| "key_type_name (KOther t _) = t"

text \<open>\<open>bool(v)\<close> on the values JSON can hold.\<close>

fun truthy :: "pyval \<Rightarrow> bool" where
  "truthy PyNone = False"
| "truthy (PyBool b) = b"
| "truthy (PyInt i) = (i \<noteq> 0)"
| "truthy (PyFloat r) = (r \<noteq> ''0.0'' \<and> r \<noteq> ''-0.0'')"
| "truthy (PyStr s) = (s \<noteq> [])"
| "truthy (PyList vs) = (vs \<noteq> [])"
| "truthy (PyTuple vs) = (vs \<noteq> [])"
| "truthy (PyDict kvs) = (kvs \<noteq> [])"
| "truthy (PyOther _) = True"

text \<open>\<open>d.get(k)\<close> and \<open>d.get(k, default)\<close>.\<close>

definition dget :: "pydict \<Rightarrow> string \<Rightarrow> pyval option" where
  "dget d k = map_of d (KStr k)"

definition dget_or :: "pydict \<Rightarrow> string \<Rightarrow> pyval \<Rightarrow> pyval" where
  "dget_or d k v = (case dget d k of None \<Rightarrow> v | Some w \<Rightarrow> w)"

lemma dget_Nil [simp]: "dget [] k = None"
  by (simp add: dget_def)

lemma dget_Cons [simp]: "dget ((KStr k', v) # d) k = (if k' = k then Some v else dget d k)"
  by (simp add: dget_def)

text \<open>\<open>d[k] = v\<close>: an existing key keeps its place.\<close>

fun dset :: "pydict \<Rightarrow> pykey \<Rightarrow> pyval \<Rightarrow> pydict" where
  "dset [] k v = [(k, v)]"
| "dset ((k', v') # d) k v = (if k' = k then (k, v) # d else (k', v') # dset d k v)"

lemma map_of_dset: "map_of (dset d k v) = (map_of d)(k \<mapsto> v)"
  by (induction d) auto

lemma keys_dset: "k \<notin> fst ` set d \<Longrightarrow> dset d k v = d @ [(k, v)]"
  by (induction d) auto

lemma distinct_dset: "distinct (map fst d) \<Longrightarrow> distinct (map fst (dset d k v))"
proof (induction d)
  case (Cons p d)
  obtain k' v' where p: "p = (k', v')" by (cases p)
  have "fst ` set (dset d k v) = insert k (fst ` set d)"
    using arg_cong [OF map_of_dset [of d k v], of dom] by (simp add: dom_map_of_conv_image_fst)
  with Cons p show ?case by auto
qed simp

text \<open>A well-formed \<open>dict\<close> has every key once, at every level.\<close>

fun wf_val :: "pyval \<Rightarrow> bool" where
  "wf_val (PyList vs) = list_all wf_val vs"
| "wf_val (PyTuple vs) = list_all wf_val vs"
| "wf_val (PyDict kvs) = (distinct (map fst kvs) \<and> list_all (\<lambda>p. wf_val (snd p)) kvs)"
| "wf_val _ = True"

end
