(* ===== verification/Json.thy ===== *)
theory Json
  imports PyValue
begin

text \<open>
  The part of Python's \<open>json\<close> module the program uses: \<open>json_dumps a v\<close> is
  \<open>json.dumps(v, sort_keys=True, separators=(",", ":"), ensure_ascii=a)\<close>, with \<open>None\<close> for the
  \<open>TypeError\<close> it raises, and \<open>json_loads\<close> reads such compact text back.  The main facts are
  \<open>json_loads_dumps\<close> (the round trip returns the value with its keys sorted) and
  \<open>json_dumps_inj\<close> (two values with the same text are equal up to the order of their keys).
  A \<open>PyFloat\<close> carries the text that \<open>dumps\<close> writes for it.
\<close>

subsection \<open>Writing\<close>

definition hex4 :: "nat \<Rightarrow> string" where
  "hex4 n = ''00'' @ [hexdigit (n div 16), hexdigit (n mod 16)]"

definition esc :: "bool \<Rightarrow> char \<Rightarrow> string" where
  "esc a c = (let n = cp c in
     if n = 34 then [CHR 0x5C, CHR 0x22] else if n = 92 then [CHR 0x5C, CHR 0x5C]
     else if n = 10 then [CHR 0x5C, CHR ''n''] else if n = 13 then [CHR 0x5C, CHR ''r'']
     else if n = 9 then [CHR 0x5C, CHR ''t''] else if n = 12 then [CHR 0x5C, CHR ''f'']
     else if n = 8 then [CHR 0x5C, CHR ''b'']
     else if n < 32 \<or> (a \<and> 127 \<le> n) then CHR 0x5C # CHR ''u'' # hex4 n
     else [c])"

definition json_str :: "bool \<Rightarrow> string \<Rightarrow> string" where
  "json_str a s = CHR 0x22 # concat (map (esc a) s) @ [CHR 0x22]"

fun key_str :: "pykey \<Rightarrow> string" where
  "key_str (KStr s) = s"
| "key_str _ = []"

fun key_int :: "pykey \<Rightarrow> int" where
  "key_int (KInt i) = i"
| "key_int _ = 0"

fun is_KStr :: "pykey \<Rightarrow> bool" where
  "is_KStr (KStr _) = True"
| "is_KStr _ = False"

fun is_KInt :: "pykey \<Rightarrow> bool" where
  "is_KInt (KInt _) = True"
| "is_KInt _ = False"

text \<open>
  \<open>sorted(dct.items())\<close> and the conversion of the keys: keys of one type, strings or integers,
  are sorted; a mixture, or a key of another type, raises \<open>TypeError\<close>.
\<close>

definition sort_items :: "(pykey \<times> 'b) list \<Rightarrow> (string \<times> 'b) list option" where
  "sort_items kvs =
     (if list_all (\<lambda>p. is_KStr (fst p)) kvs
      then Some (map (\<lambda>(k, b). (key_str k, b)) (sort_key (\<lambda>p. key_str (fst p)) kvs))
      else if list_all (\<lambda>p. is_KInt (fst p)) kvs
      then Some (map (\<lambda>(k, b). (show_int (key_int k), b)) (sort_key (\<lambda>p. key_int (fst p)) kvs))
      else None)"

definition wrap_list :: "string list \<Rightarrow> string" where
  "wrap_list ss = CHR ''['' # join '','' ss @ '']''"

definition wrap_dict :: "bool \<Rightarrow> (string \<times> string) list \<Rightarrow> string" where
  "wrap_dict a kss = CHR ''{'' # join '','' (map (\<lambda>(k, s). json_str a k @ '':'' @ s) kss) @ ''}''"

fun json_dumps :: "bool \<Rightarrow> pyval \<Rightarrow> string option" where
  "json_dumps a PyNone = Some ''null''"
| "json_dumps a (PyBool b) = Some (if b then ''true'' else ''false'')"
| "json_dumps a (PyInt i) = Some (show_int i)"
| "json_dumps a (PyFloat r) = Some r"
| "json_dumps a (PyStr s) = Some (json_str a s)"
| "json_dumps a (PyList vs) = map_option wrap_list (those (map (json_dumps a) vs))"
| "json_dumps a (PyTuple vs) = map_option wrap_list (those (map (json_dumps a) vs))"
| "json_dumps a (PyDict kvs) =
     (case those (map (\<lambda>p. map_option (\<lambda>s. (fst p, s)) (json_dumps a (snd p))) kvs) of
        None \<Rightarrow> None
      | Some items \<Rightarrow> map_option (wrap_dict a) (sort_items items))"
| "json_dumps a (PyOther _) = None"

subsection \<open>Reading\<close>

definition unesc :: "char \<Rightarrow> char option" where
  "unesc e = (let n = cp e in
     if n = 34 then Some (CHR 0x22) else if n = 92 then Some (CHR 0x5C)
     else if n = 110 then Some (char_of (10::nat)) else if n = 114 then Some (char_of (13::nat))
     else if n = 116 then Some (char_of (9::nat)) else if n = 102 then Some (char_of (12::nat))
     else if n = 98 then Some (char_of (8::nat)) else if n = 47 then Some e else None)"

definition add_char :: "char \<Rightarrow> (string \<times> string) option \<Rightarrow> (string \<times> string) option" where
  "add_char c = map_option (\<lambda>(s, t). (c # s, t))"

fun pstr :: "string \<Rightarrow> (string \<times> string) option" where
  "pstr [] = None"
| "pstr (c # r) =
     (if cp c = 34 then Some ([], r)
      else if cp c < 32 then None
      else if cp c = 92 then
        (case r of
           [] \<Rightarrow> None
         | e # r' \<Rightarrow>
             if cp e = 117 then
               (case r' of
                  h1 # h2 # h3 # h4 # r'' \<Rightarrow>
                    (case (hexval h1, hexval h2, hexval h3, hexval h4) of
                       (Some 0, Some 0, Some x, Some y) \<Rightarrow> add_char (char_of (16 * x + y)) (pstr r'')
                     | _ \<Rightarrow> None)
                | _ \<Rightarrow> None)
             else (case unesc e of None \<Rightarrow> None | Some u \<Rightarrow> add_char u (pstr r')))
      else add_char c (pstr r))"

definition num_char :: "char \<Rightarrow> bool" where
  "num_char c \<longleftrightarrow> is_digit c \<or> c \<in> {CHR ''.'', CHR ''e'', CHR ''E'', CHR ''+'', CHR ''-''}"

definition pnum :: "string \<Rightarrow> (pyval \<times> string) option" where
  "pnum s =
     (let neg = (case s of c # _ \<Rightarrow> c = CHR ''-'' | [] \<Rightarrow> False);
          t = (if neg then tl s else s);
          ds = takeWhile is_digit t; r = dropWhile is_digit t
      in if ds = [] then None
         else if r \<noteq> [] \<and> hd r \<in> {CHR ''.'', CHR ''e'', CHR ''E''}
         then Some (PyFloat (takeWhile num_char s), dropWhile num_char s)
         else Some (PyInt (if neg then - int (read_nat 0 ds) else int (read_nat 0 ds)), r))"

definition dict_of :: "(pykey \<times> pyval) list \<Rightarrow> pydict" where
  "dict_of ms = fold (\<lambda>(k, v) d. dset d k v) ms []"

fun pval :: "nat \<Rightarrow> string \<Rightarrow> (pyval \<times> string) option"
  and pelems :: "nat \<Rightarrow> string \<Rightarrow> (pyval list \<times> string) option"
  and pmembers :: "nat \<Rightarrow> string \<Rightarrow> ((pykey \<times> pyval) list \<times> string) option" where
  "pval 0 s = None"
| "pval (Suc n) s =
     (case s of
        [] \<Rightarrow> None
      | c # r \<Rightarrow>
          if c = CHR ''{'' then
            (case r of
               [] \<Rightarrow> None
             | d # r' \<Rightarrow> if d = CHR ''}'' then Some (PyDict [], r')
                 else map_option (\<lambda>(ms, t). (PyDict (dict_of ms), t)) (pmembers n r))
          else if c = CHR ''['' then
            (case r of
               [] \<Rightarrow> None
             | d # r' \<Rightarrow> if d = CHR '']'' then Some (PyList [], r')
                 else map_option (\<lambda>(vs, t). (PyList vs, t)) (pelems n r))
          else if c = CHR 0x22 then map_option (\<lambda>(x, t). (PyStr x, t)) (pstr r)
          else if startswith s ''null'' then Some (PyNone, drop 4 s)
          else if startswith s ''true'' then Some (PyBool True, drop 4 s)
          else if startswith s ''false'' then Some (PyBool False, drop 5 s)
          else pnum s)"
| "pelems 0 s = None"
| "pelems (Suc n) s =
     (case pval n s of
        Some (v, c # t) \<Rightarrow>
          if c = CHR '','' then map_option (\<lambda>(vs, u). (v # vs, u)) (pelems n t)
          else if c = CHR '']'' then Some ([v], t) else None
      | _ \<Rightarrow> None)"
| "pmembers 0 s = None"
| "pmembers (Suc n) s =
     (case s of
        [] \<Rightarrow> None
      | q # r \<Rightarrow> if q \<noteq> CHR 0x22 then None else
          (case pstr r of
             Some (k, c # t) \<Rightarrow> if c \<noteq> CHR '':'' then None else
               (case pval n t of
                  Some (v, d # u) \<Rightarrow>
                    if d = CHR '','' then map_option (\<lambda>(ms, w). ((KStr k, v) # ms, w)) (pmembers n u)
                    else if d = CHR ''}'' then Some ([(KStr k, v)], u) else None
                | _ \<Rightarrow> None)
           | _ \<Rightarrow> None))"

text \<open>Fuel: two units per character are enough (\<open>jfuel_bound\<close>, \<open>json_loads_dumps\<close>).\<close>

definition json_loads :: "string \<Rightarrow> pyval option" where
  "json_loads s = (case pval (2 * length s) s of Some (v, []) \<Rightarrow> Some v | _ \<Rightarrow> None)"

subsection \<open>Plain values: the JSON types that \<open>loads\<close> gives back\<close>

fun plain :: "pyval \<Rightarrow> bool" where
  "plain PyNone = True"
| "plain (PyBool _) = True"
| "plain (PyInt _) = True"
| "plain (PyStr _) = True"
| "plain (PyList vs) = list_all plain vs"
| "plain (PyDict kvs) = list_all (\<lambda>p. is_KStr (fst p) \<and> plain (snd p)) kvs"
| "plain _ = False"

text \<open>The value with the items of every \<open>dict\<close> sorted by key.\<close>

fun norm :: "pyval \<Rightarrow> pyval" where
  "norm (PyList vs) = PyList (map norm vs)"
| "norm (PyTuple vs) = PyTuple (map norm vs)"
| "norm (PyDict kvs) =
     PyDict (sort_key (\<lambda>p. key_str (fst p)) (map (\<lambda>p. (fst p, norm (snd p))) kvs))"
| "norm v = v"

text \<open>The text of a plain value, its items taken in the order they have.\<close>

fun emit :: "bool \<Rightarrow> pyval \<Rightarrow> string" where
  "emit a PyNone = ''null''"
| "emit a (PyBool b) = (if b then ''true'' else ''false'')"
| "emit a (PyInt i) = show_int i"
| "emit a (PyStr s) = json_str a s"
| "emit a (PyList vs) = wrap_list (map (emit a) vs)"
| "emit a (PyDict kvs) = wrap_dict a (map (\<lambda>p. (key_str (fst p), emit a (snd p))) kvs)"
| "emit a _ = []"

lemma those_map_Some: "(\<And>x. x \<in> set xs \<Longrightarrow> f x = Some (g x)) \<Longrightarrow> those (map f xs) = Some (map g xs)"
  by (induction xs) auto

lemma insort_key_map: "insort_key f (h x) (map h xs) = map h (insort_key (\<lambda>y. f (h y)) x xs)"
  by (induction xs) auto

lemma sort_key_map: "sort_key f (map h xs) = map h (sort_key (\<lambda>y. f (h y)) xs)"
  by (induction xs) (auto simp: insort_key_map)

lemma list_all_sort_key [simp]: "list_all P (sort_key f xs) = list_all P xs"
  by (simp add: list_all_iff)

lemma plain_norm [simp]: "plain (norm v) = plain v"
proof (induction v)
  case (PyDict kvs)
  then show ?case by (auto simp: list_all_iff)
qed (auto simp: list_all_iff)

lemma wf_norm [simp]: "wf_val (norm v) = wf_val v"
proof (induction v)
  case (PyDict kvs)
  have "distinct (map fst (sort_key f kvs')) = distinct (map fst kvs')"
    for f :: "pykey \<times> pyval \<Rightarrow> string" and kvs'
    by (metis mset_sort mset_map mset_eq_imp_distinct_iff)
  with PyDict show ?case by (auto simp: list_all_iff comp_def)
qed (auto simp: list_all_iff)

lemma json_dumps_plain: "plain v \<Longrightarrow> json_dumps a v = Some (emit a (norm v))"
proof (induction v)
  case (PyList vs)
  then have "those (map (json_dumps a) vs) = Some (map (\<lambda>v. emit a (norm v)) vs)"
    by (intro those_map_Some) (auto simp: list_all_iff)
  then show ?case by (simp add: comp_def)
next
  case (PyDict kvs)
  let ?g = "\<lambda>p. (fst p, emit a (norm (snd p)))"
  have "those (map (\<lambda>p. map_option (\<lambda>s. (fst p, s)) (json_dumps a (snd p))) kvs) = Some (map ?g kvs)"
  proof (rule those_map_Some)
    fix p assume p: "p \<in> set kvs"
    with PyDict.prems have "plain (snd p)" by (auto simp: list_all_iff)
    moreover have "snd p \<in> Basic_BNFs.snds p" by (cases p) simp
    ultimately show "map_option (\<lambda>s. (fst p, s)) (json_dumps a (snd p)) = Some (?g p)"
      using PyDict.IH p by simp
  qed
  moreover have "sort_items (map ?g kvs) =
      Some (map (\<lambda>p. (key_str (fst p), emit a (norm (snd p)))) (sort_key (\<lambda>p. key_str (fst p)) kvs))"
    using PyDict.prems by (auto simp: sort_items_def list_all_iff sort_key_map)
  ultimately show ?case by (simp add: sort_key_map comp_def)
qed auto

subsection \<open>Reading back what was written\<close>

lemma hex4_val:
  assumes "n < 256"
  shows "hexval (hexdigit (n div 16)) = Some (n div 16)" "hexval (hexdigit (n mod 16)) = Some (n mod 16)"
  using assms by (simp_all add: less_mult_imp_div_less)

lemma hexval_0 [simp]: "hexval (CHR ''0'') = Some 0"
  by (simp add: hexval_def cp_def)

lemma cp_lits [simp]:
  "cp (CHR 0x5C) = 92" "cp (CHR 0x22) = 34" "cp (CHR ''u'') = 117" "cp (CHR ''n'') = 110"
  "cp (CHR ''r'') = 114" "cp (CHR ''t'') = 116" "cp (CHR ''f'') = 102" "cp (CHR ''b'') = 98"
  by (simp_all add: cp_def)

lemma char_of_cp_eq: "cp c = n \<Longrightarrow> char_of n = c"
  by auto

lemma pstr_u:
  assumes "cp c = n"
  shows "pstr (CHR 0x5C # CHR ''u'' # hex4 n @ r) = add_char c (pstr r)"
proof -
  have n: "n < 256" using assms cp_less [of c] by simp
  have e: "char_of n = c" using assms by auto
  show ?thesis by (simp add: hex4_def hex4_val [OF n] e)
qed

lemma cp_quote_bslash: "cp c = 34 \<longleftrightarrow> c = CHR 0x22" "cp c = 92 \<longleftrightarrow> c = CHR 0x5C"
  using cp_inj [of c "CHR 0x22"] cp_inj [of c "CHR 0x5C"] by simp_all

lemma pstr_esc: "pstr (esc a c @ r) = add_char c (pstr r)"
  by (simp add: esc_def Let_def pstr_u unesc_def char_of_cp_eq del: pstr.simps)
     (auto simp: unesc_def char_of_cp_eq cp_quote_bslash)

lemma pstr_json: "pstr (concat (map (esc a) s) @ CHR 0x22 # r) = Some (s, r)"
  by (induction s) (simp_all add: pstr_esc add_char_def del: pstr.simps(2), simp)

text \<open>What may follow a value.\<close>

definition delim :: "string \<Rightarrow> bool" where
  "delim r \<longleftrightarrow> (case r of [] \<Rightarrow> True | c # _ \<Rightarrow> c \<in> {CHR '','', CHR '']'', CHR ''}''})"

lemma delim_simps [simp]:
  "delim []" "delim (CHR '','' # r)" "delim (CHR '']'' # r)" "delim (CHR ''}'' # r)"
  by (simp_all add: delim_def)

lemma is_digit_lits [simp]:
  "\<not> is_digit (CHR '','')" "\<not> is_digit (CHR '']'')" "\<not> is_digit (CHR ''}'')" "\<not> is_digit (CHR ''-'')"
  "\<not> is_digit (CHR ''{'')" "\<not> is_digit (CHR ''['')" "\<not> is_digit (CHR 0x22)" "\<not> is_digit (CHR ''n'')"
  "\<not> is_digit (CHR ''t'')" "\<not> is_digit (CHR ''f'')"
  by (simp_all add: is_digit_def cp_def)

lemma takeWhile_digits: "delim r \<Longrightarrow> takeWhile is_digit (show_nat n @ r) = show_nat n"
  and dropWhile_digits: "delim r \<Longrightarrow> dropWhile is_digit (show_nat n @ r) = r"
  using show_nat_digits by (auto simp: delim_def split: list.splits
      intro: takeWhile_append2 dropWhile_append2)

lemma hd_show_nat: "is_digit (hd (show_nat n))"
  by (rule show_nat_digits [of _ n]) simp

lemma pnum_show_int:
  assumes "delim r"
  shows "pnum (show_int i @ r) = Some (PyInt i, r)"
proof -
  have nf: "\<not> (r \<noteq> [] \<and> hd r \<in> {CHR ''.'', CHR ''e'', CHR ''E''})"
    using assms by (auto simp: delim_def split: list.splits)
  show ?thesis
  proof (cases "i < 0")
    case True
    with assms nf show ?thesis
      by (simp add: pnum_def show_int_def takeWhile_digits dropWhile_digits Let_def)
  next
    case False
    obtain c t where ct: "show_nat (nat i) = c # t" by (cases "show_nat (nat i)") auto
    with hd_show_nat [of "nat i"] have "c \<noteq> CHR ''-''" by auto
    with False assms nf ct takeWhile_digits [OF assms, of "nat i"] dropWhile_digits [OF assms, of "nat i"]
      read_show_nat [of "nat i"]
    show ?thesis by (simp add: pnum_def show_int_def Let_def)
  qed
qed

lemma show_int_hd: "\<exists>c t. show_int i = c # t \<and> (is_digit c \<or> c = CHR ''-'')"
proof (cases "i < 0")
  case False
  then show ?thesis using hd_show_nat [of "nat i"]
    by (cases "show_nat (nat i)") (auto simp: show_int_def)
qed (simp add: show_int_def)

fun jfuel :: "pyval \<Rightarrow> nat" where
  "jfuel (PyList vs) = Suc (sum_list (map (\<lambda>v. Suc (jfuel v)) vs))"
| "jfuel (PyDict kvs) = Suc (sum_list (map (\<lambda>p. Suc (jfuel (snd p))) kvs))"
| "jfuel _ = 1"

lemma emit_not_bracket:
  assumes "plain v"
  shows "\<exists>c t. emit a v = c # t \<and> c \<noteq> CHR '']'' \<and> c \<noteq> CHR ''}'' \<and> c \<noteq> CHR '',''"
proof (cases v)
  case (PyInt i)
  then show ?thesis using show_int_hd [of i] by auto
qed (use assms in \<open>auto simp: json_str_def wrap_list_def wrap_dict_def\<close>)

definition reads :: "bool \<Rightarrow> pyval \<Rightarrow> bool" where
  "reads a v \<longleftrightarrow> (\<forall>n r. jfuel v \<le> n \<longrightarrow> delim r \<longrightarrow> pval n (emit a v @ r) = Some (v, r))"

lemma pelems_emit:
  assumes "vs \<noteq> []" "\<And>v. v \<in> set vs \<Longrightarrow> reads a v" "sum_list (map (\<lambda>v. Suc (jfuel v)) vs) \<le> n"
  shows "pelems n (join '','' (map (emit a) vs) @ CHR '']'' # r) = Some (vs, r)"
  using assms
proof (induction vs arbitrary: n)
  case (Cons v vs)
  then obtain m where n: "n = Suc m" by (cases n) auto
  have v: "pval m (emit a v @ CHR '','' # t) = Some (v, CHR '','' # t)"
    "pval m (emit a v @ CHR '']'' # t) = Some (v, CHR '']'' # t)" for t
    using Cons.prems n by (auto simp: reads_def)
  show ?case
  proof (cases vs)
    case Nil
    with n v(2) show ?thesis by simp
  next
    case (Cons w ws)
    with Cons.IH [of m] Cons.prems n v(1) show ?thesis by simp
  qed
qed simp

lemma pmembers_emit:
  assumes "kvs \<noteq> []" "\<And>p. p \<in> set kvs \<Longrightarrow> is_KStr (fst p) \<and> reads a (snd p)"
    "sum_list (map (\<lambda>p. Suc (jfuel (snd p))) kvs) \<le> n"
  shows "pmembers n (join '','' (map (\<lambda>(k, s). json_str a k @ '':'' @ s)
      (map (\<lambda>p. (key_str (fst p), emit a (snd p))) kvs)) @ CHR ''}'' # r) = Some (kvs, r)"
  using assms
proof (induction kvs arbitrary: n)
  case (Cons p kvs)
  then obtain m where n: "n = Suc m" by (cases n) auto
  obtain k v where p: "p = (KStr k, v)" using Cons.prems(2) [of p]
    by (cases p; cases "fst p") auto
  have v: "pval m (emit a v @ CHR '','' # t) = Some (v, CHR '','' # t)"
    "pval m (emit a v @ CHR ''}'' # t) = Some (v, CHR ''}'' # t)" for t
    using Cons.prems(2) [of p] Cons.prems(3) n p by (auto simp: reads_def)
  show ?case
  proof (cases kvs)
    case Nil
    with n p v(2) show ?thesis by (simp add: json_str_def pstr_json)
  next
    case (Cons q qs)
    with Cons.IH [of m] Cons.prems n p v(1) show ?thesis
      by (simp add: json_str_def pstr_json)
  qed
qed simp

lemma dict_of_snoc: "dict_of (ms @ [(k, v)]) = dset (dict_of ms) k v"
  by (simp add: dict_of_def)

lemma dict_of_distinct: "distinct (map fst ms) \<Longrightarrow> dict_of ms = ms"
  by (induction ms rule: rev_induct) (auto simp: dict_of_def dict_of_snoc [unfolded dict_of_def] keys_dset)

lemma reads_plain: "plain v \<Longrightarrow> wf_val v \<Longrightarrow> reads a v"
proof (induction v)
  case (PyList vs)
  have IH: "\<And>v. v \<in> set vs \<Longrightarrow> reads a v" using PyList by (auto simp: list_all_iff)
  show ?case unfolding reads_def
  proof (intro allI impI)
    fix n r assume "jfuel (PyList vs) \<le> n" "delim r"
    then obtain m where n: "n = Suc m" "sum_list (map (\<lambda>v. Suc (jfuel v)) vs) \<le> m" by (cases n) auto
    show "pval n (emit a (PyList vs) @ r) = Some (PyList vs, r)"
    proof (cases vs)
      case Nil
      with n show ?thesis by (simp add: wrap_list_def)
    next
      case (Cons w ws)
      obtain c t where ct: "join '','' (map (emit a) vs) = c # t" "c \<noteq> CHR '']''"
        using emit_not_bracket [of w a] PyList.prems Cons by (cases ws) auto
      show ?thesis using pelems_emit [of vs a m r] IH n ct Cons by (simp add: wrap_list_def)
    qed
  qed
next
  case (PyDict kvs)
  have IH: "\<And>p. p \<in> set kvs \<Longrightarrow> is_KStr (fst p) \<and> reads a (snd p)"
  proof -
    fix p assume "p \<in> set kvs"
    moreover have "snd p \<in> Basic_BNFs.snds p" by (cases p) simp
    ultimately show "is_KStr (fst p) \<and> reads a (snd p)" using PyDict by (auto simp: list_all_iff)
  qed
  show ?case unfolding reads_def
  proof (intro allI impI)
    fix n r assume "jfuel (PyDict kvs) \<le> n" "delim r"
    then obtain m where n: "n = Suc m" "sum_list (map (\<lambda>p. Suc (jfuel (snd p))) kvs) \<le> m"
      by (cases n) auto
    have d: "dict_of kvs = kvs" using PyDict.prems by (simp add: dict_of_distinct)
    show "pval n (emit a (PyDict kvs) @ r) = Some (PyDict kvs, r)"
    proof (cases kvs)
      case Nil
      with n show ?thesis by (simp add: wrap_dict_def)
    next
      case (Cons w ws)
      have ct: "\<exists>t. join '','' (map (\<lambda>(k, s). json_str a k @ '':'' @ s)
          (map (\<lambda>p. (key_str (fst p), emit a (snd p))) kvs)) = CHR 0x22 # t"
        using Cons by (cases ws) (auto simp: json_str_def)
      show ?thesis using pmembers_emit [of kvs a m r] IH n d ct Cons by (auto simp: wrap_dict_def)
    qed
  qed
next
  case (PyStr s)
  then show ?case by (auto simp: reads_def json_str_def pstr_json Suc_le_eq gr0_conv_Suc)
next
  case (PyInt i)
  show ?case unfolding reads_def
  proof (intro allI impI)
    fix n r assume "jfuel (PyInt i) \<le> n" "delim r"
    moreover obtain c t where "show_int i = c # t" "is_digit c \<or> c = CHR ''-''"
      using show_int_hd [of i] by blast
    ultimately show "pval n (emit a (PyInt i) @ r) = Some (PyInt i, r)"
      using pnum_show_int [of r i] by (auto simp: Suc_le_eq gr0_conv_Suc startswith_def)
  qed
qed (auto simp: reads_def Suc_le_eq gr0_conv_Suc startswith_def)

lemma length_join: "ss \<noteq> [] \<Longrightarrow> Suc (length (join '','' ss)) = sum_list (map (\<lambda>s. Suc (length s)) ss)"
proof (induction ss)
  case (Cons s ss)
  then show ?case by (cases ss) auto
qed simp

lemma jfuel_bound: "plain v \<Longrightarrow> jfuel v \<le> 2 * length (emit a v)"
proof (induction v)
  case (PyList vs)
  have "sum_list (map (\<lambda>v. Suc (jfuel v)) vs) \<le> sum_list (map (\<lambda>v. 2 * Suc (length (emit a v))) vs)"
    using PyList by (intro sum_list_mono) (fastforce simp: list_all_iff)
  also have "\<dots> = 2 * sum_list (map (\<lambda>s. Suc (length s)) (map (emit a) vs))"
    by (simp only: sum_list_const_mult map_map comp_def)
  finally show ?case using length_join [of "map (emit a) vs"] by (cases "vs = []") (auto simp: wrap_list_def)
next
  case (PyDict kvs)
  let ?t = "\<lambda>p. json_str a (key_str (fst p)) @ '':'' @ emit a (snd p)"
  have "jfuel (snd p) \<le> 2 * length (emit a (snd p))" if "p \<in> set kvs" for p
  proof -
    have "snd p \<in> Basic_BNFs.snds p" by (cases p) simp
    then show ?thesis using PyDict that by (auto simp: list_all_iff)
  qed
  then have "sum_list (map (\<lambda>p. Suc (jfuel (snd p))) kvs) \<le> sum_list (map (\<lambda>p. 2 * Suc (length (?t p))) kvs)"
    by (intro sum_list_mono) fastforce
  also have "\<dots> = 2 * sum_list (map (\<lambda>s. Suc (length s)) (map ?t kvs))"
    by (simp only: sum_list_const_mult map_map comp_def)
  finally show ?case using length_join [of "map ?t kvs"]
    by (cases "kvs = []") (auto simp: wrap_dict_def comp_def)
next
  case (PyInt i)
  then show ?case using show_int_hd [of i] by auto
qed (auto simp: json_str_def)

theorem json_loads_emit: "plain v \<Longrightarrow> wf_val v \<Longrightarrow> json_loads (emit a v) = Some v"
  using reads_plain [of v a] jfuel_bound [of v a] unfolding reads_def json_loads_def
  by (metis (no_types, lifting) append_Nil2 case_prod_conv delim_simps(1) list.simps(4) option.simps(5))

lemma json_loads_dumps:
  "plain v \<Longrightarrow> wf_val v \<Longrightarrow> json_dumps a v = Some s \<Longrightarrow> json_loads s = Some (norm v)"
  using json_loads_emit [of "norm v" a] by (auto simp: json_dumps_plain)

lemma json_dumps_inj:
  assumes "plain v" "wf_val v" "plain w" "wf_val w" "json_dumps a v = json_dumps a w"
  shows "norm v = norm w"
proof -
  from assms(1) have "json_dumps a v = Some (emit a (norm v))" by (rule json_dumps_plain)
  with assms show ?thesis by (metis json_loads_dumps option.inject)
qed

text \<open>\<open>norm\<close> identifies exactly the reorderings of the items: a permuted \<open>dict\<close> has the same text.\<close>

lemma filter_inj_key:
  assumes "inj_on f (set xs)" "k \<in> set xs"
  shows "filter (\<lambda>x. f k = f x) xs = replicate (count (mset xs) k) k"
proof -
  have "filter (\<lambda>x. f k = f x) xs = filter (\<lambda>x. k = x) xs"
    using assms by (intro filter_cong) (auto simp: inj_on_def)
  also have "\<dots> = replicate (count (mset xs) k) k"
    by (induction xs) auto
  finally show ?thesis .
qed

lemma sort_key_perm:
  assumes "mset xs = mset ys" "inj_on f (set xs)"
  shows "sort_key f xs = sort_key f ys"
proof (rule properties_for_sort_key)
  have s: "set (sort_key f ys) = set xs" using assms(1) by (metis set_sort mset_eq_setD)
  fix k assume "k \<in> set (sort_key f ys)"
  with assms s show "filter (\<lambda>x. f k = f x) (sort_key f ys) = filter (\<lambda>x. f k = f x) xs"
    by (simp add: filter_inj_key)
qed (use assms in simp_all)

lemma norm_perm:
  assumes "mset kvs = mset kvs'" "distinct (map fst kvs)" "list_all (\<lambda>p. is_KStr (fst p)) kvs"
  shows "norm (PyDict kvs) = norm (PyDict kvs')"
proof -
  have i: "p = q" if "p \<in> set kvs" "q \<in> set kvs" "key_str (fst p) = key_str (fst q)" for p q
  proof -
    have "fst p = fst q" using that assms(3) by (cases "fst p"; cases "fst q") (auto simp: list_all_iff)
    with assms(2) that show ?thesis by (metis distinct_map inj_onD)
  qed
  have "inj_on (\<lambda>p. key_str (fst p)) ((\<lambda>p. (fst p, norm (snd p))) ` set kvs)"
    by (auto simp: inj_on_def dest: i)
  then show ?thesis using assms(1) by (simp, intro sort_key_perm) auto
qed

text \<open>Reading gives dictionaries with every key once.\<close>

lemma dict_of_keys_distinct: "distinct (map fst (dict_of ms))"
proof -
  have "distinct (map fst d) \<Longrightarrow> distinct (map fst (fold (\<lambda>(k, v) d. dset d k v) ms d))" for d
    by (induction ms arbitrary: d) (auto simp: distinct_dset)
  then show ?thesis by (simp add: dict_of_def)
qed

lemma dset_all: "P v \<Longrightarrow> list_all (\<lambda>p. P (snd p)) d \<Longrightarrow> list_all (\<lambda>p. P (snd p)) (dset d k v)"
  by (induction d) auto

lemma dict_of_all: "list_all (\<lambda>p. P (snd p)) ms \<Longrightarrow> list_all (\<lambda>p. P (snd p)) (dict_of ms)"
proof -
  have "list_all (\<lambda>p. P (snd p)) ms \<Longrightarrow> list_all (\<lambda>p. P (snd p)) d \<Longrightarrow>
      list_all (\<lambda>p. P (snd p)) (fold (\<lambda>(k, v) d. dset d k v) ms d)" for d
    by (induction ms arbitrary: d) (auto simp: dset_all)
  then show "list_all (\<lambda>p. P (snd p)) ms \<Longrightarrow> list_all (\<lambda>p. P (snd p)) (dict_of ms)"
    by (simp add: dict_of_def)
qed

lemma pval_wf:
  "pval n s = Some (v, r) \<Longrightarrow> wf_val v"
  "pelems n s = Some (vs, r) \<Longrightarrow> list_all wf_val vs"
  "pmembers n s = Some (ms, r) \<Longrightarrow> list_all (\<lambda>p. wf_val (snd p)) ms"
proof (induction n s and n s and n s arbitrary: v r and vs r and ms r rule: pval_pelems_pmembers.induct)
  case (2 n s)
  show ?case
  proof (cases "\<exists>t. s = CHR ''{'' # t")
    case True
    then obtain t where t: "s = CHR ''{'' # t" ..
    show ?thesis
    proof (cases t)
      case (Cons d u)
      have "wf_val (PyDict (dict_of ms))" if "list_all (\<lambda>p. wf_val (snd p)) ms" for ms
        using that by (simp add: dict_of_keys_distinct dict_of_all)
      with 2 t Cons show ?thesis by (auto split: if_splits)
    qed (use 2 t in simp)
  next
    case no_brace: False
    show ?thesis
    proof (cases "\<exists>t. s = CHR ''['' # t")
      case True
      then obtain t where t: "s = CHR ''['' # t" ..
      with 2 show ?thesis by (cases t) (auto split: if_splits)
    next
      case False
      with no_brace "2.prems" show ?thesis
        by (cases s) (auto simp: pnum_def Let_def split: if_splits)
    qed
  qed
next
  case (4 n s)
  then show ?case by (auto split: option.splits list.splits if_splits)
next
  case (6 n s)
  then show ?case by (auto split: option.splits list.splits if_splits)
qed auto

lemma json_loads_wf: "json_loads s = Some v \<Longrightarrow> wf_val v"
  by (auto simp: json_loads_def split: option.splits list.splits dest: pval_wf(1))
end
