(* ===== verification/Sha256.thy ===== *)
theory Sha256
  imports Prelude
begin

unbundle bit_operations_syntax

text \<open>
  SHA-256 as FIPS 180-4 defines it, on byte lists: the digest behind \<open>hashlib.sha256\<close>.  The
  model's definitions take the digest as the field \<open>x_sha256\<close> of their external environment, and
  \<open>length_sha256\<close> shows that the real function meets the one law the proofs assume of it.
\<close>

type_synonym u32 = "32 word"
type_synonym sha_state = "u32 \<times> u32 \<times> u32 \<times> u32 \<times> u32 \<times> u32 \<times> u32 \<times> u32"

definition rotr :: "nat \<Rightarrow> u32 \<Rightarrow> u32" where
  "rotr n x = drop_bit n x OR push_bit (32 - n) x"

text \<open>
  The constants are the first 32 bits of the fractional parts of the cube roots of the first 64 primes,
  the initial state those of the square roots of the first eight: the conversion to \<open>u32\<close> drops the
  integer part of the scaled root.
\<close>

definition primes_to :: "int \<Rightarrow> int list" where
  "primes_to n = filter (\<lambda>p. list_all (\<lambda>d. p mod d \<noteq> 0) [2..p - 1]) [2..n]"

definition iroot :: "nat \<Rightarrow> int \<Rightarrow> int" where
  "iroot k n = foldl (\<lambda>r b. if (r + 2 ^ b) ^ k \<le> n then r + 2 ^ b else r) 0 (rev [0..<40])"

definition sha_k :: "u32 list" where
  "sha_k = map (\<lambda>p. word_of_int (iroot 3 (p * 2 ^ 96))) (primes_to 311)"

definition sha_init :: sha_state where
  "sha_init = (let r = (\<lambda>i. word_of_int (iroot 2 (primes_to 19 ! i * 2 ^ 64)))
     in (r 0, r 1, r 2, r 3, r 4, r 5, r 6, r 7))"

definition sha_ch :: "u32 \<Rightarrow> u32 \<Rightarrow> u32 \<Rightarrow> u32" where
  "sha_ch x y z = (x AND y) XOR (NOT x AND z)"

definition sha_maj :: "u32 \<Rightarrow> u32 \<Rightarrow> u32 \<Rightarrow> u32" where
  "sha_maj x y z = (x AND y) XOR (x AND z) XOR (y AND z)"

definition big_sigma0 :: "u32 \<Rightarrow> u32" where
  "big_sigma0 x = rotr 2 x XOR rotr 13 x XOR rotr 22 x"

definition big_sigma1 :: "u32 \<Rightarrow> u32" where
  "big_sigma1 x = rotr 6 x XOR rotr 11 x XOR rotr 25 x"

definition small_sigma0 :: "u32 \<Rightarrow> u32" where
  "small_sigma0 x = rotr 7 x XOR rotr 18 x XOR drop_bit 3 x"

definition small_sigma1 :: "u32 \<Rightarrow> u32" where
  "small_sigma1 x = rotr 17 x XOR rotr 19 x XOR drop_bit 10 x"

text \<open>The message schedule, newest word first.\<close>

fun sha_schedule :: "nat \<Rightarrow> u32 list \<Rightarrow> u32 list" where
  "sha_schedule 0 ws = ws"
| "sha_schedule (Suc n) ws =
     sha_schedule n ((small_sigma1 (ws ! 1) + ws ! 6 + small_sigma0 (ws ! 14) + ws ! 15) # ws)"

fun sha_round :: "u32 \<times> u32 \<Rightarrow> sha_state \<Rightarrow> sha_state" where
  "sha_round (k, w) (a, b, c, d, e, f, g, h) =
     (let t1 = h + big_sigma1 e + sha_ch e f g + k + w; t2 = big_sigma0 a + sha_maj a b c
      in (t1 + t2, a, b, c, d + t1, e, f, g))"

fun sha_add :: "sha_state \<Rightarrow> sha_state \<Rightarrow> sha_state" where
  "sha_add (a, b, c, d, e, f, g, h) (a', b', c', d', e', f', g', h') =
     (a + a', b + b', c + c', d + d', e + e', f + f', g + g', h + h')"

definition sha_compress :: "u32 list \<Rightarrow> sha_state \<Rightarrow> sha_state" where
  "sha_compress ws st = sha_add st (fold sha_round (zip sha_k (rev (sha_schedule 48 (rev ws)))) st)"

definition be_word :: "byte \<Rightarrow> byte \<Rightarrow> byte \<Rightarrow> byte \<Rightarrow> u32" where
  "be_word a b c d = push_bit 24 (ucast a) OR push_bit 16 (ucast b) OR push_bit 8 (ucast c) OR ucast d"

fun be_words :: "bytes \<Rightarrow> u32 list" where
  "be_words (a # b # c # d # r) = be_word a b c d # be_words r"
| "be_words _ = []"

definition be_bytes :: "nat \<Rightarrow> 'a::len word \<Rightarrow> bytes" where
  "be_bytes k w = map (\<lambda>i. ucast (drop_bit (8 * i) w)) (rev [0..<k])"

definition sha_pad :: "bytes \<Rightarrow> bytes" where
  "sha_pad m = m @ [0x80] @ replicate ((119 - length m mod 64) mod 64) 0 @ be_bytes 8 (word_of_nat (8 * length m) :: 64 word)"

fun sha_blocks :: "nat \<Rightarrow> u32 list \<Rightarrow> sha_state \<Rightarrow> sha_state" where
  "sha_blocks 0 ws st = st"
| "sha_blocks (Suc n) ws st = sha_blocks n (drop 16 ws) (sha_compress (take 16 ws) st)"

fun sha_bytes :: "sha_state \<Rightarrow> bytes" where
  "sha_bytes (a, b, c, d, e, f, g, h) = concat (map (\<lambda>w. be_bytes 4 w) [a, b, c, d, e, f, g, h])"

definition sha256 :: "bytes \<Rightarrow> bytes" where
  "sha256 m = (let p = sha_pad m in sha_bytes (sha_blocks (length p div 64) (be_words p) sha_init))"

lemma length_be_bytes [simp]: "length (be_bytes k n) = k"
  by (simp add: be_bytes_def)

lemma length_sha_bytes [simp]: "length (sha_bytes st) = 32"
  by (induction st rule: sha_bytes.induct) simp

lemma length_sha256 [simp]: "length (sha256 m) = 32"
  by (simp add: sha256_def Let_def)

text \<open>The padded message is a whole number of 64-byte blocks, so no byte of it is left out.\<close>

lemma pad_arith:
  fixes r :: nat
  assumes "r < 64"
  shows "(r + 9 + (119 - r) mod 64) mod 64 = 0"
proof (cases "r \<le> 55")
  case True
  then have "119 - r = 64 + (55 - r)" by linarith
  then have "(119 - r) mod 64 = (55 - r) mod 64" by (metis mod_add_self1)
  also have "\<dots> = 55 - r" by (rule mod_less) linarith
  finally have "r + 9 + (119 - r) mod 64 = 64" using True by linarith
  then show ?thesis by (simp only: mod_self)
next
  case False
  have "(119 - r) mod 64 = 119 - r" using False by (intro mod_less) linarith
  with assms False have "r + 9 + (119 - r) mod 64 = 2 * 64" by linarith
  then show ?thesis by (simp only: mod_mult_self2_is_0)
qed

lemma sha_pad_blocks: "64 dvd length (sha_pad m)"
proof -
  let ?n = "length m" and ?k = "(119 - length m mod 64) mod 64"
  have "(?n mod 64 + 9 + ?k) mod 64 = 0"
    by (rule pad_arith) (rule mod_less_divisor, rule zero_less_numeral)
  then have "(?n + (9 + ?k)) mod 64 = 0"
    by (metis add.assoc mod_add_left_eq)
  moreover have "length (sha_pad m) = ?n + (9 + ?k)"
    unfolding sha_pad_def length_append length_replicate length_be_bytes list.size by linarith
  ultimately show ?thesis by (metis dvd_eq_mod_eq_0)
qed

end
