(* ===== verification/Exceptions.thy ===== *)
theory Exceptions
  imports Json Sha256
begin

text \<open>
  The exception classes of \<open>provable_ai/exceptions.py\<close>, the built-in exceptions the code raises
  or catches, and the environment of library functions that are not part of the repository.

  An exception is a value of \<open>exc\<close> carrying the arguments its class stores in \<open>context\<close>; the
  human-readable \<open>message\<close> texts are not modelled.  \<open>exc_code\<close> is the class attribute \<open>code\<close>,
  the \<open>is_\<dots>\<close> predicates are \<open>isinstance\<close> tests against the intermediate classes.
\<close>

text \<open>The keys of \<open>_FORBIDDEN\<close> in \<open>canonical.py\<close>.\<close>

datatype forbidden = Ffloat | FDecimal | Fdatetime | Fdate | FUUID | FEnum | Fbytes | Fset | Ftuple

datatype exc =
    UnauthorizedModelVersion string "string list" "string option"
  | PolicyViolation string string "string option"
  | AgentVersionMismatch string string
  | KMSUnavailable string string
  | InvalidKeyId string "string option"
  | SigningFailed string string
  | LedgerError string string string
  | ChainBroken int string string "string option"
  | SequenceGap int int "string option"
  | DuplicateSequenceId int "string option"
  | SignatureMismatch string string
  | HashMismatch string string string
  | SequenceOrderViolation string int int
  | KeyIdNotFound string string
  | CanonicalJsonError string string "forbidden option"
  | ValueError string
  | TypeError
  | KeyError string
  | AttributeError
  | ValidationError
  | IntegrityError
  | AssertionError

type_synonym 'a res = "exc + 'a"

fun is_GovernanceError :: "exc \<Rightarrow> bool" where
  "is_GovernanceError (UnauthorizedModelVersion _ _ _) = True"
| "is_GovernanceError (PolicyViolation _ _ _) = True"
| "is_GovernanceError (AgentVersionMismatch _ _) = True"
| "is_GovernanceError _ = False"

fun is_SigningError :: "exc \<Rightarrow> bool" where
  "is_SigningError (KMSUnavailable _ _) = True"
| "is_SigningError (InvalidKeyId _ _) = True"
| "is_SigningError (SigningFailed _ _) = True"
| "is_SigningError _ = False"

fun is_LedgerError :: "exc \<Rightarrow> bool" where
  "is_LedgerError (LedgerError _ _ _) = True"
| "is_LedgerError (ChainBroken _ _ _ _) = True"
| "is_LedgerError (SequenceGap _ _ _) = True"
| "is_LedgerError (DuplicateSequenceId _ _) = True"
| "is_LedgerError _ = False"

fun is_VerificationError :: "exc \<Rightarrow> bool" where
  "is_VerificationError (SignatureMismatch _ _) = True"
| "is_VerificationError (HashMismatch _ _ _) = True"
| "is_VerificationError (SequenceOrderViolation _ _ _) = True"
| "is_VerificationError (KeyIdNotFound _ _) = True"
| "is_VerificationError _ = False"

text \<open>\<open>code\<close> of the Zorynex classes; \<open>None\<close> for a built-in exception, which has no such attribute.\<close>

fun exc_code :: "exc \<Rightarrow> string option" where
  "exc_code (UnauthorizedModelVersion _ _ _) = Some ''UNAUTHORIZED_MODEL_VERSION''"
| "exc_code (PolicyViolation _ _ _) = Some ''POLICY_VIOLATION''"
| "exc_code (AgentVersionMismatch _ _) = Some ''AGENT_VERSION_MISMATCH''"
| "exc_code (KMSUnavailable _ _) = Some ''KMS_UNAVAILABLE''"
| "exc_code (InvalidKeyId _ _) = Some ''INVALID_KEY_ID''"
| "exc_code (SigningFailed _ _) = Some ''SIGNING_FAILED''"
| "exc_code (LedgerError _ _ _) = Some ''LEDGER_ERROR''"
| "exc_code (ChainBroken _ _ _ _) = Some ''CHAIN_BROKEN''"
| "exc_code (SequenceGap _ _ _) = Some ''SEQUENCE_GAP''"
| "exc_code (DuplicateSequenceId _ _) = Some ''DUPLICATE_SEQUENCE_ID''"
| "exc_code (SignatureMismatch _ _) = Some ''SIGNATURE_MISMATCH''"
| "exc_code (HashMismatch _ _ _) = Some ''HASH_MISMATCH''"
| "exc_code (SequenceOrderViolation _ _ _) = Some ''SEQUENCE_ORDER_VIOLATION''"
| "exc_code (KeyIdNotFound _ _) = Some ''KEY_ID_NOT_FOUND''"
| "exc_code (CanonicalJsonError _ _ _) = Some ''CANONICAL_JSON_ERROR''"
| "exc_code _ = None"

definition is_ZorynexError :: "exc \<Rightarrow> bool" where
  "is_ZorynexError e \<longleftrightarrow> is_GovernanceError e \<or> is_SigningError e \<or> is_LedgerError e \<or>
     is_VerificationError e \<or> (case e of CanonicalJsonError _ _ _ \<Rightarrow> True | _ \<Rightarrow> False)"

lemma exc_code_iff: "exc_code e \<noteq> None \<longleftrightarrow> is_ZorynexError e"
  by (cases e) (auto simp: is_ZorynexError_def)

definition opt_str :: "string option \<Rightarrow> pyval" where
  "opt_str o1 = (case o1 of None \<Rightarrow> PyNone | Some s \<Rightarrow> PyStr s)"

lemma opt_str_val [simp]: "plain (opt_str s)" "wf_val (opt_str s)" "norm (opt_str s) = opt_str s"
  by (simp_all add: opt_str_def split: option.splits)

lemma opt_str_inj [simp]: "opt_str s = opt_str t \<longleftrightarrow> s = t"
  by (simp add: opt_str_def split: option.splits)


fun exc_context :: "exc \<Rightarrow> pydict" where
  "exc_context (UnauthorizedModelVersion m as t) =
     [(KStr ''model_version'', PyStr m), (KStr ''approved_versions'', PyList (map PyStr as)),
      (KStr ''tenant_id'', opt_str t)]"
| "exc_context (PolicyViolation r c t) =
     [(KStr ''policy_rule'', PyStr r), (KStr ''decision_context'', PyStr c), (KStr ''tenant_id'', opt_str t)]"
| "exc_context (AgentVersionMismatch a b) =
     [(KStr ''agent_version'', PyStr a), (KStr ''approved_version'', PyStr b)]"
| "exc_context (KMSUnavailable k u) = [(KStr ''key_id'', PyStr k), (KStr ''underlying_error'', PyStr u)]"
| "exc_context (InvalidKeyId k t) = [(KStr ''key_id'', PyStr k), (KStr ''tenant_id'', opt_str t)]"
| "exc_context (SigningFailed k u) = [(KStr ''key_id'', PyStr k), (KStr ''underlying_error'', PyStr u)]"
| "exc_context (LedgerError i r w) =
     [(KStr ''instance_id'', PyStr i), (KStr ''requesting_tenant'', PyStr r), (KStr ''owning_tenant'', PyStr w)]"
| "exc_context (ChainBroken s e a t) =
     [(KStr ''sequence_id'', PyInt s), (KStr ''expected_hash'', PyStr e), (KStr ''actual_hash'', PyStr a),
      (KStr ''tenant_id'', opt_str t)]"
| "exc_context (SequenceGap e a t) =
     [(KStr ''expected_sequence_id'', PyInt e), (KStr ''actual_sequence_id'', PyInt a),
      (KStr ''tenant_id'', opt_str t)]"
| "exc_context (DuplicateSequenceId s t) = [(KStr ''sequence_id'', PyInt s), (KStr ''tenant_id'', opt_str t)]"
| "exc_context (SignatureMismatch k i) = [(KStr ''key_id'', PyStr k), (KStr ''instance_id'', PyStr i)]"
| "exc_context (HashMismatch i e s) =
     [(KStr ''instance_id'', PyStr i), (KStr ''expected_hash'', PyStr e), (KStr ''stored_hash'', PyStr s)]"
| "exc_context (SequenceOrderViolation i s p) =
     [(KStr ''instance_id'', PyStr i), (KStr ''sequence_id'', PyInt s), (KStr ''previous_sequence_id'', PyInt p)]"
| "exc_context (KeyIdNotFound k i) = [(KStr ''key_id'', PyStr k), (KStr ''instance_id'', PyStr i)]"
| "exc_context (CanonicalJsonError f t r) = [(KStr ''field'', PyStr f), (KStr ''value_type'', PyStr t)]"
| "exc_context _ = []"

subsection \<open>Library functions outside the repository\<close>

text \<open>
  \<open>hashlib\<close>'s digest (theory \<open>Sha256\<close> has the function itself), PyNaCl's Ed25519 and pydantic's
  conversions are one record, an argument of every definition that calls them.
  \<open>x_ed_verify pk m s\<close> is \<open>VerifyKey(pk).verify(m, s)\<close>: it returns, raises \<open>BadSignatureError\<close>, or
  raises because of a key or signature of the wrong length.  \<open>x_str\<close>, \<open>x_int\<close>, \<open>x_contribs\<close> and
  \<open>x_meta\<close> are pydantic's conversions to fields of type \<open>str\<close>, \<open>int\<close>, \<open>list[dict[str, str]]\<close> and
  \<open>dict[str, Any]\<close> (\<open>None\<close>: it raises), \<open>x_any_json\<close> is \<open>model_dump(mode="json")\<close> on a field with
  \<open>Any\<close> inside.  \<open>x_trunc\<close> is \<open>int(f)\<close> for the float whose \<open>repr\<close> is given.
\<close>

datatype nacl = NaclOk | NaclBadSignature | NaclError

type_synonym contribs = "(string \<times> string) list list"

record ext =
  x_sha256 :: "bytes \<Rightarrow> bytes"
  x_ed_public :: "bytes \<Rightarrow> bytes"
  x_ed_sign :: "bytes \<Rightarrow> bytes \<Rightarrow> bytes"
  x_ed_verify :: "bytes \<Rightarrow> bytes \<Rightarrow> bytes \<Rightarrow> nacl"
  x_str :: "pyval \<Rightarrow> string option"
  x_int :: "pyval \<Rightarrow> int option"
  x_contribs :: "pyval \<Rightarrow> contribs option"
  x_meta :: "pyval \<Rightarrow> pydict option"
  x_any_json :: "pyval \<Rightarrow> pyval option"
  x_trunc :: "string \<Rightarrow> int option"

text \<open>A \<open>list[dict[str, str]]\<close> as a Python value.\<close>

definition contribs_val :: "contribs \<Rightarrow> pyval" where
  "contribs_val fc = PyList (map (\<lambda>d. PyDict (map (\<lambda>(k, v). (KStr k, PyStr v)) d)) fc)"

definition wf_contribs :: "contribs \<Rightarrow> bool" where
  "wf_contribs fc \<longleftrightarrow> list_all (\<lambda>d. distinct (map fst d)) fc"

definition hexdigest :: "ext \<Rightarrow> bytes \<Rightarrow> string" where
  "hexdigest x m = hex (x_sha256 x m)"

text \<open>What the code relies on: the length of a digest, \<close>

definition digest_ok :: "ext \<Rightarrow> bool" where
  "digest_ok x \<longleftrightarrow> (\<forall>m. length (x_sha256 x m) = 32)"

text \<open>the sizes and the correctness of Ed25519 signatures,\<close>

definition ed25519_ok :: "ext \<Rightarrow> bool" where
  "ed25519_ok x \<longleftrightarrow> (\<forall>sk m. length sk = 32 \<longrightarrow>
     length (x_ed_public x sk) = 32 \<and> length (x_ed_sign x sk m) = 64 \<and>
     x_ed_verify x (x_ed_public x sk) m (x_ed_sign x sk m) = NaclOk)"

text \<open>
  and that pydantic leaves a value that already has the type of its field unchanged, makes dictionaries
  (every key once) and refuses what is not a dictionary where it expects one.
\<close>

definition pydantic_ok :: "ext \<Rightarrow> bool" where
  "pydantic_ok x \<longleftrightarrow> (\<forall>s. x_str x (PyStr s) = Some s) \<and> (\<forall>i. x_int x (PyInt i) = Some i) \<and>
     (\<forall>fc. wf_contribs fc \<longrightarrow> x_contribs x (contribs_val fc) = Some fc) \<and>
     (\<forall>v fc. x_contribs x v = Some fc \<longrightarrow> wf_contribs fc) \<and>
     (\<forall>d. plain (PyDict d) \<longrightarrow> x_meta x (PyDict d) = Some d) \<and>
     (\<forall>v d. x_meta x v = Some d \<longrightarrow> plain v \<longrightarrow> v = PyDict d) \<and>
     (\<forall>d. plain (PyDict d) \<longrightarrow> x_any_json x (PyDict d) = Some (PyDict d))"

lemma digest_ok_length: "digest_ok x \<Longrightarrow> length (x_sha256 x m) = 32"
  by (simp add: digest_ok_def)

lemma hexdigest_lower_hex [hex_simps]: "digest_ok x \<Longrightarrow> lower_hex 64 (hexdigest x m)"
  by (simp add: hexdigest_def digest_ok_def)

lemma length_hexdigest [hex_simps]: "digest_ok x \<Longrightarrow> length (hexdigest x m) = 64"
  using hexdigest_lower_hex by (simp add: lower_hex_def)

lemma hexdigest_eq_iff: "hexdigest x m = hexdigest x n \<longleftrightarrow> x_sha256 x m = x_sha256 x n"
  by (simp add: hexdigest_def)

lemma fromhex_hexdigest [simp]: "fromhex (hexdigest x m) = Some (x_sha256 x m)"
  by (simp add: hexdigest_def)

lemma digest_ok_sha256: "x_sha256 x = sha256 \<Longrightarrow> digest_ok x"
  by (simp add: digest_ok_def)

lemma pydantic_okD:
  assumes "pydantic_ok x"
  shows "x_str x (PyStr s) = Some s" "x_int x (PyInt i) = Some i"
    "wf_contribs fc \<Longrightarrow> x_contribs x (contribs_val fc) = Some fc"
    "plain (PyDict d) \<Longrightarrow> x_meta x (PyDict d) = Some d"
    "plain (PyDict d) \<Longrightarrow> x_any_json x (PyDict d) = Some (PyDict d)"
    "x_contribs x v = Some fc \<Longrightarrow> wf_contribs fc"
    "x_meta x v = Some d \<Longrightarrow> plain v \<Longrightarrow> v = PyDict d"
  using assms unfolding pydantic_ok_def by blast+

subsection \<open>An environment with these properties\<close>

text \<open>
  A small computable environment in which \<open>digest_ok\<close>, \<open>ed25519_ok\<close> and \<open>pydantic_ok\<close> hold: the digest
  keeps the last 32 bytes, a signature is the key followed by the message.  It has none of the security
  of the real functions; it shows that the hypotheses can hold together and makes concrete runs cheap
  to evaluate.
\<close>

definition pad32 :: "bytes \<Rightarrow> bytes" where
  "pad32 m = take 32 (m @ replicate 32 0)"

fun contribs_of :: "pyval \<Rightarrow> contribs option" where
  "contribs_of (PyList vs) =
     (case those (map (\<lambda>v. case v of
        PyDict d \<Rightarrow> those (map (\<lambda>p. case p of (KStr k, PyStr w) \<Rightarrow> Some (k, w) | _ \<Rightarrow> None) d)
      | _ \<Rightarrow> None) vs) of
      Some fc \<Rightarrow> if wf_contribs fc then Some fc else None
    | None \<Rightarrow> None)"
| "contribs_of _ = None"

definition sample_ext :: ext where
  "sample_ext = \<lparr>x_sha256 = (\<lambda>m. pad32 (rev m)), x_ed_public = (\<lambda>sk. sk),
     x_ed_sign = (\<lambda>sk m. sk @ pad32 m),
     x_ed_verify = (\<lambda>pk m s. if s = pk @ pad32 m then NaclOk else NaclBadSignature),
     x_str = (\<lambda>v. case v of PyStr s \<Rightarrow> Some s | _ \<Rightarrow> None),
     x_int = (\<lambda>v. case v of PyInt i \<Rightarrow> Some i | _ \<Rightarrow> None),
     x_contribs = contribs_of,
     x_meta = (\<lambda>v. case v of PyDict d \<Rightarrow> Some d | _ \<Rightarrow> None),
     x_any_json = Some, x_trunc = (\<lambda>r. None)\<rparr>"

lemma length_pad32 [simp]: "length (pad32 m) = 32"
  by (simp add: pad32_def)

lemma contribs_of_val: "wf_contribs fc \<Longrightarrow> contribs_of (contribs_val fc) = Some fc"
proof -
  have i: "those (map (\<lambda>p. case p of (KStr k, PyStr w) \<Rightarrow> Some (k, w) | _ \<Rightarrow> None)
      (map (\<lambda>(k, v). (KStr k, PyStr v)) d)) = Some d" for d :: "(string \<times> string) list"
    by (induction d) auto
  have "those (map (\<lambda>v. case v of
        PyDict d \<Rightarrow> those (map (\<lambda>p. case p of (KStr k, PyStr w) \<Rightarrow> Some (k, w) | _ \<Rightarrow> None) d)
      | _ \<Rightarrow> None) (map (\<lambda>d. PyDict (map (\<lambda>(k, v). (KStr k, PyStr v)) d)) fc)) = Some fc"
    by (induction fc) (simp_all add: i del: map_map)
  then show "wf_contribs fc \<Longrightarrow> contribs_of (contribs_val fc) = Some fc"
    by (simp add: contribs_val_def del: map_map)
qed

lemma contribs_of_wf: "contribs_of v = Some fc \<Longrightarrow> wf_contribs fc"
  by (cases v) (auto split: option.splits if_splits)

lemma sample_ext_ok [simp]: "digest_ok sample_ext" "ed25519_ok sample_ext" "pydantic_ok sample_ext"
  by (simp_all add: sample_ext_def digest_ok_def ed25519_ok_def pydantic_ok_def contribs_of_val
      contribs_of_wf split: pyval.splits)

end
