(* ===== verification/ChainLog.thy ===== *)
theory ChainLog
  imports Exceptions
begin

text \<open>
  What the append-only logs of the program share.

  \<^item> the interface \<open>append_only\<close> of a store whose steps only add records, with the history lemmas;
    \<open>chained_log\<close> extends it with a verification that accepts every state the steps reach.
  \<^item> \<open>chained\<close>, the hash chain of \<open>audit_log.py\<close>, \<open>audit_keyregistry.py\<close> and \<open>audit_anchor.py\<close>: a row
    stores the digest of its content and the digest of the previous chain hash followed by it.
    \<open>chained_binding\<close> is its tamper evidence: two chains with the same last chain hash have the same
    contents, unless the digest collides on the messages hashed in the two chains.
\<close>

subsection \<open>Append-only logs\<close>

text \<open>
  An append-only log: every step keeps the invariant and only adds records at the end of the log, and
  the invariant makes the log well linked.  The history lemmas follow once for every such store.
\<close>

locale append_only =
  fixes step :: "'o \<Rightarrow> 's \<Rightarrow> 's"
    and log :: "'s \<Rightarrow> 'r list"
    and inv :: "'s \<Rightarrow> bool"
  assumes step_inv: "inv s \<Longrightarrow> inv (step q s)"
    and step_extends: "inv s \<Longrightarrow> \<exists>rs. log (step q s) = log s @ rs"
begin

lemma run_inv: "inv s \<Longrightarrow> inv (fold step qs s)"
  by (induction qs arbitrary: s) (auto intro: step_inv)

lemma run_extends: "inv s \<Longrightarrow> \<exists>rs. log (fold step qs s) = log s @ rs"
proof (induction qs arbitrary: s)
  case (Cons q qs)
  obtain rs where "log (step q s) = log s @ rs" using step_extends [OF Cons.prems] by blast
  moreover obtain rs' where "log (fold step qs (step q s)) = log (step q s) @ rs'"
    using Cons.IH [OF step_inv [OF Cons.prems]] by blast
  ultimately show ?case by simp
qed simp

text \<open>A record once in the log stays at its position.\<close>

lemma record_stays:
  assumes "inv s" "k < length (log s)"
  shows "k < length (log (fold step qs s)) \<and> log (fold step qs s) ! k = log s ! k"
  using run_extends [OF assms(1), of qs] assms(2) by (auto simp: nth_append)

end

locale chained_log = append_only step log inv
  for step :: "'o \<Rightarrow> 's \<Rightarrow> 's" and log :: "'s \<Rightarrow> 'r list" and inv :: "'s \<Rightarrow> bool" +
  fixes verify :: "'s \<Rightarrow> bool"
  assumes inv_verify: "inv s \<Longrightarrow> verify s"
begin

lemma run_verify: "inv s \<Longrightarrow> verify (fold step qs s)"
  by (rule inv_verify [OF run_inv])

end

subsection \<open>Hash chains\<close>

fun chained :: "ext \<Rightarrow> ('r \<Rightarrow> bytes) \<Rightarrow> ('r \<Rightarrow> string) \<Rightarrow> ('r \<Rightarrow> string) \<Rightarrow> bytes \<Rightarrow> 'r list \<Rightarrow> bool" where
  "chained x content rh ch prev [] = True"
| "chained x content rh ch prev (r # rs) \<longleftrightarrow>
     rh r = hexdigest x (content r) \<and> ch r = hexdigest x (prev @ x_sha256 x (content r)) \<and>
     chained x content rh ch (x_sha256 x (prev @ x_sha256 x (content r))) rs"

text \<open>The bytes of the last chain hash, and the messages hashed on the way.\<close>

fun chain_end :: "ext \<Rightarrow> ('r \<Rightarrow> bytes) \<Rightarrow> bytes \<Rightarrow> 'r list \<Rightarrow> bytes" where
  "chain_end x content prev [] = prev"
| "chain_end x content prev (r # rs) = chain_end x content (x_sha256 x (prev @ x_sha256 x (content r))) rs"

fun chain_messages :: "ext \<Rightarrow> ('r \<Rightarrow> bytes) \<Rightarrow> bytes \<Rightarrow> 'r list \<Rightarrow> bytes list" where
  "chain_messages x content prev [] = []"
| "chain_messages x content prev (r # rs) =
     content r # (prev @ x_sha256 x (content r)) #
     chain_messages x content (x_sha256 x (prev @ x_sha256 x (content r))) rs"

text \<open>The digest has no collision on \<open>M\<close>, and no message of \<open>M\<close> has the digest \<open>g\<close>.\<close>

definition no_collision :: "ext \<Rightarrow> bytes \<Rightarrow> bytes list \<Rightarrow> bool" where
  "no_collision x g M \<longleftrightarrow> inj_on (x_sha256 x) (set M) \<and> g \<notin> x_sha256 x ` set M"

definition genesis_bytes :: bytes where
  "genesis_bytes = replicate 32 0"

lemma hex_genesis_bytes: "hex genesis_bytes = replicate 64 (CHR ''0'')"
proof -
  have "cp (hexdigit 0) = 48" by (simp add: cp_hexdigit)
  moreover have "cp (CHR ''0'') = 48" by (simp add: cp_def)
  ultimately have "hexdigit 0 = CHR ''0''" by (metis cp_inj)
  then have "hex (replicate n (0 :: byte)) = replicate (2 * n) (CHR ''0'')" for n
    by (induction n) (simp_all add: hex_Cons)
  from this [of 32] show ?thesis by (simp add: genesis_bytes_def)
qed

lemma chained_append:
  "chained x content rh ch prev (rs @ [r]) \<longleftrightarrow> chained x content rh ch prev rs \<and>
     rh r = hexdigest x (content r) \<and>
     ch r = hexdigest x (chain_end x content prev rs @ x_sha256 x (content r))"
  by (induction rs arbitrary: prev) auto

lemma chain_end_append [simp]:
  "chain_end x content prev (rs @ [r]) = x_sha256 x (chain_end x content prev rs @ x_sha256 x (content r))"
  by (induction rs arbitrary: prev) auto

lemma chain_messages_append [simp]:
  "chain_messages x content prev (rs @ [r]) = chain_messages x content prev rs @
     [content r, chain_end x content prev rs @ x_sha256 x (content r)]"
  by (induction rs arbitrary: prev) auto

lemma chained_last: "chained x content rh ch prev rs \<Longrightarrow> rs \<noteq> [] \<Longrightarrow> ch (last rs) = hex (chain_end x content prev rs)"
  by (induction rs arbitrary: prev) (auto simp: hexdigest_def)

lemma chain_end_injective:
  assumes d: "digest_ok x"
  shows "chain_end x content g rs = chain_end x content g qs \<Longrightarrow>
     no_collision x g (chain_messages x content g rs @ chain_messages x content g qs) \<Longrightarrow>
     map content rs = map content qs"
proof (induction rs arbitrary: qs rule: rev_induct)
  case Nil
  show ?case
  proof (cases qs rule: rev_cases)
    case (snoc qs' q)
    with Nil show ?thesis by (auto simp: no_collision_def)
  qed simp
next
  case (snoc r rs)
  show ?case
  proof (cases qs rule: rev_cases)
    case Nil
    with snoc.prems show ?thesis by (auto simp: no_collision_def)
  next
    case q: (snoc qs' q)
    let ?M = "chain_messages x content g (rs @ [r]) @ chain_messages x content g qs"
    have inj: "a = b" if "x_sha256 x a = x_sha256 x b" "a \<in> set ?M" "b \<in> set ?M" for a b
      using snoc.prems(2) that unfolding no_collision_def by (blast dest: inj_onD)
    have m: "chain_end x content g rs @ x_sha256 x (content r) = chain_end x content g qs' @ x_sha256 x (content q)"
      by (rule inj) (use snoc.prems(1) q in simp_all)
    have len: "length (x_sha256 x (content r)) = length (x_sha256 x (content q))"
      by (simp add: digest_ok_length [OF d])
    from m len have "chain_end x content g rs = chain_end x content g qs'" "x_sha256 x (content r) = x_sha256 x (content q)"
      by simp_all
    moreover have "no_collision x g (chain_messages x content g rs @ chain_messages x content g qs')"
      using snoc.prems(2) q unfolding no_collision_def by (auto intro: inj_on_subset)
    moreover have "content r = content q" by (rule inj) (use calculation(2) q in simp_all)
    ultimately show ?thesis using snoc.IH [of qs'] q by simp
  qed
qed

lemma chained_binding:
  assumes "digest_ok x" "chained x content rh ch g rs" "chained x content rh ch g qs" "rs \<noteq> []" "qs \<noteq> []"
    "ch (last rs) = ch (last qs)"
    "no_collision x g (chain_messages x content g rs @ chain_messages x content g qs)"
  shows "map content rs = map content qs"
  using chained_last [OF assms(2,4)] chained_last [OF assms(3,5)] assms(6)
  by (intro chain_end_injective [OF assms(1) _ assms(7)]) simp

subsection \<open>Walking a chain\<close>

text \<open>
  The chain hash of a row, and the loop of \<open>verify_chain\<close> over the rows with their ids: it recomputes both
  hashes and stops at the first row where one differs.
\<close>

definition next_chain_hash :: "ext \<Rightarrow> string \<Rightarrow> string \<Rightarrow> string res" where
  "next_chain_hash x prev row_hash =
     rbind (opt_res (ValueError ''fromhex'') (fromhex prev)) (\<lambda>a.
     rbind (opt_res (ValueError ''fromhex'') (fromhex row_hash)) (\<lambda>b.
     Inr (hexdigest x (a @ b))))"

fun chain_walk ::
    "ext \<Rightarrow> ('r \<Rightarrow> string res) \<Rightarrow> ('r \<Rightarrow> string) \<Rightarrow> ('r \<Rightarrow> string) \<Rightarrow> string \<Rightarrow> (nat \<times> 'r) list \<Rightarrow> nat option res" where
  "chain_walk x compute rh ch prev [] = Inr None"
| "chain_walk x compute rh ch prev ((i, r) # rs) =
     rbind (compute r) (\<lambda>expected_rh.
     rbind (next_chain_hash x prev expected_rh) (\<lambda>expected_ch.
     if rh r \<noteq> expected_rh \<or> ch r \<noteq> expected_ch then Inr (Some i)
     else chain_walk x compute rh ch (ch r) rs))"

lemma next_chain_hash_eq: "next_chain_hash x (hex a) (hexdigest x m) = Inr (hexdigest x (a @ x_sha256 x m))"
  by (simp add: next_chain_hash_def)

lemma chain_walk_spec:
  assumes "\<And>r. compute r = Inr (hexdigest x (content r))"
  shows "\<exists>b. chain_walk x compute rh ch (hex prev) rs = Inr b \<and> (b = None \<longleftrightarrow> chained x content rh ch prev (map snd rs))"
proof (induction rs arbitrary: prev)
  case (Cons p rs)
  obtain i r where p: "p = (i, r)" by (cases p)
  let ?next = "x_sha256 x (prev @ x_sha256 x (content r))"
  show ?case
  proof (cases "rh r = hexdigest x (content r) \<and> ch r = hexdigest x (prev @ x_sha256 x (content r))")
    case True
    then have "ch r = hex ?next" by (simp add: hexdigest_def)
    with Cons.IH [of ?next] True show ?thesis
      by (auto simp: p assms next_chain_hash_eq)
  next
    case False
    then show ?thesis by (auto simp: p assms next_chain_hash_eq)
  qed
qed simp

text \<open>The end of a chain as the code reads it: the chain hash of the last row, the genesis hash if none.\<close>

lemma chain_last_hash:
  assumes "chained x content rh ch genesis_bytes rs"
  shows "(if rs = [] then replicate 64 (CHR ''0'') else ch (last rs)) = hex (chain_end x content genesis_bytes rs)"
  using chained_last [OF assms] by (simp add: hex_genesis_bytes)

lemma enumerate_filter: "map snd (filter (\<lambda>p. P (snd p)) (enumerate n rs)) = filter P rs"
  by (induction rs arbitrary: n) auto

end
