(* ===== verification/Merkle.thy ===== *)
theory Merkle
  imports ChainLog
begin

text \<open>
  The Merkle trees of \<open>provable_ai/audit_batch.py\<close>: the tree over proof ids, inclusion proofs and their
  verification.  The code works on hexadecimal text (\<open>build_merkle_tree\<close>, \<open>compute_inclusion_proof\<close>);
  \<open>mroot\<close> is the same tree on byte strings, and the lemmas \<open>merkle_loop_bytes\<close> and \<open>path_loop_bytes\<close>
  relate the two.  The properties are proved on bytes: the root commits to the leaves of a tree of known
  size, every leaf has a proof that verifies, and a proof of the full depth that verifies is about a leaf.
\<close>

subsection \<open>The code\<close>

text \<open>\<open>current.append(current[-1])\<close> on an odd level, then the loop over \<open>range(0, len(current), 2)\<close>.\<close>

definition pad_even :: "'a list \<Rightarrow> 'a list" where
  "pad_even xs = (if odd (length xs) then xs @ [last xs] else xs)"

fun pair_level :: "ext \<Rightarrow> string list \<Rightarrow> string list res" where
  "pair_level x (l # r # rest) =
     rbind (opt_res (ValueError ''fromhex'') (fromhex l)) (\<lambda>left.
     rbind (opt_res (ValueError ''fromhex'') (fromhex r)) (\<lambda>right.
     rbind (pair_level x rest) (\<lambda>next_level. Inr (hexdigest x (left @ right) # next_level))))"
| "pair_level x _ = Inr []"

lemma length_pad_even [simp]: "length (pad_even xs) = length xs + length xs mod 2"
  by (auto simp: pad_even_def odd_iff_mod_2_eq_one)

lemma length_pair_level: "pair_level x xs = Inr ys \<Longrightarrow> length ys = length xs div 2"
  by (induction x xs arbitrary: ys rule: pair_level.induct) auto

text \<open>
  The \<open>while\<close> loop of \<open>build_merkle_tree\<close>, with the levels it appends.  A level and \<open>current\<close> are the same
  list, so the padding of the next round also shows in \<open>levels\<close>.
\<close>

function merkle_loop :: "ext \<Rightarrow> string list \<Rightarrow> (string \<times> string list list) res" where
  "merkle_loop x current =
     (case current of
        [] \<Rightarrow> Inl (ValueError ''IndexError'')
      | [c] \<Rightarrow> Inr (c, [])
      | c # d # r \<Rightarrow>
          (case pair_level x (pad_even current) of
             Inl e \<Rightarrow> Inl e
           | Inr next_level \<Rightarrow>
               (case merkle_loop x next_level of
                  Inl e \<Rightarrow> Inl e
                | Inr (root, levels) \<Rightarrow>
                    Inr (root, (if length next_level > 1 then pad_even next_level else next_level) # levels))))"
  by pat_completeness auto
termination
proof (relation "measure (\<lambda>(x, current). length current)")
  fix x :: ext and current c l d r next_level
  assume "current = c # l" "l = d # r" "pair_level x (pad_even current) = Inr next_level"
  from length_pair_level [OF this(3)] this(1,2)
  show "((x, next_level), x, current) \<in> measure (\<lambda>(x, current). length current)" by simp
qed simp

declare merkle_loop.simps [simp del]

definition leaf_hashes :: "ext \<Rightarrow> string list \<Rightarrow> string list" where
  "leaf_hashes x ids =
     (let leaves = map (\<lambda>pid. hexdigest x (utf8 pid)) (sort ids)
      in if length leaves = 1 then leaves @ leaves else leaves)"

definition build_merkle_tree :: "ext \<Rightarrow> string list \<Rightarrow> (string \<times> string list list) res" where
  "build_merkle_tree x proof_ids =
     (if proof_ids = [] then Inr (replicate 64 (CHR ''0''), [])
      else (let leaves = leaf_hashes x proof_ids in
        rbind (merkle_loop x leaves) (\<lambda>(root, levels). Inr (root, leaves # levels))))"

definition merkle_root :: "ext \<Rightarrow> string list \<Rightarrow> string res" where
  "merkle_root x proof_ids = rbind (build_merkle_tree x proof_ids) (\<lambda>(root, levels). Inr root)"

text \<open>\<open>PLeft\<close> is the text \<open>left\<close>; the code treats every other text as \<open>right\<close>.\<close>

datatype position = PLeft | PRight

record inclusion_proof =
  ip_leaf_hash :: string
  ip_leaf_index :: nat
  ip_path :: "(string \<times> position) list"
  ip_root :: string
  ip_signed_root :: string
  ip_signature :: string
  ip_public_key :: string
  ip_key_id :: string

text \<open>\<open>idx ^ 1\<close> for a natural number.\<close>

definition flip1 :: "nat \<Rightarrow> nat" where
  "flip1 i = (if even i then i + 1 else i - 1)"

text \<open>The \<open>while\<close> loop of \<open>compute_inclusion_proof\<close>: the path and the root.\<close>

function path_loop :: "ext \<Rightarrow> string list \<Rightarrow> nat \<Rightarrow> ((string \<times> position) list \<times> string) res" where
  "path_loop x current idx =
     (case current of
        [] \<Rightarrow> Inl (ValueError ''IndexError'')
      | [c] \<Rightarrow> Inr ([], c)
      | c # d # r \<Rightarrow>
          (case pair_level x (pad_even current) of
             Inl e \<Rightarrow> Inl e
           | Inr next_level \<Rightarrow>
               (case path_loop x next_level (idx div 2) of
                  Inl e \<Rightarrow> Inl e
                | Inr (path, root) \<Rightarrow>
                    Inr ((pad_even current ! flip1 idx, if even idx then PRight else PLeft) # path, root))))"
  by pat_completeness auto
termination
proof (relation "measure (\<lambda>(x, current, idx). length current)")
  fix x :: ext and current c l d r next_level and idx :: nat
  assume "current = c # l" "l = d # r" "pair_level x (pad_even current) = Inr next_level"
  from length_pair_level [OF this(3)] this(1,2)
  show "((x, next_level, idx div 2), x, current, idx) \<in> measure (\<lambda>(x, current, idx). length current)" by simp
qed simp

declare path_loop.simps [simp del]

text \<open>\<open>leaves.index(v)\<close>\<close>

fun index_of :: "'a \<Rightarrow> 'a list \<Rightarrow> nat" where
  "index_of v [] = 0"
| "index_of v (w # ws) = (if v = w then 0 else Suc (index_of v ws))"

text \<open>
  \<open>compute_inclusion_proof\<close>; the last argument is what the code reads of \<open>batch_dict\<close>: the root, the
  signature, the public key and the key id (\<open>None\<close> when no batch is given).
\<close>

definition compute_inclusion_proof ::
    "ext \<Rightarrow> string list \<Rightarrow> string \<Rightarrow> (string \<times> string \<times> string \<times> string) option \<Rightarrow> inclusion_proof res" where
  "compute_inclusion_proof x proof_ids target_id batch =
     (if proof_ids = [] then Inl (ValueError ''proof_ids is empty'')
      else if target_id \<notin> set (sort proof_ids) then Inl (ValueError ''target_id not found'')
      else (let leaves = leaf_hashes x proof_ids;
                target_leaf = hexdigest x (utf8 target_id);
                target_idx = index_of target_leaf leaves
        in rbind (path_loop x leaves target_idx) (\<lambda>(path, root).
           let (signed_root, signature, public_key, key_id) = (case batch of
                 None \<Rightarrow> (root, [], [], []) | Some b \<Rightarrow> b)
           in Inr \<lparr>ip_leaf_hash = target_leaf, ip_leaf_index = target_idx, ip_path = path, ip_root = root,
                ip_signed_root = signed_root, ip_signature = signature, ip_public_key = public_key,
                ip_key_id = key_id\<rparr>)))"

text \<open>The walk from a leaf up its path; \<open>None\<close> when \<open>bytes.fromhex\<close> raises.\<close>

fun walk_path :: "ext \<Rightarrow> string \<Rightarrow> (string \<times> position) list \<Rightarrow> string option" where
  "walk_path x current [] = Some current"
| "walk_path x current ((sibling, pos) # path) =
     (case (fromhex sibling, fromhex current) of
        (Some s, Some c) \<Rightarrow> walk_path x (hexdigest x (case pos of PLeft \<Rightarrow> s @ c | PRight \<Rightarrow> c @ s)) path
      | _ \<Rightarrow> None)"

definition verify_inclusion_proof :: "ext \<Rightarrow> inclusion_proof \<Rightarrow> bool" where
  "verify_inclusion_proof x p =
     (case walk_path x (ip_leaf_hash p) (ip_path p) of
        None \<Rightarrow> False
      | Some current \<Rightarrow>
          if current \<noteq> ip_root p then False
          else if ip_signed_root p \<noteq> [] \<and> current \<noteq> ip_signed_root p then False
          else if ip_signature p \<noteq> [] \<and> ip_public_key p \<noteq> []
          then (case (fromhex (ip_public_key p), fromhex (ip_root p), fromhex (ip_signature p)) of
              (Some pk, Some m, Some s) \<Rightarrow> x_ed_verify x pk m s = NaclOk
            | _ \<Rightarrow> False)
          else True)"

subsection \<open>The tree on bytes\<close>

fun pairs :: "(bytes \<Rightarrow> bytes) \<Rightarrow> bytes list \<Rightarrow> bytes list" where
  "pairs H (a # b # r) = H (a @ b) # pairs H r"
| "pairs H _ = []"

lemma length_pairs [simp]: "length (pairs H xs) = length xs div 2"
  by (induction H xs rule: pairs.induct) auto

function mroot :: "(bytes \<Rightarrow> bytes) \<Rightarrow> bytes list \<Rightarrow> bytes" where
  "mroot H xs = (if length xs \<le> 1 then hd xs else mroot H (pairs H (pad_even xs)))"
  by pat_completeness auto
termination
proof (relation "measure (\<lambda>(H, xs). length xs)")
  fix H and xs :: "bytes list" assume "\<not> length xs \<le> 1"
  then show "((H, pairs H (pad_even xs)), H, xs) \<in> measure (\<lambda>(H, xs). length xs)" by simp
qed simp

declare mroot.simps [simp del]

text \<open>The number of levels above the leaves, and the messages hashed for the inner nodes.\<close>

function mdepth :: "nat \<Rightarrow> nat" where
  "mdepth n = (if n \<le> 1 then 0 else Suc (mdepth ((n + n mod 2) div 2)))"
  by pat_completeness auto
termination
proof (relation "measure (\<lambda>n. n)")
  fix n :: nat assume "\<not> n \<le> 1"
  then show "((n + n mod 2) div 2, n) \<in> measure (\<lambda>n. n)" by simp
qed simp

declare mdepth.simps [simp del]

fun pair_messages :: "bytes list \<Rightarrow> bytes list" where
  "pair_messages (a # b # r) = (a @ b) # pair_messages r"
| "pair_messages _ = []"

function node_messages :: "(bytes \<Rightarrow> bytes) \<Rightarrow> bytes list \<Rightarrow> bytes list" where
  "node_messages H xs = (if length xs \<le> 1 then [] else
     pair_messages (pad_even xs) @ node_messages H (pairs H (pad_even xs)))"
  by pat_completeness auto
termination
proof (relation "measure (\<lambda>(H, xs). length xs)")
  fix H and xs :: "bytes list" assume "\<not> length xs \<le> 1"
  then show "((H, pairs H (pad_even xs)), H, xs) \<in> measure (\<lambda>(H, xs). length xs)" by simp
qed simp

declare node_messages.simps [simp del]

lemma pad_even_map: "pad_even (map f xs) = map f (pad_even xs)"
  by (cases "xs = []") (simp_all add: pad_even_def last_map)

lemma set_pad_even [simp]: "set (pad_even xs) = set xs"
  by (cases "xs = []") (auto simp: pad_even_def)

lemma pad_even_even: "even (length (pad_even xs))"
  by (simp add: even_iff_mod_2_eq_zero) presburger

lemma pad_even_inj: "length xs = length ys \<Longrightarrow> pad_even xs = pad_even ys \<Longrightarrow> xs = ys"
  by (auto simp: pad_even_def split: if_splits)

lemma pair_level_bytes: "pair_level x (map hex bs) = Inr (map hex (pairs (x_sha256 x) bs))"
proof (induction "x_sha256 x" bs rule: pairs.induct)
  case (1 a b r)
  then show ?case by (simp add: hexdigest_def)
qed simp_all

lemma two_elems: "\<not> length xs \<le> 1 \<Longrightarrow> \<exists>a b r. xs = a # b # r"
  by (cases xs rule: remdups_adj.cases) auto

lemma pairs_not_Nil: "\<not> length xs \<le> 1 \<Longrightarrow> pairs H (pad_even xs) \<noteq> []"
  by (metis length_0_conv length_pairs length_pad_even add_leD1 div_eq_0_iff nat_le_linear not_less_eq_eq
      numeral_2_eq_2 le_simps(3) One_nat_def not_le trans_le_add1 zero_neq_numeral)

lemma merkle_loop_step:
  assumes "\<not> length bs \<le> 1" "merkle_loop x (map hex (pairs (x_sha256 x) (pad_even bs))) = Inr (root, levels)"
  shows "\<exists>levels'. merkle_loop x (map hex bs) = Inr (root, levels')"
proof -
  obtain a b r where bs: "bs = a # b # r" using two_elems [OF assms(1)] by blast
  show ?thesis
    unfolding merkle_loop.simps [of x "map hex bs"] pad_even_map pair_level_bytes using assms(2) by (simp add: bs)
qed

lemma merkle_loop_bytes:
  "bs \<noteq> [] \<Longrightarrow> \<exists>levels. merkle_loop x (map hex bs) = Inr (hex (mroot (x_sha256 x) bs), levels)"
proof (induction "x_sha256 x" bs rule: mroot.induct)
  case (1 bs)
  show ?case
  proof (cases "length bs \<le> 1")
    case True
    with 1 obtain b where "bs = [b]" by (cases bs) auto
    then show ?thesis by (simp add: merkle_loop.simps mroot.simps)
  next
    case False
    from 1(1) [OF False pairs_not_Nil [OF False]] obtain levels where
      "merkle_loop x (map hex (pairs (x_sha256 x) (pad_even bs))) =
         Inr (hex (mroot (x_sha256 x) (pairs (x_sha256 x) (pad_even bs))), levels)" by blast
    from merkle_loop_step [OF False this] show ?thesis unfolding mroot.simps [of _ bs] using False by simp
  qed
qed

subsection \<open>Every leaf has a proof that verifies\<close>

lemma nth_pairs: "i < length xs div 2 \<Longrightarrow> pairs H xs ! i = H (xs ! (2 * i) @ xs ! (2 * i + 1))"
proof (induction H xs arbitrary: i rule: pairs.induct)
  case (1 H a b r)
  then show ?case by (cases i) auto
qed auto

lemma nth_pad_even: "i < length xs \<Longrightarrow> pad_even xs ! i = xs ! i"
  by (simp add: pad_even_def nth_append)

lemma flip1_div: "flip1 i div 2 = i div 2"
  by (auto simp: flip1_def elim!: evenE oddE)

lemma node_of_index:
  assumes "i < length xs"
  shows "pairs H (pad_even xs) ! (i div 2) =
    H (if even i then xs ! i @ pad_even xs ! flip1 i else pad_even xs ! flip1 i @ xs ! i)"
    "i div 2 < length (pairs H (pad_even xs))"
proof -
  show l: "i div 2 < length (pairs H (pad_even xs))" using assms by simp presburger
  then have n: "pairs H (pad_even xs) ! (i div 2) = H (pad_even xs ! (2 * (i div 2)) @ pad_even xs ! (2 * (i div 2) + 1))"
    using nth_pairs [of "i div 2" "pad_even xs"] by (simp only: length_pairs)
  show "pairs H (pad_even xs) ! (i div 2) =
    H (if even i then xs ! i @ pad_even xs ! flip1 i else pad_even xs ! flip1 i @ xs ! i)"
  proof (cases "even i")
    case True
    with n assms show ?thesis by (auto simp: flip1_def nth_pad_even elim!: evenE)
  next
    case False
    with n assms show ?thesis by (auto simp: flip1_def nth_pad_even elim!: oddE)
  qed
qed

lemma path_loop_step:
  assumes "\<not> length bs \<le> 1"
  shows "path_loop x (map hex bs) i =
    (case path_loop x (map hex (pairs (x_sha256 x) (pad_even bs))) (i div 2) of
       Inl e \<Rightarrow> Inl e
     | Inr (path, root) \<Rightarrow>
         Inr ((map hex (pad_even bs) ! flip1 i, if even i then PRight else PLeft) # path, root))"
proof -
  obtain a b r where bs: "bs = a # b # r" using two_elems [OF assms] by blast
  show ?thesis
    unfolding path_loop.simps [of x "map hex bs"] pad_even_map pair_level_bytes by (simp add: bs)
qed

lemma path_loop_bytes:
  "i < length bs \<Longrightarrow> \<exists>path. path_loop x (map hex bs) i = Inr (path, hex (mroot (x_sha256 x) bs)) \<and>
     length path = mdepth (length bs) \<and> walk_path x (hex (bs ! i)) path = Some (hex (mroot (x_sha256 x) bs))"
proof (induction "x_sha256 x" bs arbitrary: i rule: mroot.induct)
  case (1 bs)
  show ?case
  proof (cases "length bs \<le> 1")
    case True
    with 1 obtain b where "bs = [b]" by (cases bs) auto
    with 1(2) show ?thesis by (simp add: path_loop.simps mroot.simps mdepth.simps)
  next
    case False
    let ?n = "pairs (x_sha256 x) (pad_even bs)"
    note nd = node_of_index [OF 1(2), of "x_sha256 x"]
    obtain path where p: "path_loop x (map hex ?n) (i div 2) = Inr (path, hex (mroot (x_sha256 x) ?n))"
      "length path = mdepth (length ?n)" "walk_path x (hex (?n ! (i div 2))) path = Some (hex (mroot (x_sha256 x) ?n))"
      using 1(1) [OF False nd(2)] by blast
    have f: "flip1 i < length (pad_even bs)"
      using 1(2) by (cases "even i") (simp_all add: flip1_def, presburger)
    have r: "mroot (x_sha256 x) bs = mroot (x_sha256 x) ?n" using False by (simp add: mroot.simps [of _ bs])
    have d: "mdepth (length bs) = Suc (mdepth (length ?n))"
      using False by (simp add: mdepth.simps [of "length bs"])
    have h: "hex (?n ! (i div 2)) = hexdigest x (if even i then bs ! i @ pad_even bs ! flip1 i else pad_even bs ! flip1 i @ bs ! i)"
      unfolding nd(1) hexdigest_def by simp
    show ?thesis
      using p f h unfolding path_loop_step [OF False] r d by auto
  qed
qed

subsection \<open>A proof that verifies is about a leaf\<close>

text \<open>The messages that \<open>verify_inclusion_proof\<close> hashes on its way up.\<close>

fun walk_messages :: "ext \<Rightarrow> string \<Rightarrow> (string \<times> position) list \<Rightarrow> bytes list" where
  "walk_messages x current [] = []"
| "walk_messages x current ((sibling, pos) # path) =
     (case (fromhex sibling, fromhex current) of
        (Some s, Some c) \<Rightarrow>
          (let m = (case pos of PLeft \<Rightarrow> s @ c | PRight \<Rightarrow> c @ s) in m # walk_messages x (hexdigest x m) path)
      | _ \<Rightarrow> [])"

lemma pairs_messages: "pairs H xs = map H (pair_messages xs)"
  by (induction H xs rule: pairs.induct) auto

lemma pair_messages_elem:
  "m \<in> set (pair_messages xs) \<Longrightarrow> \<exists>a b. m = a @ b \<and> a \<in> set xs \<and> b \<in> set xs"
  by (induction xs rule: pair_messages.induct) auto

lemma pairs_length: "\<forall>m. length (H m) = n \<Longrightarrow> b \<in> set (pairs H xs) \<Longrightarrow> length b = n"
  by (auto simp: pairs_messages)

lemma walk_sound:
  assumes d: "digest_ok x"
  shows "bs \<noteq> [] \<Longrightarrow> \<forall>b\<in>set bs. length b = 32 \<Longrightarrow> length c = 32 \<Longrightarrow> length path = mdepth (length bs) \<Longrightarrow>
     walk_path x (hex c) path = Some (hex (mroot (x_sha256 x) bs)) \<Longrightarrow>
     inj_on (x_sha256 x) (set (walk_messages x (hex c) path) \<union> set (node_messages (x_sha256 x) bs)) \<Longrightarrow>
     c \<in> set bs"
proof (induction "x_sha256 x" bs arbitrary: c path rule: mroot.induct)
  case (1 bs)
  show ?case
  proof (cases "length bs \<le> 1")
    case True
    with 1(2) obtain b where b: "bs = [b]" by (cases bs) auto
    with 1(5) have "path = []" by (simp add: mdepth.simps)
    with 1(6) b show ?thesis by (simp add: mroot.simps)
  next
    case False
    let ?H = "x_sha256 x" and ?n = "pairs (x_sha256 x) (pad_even bs)"
    have l32: "length (?H m) = 32" for m by (rule digest_ok_length [OF d])
    have dep: "mdepth (length bs) = Suc (mdepth (length ?n))" using False by (simp add: mdepth.simps [of "length bs"])
    obtain sib pos rest where path: "path = (sib, pos) # rest" "length rest = mdepth (length ?n)"
      using 1(5) dep by (cases path) auto
    from 1(6) path obtain s where s: "fromhex sib = Some s" by (auto split: option.splits)
    define m where "m = (case pos of PLeft \<Rightarrow> s @ c | PRight \<Rightarrow> c @ s)"
    have w: "walk_path x (hex (?H m)) rest = Some (hex (mroot ?H ?n))"
      using 1(6) s False by (simp add: path m_def mroot.simps [of _ bs] hexdigest_def)
    have wm: "walk_messages x (hex c) path = m # walk_messages x (hex (?H m)) rest"
      using s by (simp add: path m_def hexdigest_def Let_def)
    have nm: "node_messages ?H bs = pair_messages (pad_even bs) @ node_messages ?H ?n"
      using False by (simp add: node_messages.simps [of _ bs])
    have "?H m \<in> set ?n"
    proof (rule 1(1) [OF False pairs_not_Nil [OF False] _ l32 path(2) w])
      show "\<forall>b\<in>set ?n. length b = 32" using l32 by (auto simp: pairs_messages)
      show "inj_on ?H (set (walk_messages x (hex (?H m)) rest) \<union> set (node_messages ?H ?n))"
        by (rule inj_on_subset [OF 1(7)]) (auto simp: wm nm)
    qed
    then obtain m' where m': "m' \<in> set (pair_messages (pad_even bs))" "?H m = ?H m'" by (auto simp: pairs_messages)
    have "m = m'" by (rule inj_onD [OF 1(7) m'(2)]) (use m'(1) in \<open>simp_all add: wm nm\<close>)
    with pair_messages_elem [OF m'(1)] obtain a b where ab: "m = a @ b" "a \<in> set bs" "b \<in> set bs" by auto
    have "length a = 32" "length b = 32" using 1(3) ab by auto
    with ab(1) 1(4) have "c = a \<or> c = b" unfolding m_def by (cases pos) (auto simp: append_eq_append_conv)
    with ab show ?thesis by blast
  qed
qed

subsection \<open>The root commits to the leaves\<close>

lemma pair_messages_inj:
  assumes "length xs = length ys" "even (length xs)" "\<forall>b\<in>set xs \<union> set ys. length b = 32" "pair_messages xs = pair_messages ys"
  shows "xs = ys"
  using assms
proof (induction xs arbitrary: ys rule: pair_messages.induct)
  case (1 a b r)
  then obtain c d r' where "ys = c # d # r'" by (cases ys rule: remdups_adj.cases) auto
  with 1 show ?case by auto
qed auto

lemma map_inj_messages:
  "map H ms = map H ns \<Longrightarrow> inj_on H (set ms \<union> set ns) \<Longrightarrow> ms = ns"
  by (metis map_inj_on)

lemma mroot_inj:
  assumes d: "digest_ok x"
  shows "length bs = length cs \<Longrightarrow> bs \<noteq> [] \<Longrightarrow> \<forall>b\<in>set bs \<union> set cs. length b = 32 \<Longrightarrow>
     mroot (x_sha256 x) bs = mroot (x_sha256 x) cs \<Longrightarrow>
     inj_on (x_sha256 x) (set (node_messages (x_sha256 x) bs) \<union> set (node_messages (x_sha256 x) cs)) \<Longrightarrow> bs = cs"
proof (induction "x_sha256 x" bs arbitrary: cs rule: mroot.induct)
  case (1 bs)
  let ?H = "x_sha256 x"
  show ?case
  proof (cases "length bs \<le> 1")
    case True
    with 1(2,3) obtain b c where "bs = [b]" "cs = [c]" by (cases bs; cases cs) auto
    with 1(5) show ?thesis by (simp add: mroot.simps)
  next
    case False
    then have False': "\<not> length cs \<le> 1" using 1(2) by simp
    have l32: "length (?H m) = 32" for m by (rule digest_ok_length [OF d])
    have nm: "node_messages ?H bs = pair_messages (pad_even bs) @ node_messages ?H (pairs ?H (pad_even bs))"
      "node_messages ?H cs = pair_messages (pad_even cs) @ node_messages ?H (pairs ?H (pad_even cs))"
      using False False' by (simp_all add: node_messages.simps [of _ bs] node_messages.simps [of _ cs])
    have "pairs ?H (pad_even bs) = pairs ?H (pad_even cs)"
    proof (rule 1(1) [OF False _ pairs_not_Nil [OF False]])
      show "length (pairs ?H (pad_even bs)) = length (pairs ?H (pad_even cs))" using 1(2) by simp
      show "\<forall>b\<in>set (pairs ?H (pad_even bs)) \<union> set (pairs ?H (pad_even cs)). length b = 32"
        using l32 by (auto simp: pairs_messages)
      show "mroot ?H (pairs ?H (pad_even bs)) = mroot ?H (pairs ?H (pad_even cs))"
        using 1(5) False False' by (simp add: mroot.simps [of _ bs] mroot.simps [of _ cs])
      show "inj_on ?H (set (node_messages ?H (pairs ?H (pad_even bs))) \<union> set (node_messages ?H (pairs ?H (pad_even cs))))"
        by (rule inj_on_subset [OF 1(6)]) (simp only: nm set_append, blast)
    qed
    then have pm: "pair_messages (pad_even bs) = pair_messages (pad_even cs)"
      unfolding pairs_messages
      by (rule map_inj_messages) (rule inj_on_subset [OF 1(6)], simp only: nm set_append, blast)
    have "pad_even bs = pad_even cs"
      by (rule pair_messages_inj [OF _ pad_even_even _ pm]) (use 1(2,4) in simp_all)
    then show ?thesis by (rule pad_even_inj [OF 1(2)])
  qed
qed

subsection \<open>The trees of the code\<close>

definition collision_free :: "ext \<Rightarrow> bytes list \<Rightarrow> bool" where
  "collision_free x ms \<longleftrightarrow> distinct (map (x_sha256 x) (remdups ms))"

lemma collision_free_inj: "collision_free x ms \<longleftrightarrow> inj_on (x_sha256 x) (set ms)"
  by (simp add: collision_free_def distinct_map)

definition leaf_bytes :: "ext \<Rightarrow> string list \<Rightarrow> bytes list" where
  "leaf_bytes x ids = (let l = map (\<lambda>i. x_sha256 x (utf8 i)) (sort ids) in if length l = 1 then l @ l else l)"

lemma leaf_hashes_bytes: "leaf_hashes x ids = map hex (leaf_bytes x ids)"
  by (simp add: leaf_hashes_def leaf_bytes_def hexdigest_def Let_def)

lemma leaf_bytes_elems: "set (leaf_bytes x ids) = (\<lambda>i. x_sha256 x (utf8 i)) ` set ids"
  by (auto simp: leaf_bytes_def Let_def)

lemma length_leaf_bytes: "length (leaf_bytes x ids) = (if length ids = 1 then 2 else length ids)"
  by (simp add: leaf_bytes_def Let_def)

lemma merkle_root_eq: "ids \<noteq> [] \<Longrightarrow> merkle_root x ids = Inr (hex (mroot (x_sha256 x) (leaf_bytes x ids)))"
proof -
  assume "ids \<noteq> []"
  then have "leaf_bytes x ids \<noteq> []" using leaf_bytes_elems [of x ids] by auto
  from merkle_loop_bytes [OF this, of x] \<open>ids \<noteq> []\<close> show ?thesis
    by (auto simp: merkle_root_def build_merkle_tree_def leaf_hashes_bytes Let_def)
qed

lemma index_of: "v \<in> set xs \<Longrightarrow> index_of v xs < length xs \<and> xs ! index_of v xs = v"
  by (induction xs) auto

lemma leaf_bytes_length32: "digest_ok x \<Longrightarrow> b \<in> set (leaf_bytes x ids) \<Longrightarrow> length b = 32"
  by (auto simp: leaf_bytes_elems digest_ok_length)

lemma compute_inclusion_ok:
  assumes "target \<in> set ids"
  obtains path where "compute_inclusion_proof x ids target batch =
      (let root = hex (mroot (x_sha256 x) (leaf_bytes x ids));
           (signed_root, signature, public_key, key_id) = (case batch of None \<Rightarrow> (root, [], [], []) | Some b \<Rightarrow> b)
       in Inr \<lparr>ip_leaf_hash = hexdigest x (utf8 target),
            ip_leaf_index = index_of (hexdigest x (utf8 target)) (leaf_hashes x ids), ip_path = path, ip_root = root,
            ip_signed_root = signed_root, ip_signature = signature, ip_public_key = public_key, ip_key_id = key_id\<rparr>)"
    "walk_path x (hexdigest x (utf8 target)) path = Some (hex (mroot (x_sha256 x) (leaf_bytes x ids)))"
    "length path = mdepth (length (leaf_bytes x ids))"
proof -
  let ?t = "hexdigest x (utf8 target)" and ?ls = "leaf_bytes x ids"
  have "?t \<in> set (map hex ?ls)" using assms by (auto simp: leaf_bytes_elems hexdigest_def)
  from index_of [OF this] have i: "index_of ?t (map hex ?ls) < length ?ls" "hex (?ls ! index_of ?t (map hex ?ls)) = ?t"
    by auto
  from path_loop_bytes [OF i(1), of x] obtain path where
    p: "path_loop x (map hex ?ls) (index_of ?t (map hex ?ls)) = Inr (path, hex (mroot (x_sha256 x) ?ls))"
      "length path = mdepth (length ?ls)" "walk_path x ?t path = Some (hex (mroot (x_sha256 x) ?ls))"
    unfolding i(2) by blast
  have "ids \<noteq> []" using assms by auto
  with assms p(1) show thesis
    using that [OF _ p(3,2)] by (simp add: compute_inclusion_proof_def leaf_hashes_bytes Let_def split: option.splits)
qed

text \<open>A batch of two proof ids, for the witnesses: the trees over two leaves and the proof for \<open>b\<close>.\<close>

lemma mroot_pair: "mroot H [a, b] = H (a @ b)"
  by (simp add: mroot.simps [of H "[a, b]"] pad_even_def mroot.simps [of H "[_]"])

lemma node_messages_pair: "node_messages H [a, b] = [a @ b]"
  by (simp add: node_messages.simps [of H "[a, b]"] pad_even_def node_messages.simps [of H "[_]"])

lemma mdepth_2: "mdepth 2 = 1"
  by (simp add: mdepth.simps [of 2] mdepth.simps [of "Suc 0"])

lemma sample_leaves:
  "leaf_bytes sample_ext [''a'', ''b''] = [x_sha256 sample_ext (utf8 ''a''), x_sha256 sample_ext (utf8 ''b'')]"
  "leaf_bytes sample_ext [''b'', ''a''] = [x_sha256 sample_ext (utf8 ''a''), x_sha256 sample_ext (utf8 ''b'')]"
proof -
  have "sort [''a'', ''b''] = [''a'', ''b'']" "sort [''b'', ''a''] = [''a'', ''b'']" by code_simp+
  then show "leaf_bytes sample_ext [''a'', ''b''] = [x_sha256 sample_ext (utf8 ''a''), x_sha256 sample_ext (utf8 ''b'')]"
    "leaf_bytes sample_ext [''b'', ''a''] = [x_sha256 sample_ext (utf8 ''a''), x_sha256 sample_ext (utf8 ''b'')]"
    by (simp_all add: leaf_bytes_def Let_def)
qed

definition sample_inclusion :: "bytes \<Rightarrow> inclusion_proof" where
  "sample_inclusion m = \<lparr>ip_leaf_hash = hexdigest sample_ext (utf8 ''b''), ip_leaf_index = 1,
     ip_path = [(hexdigest sample_ext (utf8 ''a''), PLeft)], ip_root = hex m, ip_signed_root = hex m,
     ip_signature = hex (x_ed_sign sample_ext (replicate 32 7) m),
     ip_public_key = hex (x_ed_public sample_ext (replicate 32 7)), ip_key_id = ''k''\<rparr>"

subsection \<open>Properties\<close>

text \<open>
  C8: Every proof id of a batch has an inclusion proof: \<open>compute_inclusion_proof\<close> returns one for it, its root
  is the Merkle root of the batch, and \<open>verify_inclusion_proof\<close> accepts it together with the signature of
  the batch when that signature verifies over the root.
\<close>

theorem inclusion_complete:
  assumes "target \<in> set ids" "merkle_root x ids = Inr root"
    and "fromhex sig = Some s" "fromhex pk = Some q" "fromhex root = Some m" "x_ed_verify x q m s = NaclOk"
  shows "\<exists>p. compute_inclusion_proof x ids target (Some (root, sig, pk, kid)) = Inr p \<and>
    ip_leaf_hash p = hexdigest x (utf8 target) \<and> ip_root p = root \<and> verify_inclusion_proof x p"
proof -
  obtain path where p: "compute_inclusion_proof x ids target (Some (root, sig, pk, kid)) =
      Inr \<lparr>ip_leaf_hash = hexdigest x (utf8 target),
        ip_leaf_index = index_of (hexdigest x (utf8 target)) (leaf_hashes x ids), ip_path = path,
        ip_root = hex (mroot (x_sha256 x) (leaf_bytes x ids)), ip_signed_root = root, ip_signature = sig,
        ip_public_key = pk, ip_key_id = kid\<rparr>"
    "walk_path x (hexdigest x (utf8 target)) path = Some (hex (mroot (x_sha256 x) (leaf_bytes x ids)))"
    using compute_inclusion_ok [OF assms(1), of x "Some (root, sig, pk, kid)"] unfolding Let_def option.case prod.case by blast
  have "ids \<noteq> []" using assms(1) by auto
  then have "root = hex (mroot (x_sha256 x) (leaf_bytes x ids))" using assms(2) merkle_root_eq by simp
  with p assms(3-6) show ?thesis by (simp add: verify_inclusion_proof_def)
qed

theorem inclusion_complete_witness:
  "\<exists>m p. merkle_root sample_ext [''a'', ''b'', ''c''] = Inr (hex m) \<and>
     compute_inclusion_proof sample_ext [''a'', ''b'', ''c''] ''c''
       (Some (hex m, hex (x_ed_sign sample_ext (replicate 32 7) m), hex (x_ed_public sample_ext (replicate 32 7)), ''k'')) = Inr p \<and>
     verify_inclusion_proof sample_ext p"
proof -
  let ?ids = "[''a'', ''b'', ''c'']" and ?sk = "replicate 32 7 :: bytes"
  obtain m where m: "merkle_root sample_ext ?ids = Inr (hex m)" using merkle_root_eq [of ?ids] by blast
  have "x_ed_verify sample_ext (x_ed_public sample_ext ?sk) m (x_ed_sign sample_ext ?sk m) = NaclOk"
    using sample_ext_ok(2) by (simp add: ed25519_ok_def)
  from inclusion_complete [OF _ m fromhex_hex fromhex_hex fromhex_hex this, of "''c''" "''k''"] m show ?thesis by auto
qed

text \<open>
  C7: An inclusion proof that verifies against the root of a batch, whose path has the full depth of the tree and whose leaf
  hash is the text of 32 bytes, is about a proof id of the batch: its leaf hash is the hash of one of them, unless SHA-256
  collides on the messages hashed in the tree and on the way up the path.  \<open>verify_inclusion_proof\<close> checks neither the
  depth nor the form of the leaf hash: a caller has to.
\<close>

theorem inclusion_sound:
  assumes "digest_ok x" "ids \<noteq> []" "verify_inclusion_proof x p" "merkle_root x ids = Inr (ip_root p)"
    and "ip_leaf_hash p = hex c" "length c = 32" "length (ip_path p) = mdepth (length (leaf_bytes x ids))"
    and "collision_free x (walk_messages x (ip_leaf_hash p) (ip_path p) @ node_messages (x_sha256 x) (leaf_bytes x ids))"
  shows "\<exists>i\<in>set ids. ip_leaf_hash p = hexdigest x (utf8 i)"
proof -
  have "leaf_bytes x ids \<noteq> []" using assms(2) leaf_bytes_elems [of x ids] by auto
  moreover have "walk_path x (hex c) (ip_path p) = Some (hex (mroot (x_sha256 x) (leaf_bytes x ids)))"
    using assms(3,4,5) merkle_root_eq [OF assms(2)]
    by (auto simp: verify_inclusion_proof_def split: option.splits if_splits)
  ultimately have "c \<in> set (leaf_bytes x ids)"
    using assms(5-8) leaf_bytes_length32 [OF assms(1)]
    by (intro walk_sound [OF assms(1)]) (auto simp: collision_free_inj)
  then show ?thesis using assms(5) by (auto simp: leaf_bytes_elems hexdigest_def)
qed

theorem inclusion_sound_witness:
  "\<exists>m. merkle_root sample_ext [''a'', ''b''] = Inr (hex m) \<and>
     verify_inclusion_proof sample_ext (sample_inclusion m) \<and>
     (\<exists>i\<in>{''a'', ''b''}. ip_leaf_hash (sample_inclusion m) = hexdigest sample_ext (utf8 i))"
proof -
  let ?H = "x_sha256 sample_ext"
  let ?m = "?H (?H (utf8 ''a'') @ ?H (utf8 ''b''))"
  let ?p = "sample_inclusion ?m"
  have m: "merkle_root sample_ext [''a'', ''b''] = Inr (hex ?m)"
    by (simp add: merkle_root_eq sample_leaves mroot_pair)
  have w: "walk_messages sample_ext (ip_leaf_hash ?p) (ip_path ?p) = [?H (utf8 ''a'') @ ?H (utf8 ''b'')]"
    by (simp add: sample_inclusion_def hexdigest_def)
  have v: "verify_inclusion_proof sample_ext ?p"
    using sample_ext_ok(2) by (simp add: sample_inclusion_def verify_inclusion_proof_def hexdigest_def ed25519_ok_def)
  have "collision_free sample_ext (walk_messages sample_ext (ip_leaf_hash ?p) (ip_path ?p) @
      node_messages ?H (leaf_bytes sample_ext [''a'', ''b'']))"
    by (simp add: w collision_free_def sample_leaves node_messages_pair)
  from inclusion_sound [OF _ _ v _ _ _ _ this, of "?H (utf8 ''b'')"] m v show ?thesis
    by (simp add: sample_inclusion_def sample_leaves mdepth_2 hexdigest_def digest_ok_length)
qed

text \<open>
  Both conditions are needed.  For a batch with two leaves \<open>a\<close> and \<open>b\<close> the text of the first \<open>k < 32\<close> bytes of
  \<open>a @ b\<close>, with the text of the rest as its right sibling, passes \<open>verify_inclusion_proof\<close>, and so does the
  root itself with an empty path; the former is the hash of no proof id.  No collision is involved.
\<close>

theorem unchecked_leaf_accepted:
  assumes "digest_ok x" "ids \<noteq> []" "leaf_bytes x ids = [a, b]" "merkle_root x ids = Inr root" "k < 32"
  shows "verify_inclusion_proof x \<lparr>ip_leaf_hash = hex (take k (a @ b)), ip_leaf_index = n, ip_path = [(hex (drop k (a @ b)), PRight)],
      ip_root = root, ip_signed_root = root, ip_signature = [], ip_public_key = [], ip_key_id = kid\<rparr> \<and>
    hex (take k (a @ b)) \<noteq> hexdigest x (utf8 i) \<and>
    verify_inclusion_proof x \<lparr>ip_leaf_hash = root, ip_leaf_index = n, ip_path = [], ip_root = root, ip_signed_root = root,
      ip_signature = [], ip_public_key = [], ip_key_id = kid\<rparr>"
proof -
  have r: "root = hexdigest x (a @ b)"
    using assms(4) merkle_root_eq [OF assms(2), of x] by (simp add: assms(3) mroot_pair hexdigest_def)
  have "length (hex (take k (a @ b))) \<noteq> length (hexdigest x (utf8 i))"
    using assms(1,5) by (simp add: hexdigest_def digest_ok_length)
  then have "hex (take k (a @ b)) \<noteq> hexdigest x (utf8 i)" by (rule contrapos_nn) simp
  then show ?thesis by (simp add: verify_inclusion_proof_def r hexdigest_def del: take_append drop_append)
qed

theorem unchecked_leaf_accepted_witness:
  "\<exists>p. merkle_root sample_ext [''a'', ''b''] = Inr (ip_root p) \<and> verify_inclusion_proof sample_ext p \<and>
    ip_leaf_hash p \<noteq> hexdigest sample_ext (utf8 ''a'') \<and> length (ip_leaf_hash p) = 62"
proof -
  let ?a = "x_sha256 sample_ext (utf8 ''a'')" and ?b = "x_sha256 sample_ext (utf8 ''b'')"
  have m: "merkle_root sample_ext [''a'', ''b''] = Inr (hex (x_sha256 sample_ext (?a @ ?b)))"
    by (simp add: merkle_root_eq sample_leaves mroot_pair)
  have l: "length ?a = 32" using sample_ext_ok(1) by (rule digest_ok_length)
  from unchecked_leaf_accepted [OF sample_ext_ok(1) _ sample_leaves(1) m, of 31 0 "''k''" "''a''"] m l show ?thesis
    by (intro exI [of _ "\<lparr>ip_leaf_hash = hex (take 31 (?a @ ?b)), ip_leaf_index = 0, ip_path = [(hex (drop 31 (?a @ ?b)), PRight)],
      ip_root = hex (x_sha256 sample_ext (?a @ ?b)), ip_signed_root = hex (x_sha256 sample_ext (?a @ ?b)), ip_signature = [],
      ip_public_key = [], ip_key_id = ''k''\<rparr>"]) simp
qed

text \<open>
  C9: The Merkle root commits to the proof ids of a batch of known size: two batches with the same number of
  ids and the same root have the same ids (as multisets), unless SHA-256 collides on the messages hashed
  for the two trees.
\<close>

theorem merkle_root_binding:
  assumes "digest_ok x" "length ids = length js" "ids \<noteq> []" "merkle_root x ids = merkle_root x js"
    and "collision_free x (map utf8 (ids @ js) @ node_messages (x_sha256 x) (leaf_bytes x ids) @
      node_messages (x_sha256 x) (leaf_bytes x js))"
  shows "mset ids = mset js"
proof -
  let ?H = "x_sha256 x"
  have ne: "js \<noteq> []" using assms(2,3) by auto
  have inj: "inj_on ?H (utf8 ` (set ids \<union> set js) \<union> set (node_messages ?H (leaf_bytes x ids)) \<union>
      set (node_messages ?H (leaf_bytes x js)))"
    using assms(5) unfolding collision_free_inj by (simp add: Un_assoc image_Un)
  have "leaf_bytes x ids = leaf_bytes x js"
  proof (rule mroot_inj [OF assms(1)])
    show "length (leaf_bytes x ids) = length (leaf_bytes x js)" by (simp add: length_leaf_bytes assms(2))
    show "leaf_bytes x ids \<noteq> []" using assms(3) leaf_bytes_elems [of x ids] by auto
    show "\<forall>b\<in>set (leaf_bytes x ids) \<union> set (leaf_bytes x js). length b = 32"
      using leaf_bytes_length32 [OF assms(1)] by blast
    show "mroot ?H (leaf_bytes x ids) = mroot ?H (leaf_bytes x js)"
      using assms(4) merkle_root_eq [OF assms(3)] merkle_root_eq [OF ne] by simp
    show "inj_on ?H (set (node_messages ?H (leaf_bytes x ids)) \<union> set (node_messages ?H (leaf_bytes x js)))"
      by (rule inj_on_subset [OF inj]) blast
  qed
  then have "map ?H (map utf8 (sort ids)) = map ?H (map utf8 (sort js))"
    using assms(2) by (auto simp: leaf_bytes_def Let_def comp_def split: if_splits)
  then have "map utf8 (sort ids) = map utf8 (sort js)"
    by (rule map_inj_messages) (rule inj_on_subset [OF inj], auto)
  then have "sort ids = sort js" by (metis inj_map_eq_map inj_def utf8_inj)
  then show ?thesis by (metis mset_sort)
qed

theorem merkle_root_binding_witness:
  "merkle_root sample_ext [''a'', ''b''] = merkle_root sample_ext [''b'', ''a''] \<and>
   mset [''a'', ''b''] = mset [''b'', ''a'' :: string]"
proof -
  have d: "digest_ok sample_ext" by simp
  have r: "merkle_root sample_ext [''a'', ''b''] = merkle_root sample_ext [''b'', ''a'']"
    by (simp add: merkle_root_eq sample_leaves)
  have "distinct (map (x_sha256 sample_ext) (remdups (map utf8 [''a'', ''b'', ''b'', ''a''] @
      [x_sha256 sample_ext (utf8 ''a'') @ x_sha256 sample_ext (utf8 ''b''),
       x_sha256 sample_ext (utf8 ''a'') @ x_sha256 sample_ext (utf8 ''b'')])))" by code_simp
  then have "collision_free sample_ext (map utf8 ([''a'', ''b''] @ [''b'', ''a'']) @
      node_messages (x_sha256 sample_ext) (leaf_bytes sample_ext [''a'', ''b'']) @
      node_messages (x_sha256 sample_ext) (leaf_bytes sample_ext [''b'', ''a'']))"
    by (simp only: collision_free_def sample_leaves node_messages_pair append_Cons append_Nil)
  from merkle_root_binding [OF d _ _ r this] r show ?thesis by simp
qed

text \<open>
  The size matters: the root does not distinguish a batch with an odd number of ids from the batch in
  which its greatest id appears once more, because an odd level is padded with a copy of its last node.
\<close>

theorem merkle_root_duplicate:
  assumes "odd (length ids)" "c \<in> set ids" "\<forall>i\<in>set ids. i \<le> c"
  shows "merkle_root x (ids @ [c]) = merkle_root x ids"
proof -
  let ?H = "x_sha256 x" and ?h = "\<lambda>i. x_sha256 x (utf8 i)"
  have ne: "ids \<noteq> []" using assms(2) by auto
  have srt: "sort (ids @ [c]) = sort ids @ [c]"
    by (rule properties_for_sort) (use assms(3) in \<open>auto simp: sorted_append\<close>)
  have "sort ids \<noteq> []" using ne by (metis length_0_conv length_sort)
  then obtain ys y where y: "sort ids = ys @ [y]" by (cases "sort ids" rule: rev_cases) auto
  have yc: "y = c"
  proof (rule antisym)
    have "y \<in> set (sort ids)" by (simp add: y)
    then show "y \<le> c" using assms(3) by simp
    have "c \<in> set (ys @ [y])" "sorted (ys @ [y])" using assms(2) y by (metis set_sort, metis sorted_sort)
    then show "c \<le> y" by (auto simp: sorted_append)
  qed
  let ?L = "map ?h (sort ids)"
  have len: "length ?L = length ids" by simp
  show ?thesis
  proof (cases "length ids = 1")
    case True
    then have "ys = []" using y by (metis length_append_singleton length_sort length_0_conv One_nat_def nat.inject)
    then have "leaf_bytes x (ids @ [c]) = leaf_bytes x ids"
      unfolding leaf_bytes_def srt y yc Let_def by simp
    then show ?thesis using ne by (simp add: merkle_root_eq)
  next
    case False
    then have "1 < length ids" using assms(1) by presburger
    then have big': "1 < length ?L" "1 < length (?L @ [?h c])" using ne by simp_all
    have b: "leaf_bytes x ids = ?L" "leaf_bytes x (ids @ [c]) = ?L @ [?h c]"
      using False ne unfolding leaf_bytes_def srt Let_def by simp_all
    have "last ?L = ?h c" by (simp add: y yc)
    moreover have "odd (length ?L)" "even (length (?L @ [?h c]))" using assms(1) by simp_all
    ultimately have p: "pad_even ?L = ?L @ [?h c]" "pad_even (?L @ [?h c]) = ?L @ [?h c]"
      unfolding pad_even_def by simp_all
    have m: "mroot ?H xs = mroot ?H (pairs ?H (pad_even xs))" if "1 < length xs" for xs
      using that by (subst mroot.simps) simp
    have "mroot ?H ?L = mroot ?H (?L @ [?h c])"
      unfolding m [of ?L, unfolded p, OF big'(1)] m [of "?L @ [?h c]", unfolded p, OF big'(2)] by (rule refl)
    then show ?thesis using ne by (simp add: merkle_root_eq b)
  qed
qed

theorem merkle_root_duplicate_witness:
  "merkle_root sample_ext [''a'', ''b'', ''c'', ''c''] = merkle_root sample_ext [''a'', ''b'', ''c'']"
proof -
  have "\<forall>i\<in>set [''a'', ''b'', ''c'']. i \<le> ''c''" by code_simp
  from merkle_root_duplicate [OF _ _ this, of sample_ext] show ?thesis by simp
qed

end
