(* ===== verification/Canonical.thy ===== *)
theory Canonical
  imports Exceptions
begin

text \<open>
  \<open>provable_ai/canonical.py\<close>: the validator of canonical payloads, the hash payload with its six
  fields, the canonical encoding and hash, the genesis hash, \<open>is_valid_hash\<close> and the proof id.
  The lemmas show that validation accepts exactly the plain values, that the encoding is
  injective up to the order of keys, and so what a hash commits to.
\<close>

subsection \<open>Definitions\<close>

fun forbidden_of :: "pyval \<Rightarrow> forbidden option" where
  "forbidden_of (PyFloat _) = Some Ffloat"
| "forbidden_of (PyTuple _) = Some Ftuple"
| "forbidden_of (PyOther CDecimal) = Some FDecimal"
| "forbidden_of (PyOther CDatetime) = Some Fdatetime"
| "forbidden_of (PyOther CDate) = Some Fdate"
| "forbidden_of (PyOther CUUID) = Some FUUID"
| "forbidden_of (PyOther (CEnum _)) = Some FEnum"
| "forbidden_of (PyOther CBytes) = Some Fbytes"
| "forbidden_of (PyOther CSet) = Some Fset"
| "forbidden_of _ = None"

fun allowed_type :: "pyval \<Rightarrow> bool" where
  "allowed_type (PyOther _) = False"
| "allowed_type (PyFloat _) = False"
| "allowed_type (PyTuple _) = False"
| "allowed_type _ = True"

fun key_repr :: "pykey \<Rightarrow> string" where
  "key_repr (KStr s) = s"
| "key_repr (KInt i) = show_int i"
| "key_repr (KOther _ r) = r"

fun validate_payload :: "pyval \<Rightarrow> string \<Rightarrow> unit res"
  and validate_items :: "(pykey \<times> pyval) list \<Rightarrow> string \<Rightarrow> unit res"
  and validate_elems :: "pyval list \<Rightarrow> nat \<Rightarrow> string \<Rightarrow> unit res" where
  "validate_payload (PyBool _) path = Inr ()"
| "validate_payload (PyDict kvs) path = validate_items kvs path"
| "validate_payload (PyList vs) path = validate_elems vs 0 path"
| "validate_payload v path =
     (case forbidden_of v of
        Some f \<Rightarrow> Inl (CanonicalJsonError path (type_name v) (Some f))
      | None \<Rightarrow> if allowed_type v then Inr () else Inl (CanonicalJsonError path (type_name v) None))"
| "validate_items [] path = Inr ()"
| "validate_items ((k, v) # kvs) path =
     (if \<not> is_KStr k
      then Inl (CanonicalJsonError (path @ ''[key='' @ key_repr k @ '']'') (key_type_name k) None)
      else rbind (validate_payload v (path @ ''.'' @ key_str k)) (\<lambda>_. validate_items kvs path))"
| "validate_elems [] i path = Inr ()"
| "validate_elems (v # vs) i path =
     rbind (validate_payload v (path @ ''['' @ show_nat i @ '']'')) (\<lambda>_. validate_elems vs (Suc i) path)"

definition REQUIRED_HASH_FIELDS :: "string list" where
  "REQUIRED_HASH_FIELDS = [''decision'', ''decision_context'', ''governance'', ''determinism'',
     ''previous_hash'', ''sequence_id'']"

definition EXCLUDED_HASH_FIELDS :: "string list" where
  "EXCLUDED_HASH_FIELDS = [''timestamp'', ''current_hash'', ''signature'', ''public_key'', ''key_id'',
     ''type'', ''instance_id'', ''proof_id'', ''tenant_id'']"

text \<open>\<open>sorted\<close> in the error text raises on keys of different types.\<close>

definition sortable :: "pykey list \<Rightarrow> bool" where
  "sortable ks \<longleftrightarrow> length ks \<le> 1 \<or> list_all is_KStr ks \<or> list_all is_KInt ks"

definition validate_hash_payload :: "pyval \<Rightarrow> unit res" where
  "validate_hash_payload payload =
     (case payload of
        PyDict kvs \<Rightarrow>
          (let keys = map fst kvs;
               missing = filter (\<lambda>f. KStr f \<notin> set keys) REQUIRED_HASH_FIELDS;
               present_excluded = filter (\<lambda>f. KStr f \<in> set keys) EXCLUDED_HASH_FIELDS;
               unknown = filter (\<lambda>k. k \<notin> KStr ` set REQUIRED_HASH_FIELDS) keys
           in if missing \<noteq> [] then Inl (ValueError ''Hash payload missing required fields'')
              else if present_excluded \<noteq> [] then Inl (ValueError ''Hash payload contains excluded fields'')
              else if unknown \<noteq> []
              then Inl (if sortable unknown then ValueError ''Hash payload contains unknown fields'' else TypeError)
              else validate_payload payload ''root'')
      | _ \<Rightarrow> Inl (ValueError ''Hash payload must be dict''))"

definition canonical_encode :: "pyval \<Rightarrow> bytes res" where
  "canonical_encode payload =
     rbind (validate_payload payload ''root'')
       (\<lambda>_. rbind (opt_res TypeError (json_dumps False payload)) (\<lambda>s. Inr (utf8 s)))"

definition canonical_hash :: "ext \<Rightarrow> pyval \<Rightarrow> string res" where
  "canonical_hash x payload = rbind (canonical_encode payload) (\<lambda>b. Inr (hexdigest x b))"

definition build_hash_payload ::
    "pyval \<Rightarrow> pyval \<Rightarrow> pyval \<Rightarrow> pyval \<Rightarrow> string \<Rightarrow> int \<Rightarrow> pyval res" where
  "build_hash_payload decision decision_context governance determinism previous_hash sequence_id =
     (let payload = PyDict [(KStr ''decision'', decision), (KStr ''decision_context'', decision_context),
            (KStr ''governance'', governance), (KStr ''determinism'', determinism),
            (KStr ''previous_hash'', PyStr previous_hash), (KStr ''sequence_id'', PyInt sequence_id)]
      in rbind (validate_hash_payload payload) (\<lambda>_. Inr payload))"

definition canonical_string :: "pyval \<Rightarrow> string res" where
  "canonical_string payload =
     rbind (validate_payload payload ''root'') (\<lambda>_. opt_res TypeError (json_dumps False payload))"

definition genesis_hash :: string where
  "genesis_hash = replicate 64 (CHR ''0'')"

definition is_valid_hash :: "string \<Rightarrow> bool" where
  "is_valid_hash v \<longleftrightarrow> length v = 64 \<and> int16_ok v"

definition compute_proof_id :: "ext \<Rightarrow> string \<Rightarrow> int \<Rightarrow> string" where
  "compute_proof_id x current_hash sequence_id =
     hexdigest x (utf8 (current_hash @ '':'' @ show_int sequence_id))"

subsection \<open>Validation\<close>

lemma forbidden_of_PyOther: "forbidden_of (PyOther c) = None \<longleftrightarrow> (\<exists>n. c = CObject n)"
  by (cases c) auto

lemma validate_payload_iff:
  "validate_payload v p = Inr () \<longleftrightarrow> plain v"
  "validate_items kvs p = Inr () \<longleftrightarrow> list_all (\<lambda>q. is_KStr (fst q) \<and> plain (snd q)) kvs"
  "validate_elems vs i p = Inr () \<longleftrightarrow> list_all plain vs"
  by (induction v p and kvs p and vs i p rule: validate_payload_validate_items_validate_elems.induct)
     (auto simp: forbidden_of_PyOther split: option.splits)

lemma validate_payload_ok: "validate_payload v p = (if plain v then Inr () else validate_payload v p)"
  using validate_payload_iff(1) by simp

lemma validate_payload_error:
  "validate_payload v p = Inl e \<Longrightarrow> \<exists>f t r. e = CanonicalJsonError (p @ f) t r"
  "validate_items kvs p = Inl e \<Longrightarrow> \<exists>f t r. e = CanonicalJsonError (p @ f) t r"
  "validate_elems vs i p = Inl e \<Longrightarrow> \<exists>f t r. e = CanonicalJsonError (p @ f) t r"
  by (induction v p and kvs p and vs i p rule: validate_payload_validate_items_validate_elems.induct)
     (auto simp: forbidden_of_PyOther rbind_Inl_iff split: option.splits if_splits)

lemma validate_hash_payload_iff:
  "validate_hash_payload (PyDict kvs) = Inr () \<longleftrightarrow>
     fst ` set kvs = KStr ` set REQUIRED_HASH_FIELDS \<and> plain (PyDict kvs)"
proof -
  have d: "set REQUIRED_HASH_FIELDS \<inter> set EXCLUDED_HASH_FIELDS = {}"
    by (auto simp: REQUIRED_HASH_FIELDS_def EXCLUDED_HASH_FIELDS_def)
  have "filter (\<lambda>f. KStr f \<in> set (map fst kvs)) EXCLUDED_HASH_FIELDS = []"
    if "fst ` set kvs = KStr ` set REQUIRED_HASH_FIELDS"
    using that d by (auto simp: filter_empty_conv)
  moreover have "filter (\<lambda>f. KStr f \<notin> set (map fst kvs)) REQUIRED_HASH_FIELDS = [] \<and>
      filter (\<lambda>k. k \<notin> KStr ` set REQUIRED_HASH_FIELDS) (map fst kvs) = [] \<longleftrightarrow>
      fst ` set kvs = KStr ` set REQUIRED_HASH_FIELDS"
    unfolding filter_empty_conv set_map by blast
  moreover have "validate_payload (PyDict kvs) ''root'' = Inr () \<longleftrightarrow> plain (PyDict kvs)"
    by (rule validate_payload_iff)
  ultimately show ?thesis
    unfolding validate_hash_payload_def Let_def pyval.case if_Inl_eq_Inr by blast
qed

subsection \<open>The encoding is deterministic and injective\<close>

lemma canonical_encode_iff:
  "canonical_encode v = Inr b \<longleftrightarrow> plain v \<and> b = utf8 (emit False (norm v))"
proof -
  have "validate_payload v ''root'' = Inr u \<longleftrightarrow> plain v" for u
    using validate_payload_iff(1) [of v "''root''"] by simp
  then show ?thesis by (auto simp: canonical_encode_def json_dumps_plain)
qed

lemma canonical_encode_norm:
  assumes "canonical_encode v = Inr b" "canonical_encode w = Inr b" "wf_val v" "wf_val w"
  shows "norm v = norm w"
proof -
  from assms(1,2) have p: "plain v" "plain w" "utf8 (emit False (norm v)) = utf8 (emit False (norm w))"
    by (auto simp only: canonical_encode_iff)
  from p(3) have e: "emit False (norm v) = emit False (norm w)" by simp
  have "json_loads (emit False (norm v)) = Some (norm v)"
    by (rule json_loads_emit) (simp_all add: p assms)
  moreover have "json_loads (emit False (norm w)) = Some (norm w)"
    by (rule json_loads_emit) (simp_all add: p assms)
  ultimately show ?thesis unfolding e by simp
qed

lemma canonical_hash_iff:
  "canonical_hash x v = Inr h \<longleftrightarrow> plain v \<and> h = hexdigest x (utf8 (emit False (norm v)))"
  by (auto simp: canonical_hash_def canonical_encode_iff)

lemma canonical_hash_lower_hex: "digest_ok x \<Longrightarrow> canonical_hash x v = Inr h \<Longrightarrow> lower_hex 64 h"
  by (auto simp: canonical_hash_iff hexdigest_lower_hex)

lemma build_hash_payload_iff:
  "build_hash_payload d c g t p i = Inr v \<longleftrightarrow>
     plain d \<and> plain c \<and> plain g \<and> plain t \<and>
     v = PyDict [(KStr ''decision'', d), (KStr ''decision_context'', c), (KStr ''governance'', g),
       (KStr ''determinism'', t), (KStr ''previous_hash'', PyStr p), (KStr ''sequence_id'', PyInt i)]"
  by (auto simp: build_hash_payload_def Let_def validate_hash_payload_iff REQUIRED_HASH_FIELDS_def)

lemma sort_hash_fields:
  "norm (PyDict [(KStr ''decision'', d), (KStr ''decision_context'', c), (KStr ''governance'', g),
     (KStr ''determinism'', t), (KStr ''previous_hash'', PyStr p), (KStr ''sequence_id'', PyInt i)]) =
   PyDict [(KStr ''decision'', norm d), (KStr ''decision_context'', norm c), (KStr ''determinism'', norm t),
     (KStr ''governance'', norm g), (KStr ''previous_hash'', PyStr p), (KStr ''sequence_id'', PyInt i)]"
  by simp

subsection \<open>Hash text\<close>

lemma genesis_lower_hex [simp]: "lower_hex 64 genesis_hash"
  by (simp add: lower_hex_def genesis_hash_def list_all_iff lower_hex_char_def cp_def)

lemma lower_hex_is_valid_hash: "lower_hex 64 v \<Longrightarrow> is_valid_hash v"
  using int16_ok_lower_hex [of 64 v] by (simp add: is_valid_hash_def lower_hex_def)

lemma lower_hex_no_colon: "lower_hex n v \<Longrightarrow> CHR '':'' \<notin> set v"
  by (auto simp: lower_hex_def list_all_iff lower_hex_char_def cp_def)

lemma show_int_inj [simp]: "show_int i = show_int j \<longleftrightarrow> i = j"
proof
  assume e: "show_int i = show_int j"
  with pnum_show_int [of "[]" i] pnum_show_int [of "[]" j] show "i = j" by simp
qed simp

lemma proof_id_text_inj:
  assumes "lower_hex n h" "lower_hex n' h'" "h @ '':'' @ show_int i = h' @ '':'' @ show_int j"
  shows "h = h' \<and> i = j"
proof -
  have "split1 (CHR '':'') (h @ CHR '':'' # show_int i) = split1 (CHR '':'') (h' @ CHR '':'' # show_int j)"
    using assms(3) by simp
  with lower_hex_no_colon [OF assms(1)] lower_hex_no_colon [OF assms(2)]
  show ?thesis by (simp add: split1_append)
qed

subsection \<open>Properties\<close>

text \<open>The values inside a payload, each with the path that \<open>_validate_payload\<close> gives it.\<close>

fun subvalues :: "pyval \<Rightarrow> string \<Rightarrow> (string \<times> pyval) list"
  and subitems :: "(pykey \<times> pyval) list \<Rightarrow> string \<Rightarrow> (string \<times> pyval) list"
  and subelems :: "pyval list \<Rightarrow> nat \<Rightarrow> string \<Rightarrow> (string \<times> pyval) list" where
  "subvalues (PyDict kvs) path = (path, PyDict kvs) # subitems kvs path"
| "subvalues (PyList vs) path = (path, PyList vs) # subelems vs 0 path"
| "subvalues v path = [(path, v)]"
| "subitems [] path = []"
| "subitems ((k, v) # kvs) path = subvalues v (path @ ''.'' @ key_str k) @ subitems kvs path"
| "subelems [] i path = []"
| "subelems (v # vs) i path = subvalues v (path @ ''['' @ show_nat i @ '']'') @ subelems vs (Suc i) path"

definition bad_value :: "exc \<Rightarrow> (string \<times> pyval) list \<Rightarrow> bool" where
  "bad_value e nodes \<longleftrightarrow> (\<exists>(q, w)\<in>set nodes. \<not> allowed_type w \<and> e = CanonicalJsonError q (type_name w) (forbidden_of w))"

definition bad_key :: "exc \<Rightarrow> string \<Rightarrow> (pykey \<times> pyval) list \<Rightarrow> bool" where
  "bad_key e q d \<longleftrightarrow> (\<exists>k\<in>fst ` set d. \<not> is_KStr k \<and>
     e = CanonicalJsonError (q @ ''[key='' @ key_repr k @ '']'') (key_type_name k) None)"

definition bad_dict :: "exc \<Rightarrow> (string \<times> pyval) list \<Rightarrow> bool" where
  "bad_dict e nodes \<longleftrightarrow> (\<exists>q d. (q, PyDict d) \<in> set nodes \<and> bad_key e q d)"

lemma bad_value_simps [simp]:
  "bad_value e (a @ b) \<longleftrightarrow> bad_value e a \<or> bad_value e b"
  "bad_value e ((q, PyDict d) # a) \<longleftrightarrow> bad_value e a" "bad_value e ((q, PyList l) # a) \<longleftrightarrow> bad_value e a"
  "bad_value e [(q, w)] \<longleftrightarrow> \<not> allowed_type w \<and> e = CanonicalJsonError q (type_name w) (forbidden_of w)"
  by (auto simp: bad_value_def)

lemma bad_dict_simps [simp]:
  "bad_dict e (a @ b) \<longleftrightarrow> bad_dict e a \<or> bad_dict e b" "bad_dict e ((q, PyList l) # a) \<longleftrightarrow> bad_dict e a"
  "bad_dict e ((q, PyDict d) # a) \<longleftrightarrow> bad_key e q d \<or> bad_dict e a"
  by (auto simp: bad_dict_def)

lemma bad_key_Cons [simp]:
  "bad_key e q ((k, v) # d) \<longleftrightarrow> (\<not> is_KStr k \<and>
     e = CanonicalJsonError (q @ ''[key='' @ key_repr k @ '']'') (key_type_name k) None) \<or> bad_key e q d"
  by (auto simp: bad_key_def)

lemma validate_error_located:
  "validate_payload v p = Inl e \<Longrightarrow> bad_value e (subvalues v p) \<or> bad_dict e (subvalues v p)"
  "validate_items kvs p = Inl e \<Longrightarrow> bad_value e (subitems kvs p) \<or> bad_dict e (subitems kvs p) \<or> bad_key e p kvs"
  "validate_elems vs i p = Inl e \<Longrightarrow> bad_value e (subelems vs i p) \<or> bad_dict e (subelems vs i p)"
  by (induction v p and kvs p and vs i p rule: validate_payload_validate_items_validate_elems.induct)
     (auto simp: forbidden_of_PyOther rbind_Inl_iff split: option.splits if_splits)

text \<open>
  C27: The canonical encoding can be read back and is canonical: \<open>json.loads\<close> of the encoded bytes gives the
  payload with its keys sorted, and another payload has the same encoding exactly when it is
  acceptable and equal up to the order of keys.
\<close>

theorem canonical_encode_roundtrip:
  assumes "canonical_encode v = Inr b" "wf_val v"
  shows "(\<exists>s. b = utf8 s \<and> json_loads s = Some (norm v)) \<and>
    (\<forall>w. wf_val w \<longrightarrow> (canonical_encode w = Inr b \<longleftrightarrow> plain w \<and> norm w = norm v))"
proof -
  have v: "plain v" "b = utf8 (emit False (norm v))" using assms(1) by (simp_all only: canonical_encode_iff)
  have "json_loads (emit False (norm v)) = Some (norm v)"
    by (rule json_loads_emit) (simp_all add: v assms)
  moreover have "canonical_encode w = Inr b \<longleftrightarrow> plain w \<and> norm w = norm v" if "wf_val w" for w
    using canonical_encode_norm [OF _ assms(1) that assms(2)] v by (auto simp only: canonical_encode_iff)
  ultimately show ?thesis using v(2) by blast
qed

theorem canonical_encode_roundtrip_witness:
  "\<exists>b. canonical_encode (PyDict [(KStr ''b'', PyInt 2), (KStr ''a'', PyNone)]) = Inr b \<and>
     canonical_encode (PyDict [(KStr ''a'', PyNone), (KStr ''b'', PyInt 2)]) = Inr b"
proof -
  let ?v = "PyDict [(KStr ''b'', PyInt 2), (KStr ''a'', PyNone)]"
  let ?w = "PyDict [(KStr ''a'', PyNone), (KStr ''b'', PyInt 2)]"
  obtain b where b: "canonical_encode ?v = Inr b" using canonical_encode_iff by fastforce
  have "wf_val ?v" "wf_val ?w" "plain ?w" "norm ?w = norm ?v" by simp_all
  with canonical_encode_roundtrip [OF b] b show ?thesis by blast
qed

text \<open>
  \<open>validate_hash_payload\<close> accepts a value exactly when it is a dictionary whose keys are the six required
  fields, no more and no less, and which holds only canonical types.
\<close>

theorem hash_payload_exact:
  "validate_hash_payload v = Inr () \<longleftrightarrow>
     (\<exists>kvs. v = PyDict kvs \<and> fst ` set kvs = KStr ` set REQUIRED_HASH_FIELDS \<and> plain v)"
proof (cases v)
  case (PyDict kvs)
  then show ?thesis using validate_hash_payload_iff [of kvs] by blast
qed (simp_all add: validate_hash_payload_def)

text \<open>
  When \<open>_validate_payload\<close> rejects a payload, its error names the culprit: either the path of a value
  inside the payload whose type is not allowed, with that type, or the path of a dictionary inside it and a
  key of that dictionary that is not a string.
\<close>

theorem validation_error_located:
  assumes "validate_payload v path = Inl e"
  shows "(\<exists>(q, w)\<in>set (subvalues v path). \<not> allowed_type w \<and> e = CanonicalJsonError q (type_name w) (forbidden_of w)) \<or>
    (\<exists>q d k. (q, PyDict d) \<in> set (subvalues v path) \<and> k \<in> fst ` set d \<and> \<not> is_KStr k \<and>
       e = CanonicalJsonError (q @ ''[key='' @ key_repr k @ '']'') (key_type_name k) None)"
  using validate_error_located(1) [OF assms] unfolding bad_value_def bad_dict_def bad_key_def by blast

theorem validation_error_located_witness:
  "validate_payload (PyDict [(KStr ''a'', PyList [PyInt 1, PyFloat ''0.5''])]) ''root'' =
     Inl (CanonicalJsonError ''root.a[1]'' ''float'' (Some Ffloat)) \<and>
   (\<exists>q. (q, PyFloat ''0.5'') \<in> set (subvalues (PyDict [(KStr ''a'', PyList [PyInt 1, PyFloat ''0.5''])]) ''root''))"
proof -
  let ?v = "PyDict [(KStr ''a'', PyList [PyInt 1, PyFloat ''0.5''])]"
  have e: "validate_payload ?v ''root'' = Inl (CanonicalJsonError ''root.a[1]'' ''float'' (Some Ffloat))" by code_simp
  from validation_error_located [OF e] e show ?thesis by auto
qed

end
