(* ===== verification/AuditLog.thy ===== *)
theory AuditLog
  imports Canonical ChainLog
begin

text \<open>
  \<open>provable_ai/audit_log.py\<close>: the verification audit log.  The table \<open>verification_audit\<close> is the list of its
  rows in the order of their ids, so the id of a row is its position counted from one.  \<open>record\<close> reads
  the last chain hash of the tenant, then its highest sequence number, and then inserts; each is a statement of its own
  and nothing is locked, so threads with their own connections may interleave between any two of them
  (\<open>recorder_step\<close>).
\<close>

subsection \<open>Text of Python values\<close>

text \<open>\<open>repr\<close> of a string, \<open>str\<close> and \<open>repr\<close> of JSON values.\<close>

definition repr_char :: "char \<Rightarrow> char \<Rightarrow> string" where
  "repr_char q c = (let n = cp c in
     if c = q \<or> n = 92 then [CHR 0x5C, c]
     else if n = 9 then [CHR 0x5C, CHR ''t''] else if n = 10 then [CHR 0x5C, CHR ''n'']
     else if n = 13 then [CHR 0x5C, CHR ''r'']
     else if n < 32 \<or> (127 \<le> n \<and> n < 161) \<or> n = 173
     then [CHR 0x5C, CHR ''x'', hexdigit (n div 16), hexdigit (n mod 16)] else [c])"

definition repr_str :: "string \<Rightarrow> string" where
  "repr_str s = (let q = (if CHR 0x27 \<in> set s \<and> CHR 0x22 \<notin> set s then CHR 0x22 else CHR 0x27)
     in q # concat (map (repr_char q) s) @ [q])"

definition repr_key :: "pykey \<Rightarrow> string" where
  "repr_key k = (case k of KStr s \<Rightarrow> repr_str s | KInt i \<Rightarrow> show_int i | KOther t r \<Rightarrow> r)"

fun py_repr :: "pyval \<Rightarrow> string" where
  "py_repr PyNone = ''None''"
| "py_repr (PyBool b) = (if b then ''True'' else ''False'')"
| "py_repr (PyInt i) = show_int i"
| "py_repr (PyFloat r) = r"
| "py_repr (PyStr s) = repr_str s"
| "py_repr (PyList vs) = ''['' @ join '', '' (map py_repr vs) @ '']''"
| "py_repr (PyTuple vs) = ''('' @ join '', '' (map py_repr vs) @ (if length vs = 1 then '',)'' else '')'')"
| "py_repr (PyDict kvs) = ''{'' @ join '', '' (map (\<lambda>p. repr_key (fst p) @ '': '' @ py_repr (snd p)) kvs) @ ''}''"
| "py_repr (PyOther c) = class_name c"

definition py_str :: "pyval \<Rightarrow> string" where
  "py_str v = (case v of PyStr s \<Rightarrow> s | _ \<Rightarrow> py_repr v)"

text \<open>\<open>int(s)\<close> for a string: white space, a sign, digits with single underscores between them.\<close>

fun digrun :: "string \<Rightarrow> bool" where
  "digrun [] = False"
| "digrun [c] = is_digit c"
| "digrun (c # d # r) = (is_digit c \<and> (if d = CHR ''_'' then digrun r else digrun (d # r)))"

definition int_of_str :: "string \<Rightarrow> int option" where
  "int_of_str s = (let t = rev (dropWhile int_space (rev (dropWhile int_space s)));
       d = drop_sign t; n = int (read_nat 0 (filter is_digit d))
     in if digrun d then Some (if t \<noteq> [] \<and> hd t = CHR ''-'' then - n else n) else None)"

fun py_int :: "ext \<Rightarrow> pyval \<Rightarrow> int option" where
  "py_int x (PyInt i) = Some i"
| "py_int x (PyBool b) = Some (if b then 1 else 0)"
| "py_int x (PyStr s) = int_of_str s"
| "py_int x (PyFloat r) = x_trunc x r"
| "py_int x _ = None"

subsection \<open>Entries\<close>

record audit_entry =
  ae_tenant_id :: string
  ae_trace_id :: string
  ae_instance_id :: "string option"
  ae_sequence_id :: "int option"
  ae_proof_id :: "string option"
  ae_verified_at :: string
  ae_result :: string
  ae_failure_code :: "string option"
  ae_failure_msg :: "string option"
  ae_key_id :: "string option"
  ae_governance_json :: "string option"
  ae_recorded_at :: string
  ae_sequence_num :: int
  ae_row_hash :: string
  ae_prev_chain_hash :: string
  ae_chain_hash :: string

definition QUERY_MAX_LIMIT :: int where
  "QUERY_MAX_LIMIT = 1000"

definition GENESIS_HASH :: string where
  "GENESIS_HASH = replicate 64 (CHR ''0'')"

definition opt_int :: "int option \<Rightarrow> pyval" where
  "opt_int o1 = (case o1 of None \<Rightarrow> PyNone | Some i \<Rightarrow> PyInt i)"

definition audit_content :: "audit_entry \<Rightarrow> pyval" where
  "audit_content e = PyDict [(KStr ''tenant_id'', PyStr (ae_tenant_id e)), (KStr ''trace_id'', PyStr (ae_trace_id e)),
     (KStr ''instance_id'', opt_str (ae_instance_id e)), (KStr ''sequence_id'', opt_int (ae_sequence_id e)),
     (KStr ''sequence_num'', PyInt (ae_sequence_num e)), (KStr ''proof_id'', opt_str (ae_proof_id e)),
     (KStr ''verified_at'', PyStr (ae_verified_at e)), (KStr ''result'', PyStr (ae_result e)),
     (KStr ''failure_code'', opt_str (ae_failure_code e)), (KStr ''failure_msg'', opt_str (ae_failure_msg e)),
     (KStr ''key_id'', opt_str (ae_key_id e)), (KStr ''governance_json'', opt_str (ae_governance_json e)),
     (KStr ''recorded_at'', PyStr (ae_recorded_at e))]"

definition compute_row_hash :: "ext \<Rightarrow> audit_entry \<Rightarrow> string res" where
  "compute_row_hash x e =
     rbind (opt_res TypeError (json_dumps False (audit_content e))) (\<lambda>s. Inr (hexdigest x (utf8 s)))"

definition compute_chain_hash :: "ext \<Rightarrow> string \<Rightarrow> string \<Rightarrow> string res" where
  "compute_chain_hash x prev_chain_hash row_hash =
     rbind (opt_res (ValueError ''fromhex'') (fromhex prev_chain_hash)) (\<lambda>a.
     rbind (opt_res (ValueError ''fromhex'') (fromhex row_hash)) (\<lambda>b.
     Inr (hexdigest x (a @ b))))"

definition or_empty :: "string option \<Rightarrow> string" where
  "or_empty o1 = (case o1 of None \<Rightarrow> [] | Some s \<Rightarrow> s)"

definition audit_leaf_text :: "audit_entry \<Rightarrow> string" where
  "audit_leaf_text e = join ''|'' [ae_tenant_id e, or_empty (ae_instance_id e),
     (case ae_sequence_id e of Some i \<Rightarrow> show_int i | None \<Rightarrow> []), ae_result e, ae_verified_at e,
     or_empty (ae_failure_code e)]"

definition compute_audit_leaf :: "ext \<Rightarrow> audit_entry \<Rightarrow> string" where
  "compute_audit_leaf x e = hexdigest x (utf8 (audit_leaf_text e))"

subsection \<open>Recording\<close>

text \<open>\<open>_safe_get(d, k)\<close> and \<open>_safe_get_int(d, k1, k2)\<close>; a missing key or a wrong type gives \<open>None\<close>.\<close>

fun safe_path :: "pyval \<Rightarrow> string list \<Rightarrow> pyval option" where
  "safe_path v [] = Some v"
| "safe_path v (k # ks) = (case v of PyDict d \<Rightarrow>
     (case dget d k of None \<Rightarrow> None | Some w \<Rightarrow> safe_path w ks) | _ \<Rightarrow> None)"

definition safe_get :: "pyval \<Rightarrow> string list \<Rightarrow> string option" where
  "safe_get d ks = (case safe_path d ks of
     None \<Rightarrow> None | Some v \<Rightarrow> if v = PyNone then None else Some (py_str v))"

definition safe_get_int :: "ext \<Rightarrow> pyval \<Rightarrow> string list \<Rightarrow> int option" where
  "safe_get_int x d ks = (case safe_path d ks of
     None \<Rightarrow> None | Some v \<Rightarrow> if v = PyNone then None else py_int x v)"

definition as_opt_str :: "pyval \<Rightarrow> string option res" where
  "as_opt_str v = (case v of PyNone \<Rightarrow> Inr None | PyStr s \<Rightarrow> Inr (Some s) | _ \<Rightarrow> Inl TypeError)"

text \<open>\<open>verify_result\<close> is the dictionary that \<open>verify_proof_full\<close> returns.\<close>

definition audit_fields ::
    "ext \<Rightarrow> string \<Rightarrow> string \<Rightarrow> string \<Rightarrow> pyval \<Rightarrow> pydict \<Rightarrow> audit_entry res" where
  "audit_fields x now tenant_id trace_id proof_dict verify_result =
     (let get = (\<lambda>k. dget_or verify_result k PyNone);
          verified_at = (if truthy (get ''verified_at'') then get ''verified_at'' else PyStr now);
          failure = (if truthy (get ''failure_reason'') then get ''failure_reason'' else PyDict []);
          gov = get ''governance_recorded''
      in rbind (case verified_at of PyStr s \<Rightarrow> Inr s | _ \<Rightarrow> Inl TypeError) (\<lambda>va.
         rbind (if truthy failure
                then (case failure of PyDict d \<Rightarrow>
                    rbind (as_opt_str (dget_or d ''type'' PyNone)) (\<lambda>c.
                    rbind (as_opt_str (dget_or d ''message'' PyNone)) (\<lambda>m. Inr (c, m)))
                  | _ \<Rightarrow> Inl AttributeError)
                else Inr (None, None)) (\<lambda>(failure_code, failure_msg).
         rbind (as_opt_str (get ''key_id'')) (\<lambda>key_id.
         rbind (if truthy gov
                then rbind (opt_res TypeError (json_dumps False gov)) (\<lambda>s. Inr (Some s)) else Inr None) (\<lambda>gov_json.
         Inr \<lparr>ae_tenant_id = tenant_id, ae_trace_id = trace_id,
              ae_instance_id = safe_get proof_dict [''instance_id''],
              ae_sequence_id = safe_get_int x proof_dict [''ledger'', ''sequence_id''],
              ae_proof_id = safe_get proof_dict [''proof_id''], ae_verified_at = va,
              ae_result = (if truthy (get ''valid'') then ''valid'' else ''invalid''),
              ae_failure_code = failure_code, ae_failure_msg = failure_msg, ae_key_id = key_id,
              ae_governance_json = gov_json, ae_recorded_at = now, ae_sequence_num = 0, ae_row_hash = [],
              ae_prev_chain_hash = [], ae_chain_hash = []\<rparr>)))))"

definition tenant_rows :: "string \<Rightarrow> audit_entry list \<Rightarrow> audit_entry list" where
  "tenant_rows tenant_id rows = filter (\<lambda>r. ae_tenant_id r = tenant_id) rows"

definition get_latest_chain_hash :: "audit_entry list \<Rightarrow> string \<Rightarrow> string" where
  "get_latest_chain_hash rows tenant_id =
     (case db_last (\<lambda>r. ae_tenant_id r = tenant_id) rows of Some r \<Rightarrow> ae_chain_hash r | None \<Rightarrow> GENESIS_HASH)"

definition max_sequence_num :: "audit_entry list \<Rightarrow> string \<Rightarrow> int" where
  "max_sequence_num rows tenant_id =
     foldr (\<lambda>r m. max (ae_sequence_num r) m) (tenant_rows tenant_id rows) 0"

text \<open>
  The second read of \<open>record\<close>, of the highest sequence number, and the three hashes; the chain hash was read before.
  \<open>audit_prepare\<close>: both reads on the same table.
\<close>

definition audit_seal :: "ext \<Rightarrow> audit_entry \<Rightarrow> string \<Rightarrow> audit_entry list \<Rightarrow> audit_entry res" where
  "audit_seal x e prev_chain_hash rows =
     (let e1 = e\<lparr>ae_sequence_num := max_sequence_num rows (ae_tenant_id e) + 1\<rparr>
      in rbind (compute_row_hash x e1) (\<lambda>row_hash.
         rbind (compute_chain_hash x prev_chain_hash row_hash) (\<lambda>chain_hash.
         Inr (e1\<lparr>ae_row_hash := row_hash, ae_prev_chain_hash := prev_chain_hash, ae_chain_hash := chain_hash\<rparr>))))"

definition audit_prepare :: "ext \<Rightarrow> audit_entry \<Rightarrow> audit_entry list \<Rightarrow> audit_entry res" where
  "audit_prepare x e rows = audit_seal x e (get_latest_chain_hash rows (ae_tenant_id e)) rows"

text \<open>\<open>INSERT\<close> with \<open>CHECK(result IN ...)\<close> and \<open>UNIQUE(tenant_id, sequence_num)\<close>.\<close>

definition audit_insert :: "audit_entry \<Rightarrow> audit_entry list \<Rightarrow> audit_entry res \<times> audit_entry list" where
  "audit_insert e rows =
     (if (ae_result e = ''valid'' \<or> ae_result e = ''invalid'') \<and>
         list_all (\<lambda>r. \<not> (ae_tenant_id r = ae_tenant_id e \<and> ae_sequence_num r = ae_sequence_num e)) rows
      then (Inr e, rows @ [e]) else (Inl IntegrityError, rows))"

definition audit_record ::
    "ext \<Rightarrow> string \<Rightarrow> string \<Rightarrow> string \<Rightarrow> pyval \<Rightarrow> pydict \<Rightarrow> audit_entry list \<Rightarrow> audit_entry res \<times> audit_entry list" where
  "audit_record x now tenant_id trace_id proof_dict verify_result rows =
     (case rbind (audit_fields x now tenant_id trace_id proof_dict verify_result) (\<lambda>e. audit_prepare x e rows) of
        Inl err \<Rightarrow> (Inl err, rows)
      | Inr e \<Rightarrow> audit_insert e rows)"

subsection \<open>Verifying and reading\<close>

record chain_result =
  cr_valid :: bool
  cr_total_rows :: nat
  cr_broken_at_id :: "nat option"

text \<open>The rows of a tenant with their ids.\<close>

definition rows_with_id :: "string \<Rightarrow> audit_entry list \<Rightarrow> (nat \<times> audit_entry) list" where
  "rows_with_id tenant_id rows = filter (\<lambda>p. ae_tenant_id (snd p) = tenant_id) (enumerate 1 rows)"

fun audit_walk :: "ext \<Rightarrow> string \<Rightarrow> (nat \<times> audit_entry) list \<Rightarrow> nat option res" where
  "audit_walk x prev_chain_hash [] = Inr None"
| "audit_walk x prev_chain_hash ((i, r) # rs) =
     rbind (compute_row_hash x r) (\<lambda>expected_row_hash.
     rbind (compute_chain_hash x prev_chain_hash expected_row_hash) (\<lambda>expected_chain_hash.
     if ae_row_hash r \<noteq> expected_row_hash then Inr (Some i)
     else if ae_chain_hash r \<noteq> expected_chain_hash then Inr (Some i)
     else audit_walk x (ae_chain_hash r) rs))"

definition audit_verify_chain :: "ext \<Rightarrow> audit_entry list \<Rightarrow> string \<Rightarrow> chain_result res" where
  "audit_verify_chain x rows tenant_id =
     (let rs = rows_with_id tenant_id rows in
      if rs = [] then Inr \<lparr>cr_valid = True, cr_total_rows = 0, cr_broken_at_id = None\<rparr>
      else rbind (audit_walk x GENESIS_HASH rs) (\<lambda>b.
        Inr \<lparr>cr_valid = (b = None), cr_total_rows = length rs, cr_broken_at_id = b\<rparr>))"

text \<open>
  \<open>verify_chain_at_block\<close> walks the rows up to a sequence number, ordered by it; the result is the chain
  hash at the block, or the sequence number of the first broken row.
\<close>

fun block_walk :: "ext \<Rightarrow> string \<Rightarrow> audit_entry list \<Rightarrow> (int + string) res" where
  "block_walk x prev_chain_hash [] = Inr (Inr prev_chain_hash)"
| "block_walk x prev_chain_hash (r # rs) =
     rbind (compute_row_hash x r) (\<lambda>expected_rh.
     rbind (compute_chain_hash x prev_chain_hash expected_rh) (\<lambda>expected_ch.
     if ae_row_hash r \<noteq> expected_rh \<or> ae_chain_hash r \<noteq> expected_ch then Inr (Inl (ae_sequence_num r))
     else block_walk x (ae_chain_hash r) rs))"

definition verify_chain_at_block :: "ext \<Rightarrow> audit_entry list \<Rightarrow> string \<Rightarrow> int \<Rightarrow> ((int + string) \<times> nat) res" where
  "verify_chain_at_block x rows tenant_id sequence_num =
     (let rs = sort_key ae_sequence_num (filter (\<lambda>r. ae_sequence_num r \<le> sequence_num) (tenant_rows tenant_id rows))
      in rbind (block_walk x GENESIS_HASH rs) (\<lambda>b. Inr (b, length rs)))"

definition audit_query ::
    "audit_entry list \<Rightarrow> string \<Rightarrow> string option \<Rightarrow> string option \<Rightarrow> string option \<Rightarrow> string option \<Rightarrow> int \<Rightarrow> nat
       \<Rightarrow> audit_entry list \<times> nat" where
  "audit_query rows tenant_id from_date to_date result instance_id lim offset =
     (let lim = min lim QUERY_MAX_LIMIT;
          given = (\<lambda>f. f \<noteq> None \<and> f \<noteq> Some []);
          hits = filter (\<lambda>r. ae_tenant_id r = tenant_id \<and>
             (given from_date \<longrightarrow> or_empty from_date \<le> ae_verified_at r) \<and>
             (given to_date \<longrightarrow> ae_verified_at r \<le> or_empty to_date) \<and>
             (result = Some ''valid'' \<or> result = Some ''invalid'' \<longrightarrow> Some (ae_result r) = result) \<and>
             (given instance_id \<longrightarrow> ae_instance_id r = instance_id)) rows;
          ordered = rev (sort_key ae_verified_at hits);
          page = drop offset ordered
      in (if lim < 0 then page else take (nat lim) page, length hits))"

definition get_by_trace :: "audit_entry list \<Rightarrow> string \<Rightarrow> string \<Rightarrow> audit_entry list" where
  "get_by_trace rows tenant_id trace_id =
     filter (\<lambda>r. ae_tenant_id r = tenant_id \<and> ae_trace_id r = trace_id) rows"

definition audit_count :: "audit_entry list \<Rightarrow> string \<Rightarrow> nat" where
  "audit_count rows tenant_id = length (tenant_rows tenant_id rows)"

record audit_stats_r =
  st_total :: nat
  st_valid :: nat
  st_invalid :: nat
  st_first_verified :: "string option"
  st_last_verified :: "string option"
  st_chain_hash :: string

text \<open>\<open>stats\<close> (\<open>valid_rate\<close>, a rounded float of the other two numbers, is left out).\<close>

definition audit_stats :: "audit_entry list \<Rightarrow> string \<Rightarrow> audit_stats_r" where
  "audit_stats rows tenant_id =
     (let rs = tenant_rows tenant_id rows; vs = sort (map ae_verified_at rs) in
      if rs = [] then \<lparr>st_total = 0, st_valid = 0, st_invalid = 0, st_first_verified = None,
        st_last_verified = None, st_chain_hash = GENESIS_HASH\<rparr>
      else \<lparr>st_total = length rs, st_valid = length (filter (\<lambda>r. ae_result r = ''valid'') rs),
        st_invalid = length (filter (\<lambda>r. ae_result r = ''invalid'') rs),
        st_first_verified = Some (hd vs), st_last_verified = Some (last vs),
        st_chain_hash = get_latest_chain_hash rows tenant_id\<rparr>)"

subsection \<open>The chain invariant\<close>

definition audit_bytes :: "audit_entry \<Rightarrow> bytes" where
  "audit_bytes e = utf8 (emit False (norm (audit_content e)))"

lemma opt_int_val [simp]: "plain (opt_int i)" "wf_val (opt_int i)"
  by (simp_all add: opt_int_def split: option.splits)

lemma audit_content_plain: "plain (audit_content e)" "wf_val (audit_content e)"
  by (simp_all add: audit_content_def)

lemma compute_row_hash_eq: "compute_row_hash x e = Inr (hexdigest x (audit_bytes e))"
  unfolding compute_row_hash_def json_dumps_plain [OF audit_content_plain(1)] by (simp add: audit_bytes_def)

lemma compute_chain_hash_eq: "compute_chain_hash x (hex a) (hexdigest x m) = Inr (hexdigest x (a @ x_sha256 x m))"
  by (simp add: compute_chain_hash_def)

lemma hex_genesis: "hex genesis_bytes = GENESIS_HASH"
  by (simp add: hex_genesis_bytes GENESIS_HASH_def)

abbreviation audit_chained :: "ext \<Rightarrow> bytes \<Rightarrow> audit_entry list \<Rightarrow> bool" where
  "audit_chained x \<equiv> chained x audit_bytes ae_row_hash ae_chain_hash"

lemma audit_walk_Cons:
  "audit_walk x (hex prev) ((i, r) # rs) =
     (if ae_row_hash r = hexdigest x (audit_bytes r) \<and>
         ae_chain_hash r = hexdigest x (prev @ x_sha256 x (audit_bytes r))
      then audit_walk x (hex (x_sha256 x (prev @ x_sha256 x (audit_bytes r)))) rs else Inr (Some i))"
  by (auto simp: compute_row_hash_eq compute_chain_hash_eq) (simp_all add: hexdigest_def)

lemma audit_walk_iff: "audit_walk x (hex prev) rs = Inr None \<longleftrightarrow> audit_chained x prev (map snd rs)"
proof (induction rs arbitrary: prev)
  case (Cons p rs)
  obtain i r where p: "p = (i, r)" by (cases p)
  show ?case unfolding p audit_walk_Cons by (auto simp: Cons.IH)
qed simp

lemma audit_walk_total: "\<exists>b. audit_walk x (hex prev) rs = Inr b"
proof (induction rs arbitrary: prev)
  case (Cons p rs)
  obtain i r where p: "p = (i, r)" by (cases p)
  show ?case unfolding p audit_walk_Cons by (auto simp: Cons.IH)
qed simp

lemma rows_with_id_rows: "map snd (rows_with_id t rows) = tenant_rows t rows"
proof -
  have "map snd (filter (\<lambda>p. ae_tenant_id (snd p) = t) (enumerate n rows)) = filter (\<lambda>r. ae_tenant_id r = t) rows" for n
    by (induction rows arbitrary: n) auto
  then show ?thesis by (simp add: rows_with_id_def tenant_rows_def)
qed

lemma audit_verify_chain_iff:
  "(\<exists>r. audit_verify_chain x rows t = Inr r \<and> cr_valid r) \<longleftrightarrow> audit_chained x genesis_bytes (tenant_rows t rows)"
proof (cases "rows_with_id t rows = []")
  case True
  then show ?thesis using rows_with_id_rows [of t rows] by (simp add: audit_verify_chain_def Let_def)
next
  case False
  obtain b where b: "audit_walk x GENESIS_HASH (rows_with_id t rows) = Inr b"
    using audit_walk_total [of x genesis_bytes] unfolding hex_genesis by blast
  have "b = None \<longleftrightarrow> audit_chained x genesis_bytes (tenant_rows t rows)"
    using audit_walk_iff [of x genesis_bytes "rows_with_id t rows"] unfolding hex_genesis rows_with_id_rows b by simp
  then show ?thesis using False b by (simp add: audit_verify_chain_def Let_def)
qed

definition audit_numbered :: "audit_entry list \<Rightarrow> bool" where
  "audit_numbered rows \<longleftrightarrow>
     (\<forall>t. map ae_sequence_num (tenant_rows t rows) = map int [1..<Suc (length (tenant_rows t rows))])"

definition audit_ok :: "ext \<Rightarrow> audit_entry list \<Rightarrow> bool" where
  "audit_ok x rows \<longleftrightarrow> (\<forall>t. audit_chained x genesis_bytes (tenant_rows t rows) \<and>
     map ae_sequence_num (tenant_rows t rows) = map int [1..<Suc (length (tenant_rows t rows))])"

lemma audit_ok_parts:
  "audit_ok x rows \<longleftrightarrow> audit_numbered rows \<and> (\<forall>t. audit_chained x genesis_bytes (tenant_rows t rows))"
  by (auto simp: audit_ok_def audit_numbered_def)

lemma max_numbered:
  assumes "map ae_sequence_num rs = map int [1..<Suc n]"
  shows "foldr (\<lambda>r m. max (ae_sequence_num r) m) rs 0 = int n"
proof -
  have f: "foldr (\<lambda>r m. max (ae_sequence_num r) m) rs 0 = foldr max (map ae_sequence_num rs) 0" for rs
    by (induction rs) auto
  have "foldr max (map int [1..<Suc n]) (k::int) = max k (int n)" if "0 \<le> k" for k n
    using that by (induction n arbitrary: k) auto
  from this [of 0 n] show ?thesis unfolding f assms by simp
qed

lemma latest_chain_hash:
  assumes "audit_chained x genesis_bytes (tenant_rows t rows)"
  shows "get_latest_chain_hash rows t = hex (chain_end x audit_bytes genesis_bytes (tenant_rows t rows))"
proof (cases "tenant_rows t rows = []")
  case True
  then have "db_last (\<lambda>r. ae_tenant_id r = t) rows = None"
    by (auto simp: db_last_None tenant_rows_def filter_empty_conv)
  with True show ?thesis by (simp add: get_latest_chain_hash_def hex_genesis)
next
  case False
  then have "db_last (\<lambda>r. ae_tenant_id r = t) rows = Some (last (tenant_rows t rows))"
    by (simp add: db_last_filter tenant_rows_def)
  with chained_last [OF assms False] show ?thesis by (simp add: get_latest_chain_hash_def)
qed

lemma max_sequence_num_numbered:
  "audit_numbered rows \<Longrightarrow> max_sequence_num rows t = int (length (tenant_rows t rows))"
  by (auto simp: audit_numbered_def max_sequence_num_def intro: max_numbered)

text \<open>What \<open>audit_seal\<close> computes from a hash that is the text of bytes, on a numbered table.\<close>

lemma audit_seal_eq:
  assumes "audit_numbered rows"
  obtains e' where "audit_seal x e (hex p) rows = Inr e'" "ae_tenant_id e' = ae_tenant_id e" "ae_result e' = ae_result e"
    "ae_sequence_num e' = int (length (tenant_rows (ae_tenant_id e) rows)) + 1" "ae_prev_chain_hash e' = hex p"
    "ae_row_hash e' = hexdigest x (audit_bytes e')" "ae_chain_hash e' = hexdigest x (p @ x_sha256 x (audit_bytes e'))"
proof -
  let ?e1 = "e\<lparr>ae_sequence_num := max_sequence_num rows (ae_tenant_id e) + 1\<rparr>"
  have b: "audit_bytes (?e1\<lparr>ae_row_hash := a, ae_prev_chain_hash := p, ae_chain_hash := h\<rparr>) = audit_bytes ?e1" for a p h
    by (simp add: audit_bytes_def audit_content_def)
  let ?e' = "?e1\<lparr>ae_row_hash := hexdigest x (audit_bytes ?e1), ae_prev_chain_hash := hex p,
      ae_chain_hash := hexdigest x (p @ x_sha256 x (audit_bytes ?e1))\<rparr>"
  have "audit_seal x e (hex p) rows = Inr ?e'"
    by (simp add: audit_seal_def Let_def compute_row_hash_eq compute_chain_hash_eq)
  then show thesis
    by (rule that [of ?e']) (simp_all only: b, simp_all add: max_sequence_num_numbered [OF assms])
qed

text \<open>Whatever hash it is given, a sealed entry carries the next number of the table it was sealed on.\<close>

lemma audit_seal_number:
  assumes "audit_numbered rows" "audit_seal x e h rows = Inr e'"
  shows "ae_tenant_id e' = ae_tenant_id e" "ae_sequence_num e' = int (length (tenant_rows (ae_tenant_id e) rows)) + 1"
  using assms(2) max_sequence_num_numbered [OF assms(1)] by (auto simp: audit_seal_def Let_def compute_row_hash_eq)

lemma audit_prepare_ok:
  assumes "audit_ok x rows"
  obtains e' where "audit_prepare x e rows = Inr e'" "ae_tenant_id e' = ae_tenant_id e" "ae_result e' = ae_result e"
    "ae_sequence_num e' = int (length (tenant_rows (ae_tenant_id e) rows)) + 1"
    "ae_row_hash e' = hexdigest x (audit_bytes e')"
    "ae_chain_hash e' = hexdigest x (chain_end x audit_bytes genesis_bytes (tenant_rows (ae_tenant_id e) rows) @
       x_sha256 x (audit_bytes e'))"
proof -
  have c: "audit_chained x genesis_bytes (tenant_rows (ae_tenant_id e) rows)" and n: "audit_numbered rows"
    using assms by (simp_all add: audit_ok_parts)
  show thesis
    by (rule audit_seal_eq [OF n, of x e "chain_end x audit_bytes genesis_bytes (tenant_rows (ae_tenant_id e) rows)"])
      (rule that, simp_all add: audit_prepare_def latest_chain_hash [OF c])
qed

lemma tenant_rows_append [simp]:
  "tenant_rows t (rows @ [e]) = tenant_rows t rows @ (if ae_tenant_id e = t then [e] else [])"
  by (simp add: tenant_rows_def)

lemma audit_ok_append:
  assumes "audit_ok x rows" "ae_sequence_num e = int (length (tenant_rows (ae_tenant_id e) rows)) + 1"
    "ae_row_hash e = hexdigest x (audit_bytes e)"
    "ae_chain_hash e = hexdigest x (chain_end x audit_bytes genesis_bytes (tenant_rows (ae_tenant_id e) rows) @
       x_sha256 x (audit_bytes e))"
  shows "audit_ok x (rows @ [e])"
  using assms unfolding audit_ok_def by (auto simp: chained_append)

lemma audit_insert_fresh:
  assumes "audit_ok x rows" "ae_sequence_num e = int (length (tenant_rows (ae_tenant_id e) rows)) + 1"
    "ae_result e = ''valid'' \<or> ae_result e = ''invalid''"
  shows "audit_insert e rows = (Inr e, rows @ [e])"
proof -
  have "ae_sequence_num r \<noteq> ae_sequence_num e" if "r \<in> set rows" "ae_tenant_id r = ae_tenant_id e" for r
  proof -
    have "r \<in> set (tenant_rows (ae_tenant_id e) rows)" using that by (simp add: tenant_rows_def)
    then have "ae_sequence_num r \<in> set (map int [1..<Suc (length (tenant_rows (ae_tenant_id e) rows))])"
      using assms(1) unfolding audit_ok_def by (metis image_eqI set_map)
    then show ?thesis using assms(2) by auto
  qed
  with assms(3) show ?thesis by (auto simp: audit_insert_def list_all_iff)
qed

lemma audit_fields_result:
  "audit_fields x now t tr pd vr = Inr e \<Longrightarrow> ae_tenant_id e = t \<and> (ae_result e = ''valid'' \<or> ae_result e = ''invalid'')"
  unfolding audit_fields_def Let_def
  by (simp only: rbind_Inr_iff split_paired_Ex prod.case sum.inject) (elim exE conjE, hypsubst, simp)

lemma audit_record_ok:
  assumes "audit_ok x rows"
  shows "(\<exists>err. audit_fields x now t tr pd vr = Inl err \<and> audit_record x now t tr pd vr rows = (Inl err, rows)) \<or>
    (\<exists>e. audit_record x now t tr pd vr rows = (Inr e, rows @ [e]) \<and> ae_tenant_id e = t \<and> audit_ok x (rows @ [e]))"
proof (cases "audit_fields x now t tr pd vr")
  case (Inr e)
  obtain e' where e': "audit_prepare x e rows = Inr e'" "ae_tenant_id e' = ae_tenant_id e" "ae_result e' = ae_result e"
    "ae_sequence_num e' = int (length (tenant_rows (ae_tenant_id e) rows)) + 1"
    "ae_row_hash e' = hexdigest x (audit_bytes e')"
    "ae_chain_hash e' = hexdigest x (chain_end x audit_bytes genesis_bytes (tenant_rows (ae_tenant_id e) rows) @
       x_sha256 x (audit_bytes e'))"
    using audit_prepare_ok [OF assms] by blast
  note r = audit_fields_result [OF Inr]
  have "audit_insert e' rows = (Inr e', rows @ [e'])"
    using e' r by (intro audit_insert_fresh [OF assms]) simp_all
  moreover have "audit_ok x (rows @ [e'])"
    using e' by (intro audit_ok_append [OF assms]) simp_all
  ultimately show ?thesis using Inr e' r by (simp add: audit_record_def)
qed (simp add: audit_record_def)

text \<open>One call of \<open>record\<close> as a step of the log.\<close>

type_synonym audit_call = "string \<times> string \<times> string \<times> pyval \<times> pydict"

definition audit_step :: "ext \<Rightarrow> audit_call \<Rightarrow> audit_entry list \<Rightarrow> audit_entry list" where
  "audit_step x q rows = (case q of (now, t, tr, pd, vr) \<Rightarrow> snd (audit_record x now t tr pd vr rows))"

interpretation audit: chained_log "audit_step x" "\<lambda>rows. rows" "audit_ok x"
  "\<lambda>rows. \<forall>t. \<exists>r. audit_verify_chain x rows t = Inr r \<and> cr_valid r" for x
proof unfold_locales
  fix s and q :: audit_call assume a: "audit_ok x s"
  obtain now t tr pd vr where q: "q = (now, t, tr, pd, vr)" by (cases q)
  show "audit_ok x (audit_step x q s)" "\<exists>rs. audit_step x q s = s @ rs"
    using audit_record_ok [OF a, of now t tr pd vr] a by (auto simp: audit_step_def q)
  show "\<forall>t. \<exists>r. audit_verify_chain x s t = Inr r \<and> cr_valid r"
    using a unfolding audit_verify_chain_iff audit_ok_def by blast
qed

lemma audit_ok_init: "audit_ok x []"
  by (simp add: audit_ok_def tenant_rows_def)

subsection \<open>Concurrent recorders\<close>

text \<open>
  Threads have their own connections: between the statements of one call of \<open>record\<close> others may insert.  The
  state is the table, the calls that have read a chain hash and the entries sealed but not yet inserted.  With
  \<open>calm\<close> the chain hash a call has read is still the last one of its tenant at its second read, as
  it is when no insertion falls between the two reads of a call.
\<close>

type_synonym recorders = "audit_entry list \<times> (audit_entry \<times> string) list \<times> audit_entry list"

inductive recorder_step :: "bool \<Rightarrow> ext \<Rightarrow> recorders \<Rightarrow> recorders \<Rightarrow> bool" for calm x where
  rec_read: "audit_fields x now t tr pd vr = Inr e \<Longrightarrow>
     recorder_step calm x (rows, reading, pending) (rows, (e, get_latest_chain_hash rows (ae_tenant_id e)) # reading, pending)"
| rec_seal: "(e, h) \<in> set reading \<Longrightarrow> (calm \<Longrightarrow> h = get_latest_chain_hash rows (ae_tenant_id e)) \<Longrightarrow> audit_seal x e h rows = Inr e' \<Longrightarrow>
     recorder_step calm x (rows, reading, pending) (rows, remove1 (e, h) reading, e' # pending)"
| rec_fail: "(e, h) \<in> set reading \<Longrightarrow> audit_seal x e h rows = Inl err \<Longrightarrow>
     recorder_step calm x (rows, reading, pending) (rows, remove1 (e, h) reading, pending)"
| rec_insert: "e \<in> set pending \<Longrightarrow> audit_insert e rows = (r, rows') \<Longrightarrow>
     recorder_step calm x (rows, reading, pending) (rows', reading, remove1 e pending)"

inductive recorder_reach :: "bool \<Rightarrow> ext \<Rightarrow> recorders \<Rightarrow> bool" for calm x where
  rr_init: "recorder_reach calm x ([], [], [])"
| rr_step: "recorder_reach calm x s \<Longrightarrow> recorder_step calm x s s' \<Longrightarrow> recorder_reach calm x s'"

text \<open>An entry was sealed when the table was the prefix \<open>old\<close> of what it is now; in a calm run it extends that chain.\<close>

definition numbered_at :: "audit_entry list \<Rightarrow> audit_entry \<Rightarrow> bool" where
  "numbered_at old e \<longleftrightarrow> ae_sequence_num e = int (length (tenant_rows (ae_tenant_id e) old)) + 1"

definition sealed_at :: "ext \<Rightarrow> audit_entry list \<Rightarrow> audit_entry \<Rightarrow> bool" where
  "sealed_at x old e \<longleftrightarrow> ae_row_hash e = hexdigest x (audit_bytes e) \<and>
     ae_chain_hash e = hexdigest x (chain_end x audit_bytes genesis_bytes (tenant_rows (ae_tenant_id e) old) @
       x_sha256 x (audit_bytes e))"

definition recorder_ok :: "bool \<Rightarrow> ext \<Rightarrow> recorders \<Rightarrow> bool" where
  "recorder_ok calm x s \<longleftrightarrow> (case s of (rows, reading, pending) \<Rightarrow>
     audit_numbered rows \<and> (calm \<longrightarrow> audit_ok x rows) \<and>
     (\<forall>e\<in>set pending. \<exists>old new. rows = old @ new \<and> numbered_at old e \<and> (calm \<longrightarrow> sealed_at x old e)))"

text \<open>
  The uniqueness of \<open>(tenant_id, sequence_num)\<close> refuses an entry whose number was read before another
  entry of its tenant went in.
\<close>

lemma stale_insert:
  assumes "audit_numbered rows" "rows = old @ new" "numbered_at old e" "audit_insert e rows = (Inr e', rows')"
  shows "tenant_rows (ae_tenant_id e) new = []"
proof (rule ccontr)
  let ?t = "ae_tenant_id e"
  let ?o = "tenant_rows ?t old" and ?n = "tenant_rows ?t new"
  assume ne: "?n \<noteq> []"
  have rows: "tenant_rows ?t rows = ?o @ ?n" by (simp add: assms(2) tenant_rows_def)
  have "map ae_sequence_num (?o @ ?n) = map int [1..<Suc (length ?o + length ?n)]"
    using assms(1) rows unfolding audit_numbered_def by (metis length_append)
  then have "map ae_sequence_num (?o @ ?n) ! length ?o = map int [1..<Suc (length ?o + length ?n)] ! length ?o" by simp
  with ne have "ae_sequence_num (?n ! 0) = int (length ?o) + 1"
    by (simp add: nth_append del: upt_Suc)
  moreover have "?n ! 0 \<in> set ?n" using ne by (intro nth_mem) simp
  then have "?n ! 0 \<in> set rows" "ae_tenant_id (?n ! 0) = ?t" using assms(2) by (auto simp: tenant_rows_def)
  ultimately show False
    using assms(3,4) by (auto simp: audit_insert_def numbered_at_def list_all_iff split: if_splits)
qed

lemma audit_numbered_append: "audit_numbered rows \<Longrightarrow> numbered_at rows e \<Longrightarrow> audit_numbered (rows @ [e])"
  by (auto simp: audit_numbered_def numbered_at_def)

lemma calm_seal:
  assumes "audit_ok x rows" "audit_seal x e (get_latest_chain_hash rows (ae_tenant_id e)) rows = Inr e'"
  shows "sealed_at x rows e'"
  using audit_prepare_ok [OF assms(1), of e] assms(2) unfolding audit_prepare_def sealed_at_def by (metis sum.inject(2))

lemma recorder_ok_step: "recorder_step calm x s s' \<Longrightarrow> recorder_ok calm x s \<Longrightarrow> recorder_ok calm x s'"
proof (induction rule: recorder_step.induct)
  case (rec_seal e h reading rows e' pending)
  have "numbered_at rows e'"
    using audit_seal_number [OF _ rec_seal(3)] rec_seal(4) by (simp add: recorder_ok_def numbered_at_def)
  moreover have "calm \<longrightarrow> sealed_at x rows e'" using calm_seal rec_seal(2-4) by (auto simp: recorder_ok_def)
  ultimately show ?case using rec_seal(4) by (auto simp: recorder_ok_def)
next
  case (rec_insert e pending rows r rows' reading)
  have num: "audit_numbered rows" and ok: "calm \<longrightarrow> audit_ok x rows"
    and pend: "\<forall>a\<in>set pending. \<exists>old new. rows = old @ new \<and> numbered_at old a \<and> (calm \<longrightarrow> sealed_at x old a)"
    using rec_insert(3) by (auto simp: recorder_ok_def)
  show ?case
  proof (cases r)
    case (Inl err)
    with rec_insert(2) have "rows' = rows" by (auto simp: audit_insert_def split: if_splits)
    with num ok pend show ?thesis by (auto simp: recorder_ok_def dest: notin_set_remove1)
  next
    case (Inr e')
    obtain old new where o: "rows = old @ new" "numbered_at old e" "calm \<longrightarrow> sealed_at x old e" using pend rec_insert(1) by blast
    have "tenant_rows (ae_tenant_id e) new = []"
      using stale_insert [OF num o(1,2)] rec_insert(2) Inr by blast
    then have t: "tenant_rows (ae_tenant_id e) rows = tenant_rows (ae_tenant_id e) old"
      by (simp add: o(1) tenant_rows_def)
    have "audit_numbered (rows @ [e])" using num o(2) by (intro audit_numbered_append) (simp_all add: numbered_at_def t)
    moreover have "audit_ok x (rows @ [e])" if calm
      using that ok o(2,3) by (intro audit_ok_append) (simp_all add: numbered_at_def sealed_at_def t)
    moreover have "rows' = rows @ [e]" using rec_insert(2) Inr by (auto simp: audit_insert_def split: if_splits)
    moreover have "\<exists>old new. rows @ [e] = old @ new \<and> numbered_at old a \<and> (calm \<longrightarrow> sealed_at x old a)" if "a \<in> set pending" for a
      using pend that by (metis append_assoc)
    ultimately show ?thesis by (auto simp: recorder_ok_def dest: notin_set_remove1)
  qed
qed (auto simp: recorder_ok_def)

lemma recorder_ok_reach: "recorder_reach calm x s \<Longrightarrow> recorder_ok calm x s"
proof (induction rule: recorder_reach.induct)
  case rr_init
  then show ?case by (simp add: recorder_ok_def audit_ok_init audit_numbered_def tenant_rows_def)
qed (rule recorder_ok_step)

subsection \<open>Properties\<close>

lemma opt_int_norm: "norm (opt_int i) = opt_int i"
  by (simp add: opt_int_def split: option.splits)

lemma map_factors:
  assumes "\<And>a b. f a = f b \<Longrightarrow> g a = g b" "map f xs = map f ys"
  shows "map g xs = map g ys"
  using assms(2)
proof (induction xs arbitrary: ys)
  case (Cons a xs)
  then obtain b zs where "ys = b # zs" "f a = f b" "map f xs = map f zs" by (auto simp: Cons_eq_map_conv)
  with Cons.IH assms(1) [of a b] show ?case by simp
qed simp

text \<open>A change of a field that is not hashed.\<close>

lemma chain_messages_map:
  "(\<And>r. content (f r) = content r) \<Longrightarrow> chain_messages x content g (map f rs) = chain_messages x content g rs"
  by (induction rs arbitrary: g) simp_all

lemma chain_end_map:
  "(\<And>r. content (f r) = content r) \<Longrightarrow> chain_end x content g (map f rs) = chain_end x content g rs"
  by (induction rs arbitrary: g) simp_all

lemma chained_map:
  "chained x content rh ch g rs \<Longrightarrow> (\<And>r. content (f r) = content r) \<Longrightarrow> (\<And>r. rh (f r) = rh r) \<Longrightarrow>
     (\<And>r. ch (f r) = ch r) \<Longrightarrow> chained x content rh ch g (map f rs)"
  by (induction rs arbitrary: g) simp_all

text \<open>The bytes that are hashed determine the content of an entry.\<close>

lemma audit_bytes_content:
  assumes "audit_bytes e = audit_bytes e'"
  shows "audit_content e = audit_content e'"
proof -
  have l: "json_loads (emit False (norm (audit_content a))) = Some (norm (audit_content a))" for a
    by (rule json_loads_emit) (simp_all add: audit_content_plain)
  have "emit False (norm (audit_content e)) = emit False (norm (audit_content e'))"
    using assms by (simp add: audit_bytes_def del: norm.simps)
  with l [of e] l [of e'] have "norm (audit_content e) = norm (audit_content e')" by (metis option.inject)
  then show ?thesis by (simp add: audit_content_def opt_int_norm)
qed

definition sample_audit :: "audit_entry list" where
  "sample_audit = snd (audit_record sample_ext ''now'' ''t'' ''r'' (PyDict []) [] [])"

lemma sample_audit_distinct:
  "distinct (map (x_sha256 sample_ext) (chain_messages sample_ext audit_bytes genesis_bytes (tenant_rows ''t'' sample_audit)))"
  by code_simp

lemma sample_audit_nonzero:
  "list_all (\<lambda>m. x_sha256 sample_ext m \<noteq> genesis_bytes)
     (chain_messages sample_ext audit_bytes genesis_bytes (tenant_rows ''t'' sample_audit))"
  by code_simp

text \<open>
  C10: However the statements of concurrent calls of \<open>record\<close> interleave (the read of the last chain hash, the read of the
  highest number, the insertion), the entries of every tenant are numbered 1, 2, 3 and so on without a gap: the unique index
  refuses an entry whose number is outdated.  If moreover no insertion of a tenant's entry falls between the two reads
  of a call for it (\<open>calm\<close>: the hash read first is still the tenant's last at the second read), \<open>verify_chain\<close>
  answers valid for every tenant and has walked all its entries.
\<close>

theorem concurrent_records_verify:
  assumes "recorder_reach calm x (rows, reading, pending)"
  shows "map ae_sequence_num (tenant_rows t rows) = map int [1..<Suc (length (tenant_rows t rows))] \<and>
    (calm \<longrightarrow> (\<exists>r. audit_verify_chain x rows t = Inr r \<and> cr_valid r \<and> cr_total_rows r = length (tenant_rows t rows)))"
proof (intro conjI impI)
  have ok: "audit_numbered rows" "calm \<longrightarrow> audit_ok x rows" using recorder_ok_reach [OF assms] by (simp_all add: recorder_ok_def)
  show "map ae_sequence_num (tenant_rows t rows) = map int [1..<Suc (length (tenant_rows t rows))]"
    using ok(1) unfolding audit_numbered_def by blast
  assume calm
  then obtain r where r: "audit_verify_chain x rows t = Inr r" "cr_valid r" using ok(2) audit.inv_verify by blast
  have "length (rows_with_id t rows) = length (tenant_rows t rows)"
    using rows_with_id_rows [of t rows] by (metis length_map)
  with r(1) have "cr_total_rows r = length (tenant_rows t rows)"
    by (auto simp: audit_verify_chain_def Let_def split: if_splits)
  with r show "\<exists>r. audit_verify_chain x rows t = Inr r \<and> cr_valid r \<and> cr_total_rows r = length (tenant_rows t rows)" by blast
qed

text \<open>Two calls: one enters its entry on a table, and the other has read its chain hash \<open>h\<close> before.\<close>

lemma record_one:
  assumes "recorder_reach calm x (rows, (e, h) # reading, [])" "calm \<Longrightarrow> h = get_latest_chain_hash rows (ae_tenant_id e)"
    "audit_seal x e h rows = Inr e'" "audit_insert e' rows = (Inr e', rows @ [e'])"
  shows "recorder_reach calm x (rows @ [e'], reading, [])"
proof -
  have "recorder_step calm x (rows, (e, h) # reading, []) (rows, remove1 (e, h) ((e, h) # reading), [e'])"
    by (rule rec_seal) (simp_all add: assms(2,3))
  moreover have "recorder_step calm x (rows, reading, [e']) (rows @ [e'], reading, remove1 e' [e'])"
    by (rule rec_insert) (simp_all add: assms(4))
  ultimately show ?thesis using assms(1) by (auto intro: rr_step)
qed

text \<open>
  Without that condition the chain can break: two calls for one tenant read the empty chain, the first enters its entry, and
  the second then reads the new highest number.  Its entry is accepted as number 2 with the genesis hash as its
  predecessor, and \<open>verify_chain\<close> refuses the log unless SHA-256 collides on the two messages named.
\<close>

theorem torn_reads_break_chain:
  assumes "audit_fields x now t tr pd vr = Inr e"
  shows "\<exists>a b. recorder_reach False x ([a, b], [], []) \<and> ae_tenant_id a = t \<and> ae_tenant_id b = t \<and>
    ae_sequence_num a = 1 \<and> ae_sequence_num b = 2 \<and> ae_prev_chain_hash b = GENESIS_HASH \<and>
    ((\<exists>r. audit_verify_chain x [a, b] t = Inr r \<and> cr_valid r) \<longrightarrow>
      x_sha256 x (genesis_bytes @ x_sha256 x (audit_bytes b)) =
      x_sha256 x (x_sha256 x (genesis_bytes @ x_sha256 x (audit_bytes a)) @ x_sha256 x (audit_bytes b)))"
proof -
  note r = audit_fields_result [OF assms]
  have ok: "audit_ok x []" "audit_numbered []" using audit_ok_init by (simp_all add: audit_ok_parts)
  obtain a where a: "audit_seal x e GENESIS_HASH [] = Inr a" "ae_tenant_id a = t" "ae_result a = ae_result e" "ae_sequence_num a = 1"
    "ae_row_hash a = hexdigest x (audit_bytes a)" "ae_chain_hash a = hexdigest x (genesis_bytes @ x_sha256 x (audit_bytes a))"
    by (rule audit_seal_eq [OF ok(2), of x e genesis_bytes]) (simp add: hex_genesis r tenant_rows_def)
  have oka: "audit_ok x [a]" using audit_ok_append [OF ok(1), of a] a(4-6) by (simp add: tenant_rows_def)
  then have na: "audit_numbered [a]" by (simp add: audit_ok_parts)
  obtain b where b: "audit_seal x e GENESIS_HASH [a] = Inr b" "ae_tenant_id b = t" "ae_result b = ae_result e" "ae_sequence_num b = 2"
    "ae_prev_chain_hash b = GENESIS_HASH" "ae_row_hash b = hexdigest x (audit_bytes b)"
    "ae_chain_hash b = hexdigest x (genesis_bytes @ x_sha256 x (audit_bytes b))"
    by (rule audit_seal_eq [OF na, of x e genesis_bytes]) (simp add: hex_genesis r tenant_rows_def a(2))
  have g: "get_latest_chain_hash [] (ae_tenant_id e) = GENESIS_HASH" by (simp add: get_latest_chain_hash_def db_last_def)
  have "recorder_reach False x ([], [(e, GENESIS_HASH), (e, GENESIS_HASH)], [])"
    using rec_read [OF assms, of False "[]"] unfolding g by (blast intro: rr_init rr_step)
  then have "recorder_reach False x ([] @ [a], [(e, GENESIS_HASH)], [])"
    by (rule record_one) (simp_all add: a(1) audit_insert_fresh [OF ok(1)] a r tenant_rows_def)
  then have ra: "recorder_reach False x ([a], [(e, GENESIS_HASH)], [])" by simp
  have "audit_insert b [a] = (Inr b, [a] @ [b])"
    by (rule audit_insert_fresh [OF oka]) (use r b(2-4) a(2) in \<open>simp_all add: tenant_rows_def\<close>)
  from record_one [OF ra _ b(1) this] have "recorder_reach False x ([a, b], [], [])" by simp
  moreover have "x_sha256 x (genesis_bytes @ x_sha256 x (audit_bytes b)) =
      x_sha256 x (x_sha256 x (genesis_bytes @ x_sha256 x (audit_bytes a)) @ x_sha256 x (audit_bytes b))"
    if "\<exists>r. audit_verify_chain x [a, b] t = Inr r \<and> cr_valid r"
    using that unfolding audit_verify_chain_iff by (simp add: tenant_rows_def a b hexdigest_def)
  ultimately show ?thesis using a(2,4) b(2,4,5) by (intro exI [of _ a] exI [of _ b]) simp
qed

lemma sample_fields: "\<exists>e. audit_fields sample_ext ''now'' ''t'' ''r'' (PyDict []) [] = Inr e"
proof -
  have "isl (audit_fields sample_ext ''now'' ''t'' ''r'' (PyDict []) []) = False" by code_simp
  then show ?thesis by (metis sumE isl_def)
qed

theorem concurrent_records_verify_witness:
  "\<exists>e r. recorder_reach True sample_ext ([e], [], []) \<and> audit_verify_chain sample_ext [e] ''t'' = Inr r \<and> cr_valid r \<and> ae_sequence_num e = 1"
proof -
  obtain e where e: "audit_fields sample_ext ''now'' ''t'' ''r'' (PyDict []) [] = Inr e" using sample_fields by blast
  obtain e' where e': "audit_prepare sample_ext e [] = Inr e'" "ae_sequence_num e' = 1" "ae_result e' = ae_result e" "ae_tenant_id e' = ae_tenant_id e"
    using audit_prepare_ok [OF audit_ok_init, of sample_ext e] by (auto simp: tenant_rows_def)
  have "audit_insert e' [] = (Inr e', [] @ [e'])"
    using audit_fields_result [OF e] e' by (intro audit_insert_fresh [OF audit_ok_init]) (simp_all add: tenant_rows_def)
  then have "recorder_reach True sample_ext ([] @ [e'], [], [])"
    using e'(1) by (intro record_one [OF rr_step [OF rr_init rec_read [OF e]]]) (simp_all add: audit_prepare_def)
  then have r: "recorder_reach True sample_ext ([e'], [], [])" by simp
  show ?thesis using concurrent_records_verify [OF r, of "''t''"] e'(2) r by blast
qed

theorem torn_reads_break_chain_witness:
  "\<exists>a b. recorder_reach False sample_ext ([a, b], [], []) \<and> ae_sequence_num b = 2 \<and> ae_prev_chain_hash b = GENESIS_HASH"
proof -
  obtain e where e: "audit_fields sample_ext ''now'' ''t'' ''r'' (PyDict []) [] = Inr e" using sample_fields by blast
  show ?thesis using torn_reads_break_chain [OF e] by blast
qed

text \<open>
  C11: The last chain hash of a tenant commits to its whole audit history: two tables in which
  \<open>verify_chain\<close> accepts the tenant's entries and whose last chain hashes agree have the same contents,
  entry for entry, unless SHA-256 collides on the hashed messages or maps one of them to 32 zero bytes.
\<close>

theorem audit_history_binding:
  assumes "digest_ok x" "audit_verify_chain x rows t = Inr r" "cr_valid r"
    and "audit_verify_chain x rows' t = Inr r'" "cr_valid r'"
    and "get_latest_chain_hash rows t = get_latest_chain_hash rows' t"
    and "no_collision x genesis_bytes (chain_messages x audit_bytes genesis_bytes (tenant_rows t rows) @
      chain_messages x audit_bytes genesis_bytes (tenant_rows t rows'))"
  shows "map audit_content (tenant_rows t rows) = map audit_content (tenant_rows t rows')"
proof -
  have c: "audit_chained x genesis_bytes (tenant_rows t rows)" "audit_chained x genesis_bytes (tenant_rows t rows')"
    using assms(2-5) audit_verify_chain_iff by blast+
  have "chain_end x audit_bytes genesis_bytes (tenant_rows t rows) =
      chain_end x audit_bytes genesis_bytes (tenant_rows t rows')"
    using latest_chain_hash [OF c(1)] latest_chain_hash [OF c(2)] assms(6) by simp
  then have "map audit_bytes (tenant_rows t rows) = map audit_bytes (tenant_rows t rows')"
    by (rule chain_end_injective [OF assms(1) _ assms(7)])
  then show ?thesis by (rule map_factors [rotated]) (rule audit_bytes_content)
qed

theorem audit_history_binding_witness:
  "map audit_content (tenant_rows ''t'' sample_audit) =
     map audit_content (tenant_rows ''t'' (map (\<lambda>e. e\<lparr>ae_prev_chain_hash := []\<rparr>) sample_audit))"
proof -
  let ?f = "\<lambda>e. e\<lparr>ae_prev_chain_hash := []\<rparr>"
  let ?M = "\<lambda>rs. chain_messages sample_ext audit_bytes genesis_bytes (tenant_rows ''t'' rs)"
  have "no_collision sample_ext genesis_bytes (?M sample_audit)"
    using sample_audit_distinct sample_audit_nonzero by (auto simp: no_collision_def distinct_map list_all_iff)
  moreover have t: "tenant_rows ''t'' (map ?f sample_audit) = map ?f (tenant_rows ''t'' sample_audit)"
    by (simp add: tenant_rows_def filter_map comp_def)
  moreover have "?M (map ?f sample_audit) = ?M sample_audit"
    unfolding t by (rule chain_messages_map) (simp add: audit_bytes_def audit_content_def)
  ultimately have n: "no_collision sample_ext genesis_bytes (?M sample_audit @ ?M (map ?f sample_audit))"
    by (simp add: no_collision_def)
  have ok: "audit_ok sample_ext sample_audit"
    using audit.step_inv [OF audit_ok_init, of sample_ext "(''now'', ''t'', ''r'', PyDict [], [])"]
    by (simp add: sample_audit_def audit_step_def)
  then have c: "audit_chained sample_ext genesis_bytes (tenant_rows ''t'' sample_audit)" by (simp add: audit_ok_def)
  then have c': "audit_chained sample_ext genesis_bytes (tenant_rows ''t'' (map ?f sample_audit))"
    unfolding t by (rule chained_map) (simp_all add: audit_bytes_def audit_content_def)
  have e: "chain_end sample_ext audit_bytes genesis_bytes (tenant_rows ''t'' (map ?f sample_audit)) =
      chain_end sample_ext audit_bytes genesis_bytes (tenant_rows ''t'' sample_audit)"
    unfolding t by (rule chain_end_map) (simp add: audit_bytes_def audit_content_def)
  obtain r r' where "audit_verify_chain sample_ext sample_audit ''t'' = Inr r" "cr_valid r"
    "audit_verify_chain sample_ext (map ?f sample_audit) ''t'' = Inr r'" "cr_valid r'"
    using audit_verify_chain_iff c c' by metis
  moreover have "get_latest_chain_hash sample_audit ''t'' = get_latest_chain_hash (map ?f sample_audit) ''t''"
    using latest_chain_hash [OF c] latest_chain_hash [OF c'] e by simp
  ultimately show ?thesis by (rule audit_history_binding [OF sample_ext_ok(1) _ _ _ _ _ n])
qed

text \<open>
  \<open>query\<close> returns at most \<open>QUERY_MAX_LIMIT\<close> rows, all of the tenant, for every limit that is not
  negative; a negative limit passes the cap unchanged and SQLite then returns every matching row.
\<close>

theorem audit_query_cap:
  shows "set (fst (audit_query rows t f u res i lim off)) \<subseteq> set (tenant_rows t rows) \<and>
    (if 0 \<le> lim then length (fst (audit_query rows t f u res i lim off)) \<le> 1000
     else length (fst (audit_query rows t f u res i lim off)) = snd (audit_query rows t f u res i lim off) - off)"
proof -
  let ?P = "\<lambda>r. ae_tenant_id r = t \<and> (f \<noteq> None \<and> f \<noteq> Some [] \<longrightarrow> or_empty f \<le> ae_verified_at r) \<and>
     (u \<noteq> None \<and> u \<noteq> Some [] \<longrightarrow> ae_verified_at r \<le> or_empty u) \<and>
     (res = Some ''valid'' \<or> res = Some ''invalid'' \<longrightarrow> Some (ae_result r) = res) \<and>
     (i \<noteq> None \<and> i \<noteq> Some [] \<longrightarrow> ae_instance_id r = i)"
  let ?page = "drop off (rev (sort_key ae_verified_at (filter ?P rows)))"
  have q: "audit_query rows t f u res i lim off =
      (if min lim 1000 < 0 then ?page else take (nat (min lim 1000)) ?page, length (filter ?P rows))"
    by (simp only: audit_query_def QUERY_MAX_LIMIT_def Let_def)
  have "set ?page \<subseteq> set (tenant_rows t rows)" by (auto simp: tenant_rows_def dest!: in_set_dropD)
  moreover from this have "set (take n ?page) \<subseteq> set (tenant_rows t rows)" for n using set_take_subset by fast
  moreover have "length (take (nat (min lim 1000)) ?page) \<le> 1000"
    unfolding length_take by (rule min.coboundedI2) (simp add: nat_le_iff)
  ultimately show ?thesis unfolding q fst_conv snd_conv
    by (cases "0 \<le> lim") (simp_all del: length_take length_drop, simp)
qed

end
