(* ===== verification/Storage.thy ===== *)
theory Storage
  imports Canonical ChainLog
begin

text \<open>
  \<open>provable_ai/storage.py\<close>: the SQLite store.  The state is the record \<open>db\<close> of its tables; a table is
  the list of its rows in the order of their row ids, so \<open>INSERT\<close> appends and \<open>INSERT OR REPLACE\<close> moves
  a row to the end.  \<open>CHECK\<close>, \<open>UNIQUE\<close> and the append-only triggers are conditions of the operations.
  An operation that may raise returns the exception together with the state the connection sees
  afterwards: \<open>IntegrityError\<close> rolls back, another exception leaves what was already executed.  The
  arguments keep the types of their annotations; an entry of a proof dictionary with another type
  raises \<open>TypeError\<close> here.  The clock is the argument \<open>now\<close>.
\<close>

subsection \<open>Tables\<close>

text \<open>
  \<open>db_strict\<close> says that the ledger table still has its \<open>CHECK\<close> and \<open>UNIQUE\<close> constraints: the facade of
  \<open>engine.py\<close> rebuilds the table without them.
\<close>

record ledger_row =
  lr_tenant_id :: string
  lr_instance_id :: string
  lr_sequence_id :: int
  lr_previous_hash :: string
  lr_current_hash :: string
  lr_signature :: string
  lr_key_id :: string
  lr_protocol_hash :: string
  lr_from_state :: string
  lr_to_state :: string
  lr_actor :: string
  lr_input_hash :: string
  lr_output_hash :: string
  lr_model_version :: string
  lr_agent_version :: string
  lr_policy_version :: string
  lr_metadata_json :: string
  lr_proof_json :: string
  lr_schema_version :: string
  lr_version :: int
  lr_timestamp :: string

record instance_row =
  ir_tenant_id :: string
  ir_instance_id :: string
  ir_protocol_hash :: string
  ir_current_state :: string
  ir_version :: int
  ir_frozen :: bool
  ir_created_at :: string

record protocol_row =
  pr_protocol_hash :: string
  pr_spec_json :: string
  pr_active :: bool
  pr_created_at :: string

record approval_row =
  ar_version :: string
  ar_name :: string
  ar_created_at :: string

record policy_row =
  po_version :: string
  po_active :: bool
  po_created_at :: string

record db =
  db_protocols :: "protocol_row list"
  db_instances :: "instance_row list"
  db_ledger :: "ledger_row list"
  db_models :: "approval_row list"
  db_agents :: "approval_row list"
  db_policies :: "policy_row list"
  db_strict :: bool

definition init_tables :: db where
  "init_tables = \<lparr>db_protocols = [], db_instances = [], db_ledger = [], db_models = [], db_agents = [],
     db_policies = [], db_strict = True\<rparr>"

definition canonical_json :: "pyval \<Rightarrow> string res" where
  "canonical_json obj = opt_res TypeError (json_dumps False obj)"

subsection \<open>Reading the ledger\<close>

definition row_of :: "string \<Rightarrow> string \<Rightarrow> ledger_row \<Rightarrow> bool" where
  "row_of tenant_id instance_id r \<longleftrightarrow> lr_tenant_id r = tenant_id \<and> lr_instance_id r = instance_id"

definition get_ledger_chain :: "db \<Rightarrow> string \<Rightarrow> string \<Rightarrow> ledger_row list" where
  "get_ledger_chain s instance_id tenant_id =
     sort_key lr_sequence_id (filter (row_of tenant_id instance_id) (db_ledger s))"

definition get_latest_ledger_entry :: "db \<Rightarrow> string \<Rightarrow> string \<Rightarrow> ledger_row option" where
  "get_latest_ledger_entry s instance_id tenant_id =
     (case get_ledger_chain s instance_id tenant_id of [] \<Rightarrow> None | r # rs \<Rightarrow> Some (last (r # rs)))"

text \<open>The second component is the key \<open>proof\<close> that the code adds when \<open>proof_json\<close> can be read.\<close>

definition get_ledger_entry ::
    "db \<Rightarrow> string \<Rightarrow> int option \<Rightarrow> string \<Rightarrow> (ledger_row \<times> pyval option) option" where
  "get_ledger_entry s instance_id sequence_id tenant_id =
     (let row = (case sequence_id of
            Some i \<Rightarrow> db_first (\<lambda>r. row_of tenant_id instance_id r \<and> lr_sequence_id r = i) (db_ledger s)
          | None \<Rightarrow> get_latest_ledger_entry s instance_id tenant_id)
      in map_option (\<lambda>r. (r, if lr_proof_json r \<noteq> [] \<and> lr_proof_json r \<noteq> ''{}''
           then json_loads (lr_proof_json r) else None)) row)"

definition get_ledger_count :: "db \<Rightarrow> string option \<Rightarrow> string \<Rightarrow> nat" where
  "get_ledger_count s instance_id tenant_id =
     (case instance_id of
        Some i \<Rightarrow> if i \<noteq> [] then length (filter (row_of tenant_id i) (db_ledger s)) else length (db_ledger s)
      | None \<Rightarrow> length (db_ledger s))"

definition get_max_sequence_id :: "db \<Rightarrow> string \<Rightarrow> string \<Rightarrow> int" where
  "get_max_sequence_id s instance_id tenant_id =
     (case get_latest_ledger_entry s instance_id tenant_id of None \<Rightarrow> 0 | Some r \<Rightarrow> lr_sequence_id r)"

text \<open>\<open>get_ledger\<close> shows the genesis hash as \<open>None\<close>.\<close>

definition get_ledger :: "db \<Rightarrow> string \<Rightarrow> string \<Rightarrow> (ledger_row \<times> string option) list" where
  "get_ledger s instance_id tenant_id =
     map (\<lambda>r. (r, if lr_previous_hash r = replicate 64 (CHR ''0'') \<or> lr_previous_hash r = []
                  then None else Some (lr_previous_hash r)))
       (get_ledger_chain s instance_id tenant_id)"

subsection \<open>Appending to the ledger\<close>

definition validate_chain_integrity :: "db \<Rightarrow> string \<Rightarrow> int \<Rightarrow> string \<Rightarrow> string \<Rightarrow> unit res" where
  "validate_chain_integrity s instance_id sequence_id previous_hash tenant_id =
     (case db_first (\<lambda>r. lr_instance_id r = instance_id \<and> lr_tenant_id r \<noteq> tenant_id) (db_ledger s) of
        Some conflict \<Rightarrow> Inl (LedgerError instance_id tenant_id (lr_tenant_id conflict))
      | None \<Rightarrow>
          (let (expected_seq, expected_prev) =
             (case get_latest_ledger_entry s instance_id tenant_id of
                None \<Rightarrow> (1, genesis_hash)
              | Some r \<Rightarrow> (lr_sequence_id r + 1, lr_current_hash r))
           in if sequence_id < expected_seq then Inl (DuplicateSequenceId sequence_id None)
              else if sequence_id > expected_seq then Inl (SequenceGap expected_seq sequence_id None)
              else if previous_hash \<noteq> expected_prev
              then Inl (ChainBroken sequence_id expected_prev previous_hash None)
              else Inr ()))"

definition ensure_instance :: "string \<Rightarrow> string \<Rightarrow> string \<Rightarrow> string \<Rightarrow> string \<Rightarrow> db \<Rightarrow> db" where
  "ensure_instance now instance_id protocol_hash current_state tenant_id s =
     (if db_first (\<lambda>r. ir_tenant_id r = tenant_id \<and> ir_instance_id r = instance_id) (db_instances s) = None \<and>
         db_first (\<lambda>r. ir_instance_id r = instance_id) (db_instances s) = None
      then s\<lparr>db_instances := db_instances s @ [\<lparr>ir_tenant_id = tenant_id, ir_instance_id = instance_id,
             ir_protocol_hash = protocol_hash, ir_current_state = current_state, ir_version = 0,
             ir_frozen = False, ir_created_at = now\<rparr>]\<rparr>
      else s)"

definition ledger_insert_ok :: "db \<Rightarrow> ledger_row \<Rightarrow> bool" where
  "ledger_insert_ok s r \<longleftrightarrow> (db_strict s \<longrightarrow>
     length (lr_current_hash r) = 64 \<and> length (lr_signature r) = 128 \<and> 0 \<le> lr_sequence_id r \<and>
     list_all (\<lambda>q. \<not> (row_of (lr_tenant_id r) (lr_instance_id r) q \<and>
        (lr_sequence_id q = lr_sequence_id r \<or> lr_current_hash q = lr_current_hash r))) (db_ledger s))"

text \<open>\<open>d[k]\<close>, \<open>d.get(k, default)\<close> and the types of the entries.\<close>

definition item :: "pyval \<Rightarrow> string \<Rightarrow> pyval res" where
  "item v k = (case v of PyDict d \<Rightarrow> opt_res (KeyError k) (dget d k) | _ \<Rightarrow> Inl TypeError)"

definition get_item :: "pyval \<Rightarrow> string \<Rightarrow> pyval \<Rightarrow> pyval res" where
  "get_item v k dflt = (case v of PyDict d \<Rightarrow> Inr (dget_or d k dflt) | _ \<Rightarrow> Inl AttributeError)"

definition as_str :: "pyval \<Rightarrow> string res" where
  "as_str v = (case v of PyStr s \<Rightarrow> Inr s | _ \<Rightarrow> Inl TypeError)"

definition as_int :: "pyval \<Rightarrow> int res" where
  "as_int v = (case v of PyInt i \<Rightarrow> Inr i | _ \<Rightarrow> Inl TypeError)"

definition str_item :: "pyval \<Rightarrow> string \<Rightarrow> string res" where
  "str_item v k = rbind (item v k) as_str"

text \<open>The row that \<open>append_ledger_entry\<close> inserts; \<open>pd\<close> is the proof dictionary.\<close>

definition ledger_row_of :: "pyval \<Rightarrow> string \<Rightarrow> string \<Rightarrow> int \<Rightarrow> string \<Rightarrow> ledger_row res" where
  "ledger_row_of pd tenant_id instance_id sequence_id previous_hash =
     rbind (item pd ''ledger'') (\<lambda>ledger.
     rbind (item pd ''decision'') (\<lambda>decision.
     rbind (item pd ''decision_context'') (\<lambda>decision_context.
     rbind (item pd ''governance'') (\<lambda>governance.
     rbind (item pd ''signature'') (\<lambda>signature.
     rbind (canonical_json pd) (\<lambda>proof_json.
     rbind (rbind (get_item decision_context ''metadata'' (PyDict [])) canonical_json) (\<lambda>metadata_json.
     rbind (str_item ledger ''current_hash'') (\<lambda>current_hash.
     rbind (str_item signature ''value'') (\<lambda>sig.
     rbind (str_item signature ''key_id'') (\<lambda>key_id.
     rbind (rbind (get_item governance ''policy_version'' (PyStr ''unknown'')) as_str) (\<lambda>protocol_hash.
     rbind (str_item decision ''from_state'') (\<lambda>from_state.
     rbind (str_item decision ''to_state'') (\<lambda>to_state.
     rbind (str_item governance ''model_version'') (\<lambda>model_version.
     rbind (str_item governance ''agent_version'') (\<lambda>agent_version.
     rbind (str_item governance ''policy_version'') (\<lambda>policy_version.
     rbind (rbind (get_item pd ''type'' (PyStr ''zorynex-proof-v1'')) as_str) (\<lambda>schema_version.
     rbind (str_item ledger ''timestamp'') (\<lambda>timestamp.
     Inr \<lparr>lr_tenant_id = tenant_id, lr_instance_id = instance_id, lr_sequence_id = sequence_id,
          lr_previous_hash = previous_hash, lr_current_hash = current_hash, lr_signature = sig,
          lr_key_id = key_id, lr_protocol_hash = protocol_hash, lr_from_state = from_state,
          lr_to_state = to_state, lr_actor = ''system'', lr_input_hash = [], lr_output_hash = [],
          lr_model_version = model_version, lr_agent_version = agent_version,
          lr_policy_version = policy_version, lr_metadata_json = metadata_json,
          lr_proof_json = proof_json, lr_schema_version = schema_version, lr_version = 1,
          lr_timestamp = timestamp\<rparr>))))))))))))))))))"

text \<open>The part of \<open>append_ledger_entry\<close> before the first statement that changes the database.\<close>

definition append_checks :: "db \<Rightarrow> pyval \<Rightarrow> (string \<times> string \<times> int \<times> string \<times> string \<times> string) res" where
  "append_checks s pd =
     rbind (item pd ''ledger'') (\<lambda>ledger.
     rbind (item pd ''decision'') (\<lambda>decision.
     rbind (item pd ''decision_context'') (\<lambda>decision_context.
     rbind (item pd ''governance'') (\<lambda>governance.
     rbind (item pd ''signature'') (\<lambda>signature.
     rbind (str_item pd ''instance_id'') (\<lambda>instance_id.
     rbind (rbind (item ledger ''sequence_id'') as_int) (\<lambda>sequence_id.
     rbind (str_item ledger ''previous_hash'') (\<lambda>previous_hash.
     rbind (rbind (get_item pd ''tenant_id'' (PyStr ''default'')) as_str) (\<lambda>tenant_id.
     rbind (str_item signature ''value'') (\<lambda>sig.
     rbind (if sig = [] \<or> length sig \<noteq> 128
            then rbind (rbind (get_item signature ''key_id'' (PyStr ''unknown'')) as_str)
                   (\<lambda>k. Inl (SigningFailed k ''Signature value must be 128 hex chars''))
            else Inr ()) (\<lambda>_.
     rbind (validate_chain_integrity s instance_id sequence_id previous_hash tenant_id) (\<lambda>_.
     rbind (rbind (get_item governance ''policy_version'' (PyStr ''unknown'')) as_str) (\<lambda>protocol_hash.
     rbind (str_item decision ''to_state'') (\<lambda>current_state.
     Inr (tenant_id, instance_id, sequence_id, previous_hash, protocol_hash, current_state)))))))))))))))"

text \<open>
  An \<open>INSERT\<close> or \<open>commit\<close> can fail with \<open>IntegrityError\<close> only; other errors of SQLite (a locked or full database) are not
  modelled, nor are identifiers that are not strings and sequence numbers that are bools or floats, which SQLite would accept.
\<close>

definition append_ledger_entry :: "string \<Rightarrow> pyval \<Rightarrow> db \<Rightarrow> int res \<times> db" where
  "append_ledger_entry now pd s =
     (case append_checks s pd of
        Inl e \<Rightarrow> (Inl e, s)
      | Inr (tenant_id, instance_id, sequence_id, previous_hash, protocol_hash, current_state) \<Rightarrow>
          (let s1 = ensure_instance now instance_id protocol_hash current_state tenant_id s in
           case ledger_row_of pd tenant_id instance_id sequence_id previous_hash of
             Inl e \<Rightarrow> (Inl e, s1)
           | Inr r \<Rightarrow>
               if ledger_insert_ok s1 r then (Inr sequence_id, s1\<lparr>db_ledger := db_ledger s1 @ [r]\<rparr>)
               else (Inl IntegrityError, s)))"

definition record_transition ::
    "string \<Rightarrow> ident \<Rightarrow> state_name \<Rightarrow> state_name \<Rightarrow> string \<Rightarrow> hash_text \<Rightarrow> hash_text \<Rightarrow> version \<Rightarrow> version \<Rightarrow> version
       \<Rightarrow> hash_text \<Rightarrow> hash_text \<Rightarrow> string \<Rightarrow> hash_text \<Rightarrow> pydict \<Rightarrow> version \<Rightarrow> db \<Rightarrow> int res \<times> db" where
  "record_transition now instance_id from_state to_state actor input_hash output_hash model_version
     agent_version policy_version previous_hash current_hash sig protocol_hash metadata schema_version s =
     (let s1 = ensure_instance now instance_id protocol_hash to_state ''default'' s;
          sequence_id = get_max_sequence_id s1 instance_id ''default'' + 1
      in case validate_chain_integrity s1 instance_id sequence_id previous_hash ''default'' of
           Inl e \<Rightarrow> (Inl e, s1)
         | Inr _ \<Rightarrow>
             (case canonical_json (PyDict metadata) of
                Inl e \<Rightarrow> (Inl e, s1)
              | Inr metadata_json \<Rightarrow>
                  (let r = \<lparr>lr_tenant_id = ''default'', lr_instance_id = instance_id,
                         lr_sequence_id = sequence_id, lr_previous_hash = previous_hash,
                         lr_current_hash = current_hash, lr_signature = sig, lr_key_id = ''legacy'',
                         lr_protocol_hash = protocol_hash, lr_from_state = from_state,
                         lr_to_state = to_state, lr_actor = actor, lr_input_hash = input_hash,
                         lr_output_hash = output_hash, lr_model_version = model_version,
                         lr_agent_version = agent_version, lr_policy_version = policy_version,
                         lr_metadata_json = metadata_json, lr_proof_json = ''{}'',
                         lr_schema_version = schema_version, lr_version = 1, lr_timestamp = now\<rparr>
                   in if ledger_insert_ok s1 r
                      then (Inr sequence_id, s1\<lparr>db_ledger := db_ledger s1 @ [r]\<rparr>)
                      else (Inl IntegrityError, s))))"

subsection \<open>Governance tables\<close>

text \<open>\<open>INSERT OR REPLACE\<close>; \<open>SELECT\<close> with \<open>r[0] or r[1]\<close> as the name.\<close>

definition replace_approval :: "approval_row \<Rightarrow> approval_row list \<Rightarrow> approval_row list" where
  "replace_approval r rows = filter (\<lambda>q. ar_version q \<noteq> ar_version r) rows @ [r]"

definition approval_names :: "approval_row list \<Rightarrow> (string \<times> string) list" where
  "approval_names rows = map (\<lambda>r. (if ar_name r \<noteq> [] then ar_name r else ar_version r, ar_version r)) rows"

definition get_approved_models :: "db \<Rightarrow> (string \<times> string) list" where
  "get_approved_models s = approval_names (db_models s)"

definition get_approved_agents :: "db \<Rightarrow> (string \<times> string) list" where
  "get_approved_agents s = approval_names (db_agents s)"

definition get_approved_policies :: "db \<Rightarrow> (string \<times> string) list" where
  "get_approved_policies s =
     map (\<lambda>r. case split1 (CHR '':'') (po_version r) of
               Some (name, ver) \<Rightarrow> (name, ver) | None \<Rightarrow> (po_version r, po_version r))
       (filter po_active (db_policies s))"

definition add_approved_model :: "string \<Rightarrow> string \<Rightarrow> string \<Rightarrow> db \<Rightarrow> db" where
  "add_approved_model now model_version model_name s =
     (let name = (if model_name \<noteq> [] then model_name else model_version)
      in s\<lparr>db_models := replace_approval
            \<lparr>ar_version = model_version, ar_name = name, ar_created_at = now\<rparr> (db_models s)\<rparr>)"

definition add_approved_agent :: "string \<Rightarrow> string \<Rightarrow> string \<Rightarrow> db \<Rightarrow> db" where
  "add_approved_agent now agent_version agent_name s =
     (let name = (if agent_name \<noteq> [] then agent_name else agent_version)
      in s\<lparr>db_agents := replace_approval
            \<lparr>ar_version = agent_version, ar_name = name, ar_created_at = now\<rparr> (db_agents s)\<rparr>)"

definition policy_key :: "string \<Rightarrow> string \<Rightarrow> string" where
  "policy_key policy_version policy_name =
     (let name = (if policy_name \<noteq> [] then policy_name else policy_version)
      in if policy_name \<noteq> [] \<and> policy_name \<noteq> policy_version then name @ '':'' @ policy_version
         else policy_version)"

definition add_approved_policy :: "string \<Rightarrow> string \<Rightarrow> string \<Rightarrow> db \<Rightarrow> db" where
  "add_approved_policy now policy_version policy_name s =
     (let key = policy_key policy_version policy_name
      in s\<lparr>db_policies := filter (\<lambda>q. po_version q \<noteq> key) (db_policies s) @
            [\<lparr>po_version = key, po_active = True, po_created_at = now\<rparr>]\<rparr>)"

definition deactivate_policy :: "string \<Rightarrow> db \<Rightarrow> db" where
  "deactivate_policy policy_version s =
     s\<lparr>db_policies := map (\<lambda>r. if po_version r = policy_version then r\<lparr>po_active := False\<rparr> else r)
          (db_policies s)\<rparr>"

definition approve_model :: "string \<Rightarrow> string \<Rightarrow> db \<Rightarrow> db" where
  "approve_model now model_version s = add_approved_model now model_version [] s"

definition approve_agent :: "string \<Rightarrow> string \<Rightarrow> db \<Rightarrow> db" where
  "approve_agent now agent_version s = add_approved_agent now agent_version [] s"

definition approve_policy :: "string \<Rightarrow> string \<Rightarrow> bool \<Rightarrow> db \<Rightarrow> db" where
  "approve_policy now policy_version active s =
     (if active then add_approved_policy now policy_version [] s else deactivate_policy policy_version s)"

definition is_policy_active :: "db \<Rightarrow> string \<Rightarrow> bool" where
  "is_policy_active s policy_version =
     (db_first (\<lambda>r. po_version r = policy_version \<and> po_active r) (db_policies s) \<noteq> None)"

definition get_governance_status :: "db \<Rightarrow> string list \<times> string list \<times> string list" where
  "get_governance_status s =
     (map ar_version (db_models s), map ar_version (db_agents s), map po_version (db_policies s))"

subsection \<open>Protocols and instances\<close>

definition register_protocol :: "string \<Rightarrow> string \<Rightarrow> pyval \<Rightarrow> db \<Rightarrow> unit res \<times> db" where
  "register_protocol now protocol_hash spec s =
     (if db_first (\<lambda>r. pr_protocol_hash r = protocol_hash) (db_protocols s) = None
      then (case canonical_json spec of
          Inl e \<Rightarrow> (Inl e, s)
        | Inr j \<Rightarrow> (Inr (), s\<lparr>db_protocols := db_protocols s @ [\<lparr>pr_protocol_hash = protocol_hash,
             pr_spec_json = j, pr_active = True, pr_created_at = now\<rparr>]\<rparr>))
      else (Inr (), s))"

definition get_protocol :: "db \<Rightarrow> string \<Rightarrow> (protocol_row \<times> pyval) option res" where
  "get_protocol s protocol_hash =
     (case db_first (\<lambda>r. pr_protocol_hash r = protocol_hash) (db_protocols s) of
        None \<Rightarrow> Inr None
      | Some r \<Rightarrow> rbind (opt_res (ValueError ''JSONDecodeError'') (json_loads (pr_spec_json r)))
          (\<lambda>v. Inr (Some (r, v))))"

definition get_latest_protocol :: "db \<Rightarrow> pyval option res" where
  "get_latest_protocol s =
     (case db_last (\<lambda>_. True) (db_protocols s) of
        None \<Rightarrow> Inr None
      | Some r \<Rightarrow> rbind (opt_res (ValueError ''JSONDecodeError'') (json_loads (pr_spec_json r)))
          (\<lambda>v. Inr (Some v)))"

definition get_instance :: "db \<Rightarrow> string \<Rightarrow> string \<Rightarrow> instance_row option" where
  "get_instance s instance_id tenant_id =
     db_first (\<lambda>r. ir_instance_id r = instance_id \<and> ir_tenant_id r = tenant_id) (db_instances s)"

definition freeze_instance :: "string \<Rightarrow> string \<Rightarrow> db \<Rightarrow> db" where
  "freeze_instance instance_id tenant_id s =
     s\<lparr>db_instances := map (\<lambda>r. if ir_instance_id r = instance_id \<and> ir_tenant_id r = tenant_id
          then r\<lparr>ir_frozen := True\<rparr> else r) (db_instances s)\<rparr>"

subsection \<open>The ledger invariant\<close>

text \<open>Rows of one instance in order: numbered from one, each carrying the hash of the row before it.\<close>

fun rows_linked :: "nat \<Rightarrow> string \<Rightarrow> ledger_row list \<Rightarrow> bool" where
  "rows_linked n h [] = True"
| "rows_linked n h (r # rs) \<longleftrightarrow> lr_sequence_id r = int n + 1 \<and> lr_previous_hash r = h \<and>
     rows_linked (Suc n) (lr_current_hash r) rs"

definition ledger_ok :: "db \<Rightarrow> bool" where
  "ledger_ok s \<longleftrightarrow>
     (\<forall>t i. rows_linked 0 genesis_hash (filter (row_of t i) (db_ledger s))) \<and>
     (\<forall>r\<in>set (db_ledger s). \<forall>q\<in>set (db_ledger s). lr_instance_id r = lr_instance_id q \<longrightarrow>
        lr_tenant_id r = lr_tenant_id q)"

lemma rows_linked_append:
  "rows_linked n h (rs @ [r]) \<longleftrightarrow> rows_linked n h rs \<and> lr_sequence_id r = int (n + length rs) + 1 \<and>
     lr_previous_hash r = (if rs = [] then h else lr_current_hash (last rs))"
  by (induction rs arbitrary: n h) auto

lemma rows_linked_bound: "rows_linked n h rs \<Longrightarrow> r \<in> set rs \<Longrightarrow> int n < lr_sequence_id r"
  by (induction rs arbitrary: n h) (auto, force)

lemma rows_linked_sorted: "rows_linked n h rs \<Longrightarrow> sorted (map lr_sequence_id rs)"
proof (induction rs arbitrary: n h)
  case (Cons r rs)
  then have "int (Suc n) < lr_sequence_id q" if "q \<in> set rs" for q
    using that rows_linked_bound [of "Suc n" "lr_current_hash r" rs q] by simp
  with Cons show ?case by force
qed simp

lemma rows_linked_last: "rows_linked n h rs \<Longrightarrow> rs \<noteq> [] \<Longrightarrow> lr_sequence_id (last rs) = int (n + length rs)"
  by (induction rs arbitrary: n h) auto

lemma get_ledger_chain_filter:
  "ledger_ok s \<Longrightarrow> get_ledger_chain s i t = filter (row_of t i) (db_ledger s)"
  unfolding get_ledger_chain_def ledger_ok_def
  by (intro sort_key_id_if_sorted) (blast intro: rows_linked_sorted)

lemma get_latest_ledger_entry_eq:
  "get_latest_ledger_entry s i t =
     (let rs = get_ledger_chain s i t in if rs = [] then None else Some (last rs))"
  by (simp add: get_latest_ledger_entry_def split: list.splits)

lemma expected_of_chain:
  assumes "ledger_ok s"
  shows "(case get_latest_ledger_entry s i t of None \<Rightarrow> (1, genesis_hash)
      | Some r \<Rightarrow> (lr_sequence_id r + 1, lr_current_hash r)) =
    (let rs = get_ledger_chain s i t in
     (int (length rs) + 1, if rs = [] then genesis_hash else lr_current_hash (last rs)))"
proof -
  have l: "rows_linked 0 genesis_hash (get_ledger_chain s i t)"
    using assms unfolding get_ledger_chain_filter [OF assms] ledger_ok_def by blast
  show ?thesis
  proof (cases "get_ledger_chain s i t = []")
    case False
    from rows_linked_last [OF l False] False show ?thesis
      unfolding get_latest_ledger_entry_eq Let_def by simp
  qed (simp add: get_latest_ledger_entry_eq)
qed

lemma validate_chain_integrity_iff:
  assumes "ledger_ok s"
  shows "validate_chain_integrity s i n ph t = Inr () \<longleftrightarrow>
    (\<forall>r\<in>set (db_ledger s). lr_instance_id r = i \<longrightarrow> lr_tenant_id r = t) \<and>
    n = int (length (get_ledger_chain s i t)) + 1 \<and>
    ph = (if get_ledger_chain s i t = [] then genesis_hash else lr_current_hash (last (get_ledger_chain s i t)))"
proof (cases "db_first (\<lambda>r. lr_instance_id r = i \<and> lr_tenant_id r \<noteq> t) (db_ledger s)")
  case None
  then have "\<forall>r\<in>set (db_ledger s). lr_instance_id r = i \<longrightarrow> lr_tenant_id r = t"
    by (auto simp: db_first_None)
  with None show ?thesis
    unfolding validate_chain_integrity_def expected_of_chain [OF assms] Let_def by auto
next
  case (Some r)
  then show ?thesis
    using db_first_SomeD [OF Some] by (auto simp: validate_chain_integrity_def)
qed

lemma ledger_ok_cong:
  assumes "db_ledger s' = db_ledger s"
  shows "ledger_ok s' = ledger_ok s"
  unfolding ledger_ok_def assms by (rule refl)

text \<open>Inserting a row that passed the checks keeps the invariant.\<close>

lemma ledger_ok_append:
  assumes "ledger_ok s" "validate_chain_integrity s (lr_instance_id r) (lr_sequence_id r) (lr_previous_hash r)
      (lr_tenant_id r) = Inr ()" "db_ledger s' = db_ledger s @ [r]"
  shows "ledger_ok s'"
proof -
  note v = assms(2) [unfolded validate_chain_integrity_iff [OF assms(1)]]
  have l: "rows_linked 0 genesis_hash (filter (row_of t i) (db_ledger s))" for t i
    using assms(1) unfolding ledger_ok_def by blast
  have "rows_linked 0 genesis_hash (filter (row_of t i) (db_ledger s'))" for t i
  proof (cases "row_of t i r")
    case True
    then have "t = lr_tenant_id r" "i = lr_instance_id r" by (simp_all add: row_of_def)
    with v l [of t i] True show ?thesis
      by (simp add: assms(3) rows_linked_append get_ledger_chain_filter [OF assms(1)])
  next
    case False
    with l [of t i] show ?thesis by (simp add: assms(3))
  qed
  moreover have "lr_tenant_id q = lr_tenant_id q'"
    if "q \<in> set (db_ledger s')" "q' \<in> set (db_ledger s')" "lr_instance_id q = lr_instance_id q'" for q q'
  proof -
    have own: "lr_tenant_id a = lr_tenant_id r" if "a \<in> set (db_ledger s)" "lr_instance_id a = lr_instance_id r" for a
      using v that by blast
    have old: "lr_tenant_id a = lr_tenant_id b"
      if "a \<in> set (db_ledger s)" "b \<in> set (db_ledger s)" "lr_instance_id a = lr_instance_id b" for a b
      using assms(1) that unfolding ledger_ok_def by blast
    from that consider "q = r" "q' = r" | "q = r" "q' \<in> set (db_ledger s)" | "q \<in> set (db_ledger s)" "q' = r"
      | "q \<in> set (db_ledger s)" "q' \<in> set (db_ledger s)" unfolding assms(3) by auto
    then show ?thesis
      using that(3) own [of q] own [of q'] old [of q q'] by cases (simp, metis, metis, metis)
  qed
  ultimately show ?thesis unfolding ledger_ok_def by blast
qed

lemma ensure_instance_ledger [simp]: "db_ledger (ensure_instance a b c d e s) = db_ledger s"
  by (simp add: ensure_instance_def)

lemma validate_chain_integrity_cong:
  assumes "db_ledger s = db_ledger s'"
  shows "validate_chain_integrity s i n ph t = validate_chain_integrity s' i n ph t"
  unfolding validate_chain_integrity_def get_latest_ledger_entry_def get_ledger_chain_def assms by (rule refl)

lemma append_checks_chain:
  "append_checks s pd = Inr (t, i, n, ph, pr, cs) \<Longrightarrow> validate_chain_integrity s i n ph t = Inr ()"
  by (auto simp: append_checks_def)

lemma ledger_row_of_keys:
  "ledger_row_of pd t i n ph = Inr r \<Longrightarrow>
     lr_tenant_id r = t \<and> lr_instance_id r = i \<and> lr_sequence_id r = n \<and> lr_previous_hash r = ph"
  by (auto simp: ledger_row_of_def)

lemma as_str_Inr: "as_str v = Inr t \<longleftrightarrow> v = PyStr t"
  by (cases v) (auto simp: as_str_def)

lemma as_int_Inr: "as_int v = Inr i \<longleftrightarrow> v = PyInt i"
  by (cases v) (auto simp: as_int_def)

text \<open>What the checks read of the proof dictionary.\<close>

lemma append_checks_reads:
  assumes "append_checks s pd = Inr (t, i, n, ph, pr, cs)"
  obtains ledger where "item pd ''ledger'' = Inr ledger" "get_item pd ''tenant_id'' (PyStr ''default'') = Inr (PyStr t)"
    "item pd ''instance_id'' = Inr (PyStr i)" "item ledger ''sequence_id'' = Inr (PyInt n)"
    "item ledger ''previous_hash'' = Inr (PyStr ph)"
  using assms that by (auto simp: append_checks_def str_item_def as_str_Inr as_int_Inr)

lemma ledger_row_of_reads:
  assumes "ledger_row_of pd t i n ph = Inr r"
  obtains ledger where "item pd ''ledger'' = Inr ledger" "item ledger ''current_hash'' = Inr (PyStr (lr_current_hash r))"
    "canonical_json pd = Inr (lr_proof_json r)"
  using assms that by (auto simp: ledger_row_of_def str_item_def as_str_Inr)

lemma append_ledger_entry_ok:
  assumes "ledger_ok s" "append_ledger_entry now pd s = (Inr n, s')"
  obtains r t i ph pr cs where "append_checks s pd = Inr (t, i, n, ph, pr, cs)"
    "db_ledger s' = db_ledger s @ [r]" "ledger_row_of pd t i n ph = Inr r"
    "validate_chain_integrity s i n ph t = Inr ()" "ledger_ok s'"
    "db_models s' = db_models s" "db_agents s' = db_agents s" "db_policies s' = db_policies s"
    "db_protocols s' = db_protocols s"
proof -
  from assms(2) obtain t i ph pr cs where c: "append_checks s pd = Inr (t, i, n, ph, pr, cs)"
    by (auto simp: append_ledger_entry_def Let_def split: sum.splits if_splits)
  let ?s1 = "ensure_instance now i pr cs t s"
  from assms(2) c obtain r where r: "ledger_row_of pd t i n ph = Inr r" "ledger_insert_ok ?s1 r"
    "s' = ?s1\<lparr>db_ledger := db_ledger s @ [r]\<rparr>"
    by (auto simp: append_ledger_entry_def Let_def split: sum.splits if_splits)
  note v = append_checks_chain [OF c]
  have "ledger_ok s'"
    using ledger_ok_append [OF assms(1), of r s'] ledger_row_of_keys [OF r(1)] v r(3) by simp
  with r(1,3) v c that [of t i ph pr cs r] show thesis by (simp add: ensure_instance_def)
qed

lemma append_ledger_entry_error:
  "append_ledger_entry now pd s = (Inl e, s') \<Longrightarrow> db_ledger s' = db_ledger s"
  by (auto simp: append_ledger_entry_def Let_def split: sum.splits if_splits prod.splits)

lemma record_transition_ledger:
  assumes "ledger_ok s" "record_transition now i fs ts ac ih oh mv av pv ph ch sg pr md sv s = (res, s')"
  shows "ledger_ok s' \<and> (\<exists>r. db_ledger s' = db_ledger s \<or> db_ledger s' = db_ledger s @ [r])"
proof (cases "db_ledger s' = db_ledger s")
  case True
  with assms(1) ledger_ok_cong [OF True] show ?thesis by simp
next
  case False
  let ?s1 = "ensure_instance now i pr ts ''default'' s"
  let ?n = "get_max_sequence_id ?s1 i ''default'' + 1"
  from False assms(2) obtain r where v: "validate_chain_integrity ?s1 i ?n ph ''default'' = Inr ()"
    and r: "db_ledger s' = db_ledger s @ [r]" "lr_instance_id r = i" "lr_sequence_id r = ?n"
      "lr_previous_hash r = ph" "lr_tenant_id r = ''default''" "ledger_insert_ok ?s1 r"
    by (auto simp: record_transition_def Let_def split: sum.splits if_splits)
  have "validate_chain_integrity s i ?n ph ''default'' = Inr ()"
    using v validate_chain_integrity_cong [of ?s1 s] by simp
  with r have "ledger_ok s'"
    by (intro ledger_ok_append [OF assms(1) _ r(1)]) simp
  with r show ?thesis by blast
qed

subsection \<open>Runs of the store\<close>

text \<open>The public methods that change the database, with their arguments.\<close>

datatype store_op =
    OpAppend string pyval
  | OpTransition string ident state_name state_name string hash_text hash_text version version version hash_text
      hash_text string hash_text pydict version
  | OpModel string string string
  | OpAgent string string string
  | OpPolicy string string string
  | OpApprovePolicy string string bool
  | OpDeactivate string
  | OpProtocol string string pyval
  | OpFreeze string string

fun store_step :: "store_op \<Rightarrow> db \<Rightarrow> db" where
  "store_step (OpAppend now pd) s = snd (append_ledger_entry now pd s)"
| "store_step (OpTransition now i fs ts ac ih oh mv av pv ph ch sg pr md sv) s =
     snd (record_transition now i fs ts ac ih oh mv av pv ph ch sg pr md sv s)"
| "store_step (OpModel now v n) s = add_approved_model now v n s"
| "store_step (OpAgent now v n) s = add_approved_agent now v n s"
| "store_step (OpPolicy now v n) s = add_approved_policy now v n s"
| "store_step (OpApprovePolicy now v a) s = approve_policy now v a s"
| "store_step (OpDeactivate v) s = deactivate_policy v s"
| "store_step (OpProtocol now h spec) s = snd (register_protocol now h spec s)"
| "store_step (OpFreeze i t) s = freeze_instance i t s"

lemma store_step_ledger:
  assumes "ledger_ok s"
  shows "ledger_ok (store_step q s) \<and> (\<exists>rs. db_ledger (store_step q s) = db_ledger s @ rs)"
proof (cases "db_ledger (store_step q s) = db_ledger s")
  case True
  with assms ledger_ok_cong [OF True] show ?thesis by simp
next
  case False
  then show ?thesis
  proof (cases q)
    case (OpAppend now pd)
    obtain n s' where a: "append_ledger_entry now pd s = (Inr n, s')"
      using False OpAppend append_ledger_entry_error [of now pd s]
      by (cases "append_ledger_entry now pd s") (auto, metis obj_sumE)
    from append_ledger_entry_ok [OF assms a] OpAppend a show ?thesis by (metis snd_conv store_step.simps(1))
  next
    case (OpTransition now i fs ts ac ih oh mv av pv ph ch sg pr md sv)
    with record_transition_ledger [OF assms, of now i fs ts ac ih oh mv av pv ph ch sg pr md sv] False
    show ?thesis by (metis prod.collapse store_step.simps(2))
  qed (auto simp: add_approved_model_def add_approved_agent_def add_approved_policy_def approve_policy_def
      deactivate_policy_def register_protocol_def freeze_instance_def Let_def split: sum.splits if_splits)
qed

interpretation sqlite: append_only store_step db_ledger ledger_ok
  by unfold_locales (use store_step_ledger in blast)+

text \<open>The rows of one instance are a log of their own.\<close>

interpretation sqlite_chain: append_only store_step "\<lambda>s. get_ledger_chain s i t" ledger_ok for i t
proof unfold_locales
  fix s q assume a: "ledger_ok s"
  show "ledger_ok (store_step q s)" using store_step_ledger [OF a] by blast
  obtain rs where "db_ledger (store_step q s) = db_ledger s @ rs" using store_step_ledger [OF a] by blast
  with a store_step_ledger [OF a, of q]
  show "\<exists>rs. get_ledger_chain (store_step q s) i t = get_ledger_chain s i t @ rs"
    by (simp add: get_ledger_chain_filter)
qed

lemma ledger_ok_init: "ledger_ok init_tables"
  by (simp add: ledger_ok_def init_tables_def)

lemma ledger_ok_linked: "ledger_ok s \<Longrightarrow> rows_linked 0 genesis_hash (get_ledger_chain s i t)"
  using get_ledger_chain_filter [of s i t] ledger_ok_def [of s] by metis

subsection \<open>The abstract ledger\<close>

text \<open>
  What the ledger promises: every chain, named by tenant and instance, is the list of its hashes.  A
  block is accepted exactly when it names the last hash of its chain.
\<close>

type_synonym chains = "string \<times> string \<Rightarrow> string list"

definition last_hash :: "string list \<Rightarrow> string" where
  "last_hash hs = (if hs = [] then genesis_hash else last hs)"

definition extend :: "string \<times> string \<Rightarrow> string \<Rightarrow> string \<Rightarrow> chains \<Rightarrow> chains option" where
  "extend key prev cur C = (if prev = last_hash (C key) then Some (C(key := C key @ [cur])) else None)"

definition abs_ledger :: "db \<Rightarrow> chains" where
  "abs_ledger s = (\<lambda>(t, i). map lr_current_hash (get_ledger_chain s i t))"

lemma abs_ledger_cong: "db_ledger s' = db_ledger s \<Longrightarrow> abs_ledger s' = abs_ledger s"
  unfolding abs_ledger_def get_ledger_chain_def by simp

lemma abs_ledger_append:
  assumes "ledger_ok s" "ledger_ok s'" "db_ledger s' = db_ledger s @ [r]"
  shows "abs_ledger s' = (abs_ledger s)((lr_tenant_id r, lr_instance_id r) :=
    abs_ledger s (lr_tenant_id r, lr_instance_id r) @ [lr_current_hash r])"
proof
  fix k :: "string \<times> string"
  obtain t i where "k = (t, i)" by (cases k)
  then show "abs_ledger s' k = ((abs_ledger s)((lr_tenant_id r, lr_instance_id r) :=
      abs_ledger s (lr_tenant_id r, lr_instance_id r) @ [lr_current_hash r])) k"
    by (auto simp: abs_ledger_def get_ledger_chain_filter [OF assms(1)] get_ledger_chain_filter [OF assms(2)]
        assms(3) row_of_def)
qed

text \<open>A proof dictionary for the first row of an instance.\<close>

definition sample_entry :: pyval where
  "sample_entry = PyDict [(KStr ''instance_id'', PyStr ''i''),
     (KStr ''decision'', PyDict [(KStr ''from_state'', PyStr ''a''), (KStr ''to_state'', PyStr ''b'')]),
     (KStr ''decision_context'', PyDict []),
     (KStr ''governance'', PyDict [(KStr ''model_version'', PyStr ''m''), (KStr ''agent_version'', PyStr ''g''),
        (KStr ''policy_version'', PyStr ''p'')]),
     (KStr ''ledger'', PyDict [(KStr ''sequence_id'', PyInt 1), (KStr ''previous_hash'', PyStr genesis_hash),
        (KStr ''current_hash'', PyStr (replicate 64 (CHR ''1''))), (KStr ''timestamp'', PyStr ''t'')]),
     (KStr ''signature'', PyDict [(KStr ''value'', PyStr (replicate 128 (CHR ''2''))), (KStr ''key_id'', PyStr ''k'')])]"

subsection \<open>Properties\<close>

text \<open>
  C25: After any sequence of calls of the store on an empty database the ledger of every instance is a chain:
  its rows are numbered 1, 2, 3 and so on and each carries the current hash of the row before it, the first
  one the genesis hash; and whatever is called afterwards, these rows stay in place and unchanged.
\<close>

theorem ledger_history:
  fixes qs qs' :: "store_op list"
  defines "s \<equiv> fold store_step qs init_tables"
  shows "rows_linked 0 genesis_hash (get_ledger_chain s i t) \<and>
    (\<exists>rs. get_ledger_chain (fold store_step qs' s) i t = get_ledger_chain s i t @ rs)"
proof -
  have "ledger_ok s" unfolding s_def by (rule sqlite.run_inv [OF ledger_ok_init])
  then show ?thesis using ledger_ok_linked sqlite_chain.run_extends by blast
qed

text \<open>
  C24: \<open>append_ledger_entry\<close> refines the abstract ledger.  A call that returns extends the chain named by the proof's
  \<open>tenant_id\<close> (\<open>default\<close> if it has none) and \<open>instance_id\<close> by the proof's \<open>current_hash\<close>, and no other chain; the
  proof's \<open>previous_hash\<close> was the last hash of that chain; its \<open>sequence_id\<close> is returned and is the new length; and
  the new row stores the canonical text of the proof.  A call that raises leaves every chain as it was.
\<close>

theorem append_refines:
  assumes "ledger_ok s" "append_ledger_entry now pd s = (r, s')"
  shows "case r of
      Inr n \<Rightarrow> ledger_ok s' \<and> (\<exists>ledger t i prev cur.
        item pd ''ledger'' = Inr ledger \<and> get_item pd ''tenant_id'' (PyStr ''default'') = Inr (PyStr t) \<and>
        item pd ''instance_id'' = Inr (PyStr i) \<and> item ledger ''sequence_id'' = Inr (PyInt n) \<and>
        item ledger ''previous_hash'' = Inr (PyStr prev) \<and> item ledger ''current_hash'' = Inr (PyStr cur) \<and>
        extend (t, i) prev cur (abs_ledger s) = Some (abs_ledger s') \<and> n = int (length (abs_ledger s' (t, i))) \<and>
        canonical_json pd = Inr (lr_proof_json (last (get_ledger_chain s' i t))))
    | Inl _ \<Rightarrow> abs_ledger s' = abs_ledger s"
proof (cases r)
  case (Inl e)
  then have "db_ledger s' = db_ledger s" using append_ledger_entry_error assms(2) by blast
  from abs_ledger_cong [OF this] show ?thesis by (simp add: Inl)
next
  case (Inr n)
  obtain q t i ph pr cs where c: "append_checks s pd = Inr (t, i, n, ph, pr, cs)"
    and q: "db_ledger s' = db_ledger s @ [q]" "ledger_row_of pd t i n ph = Inr q"
    "validate_chain_integrity s i n ph t = Inr ()" "ledger_ok s'"
    using append_ledger_entry_ok [OF assms(1) assms(2) [unfolded Inr]] by metis
  note k = ledger_row_of_keys [OF q(2)]
  have a: "abs_ledger s' = (abs_ledger s)((t, i) := abs_ledger s (t, i) @ [lr_current_hash q])"
    using abs_ledger_append [OF assms(1) q(4,1)] k by simp
  have "ph = last_hash (abs_ledger s (t, i))" "n = int (length (abs_ledger s (t, i))) + 1"
    using q(3) unfolding validate_chain_integrity_iff [OF assms(1)]
    by (auto simp: last_hash_def abs_ledger_def last_map)
  then have e: "extend (t, i) ph (lr_current_hash q) (abs_ledger s) = Some (abs_ledger s')"
    "n = int (length (abs_ledger s' (t, i)))" using a by (simp_all add: extend_def)
  have l: "last (get_ledger_chain s' i t) = q"
    using get_ledger_chain_filter [OF q(4), of i t] k by (simp add: q(1) row_of_def)
  obtain ledger where r1: "item pd ''ledger'' = Inr ledger" "get_item pd ''tenant_id'' (PyStr ''default'') = Inr (PyStr t)"
    "item pd ''instance_id'' = Inr (PyStr i)" "item ledger ''sequence_id'' = Inr (PyInt n)"
    "item ledger ''previous_hash'' = Inr (PyStr ph)" by (rule append_checks_reads [OF c])
  obtain ledger' where r2: "item pd ''ledger'' = Inr ledger'" "item ledger' ''current_hash'' = Inr (PyStr (lr_current_hash q))"
    "canonical_json pd = Inr (lr_proof_json q)" by (rule ledger_row_of_reads [OF q(2)])
  have "ledger' = ledger" using r1(1) r2(1) by simp
  with Inr q(4) e l r1 r2 show ?thesis by simp
qed

theorem append_refines_witness:
  "\<exists>s'. append_ledger_entry ''now'' sample_entry init_tables = (Inr 1, s') \<and> ledger_ok s' \<and>
     abs_ledger s' (''default'', ''i'') = [replicate 64 (CHR ''1'')]"
proof -
  obtain r s' where r: "append_ledger_entry ''now'' sample_entry init_tables = (r, s')" by fastforce
  moreover have "(case fst (append_ledger_entry ''now'' sample_entry init_tables) of Inr n \<Rightarrow> n = 1 | _ \<Rightarrow> False)"
    by code_simp
  ultimately have e: "r = Inr 1" by (auto split: sum.splits)
  have z: "abs_ledger init_tables (''default'', ''i'') = []" by (simp add: abs_ledger_def get_ledger_chain_def init_tables_def)
  obtain ledger t i prev cur where a: "ledger_ok s'" "item sample_entry ''ledger'' = Inr ledger"
    "get_item sample_entry ''tenant_id'' (PyStr ''default'') = Inr (PyStr t)" "item sample_entry ''instance_id'' = Inr (PyStr i)"
    "item ledger ''current_hash'' = Inr (PyStr cur)" "extend (t, i) prev cur (abs_ledger init_tables) = Some (abs_ledger s')"
    using append_refines [OF ledger_ok_init r] unfolding e sum.case by blast
  have "t = ''default''" "i = ''i''" using a(3,4) by (simp_all add: sample_entry_def item_def get_item_def dget_or_def)
  moreover have "cur = replicate 64 (CHR ''1'')" using a(2,5) by (auto simp: sample_entry_def item_def simp del: replicate.simps)
  moreover have "abs_ledger s' = (abs_ledger init_tables)((t, i) := abs_ledger init_tables (t, i) @ [cur])"
    using a(6) by (simp add: extend_def split: if_splits)
  ultimately have "abs_ledger s' (''default'', ''i'') = [replicate 64 (CHR ''1'')]" using z by simp
  then show ?thesis using r e a(1) by blast
qed

text \<open>
  Deactivating a policy that was approved under a name has no effect: it is stored under the key
  \<open>name:version\<close>, and both \<open>deactivate_policy\<close> and \<open>approve_policy\<close> with \<open>active=False\<close> look for the bare
  version, so the version stays among the approved policies.
\<close>

theorem named_policy_stays_approved:
  assumes "n \<noteq> []" "CHR '':'' \<notin> set n" "n \<noteq> v"
  shows "v \<in> snd ` set (get_approved_policies (deactivate_policy v (add_approved_policy now v n s))) \<and>
    v \<in> snd ` set (get_approved_policies (approve_policy later v False (add_approved_policy now v n s)))"
proof -
  let ?r = "\<lparr>po_version = n @ CHR '':'' # v, po_active = True, po_created_at = now\<rparr>"
  have k: "policy_key v n = n @ CHR '':'' # v" using assms by (simp add: policy_key_def)
  have "?r \<in> set (filter po_active (db_policies (deactivate_policy v (add_approved_policy now v n s))))"
    by (simp add: deactivate_policy_def add_approved_policy_def k Let_def)
  moreover have "split1 (CHR '':'') (n @ CHR '':'' # v) = Some (n, v)" using assms(2) by (rule split1_append)
  ultimately have "v \<in> snd ` set (get_approved_policies (deactivate_policy v (add_approved_policy now v n s)))"
    unfolding get_approved_policies_def by force
  then show ?thesis by (simp add: approve_policy_def)
qed

theorem named_policy_stays_approved_witness:
  "''1.0'' \<in> snd ` set (get_approved_policies (deactivate_policy ''1.0''
     (add_approved_policy ''now'' ''1.0'' ''credit'' init_tables)))"
  using named_policy_stays_approved [of "''credit''" "''1.0''" "''now''" init_tables] by simp

end
