(* ===== verification/Schema.thy ===== *)
theory Schema
  imports Canonical
begin

text \<open>
  \<open>provable_ai/schema.py\<close>: the sub-models of a proof as records, their field and model validators,
  \<open>ProofV1.model_validate\<close> on a dictionary, \<open>model_dump(mode="json")\<close>, the hash payload, the signed
  bytes and the proof id of a proof, and \<open>VerificationResult\<close>.

  The operation \<open>X_init\<close> is the constructor of the pydantic class \<open>X\<close> on values that already have
  the types of the fields (length limits and validators), \<open>X_validate\<close> first converts the entries of
  a dictionary.  Every failure is the one exception \<open>ValidationError\<close>, so the order in which pydantic
  looks at the fields does not matter.
\<close>

subsection \<open>Data\<close>

datatype determinism_mode = STRICT_DETERMINISTIC | REPLAY_WITH_SEED | REPLAY_WITH_RECORDED_IO

datatype signature_algorithm = ED25519

record decision =
  d_from_state :: string
  d_to_state :: string

record decision_context =
  dc_reason_code :: string
  dc_policy_rule :: string
  dc_model_version :: string
  dc_inputs_hash :: string
  dc_feature_contributions :: contribs
  dc_threshold_used :: "string option"
  dc_metadata :: pydict

record governance =
  g_model_version :: string
  g_agent_version :: string
  g_policy_version :: string

record determinism =
  t_mode :: determinism_mode
  t_seed :: "string option"
  t_external_calls_hash :: "string option"

record ledger =
  l_sequence_id :: int
  l_previous_hash :: string
  l_current_hash :: string
  l_timestamp :: string

record signature =
  s_algorithm :: signature_algorithm
  s_key_id :: string
  s_public_key :: string
  s_value :: string

record proofv1 =
  p_type :: string
  p_instance_id :: string
  p_decision :: decision
  p_decision_context :: decision_context
  p_governance :: governance
  p_determinism :: determinism
  p_ledger :: ledger
  p_signature :: signature

definition PROOF_VERSION :: string where
  "PROOF_VERSION = ''zorynex-proof-v1''"

fun mode_value :: "determinism_mode \<Rightarrow> string" where
  "mode_value STRICT_DETERMINISTIC = ''strict_deterministic''"
| "mode_value REPLAY_WITH_SEED = ''replay_with_seed''"
| "mode_value REPLAY_WITH_RECORDED_IO = ''replay_with_recorded_io''"

definition mode_of :: "string \<Rightarrow> determinism_mode option" where
  "mode_of s = find (\<lambda>m. mode_value m = s)
     [STRICT_DETERMINISTIC, REPLAY_WITH_SEED, REPLAY_WITH_RECORDED_IO]"

fun algorithm_value :: "signature_algorithm \<Rightarrow> string" where
  "algorithm_value ED25519 = ''ed25519''"

subsection \<open>Constructors\<close>

definition Decision_init :: "string \<Rightarrow> string \<Rightarrow> decision res" where
  "Decision_init from_state to_state =
     rbind (rcheck (from_state \<noteq> [] \<and> to_state \<noteq> []) ValidationError)
       (\<lambda>_. Inr \<lparr>d_from_state = from_state, d_to_state = to_state\<rparr>)"

text \<open>The validators of \<open>inputs_hash\<close>, \<open>public_key\<close> and \<open>value\<close> and \<open>_validate_hash_field\<close>.\<close>

definition validate_hex :: "nat \<Rightarrow> string \<Rightarrow> string res" where
  "validate_hex n v = rbind (rcheck (length v = n \<and> int16_ok v) ValidationError) (\<lambda>_. Inr (lower v))"

fun validate_threshold_used :: "pyval \<Rightarrow> string option res" where
  "validate_threshold_used PyNone = Inr None"
| "validate_threshold_used (PyStr s) = Inr (Some s)"
| "validate_threshold_used _ = Inl ValidationError"

definition DecisionContext_init ::
    "string \<Rightarrow> string \<Rightarrow> string \<Rightarrow> string \<Rightarrow> contribs \<Rightarrow> string option \<Rightarrow> pydict \<Rightarrow> decision_context res" where
  "DecisionContext_init reason_code policy_rule model_version inputs_hash fc threshold metadata =
     rbind (rcheck (reason_code \<noteq> [] \<and> policy_rule \<noteq> [] \<and> model_version \<noteq> []) ValidationError) (\<lambda>_.
     rbind (validate_hex 64 inputs_hash) (\<lambda>ih.
     Inr \<lparr>dc_reason_code = reason_code, dc_policy_rule = policy_rule, dc_model_version = model_version,
          dc_inputs_hash = ih, dc_feature_contributions = fc, dc_threshold_used = threshold,
          dc_metadata = metadata\<rparr>))"

definition Governance_init :: "string \<Rightarrow> string \<Rightarrow> string \<Rightarrow> governance res" where
  "Governance_init m a p =
     rbind (rcheck (m \<noteq> [] \<and> a \<noteq> [] \<and> p \<noteq> []) ValidationError)
       (\<lambda>_. Inr \<lparr>g_model_version = m, g_agent_version = a, g_policy_version = p\<rparr>)"

definition validate_mode_fields :: "determinism \<Rightarrow> determinism res" where
  "validate_mode_fields t =
     (if t_mode t = REPLAY_WITH_SEED \<and> t_seed t = None then Inl ValidationError
      else if t_mode t = REPLAY_WITH_RECORDED_IO then
        (case t_external_calls_hash t of
           None \<Rightarrow> Inl ValidationError
         | Some h \<Rightarrow> if length h \<noteq> 64 then Inl ValidationError else Inr t)
      else Inr t)"

definition Determinism_init :: "determinism_mode \<Rightarrow> string option \<Rightarrow> string option \<Rightarrow> determinism res" where
  "Determinism_init m s e = validate_mode_fields \<lparr>t_mode = m, t_seed = s, t_external_calls_hash = e\<rparr>"

definition Ledger_init :: "int \<Rightarrow> string \<Rightarrow> string \<Rightarrow> string \<Rightarrow> ledger res" where
  "Ledger_init sequence_id previous_hash current_hash timestamp =
     rbind (rcheck (1 \<le> sequence_id) ValidationError) (\<lambda>_.
     rbind (validate_hex 64 previous_hash) (\<lambda>ph.
     rbind (validate_hex 64 current_hash) (\<lambda>ch.
     rbind (rcheck (20 \<le> length timestamp \<and> endswith timestamp ''Z'') ValidationError) (\<lambda>_.
     Inr \<lparr>l_sequence_id = sequence_id, l_previous_hash = ph, l_current_hash = ch,
          l_timestamp = timestamp\<rparr>))))"

definition Signature_init :: "signature_algorithm \<Rightarrow> string \<Rightarrow> string \<Rightarrow> string \<Rightarrow> signature res" where
  "Signature_init algo key_id public_key val =
     rbind (rcheck (key_id \<noteq> [] \<and> strip key_id \<noteq> []) ValidationError) (\<lambda>_.
     rbind (validate_hex 64 public_key) (\<lambda>pk.
     rbind (validate_hex 128 val) (\<lambda>sv.
     Inr \<lparr>s_algorithm = algo, s_key_id = key_id, s_public_key = pk, s_value = sv\<rparr>)))"

definition ProofV1_init ::
    "string \<Rightarrow> string \<Rightarrow> decision \<Rightarrow> decision_context \<Rightarrow> governance \<Rightarrow> determinism \<Rightarrow> ledger \<Rightarrow> signature
       \<Rightarrow> proofv1 res" where
  "ProofV1_init ty iid d dc g t l s =
     rbind (rcheck (ty = PROOF_VERSION \<and> iid \<noteq> []) ValidationError) (\<lambda>_.
     rbind (rcheck (dc_model_version dc = g_model_version g) ValidationError) (\<lambda>_.
     Inr \<lparr>p_type = ty, p_instance_id = iid, p_decision = d, p_decision_context = dc,
          p_governance = g, p_determinism = t, p_ledger = l, p_signature = s\<rparr>))"

subsection \<open>Validation of dictionaries\<close>

definition as_dict :: "pyval \<Rightarrow> pydict res" where
  "as_dict v = (case v of PyDict d \<Rightarrow> Inr d | _ \<Rightarrow> Inl ValidationError)"

definition field :: "pydict \<Rightarrow> string \<Rightarrow> pyval res" where
  "field d k = opt_res ValidationError (dget d k)"

definition str_field :: "ext \<Rightarrow> pydict \<Rightarrow> string \<Rightarrow> string res" where
  "str_field x d k = rbind (field d k) (\<lambda>v. opt_res ValidationError (x_str x v))"

definition opt_str_field :: "ext \<Rightarrow> pydict \<Rightarrow> string \<Rightarrow> string option res" where
  "opt_str_field x d k =
     (case dget d k of
        None \<Rightarrow> Inr None
      | Some v \<Rightarrow> if v = PyNone then Inr None
          else rbind (opt_res ValidationError (x_str x v)) (\<lambda>s. Inr (Some s)))"

definition Decision_validate :: "ext \<Rightarrow> pyval \<Rightarrow> decision res" where
  "Decision_validate x v =
     rbind (as_dict v) (\<lambda>d.
     rbind (str_field x d ''from_state'') (\<lambda>f.
     rbind (str_field x d ''to_state'') (\<lambda>t. Decision_init f t)))"

definition DecisionContext_validate :: "ext \<Rightarrow> pyval \<Rightarrow> decision_context res" where
  "DecisionContext_validate x v =
     rbind (as_dict v) (\<lambda>d.
     rbind (str_field x d ''reason_code'') (\<lambda>rc.
     rbind (str_field x d ''policy_rule'') (\<lambda>pr.
     rbind (str_field x d ''model_version'') (\<lambda>mv.
     rbind (str_field x d ''inputs_hash'') (\<lambda>ih.
     rbind (case dget d ''feature_contributions'' of
              None \<Rightarrow> Inr [] | Some w \<Rightarrow> opt_res ValidationError (x_contribs x w)) (\<lambda>fc.
     rbind (case dget d ''threshold_used'' of
              None \<Rightarrow> Inr None | Some w \<Rightarrow> validate_threshold_used w) (\<lambda>th.
     rbind (case dget d ''metadata'' of
              None \<Rightarrow> Inr [] | Some w \<Rightarrow> opt_res ValidationError (x_meta x w)) (\<lambda>md.
     DecisionContext_init rc pr mv ih fc th md))))))))"

definition Governance_validate :: "ext \<Rightarrow> pyval \<Rightarrow> governance res" where
  "Governance_validate x v =
     rbind (as_dict v) (\<lambda>d.
     rbind (str_field x d ''model_version'') (\<lambda>m.
     rbind (str_field x d ''agent_version'') (\<lambda>a.
     rbind (str_field x d ''policy_version'') (\<lambda>p. Governance_init m a p))))"

definition Determinism_validate :: "ext \<Rightarrow> pyval \<Rightarrow> determinism res" where
  "Determinism_validate x v =
     rbind (as_dict v) (\<lambda>d.
     rbind (rbind (field d ''mode'') (\<lambda>w. opt_res ValidationError
              (case w of PyStr s \<Rightarrow> mode_of s | _ \<Rightarrow> None))) (\<lambda>m.
     rbind (opt_str_field x d ''seed'') (\<lambda>s.
     rbind (opt_str_field x d ''external_calls_hash'') (\<lambda>e. Determinism_init m s e))))"

definition Ledger_validate :: "ext \<Rightarrow> pyval \<Rightarrow> ledger res" where
  "Ledger_validate x v =
     rbind (as_dict v) (\<lambda>d.
     rbind (rbind (field d ''sequence_id'') (\<lambda>w. opt_res ValidationError (x_int x w))) (\<lambda>i.
     rbind (str_field x d ''previous_hash'') (\<lambda>ph.
     rbind (str_field x d ''current_hash'') (\<lambda>ch.
     rbind (str_field x d ''timestamp'') (\<lambda>ts. Ledger_init i ph ch ts)))))"

definition Signature_validate :: "ext \<Rightarrow> pyval \<Rightarrow> signature res" where
  "Signature_validate x v =
     rbind (as_dict v) (\<lambda>d.
     rbind (case dget d ''algorithm'' of
              None \<Rightarrow> Inr ED25519
            | Some w \<Rightarrow> if w = PyStr (algorithm_value ED25519) then Inr ED25519 else Inl ValidationError) (\<lambda>al.
     rbind (str_field x d ''key_id'') (\<lambda>ki.
     rbind (str_field x d ''public_key'') (\<lambda>pk.
     rbind (str_field x d ''value'') (\<lambda>sv. Signature_init al ki pk sv)))))"

definition ProofV1_validate :: "ext \<Rightarrow> pyval \<Rightarrow> proofv1 res" where
  "ProofV1_validate x v =
     rbind (as_dict v) (\<lambda>d.
     rbind (case dget d ''type'' of
              None \<Rightarrow> Inr PROOF_VERSION | Some w \<Rightarrow> opt_res ValidationError (x_str x w)) (\<lambda>ty.
     rbind (str_field x d ''instance_id'') (\<lambda>iid.
     rbind (rbind (field d ''decision'') (Decision_validate x)) (\<lambda>de.
     rbind (rbind (field d ''decision_context'') (DecisionContext_validate x)) (\<lambda>dc.
     rbind (rbind (field d ''governance'') (Governance_validate x)) (\<lambda>g.
     rbind (rbind (field d ''determinism'') (Determinism_validate x)) (\<lambda>t.
     rbind (rbind (field d ''ledger'') (Ledger_validate x)) (\<lambda>l.
     rbind (rbind (field d ''signature'') (Signature_validate x)) (\<lambda>s.
     ProofV1_init ty iid de dc g t l s)))))))))"

subsection \<open>Serialisation\<close>

definition dump_decision :: "decision \<Rightarrow> pyval" where
  "dump_decision d = PyDict [(KStr ''from_state'', PyStr (d_from_state d)), (KStr ''to_state'', PyStr (d_to_state d))]"

definition dump_context :: "ext \<Rightarrow> decision_context \<Rightarrow> pyval res" where
  "dump_context x c =
     rbind (opt_res TypeError (x_any_json x (PyDict (dc_metadata c)))) (\<lambda>md.
     Inr (PyDict [(KStr ''reason_code'', PyStr (dc_reason_code c)), (KStr ''policy_rule'', PyStr (dc_policy_rule c)),
       (KStr ''model_version'', PyStr (dc_model_version c)), (KStr ''inputs_hash'', PyStr (dc_inputs_hash c)),
       (KStr ''feature_contributions'', contribs_val (dc_feature_contributions c)),
       (KStr ''threshold_used'', opt_str (dc_threshold_used c)), (KStr ''metadata'', md)]))"

definition dump_governance :: "governance \<Rightarrow> pyval" where
  "dump_governance g = PyDict [(KStr ''model_version'', PyStr (g_model_version g)),
     (KStr ''agent_version'', PyStr (g_agent_version g)), (KStr ''policy_version'', PyStr (g_policy_version g))]"

definition dump_determinism :: "determinism \<Rightarrow> pyval" where
  "dump_determinism t = PyDict [(KStr ''mode'', PyStr (mode_value (t_mode t))),
     (KStr ''seed'', opt_str (t_seed t)), (KStr ''external_calls_hash'', opt_str (t_external_calls_hash t))]"

definition dump_ledger :: "ledger \<Rightarrow> pyval" where
  "dump_ledger l = PyDict [(KStr ''sequence_id'', PyInt (l_sequence_id l)),
     (KStr ''previous_hash'', PyStr (l_previous_hash l)), (KStr ''current_hash'', PyStr (l_current_hash l)),
     (KStr ''timestamp'', PyStr (l_timestamp l))]"

definition dump_signature :: "signature \<Rightarrow> pyval" where
  "dump_signature s = PyDict [(KStr ''algorithm'', PyStr (algorithm_value (s_algorithm s))),
     (KStr ''key_id'', PyStr (s_key_id s)), (KStr ''public_key'', PyStr (s_public_key s)),
     (KStr ''value'', PyStr (s_value s))]"

definition dump_proof :: "ext \<Rightarrow> proofv1 \<Rightarrow> pyval res" where
  "dump_proof x p =
     rbind (dump_context x (p_decision_context p)) (\<lambda>c.
     Inr (PyDict [(KStr ''type'', PyStr (p_type p)), (KStr ''instance_id'', PyStr (p_instance_id p)),
       (KStr ''decision'', dump_decision (p_decision p)), (KStr ''decision_context'', c),
       (KStr ''governance'', dump_governance (p_governance p)),
       (KStr ''determinism'', dump_determinism (p_determinism p)),
       (KStr ''ledger'', dump_ledger (p_ledger p)), (KStr ''signature'', dump_signature (p_signature p))]))"

definition to_hash_payload :: "ext \<Rightarrow> proofv1 \<Rightarrow> pyval res" where
  "to_hash_payload x p =
     rbind (dump_context x (p_decision_context p)) (\<lambda>c.
     build_hash_payload (dump_decision (p_decision p)) c (dump_governance (p_governance p))
       (dump_determinism (p_determinism p)) (l_previous_hash (p_ledger p)) (l_sequence_id (p_ledger p)))"

definition to_sign_bytes :: "proofv1 \<Rightarrow> bytes res" where
  "to_sign_bytes p = opt_res (ValueError ''fromhex'') (fromhex (l_current_hash (p_ledger p)))"

definition proof_id :: "ext \<Rightarrow> proofv1 \<Rightarrow> string" where
  "proof_id x p = compute_proof_id x (l_current_hash (p_ledger p)) (l_sequence_id (p_ledger p))"

subsection \<open>VerificationResult\<close>

text \<open>The \<open>type\<close> entry of a \<open>failure_reason\<close> (its texts are left out).\<close>

datatype failure = SchemaValidationError | FHashMismatch | FSignatureMismatch | FChainBroken
  | FSequenceGap | DeterminismInconsistency | UnexpectedError | EmptyChain

record verification_result =
  vr_valid :: bool
  vr_final_state :: "string option"
  vr_verified_at :: string
  vr_key_id :: string
  vr_sequence_verified :: int
  vr_chain_intact :: bool
  vr_governance_compliant :: bool
  vr_failure_reason :: "failure option"

subsection \<open>Hexadecimal fields\<close>

definition hex_text :: "nat \<Rightarrow> string \<Rightarrow> bool" where
  "hex_text n v \<longleftrightarrow> length v = n \<and> int16_ok v \<and> lower v = v"

lemma lower_hex_hex_text [hex_simps]: "lower_hex n v \<Longrightarrow> 0 < n \<Longrightarrow> hex_text n v"
  using int16_ok_lower_hex [of n v] lower_hex_lower [of n v]
  unfolding hex_text_def by (simp add: lower_hex_def)

lemma lower_char_cases:
  "hexval (lower_char c) = None \<longleftrightarrow> hexval c = None"
  "int_space (lower_char c) = int_space c"
  "lower_char c = CHR ''_'' \<longleftrightarrow> c = CHR ''_''"
  "lower_char c = CHR ''0'' \<longleftrightarrow> c = CHR ''0''"
  "lower_char c = CHR ''+'' \<longleftrightarrow> c = CHR ''+''"
  "lower_char c = CHR ''-'' \<longleftrightarrow> c = CHR ''-''"
  "(lower_char c = CHR ''x'' \<or> lower_char c = CHR ''X'') \<longleftrightarrow> (c = CHR ''x'' \<or> c = CHR ''X'')"
proof -
  have b: "cp c < 256" by simp
  note d = lower_char_def Let_def hexval_def int_space_def ascii_space_def
  have e: "c = k \<longleftrightarrow> cp c = cp k" for c k by simp
  have z: "cp CHR ''0'' = 48" by (simp add: cp_def)
  show "hexval (lower_char c) = None \<longleftrightarrow> hexval c = None" "int_space (lower_char c) = int_space c"
    using b by (auto simp: d)
  show "lower_char c = CHR ''_'' \<longleftrightarrow> c = CHR ''_''" "lower_char c = CHR ''0'' \<longleftrightarrow> c = CHR ''0''"
    "lower_char c = CHR ''+'' \<longleftrightarrow> c = CHR ''+''" "lower_char c = CHR ''-'' \<longleftrightarrow> c = CHR ''-''"
    "(lower_char c = CHR ''x'' \<or> lower_char c = CHR ''X'') \<longleftrightarrow> (c = CHR ''x'' \<or> c = CHR ''X'')"
    unfolding e z cp_punct using b by (auto simp: lower_char_def Let_def)
qed

lemma lower_char_x: "lower_char CHR ''x'' = CHR ''x''" "lower_char CHR ''X'' = CHR ''x''"
  unfolding cp_inj [symmetric] by (simp_all add: lower_char_def Let_def)

lemma hexrun_lower: "hexrun (lower s) = hexrun s"
  by (induction s rule: hexrun.induct) (auto simp: lower_def lower_char_cases)

lemma int16_ok_lower [simp]: "int16_ok (lower s) = int16_ok s"
proof -
  have dw: "dropWhile int_space (lower t) = lower (dropWhile int_space t)" for t
    by (simp add: lower_def dropWhile_map comp_def lower_char_cases)
  have rv: "rev (lower t) = lower (rev t)" for t by (simp add: lower_def rev_map)
  have ds: "drop_sign (lower t) = lower (drop_sign t)" for t
    by (auto simp: drop_sign_def lower_def lower_char_cases split: list.splits)
  have dx: "drop_0x (lower t) = lower (drop_0x t)" for t
    by (auto simp: drop_0x_def lower_def lower_char_cases lower_char_x split: list.splits)
  show ?thesis unfolding int16_ok_def by (simp add: dw rv ds dx hexrun_lower)
qed

lemma validate_hex_iff:
  "validate_hex n v = Inr w \<longleftrightarrow> length v = n \<and> int16_ok v \<and> w = lower v"
  by (auto simp: validate_hex_def)

lemma validate_hex_text: "hex_text n v \<Longrightarrow> validate_hex n v = Inr v"
  by (simp add: validate_hex_iff hex_text_def)

lemma validate_hex_gives: "validate_hex n v = Inr w \<Longrightarrow> hex_text n w"
  by (auto simp: validate_hex_iff hex_text_def)

lemma mode_of_value [simp]: "mode_of (mode_value m) = Some m"
  by (cases m) (simp_all add: mode_of_def)

subsection \<open>Well-formed proofs\<close>

definition wf_context :: "decision_context \<Rightarrow> bool" where
  "wf_context c \<longleftrightarrow> dc_reason_code c \<noteq> [] \<and> dc_policy_rule c \<noteq> [] \<and> dc_model_version c \<noteq> [] \<and>
     hex_text 64 (dc_inputs_hash c)"

definition wf_ledger :: "ledger \<Rightarrow> bool" where
  "wf_ledger l \<longleftrightarrow> 1 \<le> l_sequence_id l \<and> hex_text 64 (l_previous_hash l) \<and> hex_text 64 (l_current_hash l) \<and>
     20 \<le> length (l_timestamp l) \<and> endswith (l_timestamp l) ''Z''"

definition wf_signature :: "signature \<Rightarrow> bool" where
  "wf_signature s \<longleftrightarrow> s_key_id s \<noteq> [] \<and> strip (s_key_id s) \<noteq> [] \<and> hex_text 64 (s_public_key s) \<and>
     hex_text 128 (s_value s)"

definition wf_proof :: "proofv1 \<Rightarrow> bool" where
  "wf_proof p \<longleftrightarrow> p_type p = PROOF_VERSION \<and> p_instance_id p \<noteq> [] \<and>
     d_from_state (p_decision p) \<noteq> [] \<and> d_to_state (p_decision p) \<noteq> [] \<and>
     wf_context (p_decision_context p) \<and>
     g_model_version (p_governance p) \<noteq> [] \<and> g_agent_version (p_governance p) \<noteq> [] \<and>
     g_policy_version (p_governance p) \<noteq> [] \<and>
     validate_mode_fields (p_determinism p) = Inr (p_determinism p) \<and>
     wf_ledger (p_ledger p) \<and> wf_signature (p_signature p) \<and>
     dc_model_version (p_decision_context p) = g_model_version (p_governance p)"

lemmas wf_defs = wf_context_def wf_ledger_def wf_signature_def

lemma Decision_init_iff:
  "Decision_init f t = Inr d \<longleftrightarrow> f \<noteq> [] \<and> t \<noteq> [] \<and> d = \<lparr>d_from_state = f, d_to_state = t\<rparr>"
  by (auto simp: Decision_init_def)

lemma DecisionContext_init_wf: "DecisionContext_init a b c h fc th md = Inr v \<Longrightarrow> wf_context v"
  by (auto simp: DecisionContext_init_def wf_context_def dest: validate_hex_gives)

lemma Governance_init_iff:
  "Governance_init m a p = Inr g \<longleftrightarrow> m \<noteq> [] \<and> a \<noteq> [] \<and> p \<noteq> [] \<and>
     g = \<lparr>g_model_version = m, g_agent_version = a, g_policy_version = p\<rparr>"
  by (auto simp: Governance_init_def)

lemma Determinism_init_iff:
  "Determinism_init m s e = Inr t \<longleftrightarrow>
     t = \<lparr>t_mode = m, t_seed = s, t_external_calls_hash = e\<rparr> \<and> validate_mode_fields t = Inr t"
  by (auto simp: Determinism_init_def validate_mode_fields_def split: if_splits option.splits)

lemma Ledger_init_wf: "Ledger_init i p c ts = Inr l \<Longrightarrow> wf_ledger l"
  by (auto simp: Ledger_init_def wf_ledger_def dest: validate_hex_gives)

lemma Signature_init_wf: "Signature_init al k pk v = Inr s \<Longrightarrow> wf_signature s"
  by (auto simp: Signature_init_def wf_signature_def dest: validate_hex_gives)

lemma ProofV1_validate_wf: "ProofV1_validate x v = Inr p \<Longrightarrow> wf_proof p"
  unfolding ProofV1_validate_def
  by (auto simp: ProofV1_init_def wf_proof_def Decision_validate_def DecisionContext_validate_def
      Governance_validate_def Determinism_validate_def Ledger_validate_def Signature_validate_def
      Decision_init_iff Governance_init_iff Determinism_init_iff
      dest!: DecisionContext_init_wf Ledger_init_wf Signature_init_wf)

subsection \<open>Sorting the keys: what a stored proof reads back as\<close>

definition norm_items :: "pydict \<Rightarrow> pydict" where
  "norm_items d = sort_key (\<lambda>p. key_str (fst p)) (map (\<lambda>p. (fst p, norm (snd p))) d)"

lemma norm_PyDict: "norm (PyDict d) = PyDict (norm_items d)"
  by (simp add: norm_items_def)

lemma norm_norm [simp]: "norm (norm v) = norm v"
proof (induction v)
  case (PyDict d)
  have m: "map (\<lambda>p. (fst p, norm (snd p))) (map (\<lambda>p. (fst p, norm (snd p))) d)
      = map (\<lambda>p. (fst p, norm (snd p))) d"
    using PyDict by (force simp: comp_def)
  let ?f = "\<lambda>p::pykey \<times> pyval. key_str (fst p)" and ?g = "\<lambda>p. (fst p, norm (snd p))"
  have "sort_key ?f (map ?g (sort_key ?f (map ?g d))) = sort_key ?f (sort_key ?f (map ?g (map ?g d)))"
    by (simp add: sort_key_map comp_def)
  also have "\<dots> = sort_key ?f (map ?g d)"
    unfolding m by (rule sort_key_id_if_sorted) simp
  finally show ?case by simp
qed (auto simp: list_all_iff)

lemma map_of_sort_key:
  assumes "distinct (map fst d)"
  shows "map_of (sort_key f d) = map_of d"
proof -
  have "distinct (map fst (sort_key f d))"
    using assms by (metis mset_sort mset_map mset_eq_imp_distinct_iff)
  with assms show ?thesis by (intro ext) (metis map_of_eq_Some_iff set_sort not_None_eq)
qed

lemma dget_norm_items:
  assumes "distinct (map fst d)"
  shows "dget (norm_items d) k = map_option norm (dget d k)"
proof -
  have "distinct (map fst (map (\<lambda>p. (fst p, norm (snd p))) d))" using assms by (simp add: comp_def)
  then show ?thesis
    by (simp add: dget_def norm_items_def map_of_sort_key) (induction d, auto)
qed

definition norm_context :: "decision_context \<Rightarrow> decision_context" where
  "norm_context c = c\<lparr>dc_feature_contributions := map (sort_key fst) (dc_feature_contributions c),
     dc_metadata := norm_items (dc_metadata c)\<rparr>"

definition norm_proof :: "proofv1 \<Rightarrow> proofv1" where
  "norm_proof p = p\<lparr>p_decision_context := norm_context (p_decision_context p)\<rparr>"

lemma norm_contribs_val: "norm (contribs_val fc) = contribs_val (map (sort_key fst) fc)"
  by (simp add: contribs_val_def comp_def sort_key_map split_def)

lemma str_field_get: "pydantic_ok x \<Longrightarrow> dget d k = Some (PyStr s) \<Longrightarrow> str_field x d k = Inr s"
  by (simp add: str_field_def field_def pydantic_okD)

lemma opt_str_field_get: "pydantic_ok x \<Longrightarrow> dget d k = Some (opt_str s) \<Longrightarrow> opt_str_field x d k = Inr s"
  by (auto simp: opt_str_field_def opt_str_def pydantic_okD split: option.splits)

lemma threshold_opt_str: "validate_threshold_used (opt_str s) = Inr s"
  by (simp add: opt_str_def split: option.splits)

lemma Decision_dump:
  assumes "pydantic_ok x" "d_from_state d \<noteq> []" "d_to_state d \<noteq> []"
  shows "Decision_validate x (dump_decision d) = Inr d" "Decision_validate x (norm (dump_decision d)) = Inr d"
  using assms unfolding dump_decision_def norm_PyDict Decision_validate_def
  by (simp_all add: as_dict_def str_field_get dget_norm_items Decision_init_def rbind_rcheck)

lemma Governance_dump:
  assumes "pydantic_ok x" "g_model_version g \<noteq> []" "g_agent_version g \<noteq> []" "g_policy_version g \<noteq> []"
  shows "Governance_validate x (dump_governance g) = Inr g" "Governance_validate x (norm (dump_governance g)) = Inr g"
  using assms unfolding dump_governance_def norm_PyDict Governance_validate_def
  by (simp_all add: as_dict_def str_field_get dget_norm_items Governance_init_def rbind_rcheck)

lemma Determinism_dump:
  assumes "pydantic_ok x" "validate_mode_fields t = Inr t"
  shows "Determinism_validate x (dump_determinism t) = Inr t"
    "Determinism_validate x (norm (dump_determinism t)) = Inr t"
  using assms unfolding dump_determinism_def norm_PyDict Determinism_validate_def
  by (cases t; simp add: as_dict_def field_def opt_str_field_get dget_norm_items Determinism_init_def)+

lemma Ledger_dump:
  assumes "pydantic_ok x" "wf_ledger l"
  shows "Ledger_validate x (dump_ledger l) = Inr l" "Ledger_validate x (norm (dump_ledger l)) = Inr l"
  using assms unfolding dump_ledger_def norm_PyDict Ledger_validate_def wf_ledger_def
  by (simp_all add: as_dict_def field_def str_field_get dget_norm_items pydantic_okD Ledger_init_def
      rbind_rcheck validate_hex_text)

lemma Signature_dump:
  assumes "pydantic_ok x" "wf_signature s"
  shows "Signature_validate x (dump_signature s) = Inr s" "Signature_validate x (norm (dump_signature s)) = Inr s"
  using assms unfolding dump_signature_def norm_PyDict Signature_validate_def wf_signature_def
  by (cases "s_algorithm s"; simp add: as_dict_def str_field_get dget_norm_items Signature_init_def
      rbind_rcheck validate_hex_text)+

lemma dump_context_plain:
  assumes "pydantic_ok x" "plain (PyDict (dc_metadata c))"
  shows "dump_context x c = Inr (PyDict [(KStr ''reason_code'', PyStr (dc_reason_code c)),
       (KStr ''policy_rule'', PyStr (dc_policy_rule c)), (KStr ''model_version'', PyStr (dc_model_version c)),
       (KStr ''inputs_hash'', PyStr (dc_inputs_hash c)),
       (KStr ''feature_contributions'', contribs_val (dc_feature_contributions c)),
       (KStr ''threshold_used'', opt_str (dc_threshold_used c)), (KStr ''metadata'', PyDict (dc_metadata c))])"
  using pydantic_okD(5) [OF assms] by (simp add: dump_context_def)

lemma plain_norm_items: "plain (PyDict (norm_items d)) = plain (PyDict d)"
  by (metis norm_PyDict plain_norm)

lemma wf_contribs_sort: "wf_contribs fc \<Longrightarrow> wf_contribs (map (sort_key fst) fc)"
proof -
  have "distinct (map fst (sort_key fst d)) = distinct (map fst d)" for d :: "(string \<times> string) list"
    by (metis mset_sort mset_map mset_eq_imp_distinct_iff)
  then show "wf_contribs fc \<Longrightarrow> wf_contribs (map (sort_key fst) fc)" by (simp add: wf_contribs_def list_all_iff)
qed

lemma Context_dump:
  assumes x: "pydantic_ok x" and md: "plain (PyDict (dc_metadata c))" and w: "wf_context c"
    and fc: "wf_contribs (dc_feature_contributions c)"
    and e: "dump_context x c = Inr v"
  shows "DecisionContext_validate x v = Inr c" "DecisionContext_validate x (norm v) = Inr (norm_context c)"
proof -
  have md': "plain (PyDict (norm_items (dc_metadata c)))" using md by (simp only: plain_norm_items)
  note e' = e [unfolded dump_context_plain [OF x md], THEN sum.inject(2) [THEN iffD1], symmetric]
  note s = as_dict_def field_def str_field_get opt_str_field_get dget_norm_items threshold_opt_str
    pydantic_okD(1,2) [OF x] pydantic_okD(3) [OF x fc] pydantic_okD(3) [OF x wf_contribs_sort [OF fc]]
    pydantic_okD(4) [OF x md] pydantic_okD(4) [OF x md'] norm_contribs_val norm_PyDict
    DecisionContext_init_def rbind_rcheck validate_hex_text
  show "DecisionContext_validate x v = Inr c"
    using x w unfolding DecisionContext_validate_def e' wf_context_def
    by (simp add: s del: norm.simps plain.simps)
  show "DecisionContext_validate x (norm v) = Inr (norm_context c)"
    using x w unfolding DecisionContext_validate_def e' wf_context_def norm_context_def
    by (simp add: s del: norm.simps(3) plain.simps)
qed

lemma ProofV1_dump:
  assumes x: "pydantic_ok x" and md: "plain (PyDict (dc_metadata (p_decision_context p)))" and w: "wf_proof p"
    and fc: "wf_contribs (dc_feature_contributions (p_decision_context p))"
    and e: "dump_proof x p = Inr v"
  shows "ProofV1_validate x v = Inr p" "ProofV1_validate x (norm v) = Inr (norm_proof p)"
proof -
  from e obtain c where c: "dump_context x (p_decision_context p) = Inr c"
    and v: "v = PyDict [(KStr ''type'', PyStr (p_type p)), (KStr ''instance_id'', PyStr (p_instance_id p)),
       (KStr ''decision'', dump_decision (p_decision p)), (KStr ''decision_context'', c),
       (KStr ''governance'', dump_governance (p_governance p)),
       (KStr ''determinism'', dump_determinism (p_determinism p)),
       (KStr ''ledger'', dump_ledger (p_ledger p)), (KStr ''signature'', dump_signature (p_signature p))]"
    by (auto simp: dump_proof_def)
  note w' = w [unfolded wf_proof_def]
  note subs = Decision_dump [OF x, of "p_decision p"] Governance_dump [OF x, of "p_governance p"]
    Determinism_dump [OF x, of "p_determinism p"] Ledger_dump [OF x, of "p_ledger p"]
    Signature_dump [OF x, of "p_signature p"] Context_dump [OF x md _ fc c]
  note s = as_dict_def field_def str_field_get dget_norm_items pydantic_okD(1,2) [OF x] ProofV1_init_def rbind_rcheck
  show "ProofV1_validate x v = Inr p"
    using x w' subs unfolding ProofV1_validate_def v by (simp add: s)
  show "ProofV1_validate x (norm v) = Inr (norm_proof p)"
    using x w' subs unfolding ProofV1_validate_def v norm_PyDict norm_proof_def norm_context_def
    by (simp add: s)
qed

text \<open>The hash of a proof does not depend on the order of its keys.\<close>

definition proof_hash :: "ext \<Rightarrow> proofv1 \<Rightarrow> string res" where
  "proof_hash x p = rbind (to_hash_payload x p) (canonical_hash x)"

lemma canonical_hash_cong: "plain v \<Longrightarrow> norm v = norm w \<Longrightarrow> canonical_hash x w = canonical_hash x v"
  by (metis canonical_hash_iff plain_norm)

lemma dump_context_norm:
  assumes "pydantic_ok x" "plain (PyDict (dc_metadata c))"
    "dump_context x c = Inr v" "dump_context x (norm_context c) = Inr w"
  shows "norm w = norm v"
proof -
  have "plain (PyDict (dc_metadata (norm_context c)))"
    using assms(2) by (simp add: norm_context_def plain_norm_items del: plain.simps)
  note d = dump_context_plain [OF assms(1) this] dump_context_plain [OF assms(1,2)]
  have m: "norm (PyDict (norm_items md)) = norm (PyDict md)" for md
    by (metis norm_PyDict norm_norm)
  have f: "norm (contribs_val (map (sort_key fst) fc)) = norm (contribs_val fc)" for fc
    by (metis norm_contribs_val norm_norm)
  have c: "dc_metadata (norm_context c) = norm_items (dc_metadata c)"
    "dc_feature_contributions (norm_context c) = map (sort_key fst) (dc_feature_contributions c)"
    "dc_reason_code (norm_context c) = dc_reason_code c" "dc_policy_rule (norm_context c) = dc_policy_rule c"
    "dc_model_version (norm_context c) = dc_model_version c" "dc_inputs_hash (norm_context c) = dc_inputs_hash c"
    "dc_threshold_used (norm_context c) = dc_threshold_used c"
    by (simp_all add: norm_context_def)
  note vw = assms(3,4) [unfolded d sum.inject, symmetric]
  show ?thesis unfolding vw norm_PyDict norm_items_def list.map fst_conv snd_conv
    by (simp only: c norm_items_def [symmetric] norm_PyDict [symmetric] m f norm_norm)
qed

lemma plain_contribs_val [simp]: "plain (contribs_val fc)"
  by (auto simp: contribs_val_def list_all_iff)

lemma plain_dumps [simp]: "plain (dump_decision d)" "plain (dump_governance g)" "plain (dump_determinism t)"
  "plain (dump_ledger l)" "plain (dump_signature s)"
  by (simp_all add: dump_decision_def dump_governance_def dump_determinism_def dump_ledger_def dump_signature_def)

lemma dump_context_Inr:
  assumes "pydantic_ok x" "plain (PyDict (dc_metadata c))"
  obtains v where "dump_context x c = Inr v" "plain v"
  using dump_context_plain [OF assms] assms(2) by simp

lemma proof_hash_norm:
  assumes x: "pydantic_ok x" and md: "plain (PyDict (dc_metadata (p_decision_context p)))"
  shows "proof_hash x (norm_proof p) = proof_hash x p"
proof -
  have md': "plain (PyDict (dc_metadata (norm_context (p_decision_context p))))"
    using md by (simp add: norm_context_def plain_norm_items del: plain.simps)
  obtain v where v: "dump_context x (p_decision_context p) = Inr v" "plain v"
    using dump_context_Inr [OF x md] .
  obtain w where w: "dump_context x (norm_context (p_decision_context p)) = Inr w" "plain w"
    using dump_context_Inr [OF x md'] .
  have n: "norm w = norm v" by (rule dump_context_norm [OF x md v(1) w(1)])
  obtain a where a: "to_hash_payload x p = Inr a" "plain a"
    using v by (auto simp: to_hash_payload_def build_hash_payload_iff)
  obtain b where b: "to_hash_payload x (norm_proof p) = Inr b" "plain b"
    using w by (auto simp: to_hash_payload_def build_hash_payload_iff norm_proof_def)
  have "norm b = norm a"
  proof -
    have "a = PyDict [(KStr ''decision'', dump_decision (p_decision p)), (KStr ''decision_context'', v),
        (KStr ''governance'', dump_governance (p_governance p)),
        (KStr ''determinism'', dump_determinism (p_determinism p)),
        (KStr ''previous_hash'', PyStr (l_previous_hash (p_ledger p))),
        (KStr ''sequence_id'', PyInt (l_sequence_id (p_ledger p)))]"
      using a(1) v(1) by (simp add: to_hash_payload_def build_hash_payload_iff)
    moreover have "b = PyDict [(KStr ''decision'', dump_decision (p_decision p)), (KStr ''decision_context'', w),
        (KStr ''governance'', dump_governance (p_governance p)),
        (KStr ''determinism'', dump_determinism (p_determinism p)),
        (KStr ''previous_hash'', PyStr (l_previous_hash (p_ledger p))),
        (KStr ''sequence_id'', PyInt (l_sequence_id (p_ledger p)))]"
      using b(1) w(1) by (simp add: to_hash_payload_def build_hash_payload_iff norm_proof_def)
    ultimately show ?thesis by (simp only: sort_hash_fields n)
  qed
  with a(2) have "canonical_hash x b = canonical_hash x a" by (intro canonical_hash_cong) simp_all
  with a(1) b(1) show ?thesis by (simp add: proof_hash_def)
qed

subsection \<open>Properties\<close>

definition sample_p :: proofv1 where
  "sample_p = \<lparr>p_type = PROOF_VERSION, p_instance_id = ''i'', p_decision = \<lparr>d_from_state = ''a'', d_to_state = ''b''\<rparr>,
     p_decision_context = \<lparr>dc_reason_code = ''r'', dc_policy_rule = ''p'', dc_model_version = ''m'',
        dc_inputs_hash = genesis_hash, dc_feature_contributions = [], dc_threshold_used = None,
        dc_metadata = [(KStr ''b'', PyInt 2), (KStr ''a'', PyNone)]\<rparr>,
     p_governance = \<lparr>g_model_version = ''m'', g_agent_version = ''g'', g_policy_version = ''p''\<rparr>,
     p_determinism = \<lparr>t_mode = STRICT_DETERMINISTIC, t_seed = None, t_external_calls_hash = None\<rparr>,
     p_ledger = \<lparr>l_sequence_id = 1, l_previous_hash = genesis_hash, l_current_hash = genesis_hash,
        l_timestamp = ''2025-01-01T00:00:00Z''\<rparr>,
     p_signature = \<lparr>s_algorithm = ED25519, s_key_id = ''k'', s_public_key = genesis_hash,
        s_value = replicate 128 (CHR ''0'')\<rparr>\<rparr>"

lemma sample_p_ok: "wf_proof sample_p" "plain (PyDict (dc_metadata (p_decision_context sample_p)))"
  "wf_contribs (dc_feature_contributions (p_decision_context sample_p))"
  by code_simp+

lemma proof_dump_exists:
  assumes "pydantic_ok x" "plain (PyDict (dc_metadata (p_decision_context p)))"
  obtains v where "dump_proof x p = Inr v"
proof -
  obtain c where "dump_context x (p_decision_context p) = Inr c" using dump_context_Inr [OF assms] .
  then show thesis using that by (simp add: dump_proof_def)
qed

lemma validate_mode_fields_iff:
  "validate_mode_fields t = Inr t \<longleftrightarrow> (t_mode t = REPLAY_WITH_SEED \<longrightarrow> t_seed t \<noteq> None) \<and>
    (t_mode t = REPLAY_WITH_RECORDED_IO \<longrightarrow> (\<exists>h. t_external_calls_hash t = Some h \<and> length h = 64))"
  by (auto simp: validate_mode_fields_def split: option.splits)

text \<open>
  C29: A proof that passes validation is well formed: the version tag is the current one; instance, states, reason code, policy
  rule, the versions of model, agent and policy and the key id are not empty, the key id not blank; the two model
  versions agree; a replay with a seed has one and a replay with recorded calls has their hash of 64 characters; the sequence
  number is positive; the timestamp has at least 20 characters and ends in \<open>Z\<close>; and every hash, the public key and the signature
  have 64, 64 and 128 characters, no upper-case letter, and are readable by \<open>int(v, 16)\<close> (which admits a sign, a
  \<open>0x\<close> prefix and underscores beside the digits).
\<close>

theorem validated_proof_well_formed:
  assumes "ProofV1_validate x v = Inr p"
  shows "p_type p = PROOF_VERSION \<and>
    list_all (\<lambda>t. t \<noteq> []) [p_instance_id p, d_from_state (p_decision p), d_to_state (p_decision p),
      dc_reason_code (p_decision_context p), dc_policy_rule (p_decision_context p), g_model_version (p_governance p),
      g_agent_version (p_governance p), g_policy_version (p_governance p), strip (s_key_id (p_signature p))] \<and>
    dc_model_version (p_decision_context p) = g_model_version (p_governance p) \<and>
    (t_mode (p_determinism p) = REPLAY_WITH_SEED \<longrightarrow> t_seed (p_determinism p) \<noteq> None) \<and>
    (t_mode (p_determinism p) = REPLAY_WITH_RECORDED_IO \<longrightarrow>
      (\<exists>h. t_external_calls_hash (p_determinism p) = Some h \<and> length h = 64)) \<and>
    1 \<le> l_sequence_id (p_ledger p) \<and> 20 \<le> length (l_timestamp (p_ledger p)) \<and> endswith (l_timestamp (p_ledger p)) ''Z'' \<and>
    list_all (\<lambda>(n, t). length t = n \<and> int16_ok t \<and> lower t = t)
      [(64, dc_inputs_hash (p_decision_context p)), (64, l_previous_hash (p_ledger p)), (64, l_current_hash (p_ledger p)),
       (64, s_public_key (p_signature p)), (128, s_value (p_signature p))]"
  using ProofV1_validate_wf [OF assms] unfolding wf_proof_def wf_defs validate_mode_fields_iff hex_text_def by simp

theorem validated_proof_well_formed_witness:
  "\<exists>v p. ProofV1_validate sample_ext v = Inr p \<and> p_type p = PROOF_VERSION \<and> 1 \<le> l_sequence_id (p_ledger p) \<and>
    g_agent_version (p_governance p) \<noteq> []"
proof -
  obtain v where v: "dump_proof sample_ext sample_p = Inr v"
    using sample_ext_ok(3) sample_p_ok(2) by (rule proof_dump_exists)
  from ProofV1_dump(1) [OF sample_ext_ok(3) sample_p_ok(2,1,3) v] have p: "ProofV1_validate sample_ext v = Inr sample_p" .
  from validated_proof_well_formed [OF p] p show ?thesis by auto
qed

text \<open>
  The check of a hash field accepts texts that are not hexadecimal digits only: 62 digits after \<open>0x\<close> or a sign, or with an
  underscore between two digits.
\<close>

theorem hash_field_admits_prefix:
  "list_all (\<lambda>t. validate_hex 64 t = Inr t) [''0x'' @ replicate 62 (CHR ''1''), ''+'' @ replicate 63 (CHR ''1''),
     ''1_'' @ replicate 62 (CHR ''1'')]"
  by code_simp

text \<open>
  C28: Dumping and validating are inverse: a well-formed proof whose metadata has only canonical types is read
  back from its dump unchanged, and from its dump with sorted keys up to the order of the keys in its
  metadata and feature contributions, with the same hash.
\<close>

theorem proof_dump_roundtrip:
  assumes "pydantic_ok x" "wf_proof p" "plain (PyDict (dc_metadata (p_decision_context p)))"
    and "wf_contribs (dc_feature_contributions (p_decision_context p))"
  shows "\<exists>v. dump_proof x p = Inr v \<and> ProofV1_validate x v = Inr p \<and>
    ProofV1_validate x (norm v) = Inr (norm_proof p) \<and> proof_hash x (norm_proof p) = proof_hash x p"
proof -
  obtain v where v: "dump_proof x p = Inr v" using assms(1,3) by (rule proof_dump_exists)
  with ProofV1_dump [OF assms(1,3,2,4) v] proof_hash_norm [OF assms(1,3)] show ?thesis by blast
qed

theorem proof_dump_roundtrip_witness:
  "\<exists>v. dump_proof sample_ext sample_p = Inr v \<and> ProofV1_validate sample_ext v = Inr sample_p \<and>
     ProofV1_validate sample_ext (norm v) = Inr (norm_proof sample_p)"
  using proof_dump_roundtrip [OF sample_ext_ok(3) sample_p_ok(1,2,3)] by blast

end
