(* ===== verification/Signer.thy ===== *)
theory Signer
  imports Schema
begin

text \<open>
  \<open>provable_ai/signer.py\<close> and the operations of \<open>provable_ai/signer_failover.py\<close>.

  The three signer classes are the constructors of \<open>signer\<close>; \<open>sign_hash\<close>, \<open>get_public_key\<close> and
  \<open>get_key_id\<close> dispatch on the class as Python does, and return the signer with its new attributes.
  A \<open>FailoverSigner\<close> holds two signers.  What AWS KMS answers to the calls made during an operation
  is the argument \<open>w\<close>, as is the clock; an error of the KMS client is its text.
  The locale \<open>signer_contract\<close> states what a caller relies on.
\<close>

subsection \<open>State\<close>

record env_signer =
  es_signing_key :: bytes

record kms_signer =
  ks_raw_key_id :: string
  ks_key_id :: string
  ks_region :: string
  ks_public_key_cache :: "string option"

record failover_metrics =
  fm_failover_count :: nat
  fm_failback_count :: nat
  fm_primary_errors :: nat
  fm_fallback_errors :: nat
  fm_total_signs :: nat
  fm_consecutive_failures :: nat
  fm_last_failover_at :: "string option"
  fm_last_failback_at :: "string option"

text \<open>
  The health probe thread: not running, asleep before its next probe, or between setting
  \<open>_primary_healthy\<close> and the end of the loop body that records the failback.
\<close>

datatype probe = NoProbe | Sleeping | FailingBack

record failover_state =
  fs_metrics :: failover_metrics
  fs_max_consecutive :: int
  fs_primary_healthy :: bool
  fs_probe :: probe

datatype signer = SEnv env_signer | SKms kms_signer | SFailover signer signer failover_state

text \<open>
  What KMS answers: to \<open>Sign\<close>, given the region, the key, \<open>MessageType\<close>, \<open>SigningAlgorithm\<close> and the message,
  and to \<open>GetPublicKey\<close>.
\<close>

record kms_world =
  kw_sign :: "string \<Rightarrow> string \<Rightarrow> string \<Rightarrow> string \<Rightarrow> bytes \<Rightarrow> string + bytes"
  kw_public :: "string \<Rightarrow> string \<Rightarrow> string + bytes"
  kw_now :: string

subsection \<open>BaseSigner\<close>

text \<open>\<open>isinstance(hash_bytes, bytes)\<close> is the type of the argument.\<close>

definition validate_hash_bytes :: "bytes \<Rightarrow> unit res" where
  "validate_hash_bytes h = rcheck (length h = 32) (ValueError ''sign_hash requires exactly 32 bytes'')"

definition verify_hash :: "ext \<Rightarrow> string res \<Rightarrow> bytes \<Rightarrow> string \<Rightarrow> bool" where
  "verify_hash x public_key h signature_hex \<longleftrightarrow>
     (if signature_hex = [] \<or> length signature_hex \<noteq> 128 then False
      else if \<not> int16_ok signature_hex then False
      else case public_key of
          Inl _ \<Rightarrow> False
        | Inr pk \<Rightarrow> (case (fromhex pk, fromhex signature_hex) of
              (Some p, Some s) \<Rightarrow> x_ed_verify x p h s = NaclOk
            | _ \<Rightarrow> False))"

subsection \<open>EnvSigner\<close>

text \<open>\<open>HexEncoder.decode\<close> is \<open>unhexlify\<close>, which skips no white space; \<open>SigningKey\<close> wants 32 bytes.\<close>

definition SigningKey_hex :: "string \<Rightarrow> bytes option" where
  "SigningKey_hex s =
     (if list_all (\<lambda>c. hexval c \<noteq> None) s
      then (case fromhex s of Some k \<Rightarrow> if length k = 32 then Some k else None | None \<Rightarrow> None)
      else None)"

text \<open>
  \<open>_load_or_generate\<close>: the environment variable (\<open>''''\<close> when unset), the key file's content (\<open>None\<close>
  when there is no file) and the key a call of \<open>SigningKey.generate\<close> would return; it returns the key
  and the new content of the file.
\<close>

definition load_or_generate ::
    "string \<Rightarrow> string \<Rightarrow> string option \<Rightarrow> bytes \<Rightarrow> (bytes \<times> string option) res" where
  "load_or_generate key_path env_var file generated =
     (let env_hex = strip env_var in
      if env_hex \<noteq> [] then
        (case SigningKey_hex env_hex of
           Some k \<Rightarrow> Inr (k, file)
         | None \<Rightarrow> Inl (SigningFailed ''env-var'' ''Invalid ZORYNEX_SIGNING_KEY''))
      else case file of
          Some content \<Rightarrow>
            (let private_hex = strip content in
             if private_hex = [] then Inl (SigningFailed key_path ''Key file is empty'')
             else case SigningKey_hex private_hex of
                Some k \<Rightarrow> Inr (k, file)
              | None \<Rightarrow> Inl (SigningFailed key_path ''Invalid key''))
        | None \<Rightarrow> Inr (generated, Some (hex generated)))"

definition EnvSigner_init ::
    "string \<Rightarrow> string \<Rightarrow> string option \<Rightarrow> bytes \<Rightarrow> (signer \<times> string option) res" where
  "EnvSigner_init key_path env_var file generated =
     rbind (load_or_generate key_path env_var file generated)
       (\<lambda>(k, file'). Inr (SEnv \<lparr>es_signing_key = k\<rparr>, file'))"

definition env_public_key :: "ext \<Rightarrow> env_signer \<Rightarrow> string" where
  "env_public_key x e = hex (x_ed_public x (es_signing_key e))"

definition derive_key_id :: "ext \<Rightarrow> env_signer \<Rightarrow> string" where
  "derive_key_id x e = ''env-'' @ take 16 (env_public_key x e)"

definition env_sign_hash :: "ext \<Rightarrow> env_signer \<Rightarrow> bytes \<Rightarrow> string res" where
  "env_sign_hash x e h =
     rbind (validate_hash_bytes h) (\<lambda>_. Inr (hex (x_ed_sign x (es_signing_key e) h)))"

subsection \<open>AWSKmsSigner\<close>

fun contains :: "string \<Rightarrow> string \<Rightarrow> bool" where
  "contains [] t = (t = [])"
| "contains (c # s) t = (startswith (c # s) t \<or> contains s t)"

text \<open>\<open>client\<close> is what \<open>_build_client\<close> meets: \<open>Inl\<close> the error of \<open>boto3\<close>.\<close>

definition AWSKmsSigner_init ::
    "string option \<Rightarrow> string \<Rightarrow> string option \<Rightarrow> string \<Rightarrow> string + unit \<Rightarrow> signer res" where
  "AWSKmsSigner_init key_id env_key_id region env_region client =
     (let raw = (case key_id of Some k \<Rightarrow> if k \<noteq> [] then k else env_key_id | None \<Rightarrow> env_key_id) in
      if raw = [] then Inl (InvalidKeyId ''(not set)'' None)
      else let kid = (if startswith raw ''kms-'' then raw else ''kms-'' @ raw) in
        case client of
          Inl err \<Rightarrow> Inl (KMSUnavailable kid err)
        | Inr _ \<Rightarrow> Inr (SKms \<lparr>ks_raw_key_id = raw, ks_key_id = kid,
            ks_region = (case region of Some r \<Rightarrow> if r \<noteq> [] then r else env_region | None \<Rightarrow> env_region),
            ks_public_key_cache = None\<rparr>))"

definition kms_sign_hash :: "kms_world \<Rightarrow> kms_signer \<Rightarrow> bytes \<Rightarrow> string res" where
  "kms_sign_hash w k h =
     rbind (validate_hash_bytes h) (\<lambda>_.
       case kw_sign w (ks_region k) (ks_raw_key_id k) ''RAW'' ''ECDSA_SHA_256'' h of
         Inr sig \<Rightarrow> if length sig \<noteq> 64 then Inl (SigningFailed (ks_key_id k) ''KMS returned a wrong length'')
           else Inr (hex sig)
       | Inl err \<Rightarrow>
           if contains err ''NotFoundException'' \<or> contains err ''InvalidKeyId''
           then Inl (InvalidKeyId (ks_key_id k) None)
           else if contains err ''EndpointResolutionError'' \<or> contains err ''ConnectionError'' \<or>
             contains err ''timeout''
           then Inl (KMSUnavailable (ks_key_id k) err)
           else Inl (SigningFailed (ks_key_id k) err))"

definition extract_ed25519_pubkey :: "bytes \<Rightarrow> bytes" where
  "extract_ed25519_pubkey der = drop (length der - 32) der"

definition kms_get_public_key :: "kms_world \<Rightarrow> kms_signer \<Rightarrow> string res \<times> kms_signer" where
  "kms_get_public_key w k =
     (case ks_public_key_cache k of
        Some (c # pk) \<Rightarrow> (Inr (c # pk), k)
      | _ \<Rightarrow>
          (case kw_public w (ks_region k) (ks_raw_key_id k) of
             Inl err \<Rightarrow> (Inl (KMSUnavailable (ks_key_id k) err), k)
           | Inr der \<Rightarrow>
               (let raw_pub = extract_ed25519_pubkey der in
                if length raw_pub \<noteq> 32
                then (Inl (KMSUnavailable (ks_key_id k) ''KMS public key has a wrong length''), k)
                else (Inr (hex raw_pub), k\<lparr>ks_public_key_cache := Some (hex raw_pub)\<rparr>))))"

subsection \<open>FailoverMetrics\<close>

definition metrics_init :: failover_metrics where
  "metrics_init = \<lparr>fm_failover_count = 0, fm_failback_count = 0, fm_primary_errors = 0, fm_fallback_errors = 0,
     fm_total_signs = 0, fm_consecutive_failures = 0, fm_last_failover_at = None, fm_last_failback_at = None\<rparr>"

definition record_sign :: "failover_metrics \<Rightarrow> failover_metrics" where
  "record_sign m = m\<lparr>fm_total_signs := fm_total_signs m + 1\<rparr>"

definition record_primary_error :: "failover_metrics \<Rightarrow> failover_metrics" where
  "record_primary_error m = m\<lparr>fm_primary_errors := fm_primary_errors m + 1,
     fm_consecutive_failures := fm_consecutive_failures m + 1\<rparr>"

definition record_failover :: "string \<Rightarrow> failover_metrics \<Rightarrow> failover_metrics" where
  "record_failover now m = m\<lparr>fm_failover_count := fm_failover_count m + 1, fm_last_failover_at := Some now\<rparr>"

definition record_failback :: "string \<Rightarrow> failover_metrics \<Rightarrow> failover_metrics" where
  "record_failback now m = m\<lparr>fm_failback_count := fm_failback_count m + 1, fm_consecutive_failures := 0,
     fm_last_failback_at := Some now\<rparr>"

definition record_fallback_error :: "failover_metrics \<Rightarrow> failover_metrics" where
  "record_fallback_error m = m\<lparr>fm_fallback_errors := fm_fallback_errors m + 1\<rparr>"

definition reset_consecutive :: "failover_metrics \<Rightarrow> failover_metrics" where
  "reset_consecutive m = m\<lparr>fm_consecutive_failures := 0\<rparr>"

lemmas metrics_defs = record_sign_def record_primary_error_def record_failover_def record_failback_def
  record_fallback_error_def reset_consecutive_def

subsection \<open>FailoverSigner\<close>

definition FailoverSigner_init :: "signer \<Rightarrow> signer \<Rightarrow> int \<Rightarrow> signer" where
  "FailoverSigner_init primary fallback max_consecutive_failures =
     SFailover primary fallback \<lparr>fs_metrics = metrics_init, fs_max_consecutive = max_consecutive_failures,
       fs_primary_healthy = True, fs_probe = NoProbe\<rparr>"

fun is_failover_exception :: "exc \<Rightarrow> bool" where
  "is_failover_exception (KMSUnavailable _ _) = True"
| "is_failover_exception (InvalidKeyId _ _) = True"
| "is_failover_exception _ = False"

definition start_health_probe :: "failover_state \<Rightarrow> failover_state" where
  "start_health_probe st = (if fs_probe st \<noteq> NoProbe then st else st\<lparr>fs_probe := Sleeping\<rparr>)"

definition handle_primary_failure :: "string \<Rightarrow> failover_state \<Rightarrow> failover_state" where
  "handle_primary_failure now st =
     (let st = st\<lparr>fs_metrics := record_primary_error (fs_metrics st)\<rparr> in
      if fs_max_consecutive st \<le> int (fm_consecutive_failures (fs_metrics st)) \<and> fs_primary_healthy st
      then start_health_probe (st\<lparr>fs_primary_healthy := False,
             fs_metrics := record_failover now (fs_metrics st)\<rparr>)
      else st)"

subsection \<open>Dispatch\<close>

fun get_key_id :: "ext \<Rightarrow> signer \<Rightarrow> string" where
  "get_key_id x (SEnv e) = derive_key_id x e"
| "get_key_id x (SKms k) = ks_key_id k"
| "get_key_id x (SFailover p f st) = (if fs_primary_healthy st then get_key_id x p else get_key_id x f)"

fun get_public_key :: "ext \<Rightarrow> kms_world \<Rightarrow> signer \<Rightarrow> string res \<times> signer" where
  "get_public_key x w (SEnv e) = (Inr (env_public_key x e), SEnv e)"
| "get_public_key x w (SKms k) = (let (r, k') = kms_get_public_key w k in (r, SKms k'))"
| "get_public_key x w (SFailover p f st) =
     (if fs_primary_healthy st
      then let (r, p') = get_public_key x w p in (r, SFailover p' f st)
      else let (r, f') = get_public_key x w f in (r, SFailover p f' st))"

fun sign_hash :: "ext \<Rightarrow> kms_world \<Rightarrow> signer \<Rightarrow> bytes \<Rightarrow> string res \<times> signer" where
  "sign_hash x w (SEnv e) h = (env_sign_hash x e h, SEnv e)"
| "sign_hash x w (SKms k) h = (kms_sign_hash w k h, SKms k)"
| "sign_hash x w (SFailover p f st) h =
     (case validate_hash_bytes h of
        Inl e \<Rightarrow> (Inl e, SFailover p f st)
      | Inr _ \<Rightarrow>
          (let st = st\<lparr>fs_metrics := record_sign (fs_metrics st)\<rparr>;
               use_fallback = (\<lambda>p st.
                 case sign_hash x w f h of
                   (Inr r, f') \<Rightarrow> (Inr r, SFailover p f' st)
                 | (Inl e, f') \<Rightarrow>
                     (Inl (SigningFailed (get_key_id x f') ''Both primary and fallback failed''),
                      SFailover p f' (st\<lparr>fs_metrics := record_fallback_error (fs_metrics st)\<rparr>)))
           in if fs_primary_healthy st then
                (case sign_hash x w p h of
                   (Inr r, p') \<Rightarrow>
                     (Inr r, SFailover p' f (st\<lparr>fs_metrics := reset_consecutive (fs_metrics st)\<rparr>))
                 | (Inl e, p') \<Rightarrow>
                     if is_failover_exception e then use_fallback p' (handle_primary_failure (kw_now w) st)
                     else (Inl e, SFailover p' f st))
              else use_fallback p st))"

definition signer_verify_hash :: "ext \<Rightarrow> kms_world \<Rightarrow> signer \<Rightarrow> bytes \<Rightarrow> string \<Rightarrow> bool" where
  "signer_verify_hash x w s h sig = verify_hash x (fst (get_public_key x w s)) h sig"

fun force_failover :: "kms_world \<Rightarrow> signer \<Rightarrow> signer" where
  "force_failover w (SFailover p f st) =
     (if \<not> fs_primary_healthy st then SFailover p f st
      else SFailover p f (start_health_probe (st\<lparr>fs_primary_healthy := False,
             fs_metrics := record_failover (kw_now w) (fs_metrics st)\<rparr>)))"
| "force_failover w s = s"

fun force_failback :: "kms_world \<Rightarrow> signer \<Rightarrow> signer" where
  "force_failback w (SFailover p f st) =
     SFailover p f (st\<lparr>fs_primary_healthy := True, fs_metrics := record_failback (kw_now w) (fs_metrics st)\<rparr>)"
| "force_failback w s = s"

text \<open>
  The loop of the probe thread, one step at a time: the wake-up with the probe of the primary, and the
  rest of the body after \<open>_primary_healthy\<close> was set.
\<close>

fun health_probe_step :: "ext \<Rightarrow> kms_world \<Rightarrow> signer \<Rightarrow> signer" where
  "health_probe_step x w (SFailover p f st) =
     (case fs_probe st of
        NoProbe \<Rightarrow> SFailover p f st
      | Sleeping \<Rightarrow>
          if fs_primary_healthy st then SFailover p f (st\<lparr>fs_probe := NoProbe\<rparr>)
          else (case get_public_key x w p of
              (Inr _, p') \<Rightarrow> SFailover p' f (st\<lparr>fs_primary_healthy := True, fs_probe := FailingBack\<rparr>)
            | (Inl _, p') \<Rightarrow> SFailover p' f st)
      | FailingBack \<Rightarrow>
          SFailover p f (st\<lparr>fs_metrics := record_failback (kw_now w) (fs_metrics st), fs_probe := NoProbe\<rparr>))"
| "health_probe_step x w s = s"

text \<open>\<open>get_signer\<close>, with the arguments of the two constructors.\<close>

definition get_signer ::
    "string \<Rightarrow> string option \<Rightarrow> string \<Rightarrow> string \<Rightarrow> string + unit \<Rightarrow> string \<Rightarrow> string option \<Rightarrow> bytes
       \<Rightarrow> (signer \<times> string option) res" where
  "get_signer key_path kms_key_id env_key_id env_region client env_var file generated =
     (let resolved = (case kms_key_id of Some k \<Rightarrow> if k \<noteq> [] then k else env_key_id | None \<Rightarrow> env_key_id) in
      if resolved \<noteq> []
      then rbind (AWSKmsSigner_init (Some resolved) env_key_id None env_region client) (\<lambda>s. Inr (s, file))
      else EnvSigner_init key_path env_var file generated)"

text \<open>The deprecated \<open>Signer\<close>: it signs the JSON text, with non-ASCII characters escaped.\<close>

definition Signer_sign :: "ext \<Rightarrow> env_signer \<Rightarrow> pyval \<Rightarrow> string res" where
  "Signer_sign x e payload =
     rbind (opt_res TypeError (json_dumps True payload)) (\<lambda>s.
     Inr (hex (x_ed_sign x (es_signing_key e) (utf8 s))))"

definition Signer_verify :: "ext \<Rightarrow> env_signer \<Rightarrow> pyval \<Rightarrow> string \<Rightarrow> bool" where
  "Signer_verify x e payload sig =
     (case (json_dumps True payload, fromhex sig) of
        (Some s, Some b) \<Rightarrow> x_ed_verify x (x_ed_public x (es_signing_key e)) (utf8 s) b = NaclOk
      | _ \<Rightarrow> False)"

end
