(* ===== verification/Verifier.thy ===== *)
theory Verifier
  imports Schema
begin

text \<open>
  \<open>provable_ai/verifier.py\<close>: verification of one proof and of a chain of proofs, the rich result for
  auditors, and the system root.  The clock is the argument \<open>now\<close>.  The lemmas characterise when
  \<open>verify_proof\<close> and \<open>verify_chain\<close> accept, and what an accepted chain commits to.
\<close>

subsection \<open>Definitions\<close>

definition verify_ed25519 :: "ext \<Rightarrow> string \<Rightarrow> bytes \<Rightarrow> string \<Rightarrow> bool" where
  "verify_ed25519 x public_key_hex hash_bytes signature_hex =
     (case (fromhex public_key_hex, fromhex signature_hex) of
        (Some pub, Some sig) \<Rightarrow> x_ed_verify x pub hash_bytes sig = NaclOk
      | _ \<Rightarrow> False)"

text \<open>\<open>True\<close> stands for the message of an inconsistency.\<close>

definition determinism_inconsistent :: "proofv1 \<Rightarrow> bool" where
  "determinism_inconsistent p =
     (let mode = t_mode (p_determinism p); seed = t_seed (p_determinism p);
          ext_hash = t_external_calls_hash (p_determinism p)
      in case mode of
           STRICT_DETERMINISTIC \<Rightarrow> seed \<noteq> None \<or> ext_hash \<noteq> None
         | REPLAY_WITH_SEED \<Rightarrow> seed = None
         | REPLAY_WITH_RECORDED_IO \<Rightarrow>
             (case ext_hash of None \<Rightarrow> True | Some h \<Rightarrow> \<not> is_valid_hash h))"

definition vr_fail :: "string \<Rightarrow> string option \<Rightarrow> string \<Rightarrow> int \<Rightarrow> bool \<Rightarrow> bool \<Rightarrow> failure \<Rightarrow> verification_result" where
  "vr_fail now final_state key_id sequence_id chain gov reason =
     \<lparr>vr_valid = False, vr_final_state = final_state, vr_verified_at = now, vr_key_id = key_id,
      vr_sequence_verified = sequence_id, vr_chain_intact = chain, vr_governance_compliant = gov,
      vr_failure_reason = Some reason\<rparr>"

definition verify_proof ::
    "ext \<Rightarrow> string \<Rightarrow> pyval \<Rightarrow> string option \<Rightarrow> int option \<Rightarrow> verification_result" where
  "verify_proof x now proof_dict expected_previous_hash expected_sequence_id =
     (case ProofV1_validate x proof_dict of
        Inl _ \<Rightarrow> vr_fail now None ''unknown'' 0 False False SchemaValidationError
      | Inr p \<Rightarrow>
          (let key_id = s_key_id (p_signature p);
               sequence_id = l_sequence_id (p_ledger p);
               final_state = Some (d_to_state (p_decision p));
               l = p_ledger p;
               failed = vr_fail now final_state key_id sequence_id;
               recomputed =
                 rbind (dump_context x (p_decision_context p)) (\<lambda>c.
                 rbind (build_hash_payload (dump_decision (p_decision p)) c (dump_governance (p_governance p))
                          (dump_determinism (p_determinism p)) (l_previous_hash l) (l_sequence_id l))
                   (canonical_hash x))
           in case recomputed of
                Inl _ \<Rightarrow> failed False False UnexpectedError
              | Inr recomputed_hash \<Rightarrow>
                  if recomputed_hash \<noteq> l_current_hash l then failed False True FHashMismatch
                  else (case to_sign_bytes p of
                      Inl _ \<Rightarrow> failed False False UnexpectedError
                    | Inr hash_bytes \<Rightarrow>
                        if \<not> verify_ed25519 x (s_public_key (p_signature p)) hash_bytes (s_value (p_signature p))
                        then failed False True FSignatureMismatch
                        else if expected_previous_hash \<noteq> None \<and> Some (l_previous_hash l) \<noteq> expected_previous_hash
                        then failed False True FChainBroken
                        else if l_sequence_id l = 1 \<and> l_previous_hash l \<noteq> genesis_hash
                        then failed False True FChainBroken
                        else if expected_sequence_id \<noteq> None \<and> Some (l_sequence_id l) \<noteq> expected_sequence_id
                        then failed False True FSequenceGap
                        else if determinism_inconsistent p
                        then failed True True DeterminismInconsistency
                        else \<lparr>vr_valid = True, vr_final_state = final_state, vr_verified_at = now,
                               vr_key_id = key_id, vr_sequence_verified = sequence_id,
                               vr_chain_intact = True, vr_governance_compliant = True,
                               vr_failure_reason = None\<rparr>)))"

text \<open>
  The loop of \<open>verify_chain\<close> over \<open>enumerate(proof_dicts)\<close>, with the variables it carries: the index,
  \<open>last_hash\<close>, \<open>final_state\<close> and \<open>final_key_id\<close>.
\<close>

fun verify_chain_loop ::
    "ext \<Rightarrow> string \<Rightarrow> nat \<Rightarrow> string \<Rightarrow> string option \<Rightarrow> string \<Rightarrow> pyval list \<Rightarrow>
       verification_result + (string option \<times> string)" where
  "verify_chain_loop x now i last_hash final_state final_key_id [] = Inr (final_state, final_key_id)"
| "verify_chain_loop x now i last_hash final_state final_key_id (pd # pds) =
     (let result = verify_proof x now pd (Some last_hash) (Some (int i + 1)) in
      if \<not> vr_valid result
      then Inl \<lparr>vr_valid = False, vr_final_state = final_state, vr_verified_at = now,
             vr_key_id = vr_key_id result, vr_sequence_verified = vr_sequence_verified result,
             vr_chain_intact = False, vr_governance_compliant = vr_governance_compliant result,
             vr_failure_reason = vr_failure_reason result\<rparr>
      else (case ProofV1_validate x pd of
          Inr p \<Rightarrow> verify_chain_loop x now (Suc i) (l_current_hash (p_ledger p))
             (Some (d_to_state (p_decision p))) (s_key_id (p_signature p)) pds
        | Inl _ \<Rightarrow> verify_chain_loop x now (Suc i) last_hash final_state final_key_id pds))"

definition verify_chain :: "ext \<Rightarrow> string \<Rightarrow> pyval list \<Rightarrow> verification_result" where
  "verify_chain x now proof_dicts =
     (if proof_dicts = [] then vr_fail now None ''unknown'' 0 False False EmptyChain
      else case verify_chain_loop x now 0 genesis_hash None ''unknown'' proof_dicts of
          Inl r \<Rightarrow> r
        | Inr (final_state, final_key_id) \<Rightarrow>
            \<lparr>vr_valid = True, vr_final_state = final_state, vr_verified_at = now, vr_key_id = final_key_id,
             vr_sequence_verified = int (length proof_dicts), vr_chain_intact = True,
             vr_governance_compliant = True, vr_failure_reason = None\<rparr>)"

record replay_info =
  ri_mode_valid :: bool
  ri_seed_captured :: bool
  ri_external_calls_recorded :: nat
  ri_full_replay_executed :: bool
  ri_determinism_mode :: string

definition build_replay_info :: "proofv1 \<Rightarrow> replay_info" where
  "build_replay_info p =
     \<lparr>ri_mode_valid = True, ri_seed_captured = (t_seed (p_determinism p) \<noteq> None),
      ri_external_calls_recorded = (if t_external_calls_hash (p_determinism p) \<noteq> None then 1 else 0),
      ri_full_replay_executed = False, ri_determinism_mode = mode_value (t_mode (p_determinism p))\<rparr>"

record full_result =
  fr_result :: verification_result
  fr_governance_recorded :: "(governance \<times> string) option"
  fr_governance_verified :: bool
  fr_replay_result :: "replay_info option"

definition verify_proof_full :: "ext \<Rightarrow> string \<Rightarrow> pyval \<Rightarrow> full_result" where
  "verify_proof_full x now proof_dict =
     (let result = verify_proof x now proof_dict None None;
          p = (if vr_valid result then
                 (case ProofV1_validate x proof_dict of Inr p \<Rightarrow> Some p | Inl _ \<Rightarrow> None) else None)
      in \<lparr>fr_result = result,
          fr_governance_recorded =
            map_option (\<lambda>p. (p_governance p, mode_value (t_mode (p_determinism p)))) p,
          fr_governance_verified = False,
          fr_replay_result = map_option build_replay_info p\<rparr>)"

definition compute_system_root :: "ext \<Rightarrow> string list \<Rightarrow> string" where
  "compute_system_root x latest_hashes =
     (if latest_hashes = [] then replicate 64 (CHR ''0'')
      else hexdigest x (utf8 (concat (sort latest_hashes))))"

subsection \<open>When a proof is accepted\<close>

definition proof_accepted :: "ext \<Rightarrow> proofv1 \<Rightarrow> bool" where
  "proof_accepted x p \<longleftrightarrow> proof_hash x p = Inr (l_current_hash (p_ledger p)) \<and>
     (\<exists>b. fromhex (l_current_hash (p_ledger p)) = Some b \<and>
        verify_ed25519 x (s_public_key (p_signature p)) b (s_value (p_signature p))) \<and>
     (l_sequence_id (p_ledger p) = 1 \<longrightarrow> l_previous_hash (p_ledger p) = genesis_hash) \<and>
     \<not> determinism_inconsistent p"

lemma vr_fail_valid [simp]: "vr_valid (vr_fail a b c d e f g) = False"
  by (simp add: vr_fail_def)

lemma recomputed_proof_hash:
  "rbind (dump_context x (p_decision_context p)) (\<lambda>c.
     rbind (build_hash_payload (dump_decision (p_decision p)) c (dump_governance (p_governance p))
       (dump_determinism (p_determinism p)) (l_previous_hash (p_ledger p)) (l_sequence_id (p_ledger p)))
       (canonical_hash x)) = proof_hash x p"
  by (cases "dump_context x (p_decision_context p)") (simp_all add: proof_hash_def to_hash_payload_def)

lemma verify_proof_valid_iff:
  "vr_valid (verify_proof x now v eh es) \<longleftrightarrow>
     (\<exists>p. ProofV1_validate x v = Inr p \<and> proof_accepted x p \<and>
        (\<forall>h. eh = Some h \<longrightarrow> l_previous_hash (p_ledger p) = h) \<and>
        (\<forall>i. es = Some i \<longrightarrow> l_sequence_id (p_ledger p) = i))"
proof (cases "ProofV1_validate x v")
  case (Inr p)
  show ?thesis
    unfolding verify_proof_def Inr Let_def recomputed_proof_hash
    by (cases "proof_hash x p"; cases "fromhex (l_current_hash (p_ledger p))"; cases eh; cases es)
       (auto simp: proof_accepted_def to_sign_bytes_def)
qed (simp add: verify_proof_def)

subsection \<open>When a chain is accepted\<close>

text \<open>The proofs of a chain link: every one carries the hash before it and its own position.\<close>

fun linked :: "nat \<Rightarrow> string \<Rightarrow> proofv1 list \<Rightarrow> bool" where
  "linked i h [] = True"
| "linked i h (p # ps) \<longleftrightarrow> l_previous_hash (p_ledger p) = h \<and> l_sequence_id (p_ledger p) = int i + 1 \<and>
     linked (Suc i) (l_current_hash (p_ledger p)) ps"

lemma verify_chain_loop_ok:
  "\<not> isl (verify_chain_loop x now i h fs k pds) \<longleftrightarrow>
     (\<exists>ps. rmap_list (ProofV1_validate x) pds = Inr ps \<and> list_all (proof_accepted x) ps \<and> linked i h ps)"
proof (induction pds arbitrary: i h fs k)
  case (Cons v pds)
  show ?case
  proof (cases "ProofV1_validate x v")
    case (Inr p)
    show ?thesis
      unfolding verify_chain_loop.simps Let_def
      by (auto simp: verify_proof_valid_iff Inr Cons.IH)
  qed (auto simp: Let_def verify_proof_valid_iff)
qed simp

lemma verify_chain_valid_iff:
  "vr_valid (verify_chain x now vs) \<longleftrightarrow> vs \<noteq> [] \<and>
     (\<exists>ps. rmap_list (ProofV1_validate x) vs = Inr ps \<and> list_all (proof_accepted x) ps \<and>
        linked 0 genesis_hash ps)"
proof -
  have "vr_valid r = False" if "verify_chain_loop x now i h fs k vs = Inl r" for i h fs k r
    using that by (induction x now i h fs k vs rule: verify_chain_loop.induct)
      (auto simp: Let_def split: if_splits sum.splits)
  then have "vr_valid (verify_chain x now vs) \<longleftrightarrow>
      vs \<noteq> [] \<and> \<not> isl (verify_chain_loop x now 0 genesis_hash None ''unknown'' vs)"
    by (auto simp: verify_chain_def split: sum.splits)
  then show ?thesis using verify_chain_loop_ok by simp
qed

lemma rmap_list_Inr: "rmap_list f as = Inr bs \<longleftrightarrow> list_all2 (\<lambda>a b. f a = Inr b) as bs"
  by (induction as arbitrary: bs) (auto simp: list_all2_Cons1)

lemma verify_chain_loop_state:
  assumes "verify_chain_loop x now i h fs k vs = Inr (fs', k')" "rmap_list (ProofV1_validate x) vs = Inr ps"
  shows "fs' = (if ps = [] then fs else Some (d_to_state (p_decision (last ps))))"
    "k' = (if ps = [] then k else s_key_id (p_signature (last ps)))"
proof -
  have "fs' = (if ps = [] then fs else Some (d_to_state (p_decision (last ps)))) \<and>
      k' = (if ps = [] then k else s_key_id (p_signature (last ps)))"
    using assms
  proof (induction vs arbitrary: i h fs k ps)
    case (Cons v vs)
    from Cons.prems(2) obtain p qs where p: "ProofV1_validate x v = Inr p" "rmap_list (ProofV1_validate x) vs = Inr qs"
      "ps = p # qs" by auto
    from Cons.prems(1) p have "verify_chain_loop x now (Suc i) (l_current_hash (p_ledger p))
        (Some (d_to_state (p_decision p))) (s_key_id (p_signature p)) vs = Inr (fs', k')"
      by (auto simp: Let_def split: if_splits)
    from Cons.IH [OF this p(2)] p(3) show ?case by simp
  qed simp
  then show "fs' = (if ps = [] then fs else Some (d_to_state (p_decision (last ps))))"
    "k' = (if ps = [] then k else s_key_id (p_signature (last ps)))" by simp_all
qed

lemma verify_chain_final_state:
  assumes "vr_valid (verify_chain x now vs)" "rmap_list (ProofV1_validate x) vs = Inr ps"
  shows "vr_final_state (verify_chain x now vs) = Some (d_to_state (p_decision (last ps)))"
    "vr_sequence_verified (verify_chain x now vs) = int (length ps)"
proof -
  have v: "vs \<noteq> []" and n: "\<not> isl (verify_chain_loop x now 0 genesis_hash None ''unknown'' vs)"
    using assms(1) [unfolded verify_chain_valid_iff] by (auto simp only: verify_chain_loop_ok)
  have ps: "list_all2 (\<lambda>a b. ProofV1_validate x a = Inr b) vs ps" using assms(2) by (simp add: rmap_list_Inr)
  then have ne: "ps \<noteq> []" "length ps = length vs" using v by (auto dest: list_all2_lengthD)
  from n obtain fs k where r: "verify_chain_loop x now 0 genesis_hash None ''unknown'' vs = Inr (fs, k)"
    by (cases "verify_chain_loop x now 0 genesis_hash None ''unknown'' vs") auto
  with verify_chain_loop_state [OF r assms(2)] v ne
  show "vr_final_state (verify_chain x now vs) = Some (d_to_state (p_decision (last ps)))"
    "vr_sequence_verified (verify_chain x now vs) = int (length ps)"
    by (simp_all add: verify_chain_def)
qed

end
