(* ===== verification/Failover.thy ===== *)
theory Failover
  imports Signer Verifier
begin

text \<open>
  The contract of a signer and what of it each class of \<open>signer.py\<close> and \<open>signer_failover.py\<close> keeps; the
  failover state machine as a step relation over the operations and the health probe thread.

  \<open>signer_contract\<close> is what \<open>record_decision\<close> relies on: the key that \<open>get_public_key\<close> returns after
  \<open>sign_hash\<close> verifies the signature.  It is interpreted on the dispatching operations for the signers
  that \<open>signer_ok\<close> describes: a 32-byte Ed25519 key, a KMS key whose answers verify,
  and a failover pair that switches at the first failure.  \<open>signer_documented\<close> replaces the condition on KMS by
  what AWS documents for a key of the spec the class requires; as the class asks for \<open>ECDSA_SHA_256\<close>, such a
  key never signs (\<open>kms_never_signs\<close>).
\<close>

subsection \<open>The contract\<close>

locale signer_contract =
  fixes sign :: "'s \<Rightarrow> bytes \<Rightarrow> string res \<times> 's"
    and pub :: "'s \<Rightarrow> string res \<times> 's"
    and kid :: "'s \<Rightarrow> string"
    and ok :: "'s \<Rightarrow> bool"
    and ver :: "string \<Rightarrow> bytes \<Rightarrow> string \<Rightarrow> bool"
  assumes sign_pub: "ok s \<Longrightarrow> sign s h = (Inr sig, s') \<Longrightarrow> pub s' = (Inr pk, s'') \<Longrightarrow> ver pk h sig"
    and sign_text: "ok s \<Longrightarrow> sign s h = (Inr sig, s') \<Longrightarrow> length h = 32 \<and> lower_hex 128 sig"
    and pub_text: "ok s \<Longrightarrow> pub s = (Inr pk, s') \<Longrightarrow> lower_hex 64 pk"
    and sign_ok: "ok s \<Longrightarrow> sign s h = (r, s') \<Longrightarrow> ok s'"
    and pub_ok: "ok s \<Longrightarrow> pub s = (r', s') \<Longrightarrow> ok s'"
    and kid_text: "ok s \<Longrightarrow> strip (kid s) \<noteq> []"
begin

text \<open>The three calls of \<open>record_decision\<close> in a row give a well-formed signature that verifies.\<close>

lemma signed:
  assumes "ok s" "sign s h = (Inr sig, s1)" "pub s1 = (Inr pk, s2)"
    and "Signature_init ED25519 (kid s1) pk sig = r"
  shows "r = Inr \<lparr>s_algorithm = ED25519, s_key_id = kid s1, s_public_key = pk, s_value = sig\<rparr> \<and> ver pk h sig \<and> ok s2"
proof -
  have o1: "ok s1" using assms(1,2) by (rule sign_ok)
  have k: "kid s1 \<noteq> []" using kid_text [OF o1] by (auto simp: strip_def)
  have "hex_text 64 pk" "hex_text 128 sig"
    using pub_text [OF o1 assms(3)] sign_text [OF assms(1,2)] by (simp_all add: lower_hex_hex_text)
  with k kid_text [OF o1] sign_pub [OF assms(1-3)] pub_ok [OF o1 assms(3)] assms(4) show ?thesis
    by (auto simp: Signature_init_def rbind_rcheck validate_hex_text)
qed

end

subsection \<open>Which signers keep it\<close>

text \<open>
  The 64-byte answers of KMS to the requests that \<open>sign_hash\<close> makes for one key, in the situations \<open>W\<close>, verify
  under the public key it gives for it.
\<close>

definition kms_ed25519 :: "ext \<Rightarrow> kms_world set \<Rightarrow> kms_signer \<Rightarrow> bool" where
  "kms_ed25519 x W k \<longleftrightarrow> (\<exists>pk. length pk = 32 \<and>
     (\<forall>w\<in>W. \<forall>h sig. kw_sign w (ks_region k) (ks_raw_key_id k) ''RAW'' ''ECDSA_SHA_256'' h = Inr sig \<and> length sig = 64 \<longrightarrow>
        x_ed_verify x pk h sig = NaclOk) \<and>
     (\<forall>w\<in>W. \<forall>der. kw_public w (ks_region k) (ks_raw_key_id k) = Inr der \<longrightarrow> extract_ed25519_pubkey der = pk) \<and>
     (ks_public_key_cache k = None \<or> ks_public_key_cache k = Some (hex pk)))"

fun signer_ok :: "ext \<Rightarrow> kms_world set \<Rightarrow> signer \<Rightarrow> bool" where
  "signer_ok x W (SEnv e) \<longleftrightarrow> ed25519_ok x \<and> length (es_signing_key e) = 32"
| "signer_ok x W (SKms k) \<longleftrightarrow> kms_ed25519 x W k \<and> strip (ks_key_id k) \<noteq> []"
| "signer_ok x W (SFailover p f st) \<longleftrightarrow> signer_ok x W p \<and> signer_ok x W f \<and> fs_max_consecutive st \<le> 1"

lemma strip_prefix: "\<not> py_space c \<Longrightarrow> strip (c # s) \<noteq> []"
  by (auto simp: strip_def dropWhile_eq_Nil_conv)

lemma env_sign_iff:
  "env_sign_hash x e h = Inr sig \<longleftrightarrow> length h = 32 \<and> sig = hex (x_ed_sign x (es_signing_key e) h)"
  by (auto simp: env_sign_hash_def validate_hash_bytes_def)

lemma kms_sign_iff:
  "kms_sign_hash w k h = Inr sig \<longleftrightarrow> length h = 32 \<and>
     (\<exists>b. kw_sign w (ks_region k) (ks_raw_key_id k) ''RAW'' ''ECDSA_SHA_256'' h = Inr b \<and> length b = 64 \<and> sig = hex b)"
  by (auto simp: kms_sign_hash_def validate_hash_bytes_def split: sum.splits if_splits)

lemma kms_public_ok:
  assumes "kms_ed25519 x W k" "w \<in> W" "kms_get_public_key w k = (Inr pk, k')"
  shows "kms_ed25519 x W k'" "lower_hex 64 pk"
    "\<And>w h b. w \<in> W \<Longrightarrow> kw_sign w (ks_region k) (ks_raw_key_id k) ''RAW'' ''ECDSA_SHA_256'' h = Inr b \<Longrightarrow> length b = 64 \<Longrightarrow>
       verify_ed25519 x pk h (hex b)"
proof -
  obtain q where q: "length q = 32"
    "\<And>w h b. w \<in> W \<Longrightarrow> kw_sign w (ks_region k) (ks_raw_key_id k) ''RAW'' ''ECDSA_SHA_256'' h = Inr b \<Longrightarrow> length b = 64 \<Longrightarrow>
       x_ed_verify x q h b = NaclOk"
    "\<And>w der. w \<in> W \<Longrightarrow> kw_public w (ks_region k) (ks_raw_key_id k) = Inr der \<Longrightarrow> extract_ed25519_pubkey der = q"
    "ks_public_key_cache k = None \<or> ks_public_key_cache k = Some (hex q)"
    using assms(1) unfolding kms_ed25519_def by blast
  have pk: "pk = hex q" "k' = k \<or> k' = k\<lparr>ks_public_key_cache := Some (hex q)\<rparr>"
    using assms(2,3) q(3,4) by (auto simp: kms_get_public_key_def Let_def split: option.splits list.splits sum.splits if_splits)
  with q show "kms_ed25519 x W k'" unfolding kms_ed25519_def by auto
  show "lower_hex 64 pk" using pk q(1) by simp
  show "verify_ed25519 x pk h (hex b)" if "w \<in> W" "kw_sign w (ks_region k) (ks_raw_key_id k) ''RAW'' ''ECDSA_SHA_256'' h = Inr b" "length b = 64"
    for w h b using q(2) [OF that] pk by (simp add: verify_ed25519_def)
qed

lemma kms_public_keeps: "kms_ed25519 x W k \<Longrightarrow> w \<in> W \<Longrightarrow> kms_get_public_key w k = (r, k') \<Longrightarrow> kms_ed25519 x W k'"
proof (cases r)
  case (Inl e)
  assume "kms_ed25519 x W k" "kms_get_public_key w k = (r, k')"
  then show ?thesis using Inl
    by (auto simp: kms_get_public_key_def Let_def split: option.splits list.splits sum.splits if_splits)
qed (auto intro: kms_public_ok)

lemma kms_public_key_id: "kms_get_public_key w k = (r, k') \<Longrightarrow> ks_key_id k' = ks_key_id k"
  by (auto simp: kms_get_public_key_def Let_def split: option.splits list.splits sum.splits if_splits)

lemma handle_primary_failure_fields [simp]:
  "fs_max_consecutive (handle_primary_failure now st) = fs_max_consecutive st"
  by (simp add: handle_primary_failure_def start_health_probe_def Let_def)

text \<open>With a threshold of one the switch happens at once, before the fallback signs.\<close>

lemma handle_primary_failure_first:
  "fs_max_consecutive st \<le> 1 \<Longrightarrow> \<not> fs_primary_healthy (handle_primary_failure now st)"
  by (simp add: handle_primary_failure_def start_health_probe_def Let_def record_primary_error_def)

lemma failover_sign_shape:
  assumes "sign_hash x w (SFailover p f st) h = (r, s')"
  obtains p' f' st' where "s' = SFailover p' f' st'" "fs_max_consecutive st' = fs_max_consecutive st"
    "p' = p \<or> (\<exists>q. sign_hash x w p h = (q, p'))" "f' = f \<or> (\<exists>q. sign_hash x w f h = (q, f'))"
proof (cases "sign_hash x w p h"; cases "sign_hash x w f h")
  fix a p1 b f1 assume "sign_hash x w p h = (a, p1)" "sign_hash x w f h = (b, f1)"
  with assms that show thesis
    by (cases a; cases b) (auto simp: Let_def split: sum.splits if_splits)
qed

lemma failover_sign_ok:
  assumes "sign_hash x w (SFailover p f st) h = (Inr sig, s')"
  obtains
    (primary) p' st' where "fs_primary_healthy st" "sign_hash x w p h = (Inr sig, p')" "s' = SFailover p' f st'"
      "fs_primary_healthy st'"
  | (first_failure) e p' f' st' where "fs_primary_healthy st" "sign_hash x w p h = (Inl e, p')"
      "is_failover_exception e" "sign_hash x w f h = (Inr sig, f')" "s' = SFailover p' f' st'"
      "st' = handle_primary_failure (kw_now w) (st\<lparr>fs_metrics := record_sign (fs_metrics st)\<rparr>)"
  | (fallback) f' st' where "\<not> fs_primary_healthy st" "sign_hash x w f h = (Inr sig, f')" "s' = SFailover p f' st'"
      "\<not> fs_primary_healthy st'"
proof (cases "sign_hash x w p h"; cases "sign_hash x w f h")
  fix a p1 b f1 assume "sign_hash x w p h = (a, p1)" "sign_hash x w f h = (b, f1)"
  with assms primary first_failure fallback show thesis
    by (cases a; cases b) (auto simp: Let_def split: sum.splits if_splits)
qed

lemma public_key_max: "get_public_key x w (SFailover p f st) = (r, s') \<Longrightarrow> \<exists>p' f'. s' = SFailover p' f' st \<and>
    (if fs_primary_healthy st then get_public_key x w p = (r, p') \<and> f' = f
     else get_public_key x w f = (r, f') \<and> p' = p)"
  by (auto split: prod.splits if_splits)

lemma signer_ok_sign: "signer_ok x W s \<Longrightarrow> w \<in> W \<Longrightarrow> sign_hash x w s h = (r, s') \<Longrightarrow> signer_ok x W s'"
proof (induction s arbitrary: r s')
  case (SFailover p f st)
  obtain p' f' st' where s: "s' = SFailover p' f' st'" "fs_max_consecutive st' = fs_max_consecutive st"
    "p' = p \<or> (\<exists>q. sign_hash x w p h = (q, p'))" "f' = f \<or> (\<exists>q. sign_hash x w f h = (q, f'))"
    using SFailover.prems(3) by (rule failover_sign_shape)
  from SFailover.prems(1) have o: "signer_ok x W p" "signer_ok x W f" "fs_max_consecutive st \<le> 1" by auto
  have "signer_ok x W p'" using s(3) o(1) SFailover.IH(1) [OF o(1) SFailover.prems(2)] by blast
  moreover have "signer_ok x W f'" using s(4) o(2) SFailover.IH(2) [OF o(2) SFailover.prems(2)] by blast
  ultimately show ?case using s(1,2) o(3) by simp
qed auto

lemma signer_ok_public: "signer_ok x W s \<Longrightarrow> w \<in> W \<Longrightarrow> get_public_key x w s = (r, s') \<Longrightarrow> signer_ok x W s'"
proof (induction s arbitrary: r s')
  case (SFailover p f st)
  from SFailover.prems(1) have o: "signer_ok x W p" "signer_ok x W f" "fs_max_consecutive st \<le> 1" by auto
  obtain p' f' where s: "s' = SFailover p' f' st"
    "if fs_primary_healthy st then get_public_key x w p = (r, p') \<and> f' = f
     else get_public_key x w f = (r, f') \<and> p' = p"
    using public_key_max [OF SFailover.prems(3)] by blast
  have "signer_ok x W p' \<and> signer_ok x W f'"
    using s(2) o SFailover.IH(1) [OF o(1) SFailover.prems(2)] SFailover.IH(2) [OF o(2) SFailover.prems(2)]
    by (cases "fs_primary_healthy st") simp_all
  then show ?case using s(1) o(3) by simp
next
  case (SKms k)
  obtain k' where "kms_get_public_key w k = (r, k')" "s' = SKms k'"
    using SKms.prems(3) by (auto simp: Let_def split: prod.splits)
  with SKms.prems kms_public_keeps [of x W k w r k'] kms_public_key_id [of w k r k'] show ?case by simp
qed auto

lemma signer_ok_public_text: "signer_ok x W s \<Longrightarrow> w \<in> W \<Longrightarrow> get_public_key x w s = (Inr pk, s') \<Longrightarrow> lower_hex 64 pk"
proof (induction s arbitrary: s')
  case (SFailover p f st)
  from public_key_max [OF SFailover.prems(3)] SFailover show ?case by (auto split: if_splits)
qed (auto simp: Let_def env_public_key_def ed25519_ok_def split: prod.splits dest: kms_public_ok(2))

lemma signer_ok_sign_text:
  "signer_ok x W s \<Longrightarrow> w \<in> W \<Longrightarrow> sign_hash x w s h = (Inr sig, s') \<Longrightarrow> length h = 32 \<and> lower_hex 128 sig"
proof (induction s arbitrary: s')
  case (SEnv e)
  then show ?case using lower_hex_hex [of _ 64] by (auto simp: env_sign_iff ed25519_ok_def)
next
  case (SKms k)
  then show ?case using lower_hex_hex [of _ 64] by (auto simp: kms_sign_iff)
next
  case (SFailover p f st)
  from SFailover.prems(3) show ?case
    by (rule failover_sign_ok) (use SFailover in auto)
qed

lemma signer_ok_key_id: "signer_ok x W s \<Longrightarrow> strip (get_key_id x s) \<noteq> []"
  by (induction s) (auto simp: derive_key_id_def strip_prefix py_space_def cp_def)

lemma signer_ok_sign_pub:
  "signer_ok x W s \<Longrightarrow> w \<in> W \<Longrightarrow> sign_hash x w s h = (Inr sig, s') \<Longrightarrow> get_public_key x w s' = (Inr pk, s'')
     \<Longrightarrow> verify_ed25519 x pk h sig"
proof (induction s arbitrary: s' s'')
  case (SEnv e)
  then show ?case by (auto simp: env_sign_iff ed25519_ok_def verify_ed25519_def env_public_key_def)
next
  case (SKms k)
  then show ?case by (auto simp: kms_sign_iff Let_def split: prod.splits dest: kms_public_ok(3))
next
  case (SFailover p f st)
  from SFailover.prems(3) show ?case
  proof (rule failover_sign_ok)
    fix p' st' assume "sign_hash x w p h = (Inr sig, p')" "s' = SFailover p' f st'" "fs_primary_healthy st'"
    with SFailover show ?thesis by (auto split: prod.splits)
  next
    fix e p' f' st' assume a: "sign_hash x w f h = (Inr sig, f')" "s' = SFailover p' f' st'"
      "st' = handle_primary_failure (kw_now w) (st\<lparr>fs_metrics := record_sign (fs_metrics st)\<rparr>)"
    have "\<not> fs_primary_healthy st'" using SFailover.prems(1) a(3) by (simp add: handle_primary_failure_first)
    with SFailover a(1,2) show ?thesis by (auto split: prod.splits)
  next
    fix f' st' assume "sign_hash x w f h = (Inr sig, f')" "s' = SFailover p f' st'" "\<not> fs_primary_healthy st'"
    with SFailover show ?thesis by (auto split: prod.splits)
  qed
qed

interpretation sc: signer_contract "sign_hash x w" "get_public_key x w" "get_key_id x"
  "\<lambda>s. signer_ok x W s \<and> w \<in> W" "verify_ed25519 x" for x w W
  by unfold_locales
    (auto dest: signer_ok_sign_pub signer_ok_sign_text signer_ok_public_text signer_ok_sign signer_ok_public
      signer_ok_key_id)

subsection \<open>KMS as AWS documents it\<close>

text \<open>
  The API reference of \<open>Sign\<close> and \<open>GetPublicKey\<close> for a key of the spec that the class requires, Ed25519: \<open>Sign\<close>
  refuses an algorithm that does not belong to the key spec, so it answers only requests for pure Ed25519 on the
  raw message, with the signature of 64 bytes, and for Ed25519ph on a digest; \<open>GetPublicKey\<close> answers the
  \<open>SubjectPublicKeyInfo\<close> of the key, which for Ed25519 is a fixed prefix of 12 bytes and the 32 bytes of the key.
  Any request may fail.
\<close>

definition spki_ed25519 :: bytes where
  "spki_ed25519 = [48, 42, 48, 5, 6, 3, 43, 101, 112, 3, 33, 0]"

definition kms_documented :: "ext \<Rightarrow> kms_world set \<Rightarrow> kms_signer \<Rightarrow> bool" where
  "kms_documented x W k \<longleftrightarrow> (\<exists>pk. length pk = 32 \<and>
     (\<forall>w\<in>W. \<forall>mt alg m sig. kw_sign w (ks_region k) (ks_raw_key_id k) mt alg m = Inr sig \<longrightarrow>
        (mt = ''RAW'' \<and> alg = ''ED25519_SHA_512'' \<and> length sig = 64 \<and> x_ed_verify x pk m sig = NaclOk) \<or>
        (mt = ''DIGEST'' \<and> alg = ''ED25519_PH_SHA_512'')) \<and>
     (\<forall>w\<in>W. \<forall>der. kw_public w (ks_region k) (ks_raw_key_id k) = Inr der \<longrightarrow> der = spki_ed25519 @ pk) \<and>
     (ks_public_key_cache k = None \<or> ks_public_key_cache k = Some (hex pk)))"

fun signer_documented :: "ext \<Rightarrow> kms_world set \<Rightarrow> signer \<Rightarrow> bool" where
  "signer_documented x W (SEnv e) \<longleftrightarrow> ed25519_ok x \<and> length (es_signing_key e) = 32"
| "signer_documented x W (SKms k) \<longleftrightarrow> kms_documented x W k \<and> strip (ks_key_id k) \<noteq> []"
| "signer_documented x W (SFailover p f st) \<longleftrightarrow>
     signer_documented x W p \<and> signer_documented x W f \<and> fs_max_consecutive st \<le> 1"

lemma extract_spki: "length pk = 32 \<Longrightarrow> extract_ed25519_pubkey (spki_ed25519 @ pk) = pk"
  by (simp add: extract_ed25519_pubkey_def spki_ed25519_def)

lemma kms_documented_refuses:
  assumes "kms_documented x W k" "w \<in> W"
  shows "isl (kw_sign w (ks_region k) (ks_raw_key_id k) mt ''ECDSA_SHA_256'' h)"
proof (cases "kw_sign w (ks_region k) (ks_raw_key_id k) mt ''ECDSA_SHA_256'' h")
  case (Inr sig)
  then show ?thesis using assms unfolding kms_documented_def by fastforce
qed simp

lemma kms_documented_ed25519: "kms_documented x W k \<Longrightarrow> kms_ed25519 x W k"
proof -
  assume d: "kms_documented x W k"
  then obtain pk where pk: "length pk = 32"
    "\<forall>w\<in>W. \<forall>der. kw_public w (ks_region k) (ks_raw_key_id k) = Inr der \<longrightarrow> der = spki_ed25519 @ pk"
    "ks_public_key_cache k = None \<or> ks_public_key_cache k = Some (hex pk)"
    unfolding kms_documented_def by blast
  have "\<forall>w\<in>W. \<forall>h sig. kw_sign w (ks_region k) (ks_raw_key_id k) ''RAW'' ''ECDSA_SHA_256'' h \<noteq> Inr sig"
    using kms_documented_refuses [OF d] by (metis sum.disc(2))
  then show ?thesis unfolding kms_ed25519_def
    by (intro exI [of _ pk]) (use pk in \<open>auto simp: extract_spki\<close>)
qed

lemma signer_documented_ok: "signer_documented x W s \<Longrightarrow> signer_ok x W s"
  by (induction s) (auto simp: kms_documented_ed25519)

text \<open>The environment keys inside a signer.\<close>

fun env_keys :: "signer \<Rightarrow> env_signer set" where
  "env_keys (SEnv e) = {e}"
| "env_keys (SKms k) = {}"
| "env_keys (SFailover p f st) = env_keys p \<union> env_keys f"

lemma kms_documented_no_signature: "kms_documented x W k \<Longrightarrow> w \<in> W \<Longrightarrow> kms_sign_hash w k h \<noteq> Inr sig"
  using kms_documented_refuses [of x W k w "''RAW''" h] by (auto simp: kms_sign_iff)

lemma signed_by_env_key:
  "signer_documented x W s \<Longrightarrow> w \<in> W \<Longrightarrow> sign_hash x w s h = (Inr sig, s') \<Longrightarrow> get_public_key x w s' = (Inr pk, s'') \<Longrightarrow>
     \<exists>e\<in>env_keys s. env_sign_hash x e h = Inr sig \<and> pk = env_public_key x e"
proof (induction s arbitrary: s' s'')
  case (SKms k)
  then show ?case using kms_documented_no_signature [of x W k w h sig] by auto
next
  case (SFailover p f st)
  have fb: ?case if a: "sign_hash x w f h = (Inr sig, f')" "s' = SFailover p' f' st'" "\<not> fs_primary_healthy st'" for p' f' st'
  proof -
    obtain f2 where "get_public_key x w f' = (Inr pk, f2)" using SFailover.prems(4) a(2,3) by (auto split: prod.splits)
    from SFailover.IH(2) [OF _ SFailover.prems(2) a(1) this] SFailover.prems(1)
    have "\<exists>e\<in>env_keys f. env_sign_hash x e h = Inr sig \<and> pk = env_public_key x e" by simp
    then show ?thesis by auto
  qed
  from SFailover.prems(3) show ?case
  proof (rule failover_sign_ok)
    fix p' st' assume a: "sign_hash x w p h = (Inr sig, p')" "s' = SFailover p' f st'" "fs_primary_healthy st'"
    obtain p2 where "get_public_key x w p' = (Inr pk, p2)" using SFailover.prems(4) a(2,3) by (auto split: prod.splits)
    from SFailover.IH(1) [OF _ SFailover.prems(2) a(1) this] SFailover.prems(1)
    have "\<exists>e\<in>env_keys p. env_sign_hash x e h = Inr sig \<and> pk = env_public_key x e" by simp
    then show ?thesis by auto
  next
    fix e p' f' st' assume a: "sign_hash x w f h = (Inr sig, f')" "s' = SFailover p' f' st'"
      "st' = handle_primary_failure (kw_now w) (st\<lparr>fs_metrics := record_sign (fs_metrics st)\<rparr>)"
    have "\<not> fs_primary_healthy st'" using SFailover.prems(1) a(3) by (simp add: handle_primary_failure_first)
    with a(1,2) show ?thesis by (rule fb)
  qed (rule fb)
qed auto

subsection \<open>The failover state machine\<close>

text \<open>
  Signing calls and the probe thread interleave, each step under its own KMS behaviour \<open>w\<close>;
  \<open>fo_step\<close> adds the manual operations.
\<close>

inductive auto_step :: "ext \<Rightarrow> signer \<Rightarrow> signer \<Rightarrow> bool" for x where
  step_sign: "sign_hash x w s h = (r, s') \<Longrightarrow> auto_step x s s'"
| step_probe: "auto_step x s (health_probe_step x w s)"

inductive fo_step :: "ext \<Rightarrow> signer \<Rightarrow> signer \<Rightarrow> bool" for x where
  step_auto: "auto_step x s s' \<Longrightarrow> fo_step x s s'"
| step_force_failover: "fo_step x s (force_failover w s)"
| step_force_failback: "fo_step x s (force_failback w s)"

inductive fo_reach :: "ext \<Rightarrow> signer \<Rightarrow> signer \<Rightarrow> bool" for x s0 where
  reach_init: "fo_reach x s0 s0"
| reach_step: "fo_reach x s0 s \<Longrightarrow> fo_step x s s' \<Longrightarrow> fo_reach x s0 s'"

text \<open>
  The counters: every failover but the current one is matched by a failback (one may still be waiting
  to be recorded), and a row of consecutive failures consists of recorded primary errors.
\<close>

definition counters_ok :: "failover_state \<Rightarrow> bool" where
  "counters_ok st \<longleftrightarrow>
     fm_failover_count (fs_metrics st) \<le> fm_failback_count (fs_metrics st) +
       (if fs_primary_healthy st then 0 else 1) + (if fs_probe st = FailingBack then 1 else 0) \<and>
     fm_consecutive_failures (fs_metrics st) \<le> fm_primary_errors (fs_metrics st)"

fun fo_inv :: "signer \<Rightarrow> bool" where
  "fo_inv (SFailover p f st) \<longleftrightarrow> counters_ok st"
| "fo_inv s \<longleftrightarrow> False"

lemma counters_record [simp]:
  "counters_ok st \<Longrightarrow> counters_ok (st\<lparr>fs_metrics := record_sign (fs_metrics st)\<rparr>)"
  "counters_ok st \<Longrightarrow> counters_ok (st\<lparr>fs_metrics := record_fallback_error (fs_metrics st)\<rparr>)"
  "counters_ok st \<Longrightarrow> counters_ok (st\<lparr>fs_metrics := reset_consecutive (fs_metrics st)\<rparr>)"
  by (simp_all add: counters_ok_def metrics_defs)

lemma counters_handle [simp]: "counters_ok st \<Longrightarrow> counters_ok (handle_primary_failure now st)"
  by (auto simp: counters_ok_def metrics_defs handle_primary_failure_def start_health_probe_def Let_def)

lemma fo_inv_sign: "fo_inv s \<Longrightarrow> sign_hash x w s h = (r, s') \<Longrightarrow> fo_inv s'"
proof (cases s)
  case (SFailover p f st)
  obtain a p1 b f1 where "sign_hash x w p h = (a, p1)" "sign_hash x w f h = (b, f1)" by fastforce
  moreover assume "fo_inv s" "sign_hash x w s h = (r, s')"
  ultimately show ?thesis using SFailover counters_record(3) [of "st\<lparr>fs_metrics := record_sign (fs_metrics st)\<rparr>"]
      counters_record(2) [of "st\<lparr>fs_metrics := record_sign (fs_metrics st)\<rparr>"]
      counters_record(2) [of "handle_primary_failure (kw_now w) (st\<lparr>fs_metrics := record_sign (fs_metrics st)\<rparr>)"]
    by (cases a; cases b) (auto simp: Let_def split: sum.splits if_splits)
qed auto

lemma fo_inv_step: "fo_step x s s' \<Longrightarrow> fo_inv s \<Longrightarrow> fo_inv s'"
proof (induction rule: fo_step.induct)
  case (step_auto s s')
  then show ?case
  proof (induction rule: auto_step.induct)
    case (step_probe s w)
    then show ?case
      by (cases s) (auto simp: counters_ok_def record_failback_def split: probe.splits prod.splits sum.splits)
  qed (rule fo_inv_sign)
next
  case (step_force_failover s w)
  then show ?case
    by (cases s) (auto simp: counters_ok_def record_failover_def start_health_probe_def)
next
  case (step_force_failback s w)
  then show ?case by (cases s) (auto simp: counters_ok_def record_failback_def split: if_splits)
qed

lemma fo_inv_reach: "fo_reach x s0 s \<Longrightarrow> fo_inv s0 \<Longrightarrow> fo_inv s"
  by (induction rule: fo_reach.induct) (auto intro: fo_inv_step)

lemma fo_inv_init: "fo_inv (FailoverSigner_init p f n)"
  by (simp add: FailoverSigner_init_def counters_ok_def metrics_init_def)

text \<open>Fallback mode without a probe thread is left only by hand.\<close>

fun stuck :: "signer \<Rightarrow> bool" where
  "stuck (SFailover p f st) \<longleftrightarrow> \<not> fs_primary_healthy st \<and> fs_probe st = NoProbe"
| "stuck s \<longleftrightarrow> False"

lemma stuck_auto_step: "auto_step x s s' \<Longrightarrow> stuck s \<Longrightarrow> stuck s'"
proof (induction rule: auto_step.induct)
  case (step_sign w s h r s')
  then obtain p f st where s: "s = SFailover p f st" by (cases s) auto
  obtain b f1 where "sign_hash x w f h = (b, f1)" by fastforce
  with step_sign s show ?case by (cases b) (auto simp: Let_def split: sum.splits)
next
  case (step_probe s w)
  then show ?case by (cases s) auto
qed

lemma stuck_forever: "(auto_step x)\<^sup>*\<^sup>* s s' \<Longrightarrow> stuck s \<Longrightarrow> stuck s'"
  by (induction rule: rtranclp_induct) (auto intro: stuck_auto_step)

subsection \<open>Properties\<close>

text \<open>
  A KMS that cannot be reached, one that answers for an Ed25519 key as documented, and a failover pair of that key and a
  local key.
\<close>

definition kms_down :: kms_world where
  "kms_down = \<lparr>kw_sign = (\<lambda>_ _ _ _ _. Inl ''timeout''), kw_public = (\<lambda>_ _. Inl ''timeout''), kw_now = ''now''\<rparr>"

definition kms_up :: kms_world where
  "kms_up = \<lparr>kw_sign = (\<lambda>_ _ mt alg m. if mt = ''RAW'' \<and> alg = ''ED25519_SHA_512''
       then Inr (x_ed_sign sample_ext (replicate 32 7) m) else Inl ''InvalidKeyUsageException''),
     kw_public = (\<lambda>_ _. Inr (spki_ed25519 @ x_ed_public sample_ext (replicate 32 7))), kw_now = ''now''\<rparr>"

definition sample_pair :: "int \<Rightarrow> signer" where
  "sample_pair n = FailoverSigner_init
     (SKms \<lparr>ks_raw_key_id = ''k'', ks_key_id = ''kms-k'', ks_region = ''r'', ks_public_key_cache = None\<rparr>)
     (SEnv \<lparr>es_signing_key = replicate 32 9\<rparr>) n"

lemma sample_pair_documented: "signer_documented sample_ext {kms_down, kms_up} (sample_pair 1)"
proof -
  let ?k = "\<lparr>ks_raw_key_id = ''k'', ks_key_id = ''kms-k'', ks_region = ''r'', ks_public_key_cache = None\<rparr>"
  let ?pk = "x_ed_public sample_ext (replicate 32 7)"
  have e: "ed25519_ok sample_ext" by (rule sample_ext_ok)
  then have l: "length ?pk = 32" "\<And>m. length (x_ed_sign sample_ext (replicate 32 7) m) = 64"
    "\<And>m. x_ed_verify sample_ext ?pk m (x_ed_sign sample_ext (replicate 32 7) m) = NaclOk"
    by (simp_all add: ed25519_ok_def)
  have "kms_documented sample_ext {kms_down, kms_up} ?k"
    unfolding kms_documented_def by (intro exI [of _ ?pk]) (simp add: kms_down_def kms_up_def l split: if_splits)
  then show ?thesis
    using strip_prefix [of "CHR ''k''" "''ms-k''"] e by (simp add: sample_pair_def FailoverSigner_init_def py_space_def cp_def)
qed

text \<open>
  C26: The signature contract of the signers.  For an environment signer with a 32-byte seed, a KMS key that answers as AWS
  documents an Ed25519 key, and failover pairs of such signers that switch at the first failure: when \<open>sign_hash\<close>
  returns, also after a switch to the fallback, the hash has 32 bytes, the signature is the one of an
  environment key of the signer, and the public key asked for next is that key's and verifies it.  In
  particular the KMS key itself never signs.
\<close>

theorem signature_matches_public_key:
  assumes "signer_documented x W s" "w \<in> W" "sign_hash x w s h = (Inr sig, s1)" "get_public_key x w s1 = (Inr pk, s2)"
  shows "length h = 32 \<and> lower_hex 128 sig \<and> lower_hex 64 pk \<and> verify_ed25519 x pk h sig \<and> signer_ok x W s2 \<and>
    (\<exists>e\<in>env_keys s. env_sign_hash x e h = Inr sig \<and> pk = env_public_key x e)"
proof -
  have o: "signer_ok x W s \<and> w \<in> W" using signer_documented_ok [OF assms(1)] assms(2) by blast
  have o1: "signer_ok x W s1 \<and> w \<in> W" using sc.sign_ok [OF o assms(3)] .
  show ?thesis
    using sc.sign_text [OF o assms(3)] sc.pub_text [OF o1 assms(4)] sc.sign_pub [OF o assms(3,4)] sc.pub_ok [OF o1 assms(4)]
      signed_by_env_key [OF assms]
    by blast
qed

theorem signature_matches_public_key_witness:
  "\<exists>sig pk s1 s2. sign_hash sample_ext kms_down (sample_pair 1) (replicate 32 0) = (Inr sig, s1) \<and>
     get_public_key sample_ext kms_down s1 = (Inr pk, s2) \<and> verify_ed25519 sample_ext pk (replicate 32 0) sig \<and>
     pk = env_public_key sample_ext \<lparr>es_signing_key = replicate 32 9\<rparr>"
proof -
  obtain r s1 where s: "sign_hash sample_ext kms_down (sample_pair 1) (replicate 32 0) = (r, s1)" by fastforce
  obtain q s2 where p: "get_public_key sample_ext kms_down s1 = (q, s2)" by fastforce
  have "\<not> isl (fst (sign_hash sample_ext kms_down (sample_pair 1) (replicate 32 0)))"
    "\<not> isl (fst (get_public_key sample_ext kms_down (snd (sign_hash sample_ext kms_down (sample_pair 1) (replicate 32 0)))))"
    by code_simp+
  then obtain sig pk where e: "r = Inr sig" "q = Inr pk"
    using s p by (metis fst_conv isl_def old.sum.exhaust snd_conv)
  have k: "env_keys (sample_pair 1) = {\<lparr>es_signing_key = replicate 32 9\<rparr>}"
    by (simp add: sample_pair_def FailoverSigner_init_def)
  from signature_matches_public_key [OF sample_pair_documented _ s [unfolded e] p [unfolded e]] s p e show ?thesis
    unfolding k by blast
qed

text \<open>
  A KMS key as AWS documents it never signs: the class requires an Ed25519 key, and \<open>sign_hash\<close> asks KMS for
  \<open>ECDSA_SHA_256\<close>.  A refusal other than an unknown key or a lost connection is \<open>SigningFailed\<close>, which a failover
  signer does not catch: with a healthy flag it raises too.
\<close>

theorem kms_never_signs:
  assumes "kms_documented x W k" "w \<in> W" "length h = 32"
  shows "\<exists>err. kw_sign w (ks_region k) (ks_raw_key_id k) ''RAW'' ''ECDSA_SHA_256'' h = Inl err \<and>
    (list_all (\<lambda>t. \<not> contains err t) [''NotFoundException'', ''InvalidKeyId'', ''EndpointResolutionError'', ''ConnectionError'', ''timeout'']
      \<longrightarrow> sign_hash x w (SKms k) h = (Inl (SigningFailed (ks_key_id k) err), SKms k) \<and>
        (fs_primary_healthy st \<longrightarrow> fst (sign_hash x w (SFailover (SKms k) f st) h) = Inl (SigningFailed (ks_key_id k) err)))"
proof -
  obtain err where e: "kw_sign w (ks_region k) (ks_raw_key_id k) ''RAW'' ''ECDSA_SHA_256'' h = Inl err"
    using kms_documented_refuses [OF assms(1,2)] by (auto simp: isl_def)
  have "kms_sign_hash w k h = Inl (SigningFailed (ks_key_id k) err)"
    if "list_all (\<lambda>t. \<not> contains err t) [''NotFoundException'', ''InvalidKeyId'', ''EndpointResolutionError'', ''ConnectionError'', ''timeout'']"
    using that assms(3) by (simp add: kms_sign_hash_def validate_hash_bytes_def rcheck_def e del: contains.simps)
  with e show ?thesis using assms(3) by (intro exI [of _ err]) (auto simp: validate_hash_bytes_def rcheck_def Let_def)
qed

theorem kms_never_signs_witness:
  "fst (sign_hash sample_ext kms_up (sample_pair 1) (replicate 32 0)) = Inl (SigningFailed ''kms-k'' ''InvalidKeyUsageException'')"
proof -
  let ?k = "\<lparr>ks_raw_key_id = ''k'', ks_key_id = ''kms-k'', ks_region = ''r'', ks_public_key_cache = None\<rparr>"
  have d: "kms_documented sample_ext {kms_down, kms_up} ?k"
    using sample_pair_documented by (simp add: sample_pair_def FailoverSigner_init_def)
  have l: "list_all (\<lambda>t. \<not> contains ''InvalidKeyUsageException'' t)
      [''NotFoundException'', ''InvalidKeyId'', ''EndpointResolutionError'', ''ConnectionError'', ''timeout'']" by code_simp
  show ?thesis
    using kms_never_signs [OF d, of kms_up "replicate 32 0" "\<lparr>fs_metrics = metrics_init, fs_max_consecutive = 1,
      fs_primary_healthy = True, fs_probe = NoProbe\<rparr>" "SEnv \<lparr>es_signing_key = replicate 32 9\<rparr>"] l
    by (auto simp: kms_up_def sample_pair_def FailoverSigner_init_def simp del: sign_hash.simps contains.simps)
qed

text \<open>
  Below the threshold the pair signs with one key and names the other: when the primary fails and the
  failure does not yet switch the mode, the signature is the fallback's, while \<open>get_key_id\<close> and
  \<open>get_public_key\<close>, asked afterwards, still answer for the primary.
\<close>

theorem fallback_signs_for_primary:
  assumes "length h = 32" "fs_primary_healthy st" "sign_hash x w p h = (Inl e, p')" "is_failover_exception e"
    and "sign_hash x w f h = (Inr sig, f')" "int (fm_consecutive_failures (fs_metrics st)) + 1 < fs_max_consecutive st"
  shows "\<exists>st'. sign_hash x w (SFailover p f st) h = (Inr sig, SFailover p' f' st') \<and>
    get_key_id x (SFailover p' f' st') = get_key_id x p' \<and>
    fst (get_public_key x w (SFailover p' f' st')) = fst (get_public_key x w p')"
proof -
  let ?st = "handle_primary_failure (kw_now w) (st\<lparr>fs_metrics := record_sign (fs_metrics st)\<rparr>)"
  have "fs_primary_healthy ?st"
    using assms(2,6) by (simp add: handle_primary_failure_def record_sign_def record_primary_error_def Let_def)
  moreover have "sign_hash x w (SFailover p f st) h = (Inr sig, SFailover p' f' ?st)"
    using assms(1-5) by (simp add: validate_hash_bytes_def rcheck_def Let_def)
  ultimately show ?thesis by (auto simp: split_def Let_def simp del: sign_hash.simps)
qed

theorem fallback_signs_for_primary_witness:
  "\<exists>sig s'. sign_hash sample_ext kms_down (sample_pair 2) (replicate 32 0) = (Inr sig, s') \<and>
     get_key_id sample_ext s' = ''kms-k''"
proof -
  let ?k = "SKms \<lparr>ks_raw_key_id = ''k'', ks_key_id = ''kms-k'', ks_region = ''r'', ks_public_key_cache = None\<rparr>"
  have p: "sign_hash sample_ext kms_down ?k (replicate 32 0) = (Inl (KMSUnavailable ''kms-k'' ''timeout''), ?k)"
    by code_simp
  have f: "sign_hash sample_ext kms_down (SEnv \<lparr>es_signing_key = replicate 32 9\<rparr>) (replicate 32 0) =
      (Inr (hex (x_ed_sign sample_ext (replicate 32 9) (replicate 32 0))), SEnv \<lparr>es_signing_key = replicate 32 9\<rparr>)"
    by (simp add: env_sign_hash_def validate_hash_bytes_def)
  from fallback_signs_for_primary [OF _ _ p _ f, of "\<lparr>fs_metrics = metrics_init, fs_max_consecutive = 2,
    fs_primary_healthy = True, fs_probe = NoProbe\<rparr>"]
  show ?thesis by (auto simp: sample_pair_def FailoverSigner_init_def metrics_init_def simp del: sign_hash.simps)
qed

text \<open>
  Along every run of signing calls, health probes and manual switches of a new failover signer the
  counters agree with its mode: the failovers are at most the failbacks plus the one in force (and one more while
  a failback is being recorded), and the row of consecutive failures is covered by recorded primary errors.
\<close>

theorem failover_counters:
  assumes "fo_reach x (FailoverSigner_init p f n) (SFailover p' f' st)"
  shows "fm_failover_count (fs_metrics st) \<le> fm_failback_count (fs_metrics st) +
      (if fs_primary_healthy st then 0 else 1) + (if fs_probe st = FailingBack then 1 else 0) \<and>
    fm_consecutive_failures (fs_metrics st) \<le> fm_primary_errors (fs_metrics st)"
  using fo_inv_reach [OF assms fo_inv_init] by (simp add: counters_ok_def)

theorem failover_counters_witness:
  "\<exists>p f st. snd (sign_hash sample_ext kms_down (sample_pair 1) (replicate 32 0)) = SFailover p f st \<and>
     fm_failover_count (fs_metrics st) \<le> fm_failback_count (fs_metrics st) + 1"
proof -
  obtain r p f st where s: "sign_hash sample_ext kms_down (sample_pair 1) (replicate 32 0) = (r, SFailover p f st)"
    unfolding sample_pair_def FailoverSigner_init_def
    by (metis failover_sign_shape surj_pair)
  have "\<not> fs_primary_healthy st \<and> fs_probe st = Sleeping"
  proof -
    have "case snd (sign_hash sample_ext kms_down (sample_pair 1) (replicate 32 0)) of
        SFailover p f st \<Rightarrow> \<not> fs_primary_healthy st \<and> fs_probe st = Sleeping | _ \<Rightarrow> False" by code_simp
    then show ?thesis by (simp add: s)
  qed
  moreover have "fo_reach sample_ext (sample_pair 1) (SFailover p f st)"
    by (rule reach_step [OF reach_init step_auto [OF step_sign [OF s]]])
  ultimately show ?thesis using failover_counters s unfolding sample_pair_def by fastforce
qed

text \<open>
  A failover signer can lose its probe thread for good: once it is in fallback mode with no probe thread,
  no signing call and no probe brings the primary back, however healthy KMS is; only
  \<open>force_failback\<close> does.  The witness reaches such a state from a new signer: a signing failure
  between the probe's switch back and the end of its loop does not start a new thread.
\<close>

theorem failover_stuck:
  assumes "stuck s" "(auto_step x)\<^sup>*\<^sup>* s s'"
  shows "stuck s'"
  using stuck_forever [OF assms(2,1)] .

theorem failover_stuck_witness:
  "\<exists>s. (auto_step sample_ext)\<^sup>*\<^sup>* (sample_pair 1) s \<and> stuck s \<and> stuck (health_probe_step sample_ext kms_up s)"
proof -
  let ?sign = "\<lambda>w s. snd (sign_hash sample_ext w s (replicate 32 0))"
  let ?a = "?sign kms_down (sample_pair 1)"
  let ?b = "health_probe_step sample_ext kms_up ?a"
  let ?c = "?sign kms_down ?b"
  let ?s = "health_probe_step sample_ext kms_up ?c"
  have g: "auto_step sample_ext s (?sign w s)" for w s
    by (rule step_sign [of sample_ext w s "replicate 32 0" "fst (sign_hash sample_ext w s (replicate 32 0))"]) simp
  have "auto_step sample_ext (sample_pair 1) ?a" "auto_step sample_ext ?a ?b" "auto_step sample_ext ?b ?c"
    "auto_step sample_ext ?c ?s" by (rule g step_probe)+
  then have "(auto_step sample_ext)\<^sup>*\<^sup>* (sample_pair 1) ?s" by (meson converse_rtranclp_into_rtranclp r_into_rtranclp)
  moreover have k: "stuck ?s" by code_simp
  moreover have "stuck (health_probe_step sample_ext kms_up ?s)"
    by (rule failover_stuck [OF k]) (rule r_into_rtranclp, rule step_probe)
  ultimately show ?thesis by blast
qed

end
