(* ===== verification/JsonText.thy ===== *)
theory JsonText
  imports Json
begin

text \<open>
  JSON text beside the compact form: \<open>json.dumps(v, sort_keys=True)\<close> with the default separators, and
  \<open>json.loads\<close> of text with white space between its tokens.
\<close>

text \<open>\<open>json.dumps(v, sort_keys=True)\<close> with the default separators.\<close>

fun json_dumps_spaced :: "pyval \<Rightarrow> string option" where
  "json_dumps_spaced (PyList vs) =
     map_option (\<lambda>ss. ''['' @ join '', '' ss @ '']'') (those (map json_dumps_spaced vs))"
| "json_dumps_spaced (PyTuple vs) =
     map_option (\<lambda>ss. ''['' @ join '', '' ss @ '']'') (those (map json_dumps_spaced vs))"
| "json_dumps_spaced (PyDict kvs) =
     (case those (map (\<lambda>p. map_option (\<lambda>s. (fst p, s)) (json_dumps_spaced (snd p))) kvs) of
        None \<Rightarrow> None
      | Some items \<Rightarrow> map_option (\<lambda>kss. ''{'' @ join '', '' (map (\<lambda>(k, s). json_str True k @ '': '' @ s) kss) @ ''}'')
          (sort_items items))"
| "json_dumps_spaced v = json_dumps True v"

text \<open>\<open>json.dumps(v, separators=(i, k))\<close> without sorting: the items of a \<open>dict\<close> in their order.\<close>

fun json_key :: "pykey \<Rightarrow> string option" where
  "json_key (KStr s) = Some s"
| "json_key (KInt i) = Some (show_int i)"
| "json_key (KOther _ _) = None"

fun json_dumps_ordered :: "string \<Rightarrow> string \<Rightarrow> pyval \<Rightarrow> string option" where
  "json_dumps_ordered i k (PyList vs) =
     map_option (\<lambda>ss. ''['' @ join i ss @ '']'') (those (map (json_dumps_ordered i k) vs))"
| "json_dumps_ordered i k (PyTuple vs) =
     map_option (\<lambda>ss. ''['' @ join i ss @ '']'') (those (map (json_dumps_ordered i k) vs))"
| "json_dumps_ordered i k (PyDict kvs) =
     map_option (\<lambda>ss. ''{'' @ join i ss @ ''}'') (those (map (\<lambda>p. case (json_key (fst p), json_dumps_ordered i k (snd p)) of
        (Some n, Some s) \<Rightarrow> Some (json_str True n @ k @ s) | _ \<Rightarrow> None) kvs))"
| "json_dumps_ordered i k v = json_dumps True v"

text \<open>
  \<open>json.loads\<close> of text that any program wrote: white space between tokens is dropped first, save between two
  characters of numbers or literals, where it separates nothing legal.
\<close>

definition json_space :: "char \<Rightarrow> bool" where
  "json_space c \<longleftrightarrow> cp c \<in> {9, 10, 13, 32}"

definition json_atom :: "char \<Rightarrow> bool" where
  "json_atom c \<longleftrightarrow> c \<notin> set ''{}[],:'' \<and> cp c \<noteq> 34 \<and> \<not> json_space c"

fun squeeze :: "bool \<Rightarrow> bool \<Rightarrow> string \<Rightarrow> string" where
  "squeeze in_str atom [] = []"
| "squeeze True atom (c # s) =
     (if cp c = 92 then (case s of [] \<Rightarrow> [c] | d # s' \<Rightarrow> c # d # squeeze True atom s')
      else if cp c = 34 then c # squeeze False False s
      else c # squeeze True atom s)"
| "squeeze False atom (c # s) =
     (if json_space c
      then (if atom \<and> (case dropWhile json_space s of d # _ \<Rightarrow> json_atom d | [] \<Rightarrow> False)
            then c # squeeze False False s
            else squeeze False atom s)
      else if cp c = 34 then c # squeeze True False s
      else c # squeeze False (json_atom c) s)"

definition body_loads :: "string \<Rightarrow> pyval option" where
  "body_loads s = json_loads (squeeze False False s)"

subsection \<open>Round trips\<close>

text \<open>The text of a plain value with given separators between items and after keys.\<close>

fun emit_sep :: "bool \<Rightarrow> string \<Rightarrow> string \<Rightarrow> pyval \<Rightarrow> string" where
  "emit_sep a i k (PyList vs) = CHR ''['' # join i (map (emit_sep a i k) vs) @ '']''"
| "emit_sep a i k (PyDict kvs) =
     CHR ''{'' # join i (map (\<lambda>p. json_str a (key_str (fst p)) @ k @ emit_sep a i k (snd p)) kvs) @ ''}''"
| "emit_sep a i k v = emit a v"

lemma emit_sep_compact: "emit_sep a '','' '':'' v = emit a v"
  by (induction a v rule: emit.induct)
    (auto simp: wrap_list_def wrap_dict_def o_def intro!: arg_cong [where f = "join _"] map_cong)

lemma json_dumps_spaced_plain: "plain v \<Longrightarrow> json_dumps_spaced v = Some (emit_sep True '', '' '': '' (norm v))"
proof (induction v rule: json_dumps_spaced.induct)
  case (1 vs)
  then have "those (map json_dumps_spaced vs) = Some (map (\<lambda>v. emit_sep True '', '' '': '' (norm v)) vs)"
    by (intro those_map_Some) (simp add: list_all_iff)
  then show ?case by (simp add: o_def)
next
  case (3 kvs)
  let ?f = "\<lambda>v. emit_sep True '', '' '': '' (norm v)"
  have t: "those (map (\<lambda>p. map_option (\<lambda>s. (fst p, s)) (json_dumps_spaced (snd p))) kvs) =
      Some (map (\<lambda>p. (fst p, ?f (snd p))) kvs)"
    using 3 by (intro those_map_Some) (auto simp: list_all_iff)
  have k: "list_all (\<lambda>p. is_KStr (fst p)) (map (\<lambda>p. (fst p, ?f (snd p))) kvs)"
    using 3 by (auto simp: list_all_iff)
  show ?case
    using t k by (simp add: sort_items_def sort_key_map o_def case_prod_beta)
qed (simp_all add: json_dumps_plain)

lemma json_dumps_ordered_plain: "plain v \<Longrightarrow> json_dumps_ordered i k v = Some (emit_sep True i k v)"
proof (induction i k v rule: json_dumps_ordered.induct)
  case (1 i k vs)
  then have "those (map (json_dumps_ordered i k) vs) = Some (map (emit_sep True i k) vs)"
    by (intro those_map_Some) (simp add: list_all_iff)
  then show ?case by simp
next
  case (3 i k kvs)
  have "json_key (fst p) = Some (key_str (fst p))" if "p \<in> set kvs" for p
    using 3(2) that by (cases "fst p") (auto simp: list_all_iff)
  then have "those (map (\<lambda>p. case (json_key (fst p), json_dumps_ordered i k (snd p)) of
        (Some n, Some s) \<Rightarrow> Some (json_str True n @ k @ s) | _ \<Rightarrow> None) kvs) =
      Some (map (\<lambda>p. json_str True (key_str (fst p)) @ k @ emit_sep True i k (snd p)) kvs)"
    using 3 by (intro those_map_Some) (auto simp: list_all_iff)
  then show ?case by simp
qed (simp_all add: json_dumps_plain)

lemma squeeze_chars:
  "\<forall>c\<in>set s. cp c \<noteq> 34 \<and> cp c \<noteq> 92 \<Longrightarrow> squeeze True b (s @ r) = s @ squeeze True b r"
  by (induction s) auto

lemma cp_zero: "cp (CHR ''0'') = 48"
  by (simp add: cp_def)

lemma cp_hexdigit_safe: "n < 16 \<Longrightarrow> cp (hexdigit n) \<noteq> 34 \<and> cp (hexdigit n) \<noteq> 92"
  by (simp add: cp_hexdigit)

lemma esc_cases:
  obtains (pair) d where "esc a c = [CHR 0x5C, d]"
  | (unicode) h l where "esc a c = [CHR 0x5C, CHR ''u'', CHR ''0'', CHR ''0'', h, l]"
      "\<forall>d\<in>set [CHR ''0'', CHR ''0'', h, l]. cp d \<noteq> 34 \<and> cp d \<noteq> 92"
  | (char) "esc a c = [c]" "cp c \<noteq> 34" "cp c \<noteq> 92"
proof -
  have "(\<exists>d. esc a c = [CHR 0x5C, d]) \<or> esc a c = CHR 0x5C # CHR ''u'' # hex4 (cp c) \<or>
      (esc a c = [c] \<and> cp c \<noteq> 34 \<and> cp c \<noteq> 92)"
    unfolding esc_def Let_def by (auto split: if_split)
  then consider (1) "\<exists>d. esc a c = [CHR 0x5C, d]" | (2) "esc a c = CHR 0x5C # CHR ''u'' # hex4 (cp c)"
    | (3) "esc a c = [c]" "cp c \<noteq> 34" "cp c \<noteq> 92" by blast
  then show thesis
  proof cases
    case 2
    have "cp c div 16 < 16" "cp c mod 16 < 16" using cp_less [of c] by (auto simp: less_mult_imp_div_less)
    with 2 show thesis
      by (intro unicode [of "hexdigit (cp c div 16)" "hexdigit (cp c mod 16)"]) (auto simp: hex4_def cp_hexdigit_safe cp_zero)
  qed (auto intro: pair char)
qed

lemma squeeze_esc: "squeeze True b (esc a c @ r) = esc a c @ squeeze True b r"
proof (cases rule: esc_cases [of a c])
  case (unicode h l)
  then show ?thesis using squeeze_chars [OF unicode(2), of b r] by simp
qed simp_all

lemma squeeze_escs: "squeeze True b (concat (map (esc a) s) @ r) = concat (map (esc a) s) @ squeeze True b r"
  by (induction s) (simp_all add: squeeze_esc)

lemma squeeze_str [simp]: "squeeze False b (json_str a s @ r) = json_str a s @ squeeze False False r"
  using squeeze_escs [of False a s "CHR 0x22 # r"] by (simp add: json_str_def json_space_def)

lemma squeeze_atoms:
  "s \<noteq> [] \<Longrightarrow> \<forall>c\<in>set s. json_atom c \<Longrightarrow> squeeze False b (s @ r) = s @ squeeze False True r"
  by (induction s arbitrary: b rule: list_nonempty_induct) (auto simp: json_atom_def)

lemma show_int_atoms: "\<forall>c\<in>set (show_int i). json_atom c"
proof -
  have "json_atom c" if "is_digit c" for c
    using that by (auto simp: is_digit_def json_atom_def json_space_def cp_def)
  moreover have "json_atom (CHR ''-'')" by (simp add: json_atom_def json_space_def cp_def)
  ultimately show ?thesis using show_nat_digits by (auto simp: show_int_def)
qed

lemma show_int_not_Nil: "show_int i \<noteq> []"
  by (simp add: show_int_def)

lemma literal_atoms:
  "\<forall>c\<in>set ''null''. json_atom c" "\<forall>c\<in>set ''true''. json_atom c" "\<forall>c\<in>set ''false''. json_atom c"
  by (simp_all add: json_atom_def json_space_def cp_def)

text \<open>Punctuation is kept and ends an atom; the blank after it goes.\<close>

lemma squeeze_blank: "squeeze False False (CHR '' '' # s) = squeeze False False s"
  by (simp add: json_space_def cp_def)

lemma squeeze_punct:
  assumes "c \<in> set ''{}[],:''"
  shows "squeeze False b (c # s) = c # squeeze False False s" "squeeze False b (c # CHR '' '' # s) = c # squeeze False False s"
proof -
  have "\<not> json_space c" "cp c \<noteq> 34" "\<not> json_atom c" "json_space (CHR '' '')"
    using assms by (auto simp: json_space_def json_atom_def cp_def)
  then show "squeeze False b (c # s) = c # squeeze False False s" "squeeze False b (c # CHR '' '' # s) = c # squeeze False False s"
    by simp_all
qed

definition sep_pair :: "string \<Rightarrow> string \<Rightarrow> bool" where
  "sep_pair i k \<longleftrightarrow> (i = '','' \<or> i = '', '') \<and> (k = '':'' \<or> k = '': '')"

lemma squeeze_seps:
  assumes "sep_pair i k"
  shows "squeeze False b (i @ s) = CHR '','' # squeeze False False s" "squeeze False b (k @ s) = CHR '':'' # squeeze False False s"
  using assms unfolding sep_pair_def by (auto simp: squeeze_punct squeeze_blank simp del: squeeze.simps)

lemma squeeze_join:
  assumes "sep_pair i k" "\<And>s b r. s \<in> set ss \<Longrightarrow> \<exists>b'. squeeze False b (f s @ r) = g s @ squeeze False b' r"
  shows "\<exists>b'. squeeze False b (join i (map f ss) @ r) = join '','' (map g ss) @ squeeze False b' r"
  using assms(2)
proof (induction ss arbitrary: b rule: induct_list012)
  case (3 s t ss)
  obtain b1 where b1: "squeeze False b (f s @ i @ join i (map f (t # ss)) @ r) =
      g s @ squeeze False b1 (i @ join i (map f (t # ss)) @ r)"
    using 3(3) [of s] by (metis list.set_intros(1))
  obtain b2 where b2: "squeeze False False (join i (map f (t # ss)) @ r) = join '','' (map g (t # ss)) @ squeeze False b2 r"
    using 3(2) [of False] 3(3) by auto
  show ?case using b1 b2 by (auto simp: squeeze_seps [OF assms(1)] simp del: squeeze.simps)
qed (auto simp del: squeeze.simps)

lemma squeeze_emit:
  assumes "sep_pair i k"
  shows "plain v \<Longrightarrow> \<exists>b'. squeeze False b (emit_sep a i k v @ r) = emit a v @ squeeze False b' r"
proof (induction v arbitrary: b r rule: plain.induct)
  case 1
  show ?case using squeeze_atoms [OF _ literal_atoms(1), of b r] by (auto simp del: squeeze.simps)
next
  case (5 vs)
  have IH: "\<exists>b'. squeeze False b (emit_sep a i k v @ r) = emit a v @ squeeze False b' r" if "v \<in> set vs" for v b r
    using 5(1) [OF that] 5(2) that by (simp add: list_all_iff)
  obtain b' where "squeeze False False (join i (map (emit_sep a i k) vs) @ CHR '']'' # r) =
      join '','' (map (emit a) vs) @ squeeze False b' (CHR '']'' # r)"
    using squeeze_join [OF assms, of vs "emit_sep a i k" "emit a"] IH by blast
  then show ?case by (auto simp: squeeze_punct wrap_list_def simp del: squeeze.simps)
next
  case (6 kvs)
  let ?f = "\<lambda>p. json_str a (key_str (fst p)) @ k @ emit_sep a i k (snd p)"
  let ?g = "\<lambda>p. json_str a (key_str (fst p)) @ '':'' @ emit a (snd p)"
  have "\<exists>b'. squeeze False b (?f p @ r) = ?g p @ squeeze False b' r" if "p \<in> set kvs" for p b r
    using 6(1) [of p False r] 6(2) that by (auto simp: list_all_iff squeeze_seps [OF assms] simp del: squeeze.simps)
  then obtain b' where "squeeze False False (join i (map ?f kvs) @ CHR ''}'' # r) =
      join '','' (map ?g kvs) @ squeeze False b' (CHR ''}'' # r)"
    using squeeze_join [OF assms, of kvs ?f ?g] by blast
  then show ?case by (auto simp: squeeze_punct wrap_dict_def o_def case_prod_beta simp del: squeeze.simps)
qed (auto simp: squeeze_atoms literal_atoms show_int_atoms show_int_not_Nil simp del: squeeze.simps)

lemma body_loads_emit:
  assumes "sep_pair i k" "plain v" "wf_val v"
  shows "body_loads (emit_sep a i k v) = Some v"
  using squeeze_emit [OF assms(1,2), of False a "[]"] json_loads_emit [OF assms(2,3)] by (auto simp: body_loads_def)

lemma body_loads_wf: "body_loads s = Some v \<Longrightarrow> wf_val v"
  unfolding body_loads_def by (rule json_loads_wf)

lemma body_loads_dumps: "plain v \<Longrightarrow> wf_val v \<Longrightarrow> json_dumps a v = Some s \<Longrightarrow> body_loads s = Some (norm v)"
  using body_loads_emit [of "'',''" "'':''" "norm v" a] by (auto simp: json_dumps_plain emit_sep_compact sep_pair_def)

lemma body_loads_spaced: "plain v \<Longrightarrow> wf_val v \<Longrightarrow> json_dumps_spaced v = Some s \<Longrightarrow> body_loads s = Some (norm v)"
  using body_loads_emit [of "'', ''" "'': ''" "norm v" True] by (auto simp: json_dumps_spaced_plain sep_pair_def)

end
