(* ===== verification/Engine.thy ===== *)
theory Engine
  imports Storage Failover JsonText
begin

text \<open>
  \<open>provable_ai/engine.py\<close>: \<open>GovernanceEngine\<close> and the facade \<open>Engine\<close>.  The state \<open>engine\<close> holds the store,
  the signer and the dictionaries of protocols and instances (association lists in insertion order);
  \<open>facade\<close> adds the facade's own dictionaries.  An operation returns its result or exception and the
  new state.  The arguments of \<open>record_decision\<close> are a record; those annotated as \<open>str\<close> are strings,
  the others are Python values.  Log output is left out.
\<close>

subsection \<open>State\<close>

record engine =
  e_db :: db
  e_signer :: signer
  e_protocols :: "(string \<times> pyval) list"
  e_instances :: "(string \<times> (string \<times> string)) list"
  e_active_protocol_hash :: "string option"

record decision_request =
  rq_instance_id :: string
  rq_from_state :: string
  rq_to_state :: string
  rq_model_version :: string
  rq_agent_version :: string
  rq_policy_version :: string
  rq_reason_code :: string
  rq_policy_rule :: string
  rq_raw_inputs :: pyval
  rq_feature_contributions :: pyval
  rq_threshold_used :: pyval
  rq_metadata :: pyval
  rq_determinism_mode :: determinism_mode
  rq_random_seed :: "string option"
  rq_external_calls :: "pyval list"

text \<open>\<open>d[k] = v\<close> on the dictionaries with string keys.\<close>

fun aset :: "('k \<times> 'v) list \<Rightarrow> 'k \<Rightarrow> 'v \<Rightarrow> ('k \<times> 'v) list" where
  "aset [] k v = [(k, v)]"
| "aset ((k', v') # d) k v = (if k' = k then (k, v) # d else (k', v') # aset d k v)"

lemma map_of_aset [simp]: "map_of (aset d k v) = (map_of d)(k \<mapsto> v)"
  by (induction d) auto

subsection \<open>GovernanceEngine\<close>

definition hash_raw :: "ext \<Rightarrow> pyval \<Rightarrow> string res" where
  "hash_raw x data = rbind (opt_res TypeError (json_dumps False data)) (\<lambda>s. Inr (hexdigest x (utf8 s)))"

definition validate_governance :: "db \<Rightarrow> string \<Rightarrow> string \<Rightarrow> string \<Rightarrow> unit res" where
  "validate_governance s model_version agent_version policy_version =
     (let model_versions = map snd (get_approved_models s);
          agent_versions = map snd (get_approved_agents s);
          policy_versions = map snd (get_approved_policies s)
      in if model_version \<notin> set model_versions
         then Inl (UnauthorizedModelVersion model_version model_versions None)
         else if agent_version \<notin> set agent_versions
         then Inl (AgentVersionMismatch agent_version
                (case agent_versions of a # _ \<Rightarrow> a | [] \<Rightarrow> ''(none)''))
         else if policy_version \<notin> set policy_versions
         then Inl (PolicyViolation policy_version ''policy is not active'' None)
         else Inr ())"

definition validate_metadata :: "pyval \<Rightarrow> unit res" where
  "validate_metadata metadata = validate_payload metadata ''metadata''"

definition get_previous_hash_and_sequence :: "db \<Rightarrow> string \<Rightarrow> (string \<times> int) res" where
  "get_previous_hash_and_sequence s instance_id =
     (case get_latest_ledger_entry s instance_id ''default'' of
        None \<Rightarrow> Inr (genesis_hash, 1)
      | Some r \<Rightarrow>
          (let previous_hash = lr_current_hash r; next_sequence_id = lr_sequence_id r + 1
           in if \<not> is_valid_hash previous_hash
              then Inl (ChainBroken next_sequence_id ''(valid 64-char hex)'' previous_hash None)
              else Inr (previous_hash, next_sequence_id)))"

text \<open>Step 3 of \<open>record_decision\<close>, with its three tests in order.\<close>

definition check_determinism_args :: "determinism_mode \<Rightarrow> string option \<Rightarrow> pyval list \<Rightarrow> unit res" where
  "check_determinism_args mode random_seed external_calls =
     (let no_seed = (random_seed = None \<or> random_seed = Some []) in
      if mode = REPLAY_WITH_SEED \<and> no_seed then Inl (SequenceGap 0 0 None)
      else if mode = REPLAY_WITH_RECORDED_IO \<and> external_calls = []
      then Inl (PolicyViolation ''determinism_mode'' ''external_calls required for REPLAY_WITH_RECORDED_IO mode'' None)
      else if mode = REPLAY_WITH_SEED \<and> no_seed
      then Inl (PolicyViolation ''determinism_mode'' ''random_seed required for REPLAY_WITH_SEED mode'' None)
      else Inr ())"

text \<open>Steps 1 to 6: everything before the hash is signed.\<close>

definition prepare_decision ::
    "ext \<Rightarrow> db \<Rightarrow> decision_request \<Rightarrow>
       (decision \<times> decision_context \<times> governance \<times> determinism \<times> string \<times> int \<times> string) res" where
  "prepare_decision x s rq =
     (let metadata = (if truthy (rq_metadata rq) then rq_metadata rq else PyDict []) in
     rbind (validate_governance s (rq_model_version rq) (rq_agent_version rq) (rq_policy_version rq)) (\<lambda>_.
     rbind (validate_metadata metadata) (\<lambda>_.
     rbind (check_determinism_args (rq_determinism_mode rq) (rq_random_seed rq) (rq_external_calls rq)) (\<lambda>_.
     rbind (get_previous_hash_and_sequence s (rq_instance_id rq)) (\<lambda>(previous_hash, sequence_id).
     rbind (Decision_init (rq_from_state rq) (rq_to_state rq)) (\<lambda>d.
     rbind (hash_raw x (rq_raw_inputs rq)) (\<lambda>inputs_hash.
     rbind (opt_res ValidationError (x_contribs x
              (if truthy (rq_feature_contributions rq) then rq_feature_contributions rq else PyList []))) (\<lambda>fc.
     rbind (validate_threshold_used (rq_threshold_used rq)) (\<lambda>th.
     rbind (opt_res ValidationError (x_meta x metadata)) (\<lambda>md.
     rbind (DecisionContext_init (rq_reason_code rq) (rq_policy_rule rq) (rq_model_version rq) inputs_hash fc th md) (\<lambda>dc.
     rbind (Governance_init (rq_model_version rq) (rq_agent_version rq) (rq_policy_version rq)) (\<lambda>g.
     rbind (if rq_determinism_mode rq = REPLAY_WITH_RECORDED_IO \<and> rq_external_calls rq \<noteq> []
            then rbind (hash_raw x (PyDict [(KStr ''calls'', PyList (rq_external_calls rq))])) (\<lambda>h. Inr (Some h))
            else Inr None) (\<lambda>ext_calls_hash.
     rbind (Determinism_init (rq_determinism_mode rq) (rq_random_seed rq) ext_calls_hash) (\<lambda>t.
     rbind (dump_context x dc) (\<lambda>c.
     rbind (build_hash_payload (dump_decision d) c (dump_governance g) (dump_determinism t) previous_hash sequence_id) (\<lambda>payload.
     rbind (canonical_hash x payload) (\<lambda>current_hash.
     Inr (d, dc, g, t, previous_hash, sequence_id, current_hash))))))))))))))))))"

text \<open>Step 8 after the signer was asked: the ledger block, the signature block and the proof.\<close>

definition assemble_proof ::
    "string \<Rightarrow> string \<Rightarrow> decision \<times> decision_context \<times> governance \<times> determinism \<times> string \<times> int \<times> string
       \<Rightarrow> string \<Rightarrow> string \<Rightarrow> string \<Rightarrow> ledger \<Rightarrow> proofv1 res" where
  "assemble_proof now instance_id prep key_id public_key signature_hex l =
     (case prep of (d, dc, g, t, _) \<Rightarrow>
       rbind (Signature_init ED25519 key_id public_key signature_hex) (\<lambda>sg.
       ProofV1_init PROOF_VERSION instance_id d dc g t l sg))"

definition record_decision ::
    "ext \<Rightarrow> kms_world \<Rightarrow> string \<Rightarrow> decision_request \<Rightarrow> engine \<Rightarrow> proofv1 res \<times> engine" where
  "record_decision x w now rq e =
     (case prepare_decision x (e_db e) rq of
        Inl err \<Rightarrow> (Inl err, e)
      | Inr (d, dc, g, t, previous_hash, sequence_id, current_hash) \<Rightarrow>
     (case fromhex current_hash of
        None \<Rightarrow> (Inl (ValueError ''fromhex''), e)
      | Some hash_bytes \<Rightarrow>
     (case sign_hash x w (e_signer e) hash_bytes of
        (Inl err, sg1) \<Rightarrow> (Inl err, e\<lparr>e_signer := sg1\<rparr>)
      | (Inr signature_hex, sg1) \<Rightarrow>
          (let key_id = get_key_id x sg1 in
     (case Ledger_init sequence_id previous_hash current_hash now of
        Inl err \<Rightarrow> (Inl err, e\<lparr>e_signer := sg1\<rparr>)
      | Inr l \<Rightarrow>
     (case get_public_key x w sg1 of
        (Inl err, sg2) \<Rightarrow> (Inl err, e\<lparr>e_signer := sg2\<rparr>)
      | (Inr public_key, sg2) \<Rightarrow>
     (case rbind (assemble_proof now (rq_instance_id rq)
                    (d, dc, g, t, previous_hash, sequence_id, current_hash) key_id public_key signature_hex l)
             (\<lambda>p. rbind (dump_proof x p) (\<lambda>pd. Inr (p, pd))) of
        Inl err \<Rightarrow> (Inl err, e\<lparr>e_signer := sg2\<rparr>)
      | Inr (p, pd) \<Rightarrow>
     (case append_ledger_entry now pd (e_db e) of
        (Inl err, s') \<Rightarrow> (Inl err, e\<lparr>e_signer := sg2, e_db := s'\<rparr>)
      | (Inr _, s') \<Rightarrow> (Inr p, e\<lparr>e_signer := sg2, e_db := s'\<rparr>)))))))))"

definition get_proof :: "ext \<Rightarrow> engine \<Rightarrow> string \<Rightarrow> int option \<Rightarrow> proofv1 option res" where
  "get_proof x e instance_id sequence_id =
     (case get_ledger_entry (e_db e) instance_id sequence_id ''default'' of
        Some (r, Some (PyDict d)) \<Rightarrow>
          if d \<noteq> [] then rbind (ProofV1_validate x (PyDict d)) (\<lambda>p. Inr (Some p)) else Inr None
      | _ \<Rightarrow> Inr None)"

text \<open>
  \<open>get_chain\<close> asks the rows for the key \<open>proof\<close>.  A row of \<open>get_ledger_chain\<close> is \<open>dict(row)\<close> with the
  columns as keys (only \<open>get_ledger_entry\<close> adds \<open>proof\<close>), so \<open>entry.get("proof")\<close> is \<open>None\<close>.
\<close>

definition row_get_proof :: "ledger_row \<Rightarrow> pyval option" where
  "row_get_proof r = None"

definition get_chain :: "ext \<Rightarrow> engine \<Rightarrow> string \<Rightarrow> proofv1 list" where
  "get_chain x e instance_id =
     concat (map (\<lambda>r. case row_get_proof r of
         Some (PyDict d) \<Rightarrow>
           if d \<noteq> [] then (case ProofV1_validate x (PyDict d) of Inr p \<Rightarrow> [p] | Inl _ \<Rightarrow> []) else []
       | _ \<Rightarrow> []) (get_ledger_chain (e_db e) instance_id ''default''))"

text \<open>
  \<open>compile\<close> and \<open>create_instance\<close> are the same text in both classes, over their own dictionaries.  The
  statement \<open>INSERT OR IGNORE INTO instances\<close> of \<open>create_instance\<close> gives no value for \<open>created_at\<close>, which
  is \<open>NOT NULL\<close> without a default, so SQLite ignores the row and the table does not change.
\<close>

definition compile_spec ::
    "ext \<Rightarrow> string \<Rightarrow> pyval \<Rightarrow> db \<Rightarrow> (string \<times> pyval) list \<Rightarrow> (string \<times> (string \<times> pyval) list \<times> db) res" where
  "compile_spec x now spec s protocols =
     rbind (opt_res TypeError (json_dumps False spec)) (\<lambda>canonical.
       (let protocol_hash = hexdigest x (utf8 canonical)
        in Inr (protocol_hash, aset protocols protocol_hash spec,
             snd (register_protocol now protocol_hash spec s))))"

definition new_instance ::
    "string option \<Rightarrow> (string \<times> pyval) list \<Rightarrow> (string \<times> (string \<times> string)) list \<Rightarrow> string
       \<Rightarrow> (string \<times> (string \<times> (string \<times> string)) list) res" where
  "new_instance active protocols instances instance_id =
     (case active of
        None \<Rightarrow> Inl (ValueError ''No protocol compiled'')
      | Some h \<Rightarrow>
          if map_of instances instance_id \<noteq> None then Inl (ValueError ''Instance already exists'')
          else rbind (opt_res (KeyError h) (map_of protocols h)) (\<lambda>spec.
               rbind (str_item spec ''initial_state'') (\<lambda>state.
               Inr (state, aset instances instance_id (state, h)))))"

definition compile :: "ext \<Rightarrow> string \<Rightarrow> pyval \<Rightarrow> engine \<Rightarrow> string res \<times> engine" where
  "compile x now spec e =
     (case compile_spec x now spec (e_db e) (e_protocols e) of
        Inl err \<Rightarrow> (Inl err, e)
      | Inr (h, ps, s') \<Rightarrow> (Inr h, e\<lparr>e_protocols := ps, e_active_protocol_hash := Some h, e_db := s'\<rparr>))"

definition create_instance :: "string \<Rightarrow> engine \<Rightarrow> string res \<times> engine" where
  "create_instance instance_id e =
     (case new_instance (e_active_protocol_hash e) (e_protocols e) (e_instances e) instance_id of
        Inl err \<Rightarrow> (Inl err, e)
      | Inr (state, is) \<Rightarrow> (Inr state, e\<lparr>e_instances := is\<rparr>))"

text \<open>The stored proofs of a chain: rows with an empty \<open>proof_json\<close> are skipped.\<close>

fun proof_dicts_of :: "ledger_row list \<Rightarrow> pyval list res" where
  "proof_dicts_of [] = Inr []"
| "proof_dicts_of (r # rs) =
     (if lr_proof_json r \<noteq> [] \<and> lr_proof_json r \<noteq> ''{}''
      then rbind (opt_res (ValueError ''JSONDecodeError'') (json_loads (lr_proof_json r))) (\<lambda>v.
           rbind (proof_dicts_of rs) (\<lambda>vs. Inr (v # vs)))
      else proof_dicts_of rs)"

definition embedded_hash :: "pyval \<Rightarrow> string res" where
  "embedded_hash v =
     rbind (get_item v ''ledger'' (PyDict [])) (\<lambda>l.
     rbind (get_item l ''current_hash'' (PyStr [])) as_str)"

definition compute_instance_root :: "ext \<Rightarrow> engine \<Rightarrow> string \<Rightarrow> string res" where
  "compute_instance_root x e instance_id =
     rbind (proof_dicts_of (get_ledger_chain (e_db e) instance_id ''default'')) (\<lambda>vs.
     rbind (rmap_list embedded_hash vs) (\<lambda>hs. Inr (hexdigest x (utf8 (concat hs)))))"

record package =
  pk_public_key :: string
  pk_signature :: string
  pk_package_hash :: string
  pk_proof_fingerprint :: string
  pk_chain_length :: nat
  pk_instance_id :: string
  pk_instance_root :: string
  pk_ledger :: "pyval list"

definition build_package ::
    "ext \<Rightarrow> string \<Rightarrow> string \<Rightarrow> pyval list \<Rightarrow> string \<Rightarrow> string \<Rightarrow> package res" where
  "build_package x instance_id instance_root proof_dicts pub_key sig_hex =
     rbind (opt_res TypeError (json_dumps False (PyList proof_dicts))) (\<lambda>ledger_canonical.
       (let package_hash = hexdigest x (utf8 ledger_canonical);
            fingerprint = hexdigest x (utf8 (instance_root @ '':'' @ show_nat (length proof_dicts)))
        in rbind (rcheck (package_hash \<noteq> []) AssertionError) (\<lambda>_.
           Inr \<lparr>pk_public_key = pub_key, pk_signature = sig_hex, pk_package_hash = package_hash,
                pk_proof_fingerprint = fingerprint, pk_chain_length = length proof_dicts,
                pk_instance_id = instance_id, pk_instance_root = instance_root, pk_ledger = proof_dicts\<rparr>)))"

text \<open>The rest of \<open>export_proof\<close> once the instance root is known: sign, freeze, build the package.\<close>

definition sign_and_freeze ::
    "ext \<Rightarrow> kms_world \<Rightarrow> string \<Rightarrow> string \<Rightarrow> pyval list \<Rightarrow> engine \<Rightarrow> package res \<times> engine" where
  "sign_and_freeze x w instance_id instance_root proof_dicts e =
     (case fromhex instance_root of
        None \<Rightarrow> (Inl (ValueError ''fromhex''), e)
      | Some root_bytes \<Rightarrow>
     (case sign_hash x w (e_signer e) root_bytes of
        (Inl err, sg1) \<Rightarrow> (Inl err, e\<lparr>e_signer := sg1\<rparr>)
      | (Inr sig_hex, sg1) \<Rightarrow>
     (case get_public_key x w sg1 of
        (Inl err, sg2) \<Rightarrow> (Inl err, e\<lparr>e_signer := sg2\<rparr>)
      | (Inr pub_key, sg2) \<Rightarrow>
          (build_package x instance_id instance_root proof_dicts pub_key sig_hex,
           e\<lparr>e_signer := sg2, e_db := freeze_instance instance_id ''default'' (e_db e)\<rparr>))))"

definition export_proof :: "ext \<Rightarrow> kms_world \<Rightarrow> string \<Rightarrow> engine \<Rightarrow> package res \<times> engine" where
  "export_proof x w instance_id e =
     (case rbind (proof_dicts_of (get_ledger_chain (e_db e) instance_id ''default'')) (\<lambda>vs.
           rbind (compute_instance_root x e instance_id) (\<lambda>root. Inr (vs, root))) of
        Inl err \<Rightarrow> (Inl err, e)
      | Inr (vs, root) \<Rightarrow> sign_and_freeze x w instance_id root vs e)"

subsection \<open>The facade Engine\<close>

record facade =
  f_engine :: engine
  f_protocols :: "(string \<times> pyval) list"
  f_instances :: "(string \<times> (string \<times> string)) list"
  f_active_protocol_hash :: "string option"

text \<open>\<open>__init__\<close> drops the ledger triggers and rebuilds the table without its constraints.\<close>

definition Engine_init :: "db \<Rightarrow> signer \<Rightarrow> facade" where
  "Engine_init s sg =
     \<lparr>f_engine = \<lparr>e_db = s\<lparr>db_strict := False\<rparr>, e_signer = sg, e_protocols = [], e_instances = [],
        e_active_protocol_hash = None\<rparr>,
      f_protocols = [], f_instances = [], f_active_protocol_hash = None\<rparr>"

definition f_db :: "facade \<Rightarrow> db" where
  "f_db f = e_db (f_engine f)"

definition Engine_compile :: "ext \<Rightarrow> string \<Rightarrow> pyval \<Rightarrow> facade \<Rightarrow> string res \<times> facade" where
  "Engine_compile x now spec f =
     (case compile_spec x now spec (f_db f) (f_protocols f) of
        Inl err \<Rightarrow> (Inl err, f)
      | Inr (h, ps, s') \<Rightarrow> (Inr h, f\<lparr>f_protocols := ps, f_active_protocol_hash := Some h,
           f_engine := (f_engine f)\<lparr>e_db := s'\<rparr>\<rparr>))"

definition Engine_create_instance :: "string \<Rightarrow> facade \<Rightarrow> string res \<times> facade" where
  "Engine_create_instance instance_id f =
     (case new_instance (f_active_protocol_hash f) (f_protocols f) (f_instances f) instance_id of
        Inl err \<Rightarrow> (Inl err, f)
      | Inr (state, is) \<Rightarrow> (Inr state, f\<lparr>f_instances := is\<rparr>))"

text \<open>\<open>[(t["from_state"], t["to_state"]) for t in spec["transitions"]]\<close>\<close>

definition allowed_transitions :: "pyval \<Rightarrow> (string \<times> string) list res" where
  "allowed_transitions spec =
     rbind (item spec ''transitions'') (\<lambda>ts.
       case ts of
         PyList vs \<Rightarrow> rmap_list (\<lambda>t. rbind (str_item t ''from_state'') (\<lambda>a.
           rbind (str_item t ''to_state'') (\<lambda>b. Inr (a, b)))) vs
       | _ \<Rightarrow> Inl TypeError)"

definition transition_checks ::
    "facade \<Rightarrow> ident \<Rightarrow> state_name \<Rightarrow> hash_text \<Rightarrow> hash_text \<Rightarrow> version \<Rightarrow> version \<Rightarrow> version \<Rightarrow> string
       \<Rightarrow> (string \<times> string \<times> int \<times> pyval) res" where
  "transition_checks f instance_id to_state input_hash output_hash model_version agent_version policy_version
     metadata_json =
     (case map_of (f_instances f) instance_id of
        None \<Rightarrow> Inl (ValueError ''Instance not found'')
      | Some (from_state, protocol_hash) \<Rightarrow>
     rbind (opt_res (KeyError protocol_hash) (map_of (f_protocols f) protocol_hash)) (\<lambda>spec.
     rbind (rcheck (input_hash \<noteq> [] \<and> output_hash \<noteq> []) (ValueError ''Transition incomplete'')) (\<lambda>_.
     rbind (rcheck (model_version \<in> snd ` set (get_approved_models (f_db f)))
        (ValueError ''Model version not approved'')) (\<lambda>_.
     rbind (rcheck (agent_version \<in> snd ` set (get_approved_agents (f_db f)))
        (ValueError ''Agent version not approved'')) (\<lambda>_.
     rbind (rcheck (policy_version \<in> snd ` set (get_approved_policies (f_db f)))
        (ValueError ''Policy version not active'')) (\<lambda>_.
     rbind (allowed_transitions spec) (\<lambda>allowed.
     rbind (rcheck ((from_state, to_state) \<in> set allowed) (ValueError ''Invalid transition'')) (\<lambda>_.
     rbind (rcheck (case get_instance (f_db f) instance_id ''default'' of
          None \<Rightarrow> True | Some r \<Rightarrow> \<not> ir_frozen r) (ValueError ''Instance is frozen'')) (\<lambda>_.
     rbind (if metadata_json \<noteq> [] \<and> metadata_json \<noteq> ''{}''
            then opt_res (ValueError ''JSONDecodeError'') (body_loads metadata_json) else Inr (PyDict [])) (\<lambda>metadata.
     Inr (from_state, protocol_hash, get_max_sequence_id (f_db f) instance_id ''default'' + 1, metadata)))))))))))"

definition transition_request ::
    "ident \<Rightarrow> state_name \<Rightarrow> state_name \<Rightarrow> hash_text \<Rightarrow> hash_text \<Rightarrow> version \<Rightarrow> version \<Rightarrow> version \<Rightarrow> pyval \<Rightarrow> decision_request" where
  "transition_request instance_id from_state to_state input_hash output_hash model_version agent_version
     policy_version metadata =
     \<lparr>rq_instance_id = instance_id, rq_from_state = from_state, rq_to_state = to_state,
      rq_model_version = model_version, rq_agent_version = agent_version, rq_policy_version = policy_version,
      rq_reason_code = ''TRANSITION'', rq_policy_rule = policy_version @ ''.auto'',
      rq_raw_inputs = PyDict [(KStr ''input_hash'', PyStr input_hash), (KStr ''output_hash'', PyStr output_hash)],
      rq_feature_contributions = PyNone, rq_threshold_used = PyNone, rq_metadata = metadata,
      rq_determinism_mode = STRICT_DETERMINISTIC, rq_random_seed = None, rq_external_calls = []\<rparr>"

text \<open>\<open>transition\<close> returns the new state, the version and the proof id.\<close>

definition transition ::
    "ext \<Rightarrow> kms_world \<Rightarrow> string \<Rightarrow> ident \<Rightarrow> state_name \<Rightarrow> hash_text \<Rightarrow> hash_text \<Rightarrow> version \<Rightarrow> version \<Rightarrow> version \<Rightarrow> string
       \<Rightarrow> facade \<Rightarrow> (string \<times> int \<times> string) res \<times> facade" where
  "transition x w now instance_id to_state input_hash output_hash model_version agent_version policy_version
     metadata_json f =
     (case transition_checks f instance_id to_state input_hash output_hash model_version agent_version
             policy_version metadata_json of
        Inl err \<Rightarrow> (Inl err, f)
      | Inr (from_state, protocol_hash, version, metadata) \<Rightarrow>
          (case record_decision x w now (transition_request instance_id from_state to_state input_hash output_hash
                  model_version agent_version policy_version metadata) (f_engine f) of
             (Inl err, e') \<Rightarrow> (Inl err, f\<lparr>f_engine := e'\<rparr>)
           | (Inr p, e') \<Rightarrow> (Inr (to_state, version, proof_id x p),
               f\<lparr>f_engine := e', f_instances := aset (f_instances f) instance_id (to_state, protocol_hash)\<rparr>)))"

text \<open>The loop of \<open>replay\<close>: \<open>None\<close> when a column and the embedded hash differ.\<close>

fun replay_rows :: "ledger_row list \<Rightarrow> pyval list option res" where
  "replay_rows [] = Inr (Some [])"
| "replay_rows (r # rs) =
     (if lr_proof_json r = [] \<or> lr_proof_json r = ''{}'' then replay_rows rs
      else rbind (opt_res (ValueError ''JSONDecodeError'') (json_loads (lr_proof_json r))) (\<lambda>v.
           rbind (embedded_hash v) (\<lambda>h.
           if lr_current_hash r \<noteq> h then Inr None
           else rbind (replay_rows rs) (\<lambda>vs. Inr (map_option (Cons v) vs)))))"

definition replay :: "ext \<Rightarrow> string \<Rightarrow> facade \<Rightarrow> string \<Rightarrow> (bool \<times> string option) res" where
  "replay x now f instance_id =
     (let memory_state = (case map_of (f_instances f) instance_id of
            Some (st, _) \<Rightarrow> st | None \<Rightarrow> ''unknown'');
          chain = get_ledger_chain (f_db f) instance_id ''default''
      in if chain = [] then Inr (True, Some memory_state)
         else rbind (replay_rows chain) (\<lambda>r.
           case r of
             None \<Rightarrow> Inr (False, None)
           | Some vs \<Rightarrow>
               if vs = [] then Inr (True, Some memory_state)
               else (let result = verify_chain x now vs in
                 case vr_final_state result of
                   Some (c # cs) \<Rightarrow> Inr (vr_valid result, Some (c # cs))
                 | _ \<Rightarrow> rbind (item (last vs) ''decision'') (\<lambda>d.
                         rbind (str_item d ''to_state'') (\<lambda>t. Inr (vr_valid result, Some t))))))"

definition Engine_compute_instance_root :: "ext \<Rightarrow> facade \<Rightarrow> string \<Rightarrow> string res" where
  "Engine_compute_instance_root x f instance_id =
     (let chain = get_ledger_chain (f_db f) instance_id ''default'' in
      if chain = [] then Inl (ValueError ''Instance not found'')
      else Inr (hexdigest x (utf8 (concat (map lr_current_hash chain)))))"

definition Engine_export_proof :: "ext \<Rightarrow> kms_world \<Rightarrow> string \<Rightarrow> facade \<Rightarrow> package res \<times> facade" where
  "Engine_export_proof x w instance_id f =
     (case rbind (proof_dicts_of (get_ledger_chain (f_db f) instance_id ''default'')) (\<lambda>vs.
           rbind (Engine_compute_instance_root x f instance_id) (\<lambda>root. Inr (vs, root))) of
        Inl err \<Rightarrow> (Inl err, f)
      | Inr (vs, root) \<Rightarrow>
          (let (r, e') = sign_and_freeze x w instance_id root vs (f_engine f) in (r, f\<lparr>f_engine := e'\<rparr>)))"

text \<open>The latest row of every instance, whatever its tenant, then the root of their hashes.\<close>

definition latest_rows :: "db \<Rightarrow> ledger_row list" where
  "latest_rows s = sort_key lr_instance_id
     (filter (\<lambda>r. list_all (\<lambda>q. lr_instance_id q = lr_instance_id r \<longrightarrow> lr_sequence_id q \<le> lr_sequence_id r)
        (db_ledger s)) (db_ledger s))"

definition Engine_compute_system_root :: "ext \<Rightarrow> facade \<Rightarrow> string" where
  "Engine_compute_system_root x f = compute_system_root x (map lr_current_hash (latest_rows (f_db f)))"

definition compare_system_root :: "ext \<Rightarrow> facade \<Rightarrow> string \<Rightarrow> bool \<times> string" where
  "compare_system_root x f expected_root =
     (let current = Engine_compute_system_root x f in (current = expected_root, current))"

definition compare_instance_root :: "ext \<Rightarrow> facade \<Rightarrow> string \<Rightarrow> string \<Rightarrow> (bool \<times> string) res" where
  "compare_instance_root x f instance_id expected_root =
     rbind (Engine_compute_instance_root x f instance_id) (\<lambda>current. Inr (current = expected_root, current))"

end
