(* ===== verification/EngineProofs.thy ===== *)
theory EngineProofs
  imports Engine
begin

text \<open>
  What the engine guarantees: a recorded decision is a proof that \<open>verify_proof\<close> accepts, the row that
  stores it reads back as the same proof, and \<open>replay\<close> accepts every chain the engine wrote.

  \<open>stored_proof x r p\<close> relates a ledger row to the proof it stores; \<open>engine_ok\<close> is the invariant of the
  engine: the ledger is well linked, every row stores an accepted proof, the signer keeps its contract.
\<close>

subsection \<open>Stored proofs\<close>

definition json_proof :: "proofv1 \<Rightarrow> bool" where
  "json_proof p \<longleftrightarrow> plain (PyDict (dc_metadata (p_decision_context p))) \<and>
     wf_val (PyDict (dc_metadata (p_decision_context p))) \<and>
     wf_contribs (dc_feature_contributions (p_decision_context p))"

definition stored_proof :: "ext \<Rightarrow> ledger_row \<Rightarrow> proofv1 \<Rightarrow> bool" where
  "stored_proof x r p \<longleftrightarrow> wf_proof p \<and> json_proof p \<and> proof_accepted x p \<and>
     (\<exists>pd. dump_proof x p = Inr pd \<and> lr_proof_json r = emit False (norm pd)) \<and>
     lr_instance_id r = p_instance_id p \<and> lr_sequence_id r = l_sequence_id (p_ledger p) \<and>
     lr_previous_hash r = l_previous_hash (p_ledger p) \<and> lr_current_hash r = l_current_hash (p_ledger p) \<and>
     lr_to_state r = d_to_state (p_decision p)"

lemma wf_contribs_val: "wf_contribs fc \<Longrightarrow> wf_val (contribs_val fc)"
  by (auto simp: wf_contribs_def contribs_val_def list_all_iff distinct_map inj_on_def split_def)

lemma wf_dumps [simp]: "wf_val (dump_decision d)" "wf_val (dump_governance g)" "wf_val (dump_determinism t)"
  "wf_val (dump_ledger l)" "wf_val (dump_signature s)"
  by (simp_all add: dump_decision_def dump_governance_def dump_determinism_def dump_ledger_def dump_signature_def)

lemma dump_proof_json:
  assumes "pydantic_ok x" "json_proof p"
  obtains pd c where "dump_proof x p = Inr pd" "plain pd" "wf_val pd" "dump_context x (p_decision_context p) = Inr c"
    "pd = PyDict [(KStr ''type'', PyStr (p_type p)), (KStr ''instance_id'', PyStr (p_instance_id p)),
       (KStr ''decision'', dump_decision (p_decision p)), (KStr ''decision_context'', c),
       (KStr ''governance'', dump_governance (p_governance p)),
       (KStr ''determinism'', dump_determinism (p_determinism p)),
       (KStr ''ledger'', dump_ledger (p_ledger p)), (KStr ''signature'', dump_signature (p_signature p))]"
proof -
  have md: "plain (PyDict (dc_metadata (p_decision_context p)))" "wf_val (PyDict (dc_metadata (p_decision_context p)))"
    "wf_contribs (dc_feature_contributions (p_decision_context p))"
    using assms(2) unfolding json_proof_def by blast+
  note c = dump_context_plain [OF assms(1) md(1)]
  show thesis
    using that md wf_contribs_val [OF md(3)] by (simp add: dump_proof_def c)
qed

lemma json_loads_empty: "json_loads [] = None" "json_loads ''{}'' = Some (PyDict [])"
  by (simp_all add: json_loads_def numeral_eq_Suc)

lemma norm_items_Nil: "norm_items d = [] \<longleftrightarrow> d = []"
  by (metis length_0_conv length_map length_sort norm_items_def)

lemma stored_proof_read:
  assumes "pydantic_ok x" "stored_proof x r p"
  obtains v where "json_loads (lr_proof_json r) = Some v" "ProofV1_validate x v = Inr (norm_proof p)"
    "embedded_hash v = Inr (lr_current_hash r)" "lr_proof_json r \<noteq> []" "lr_proof_json r \<noteq> ''{}''"
proof -
  have w: "wf_proof p" "json_proof p" "lr_current_hash r = l_current_hash (p_ledger p)"
    using assms(2) unfolding stored_proof_def by blast+
  obtain pd c where d: "dump_proof x p = Inr pd" "plain pd" "wf_val pd"
    "pd = PyDict [(KStr ''type'', PyStr (p_type p)), (KStr ''instance_id'', PyStr (p_instance_id p)),
       (KStr ''decision'', dump_decision (p_decision p)), (KStr ''decision_context'', c),
       (KStr ''governance'', dump_governance (p_governance p)),
       (KStr ''determinism'', dump_determinism (p_determinism p)),
       (KStr ''ledger'', dump_ledger (p_ledger p)), (KStr ''signature'', dump_signature (p_signature p))]"
    using dump_proof_json [OF assms(1) w(2)] by metis
  have j: "lr_proof_json r = emit False (norm pd)" using assms(2) d(1) unfolding stored_proof_def by auto
  have l: "json_loads (lr_proof_json r) = Some (norm pd)"
    unfolding j by (rule json_loads_emit) (simp_all add: d(2,3) del: norm.simps)
  have "ProofV1_validate x (norm pd) = Inr (norm_proof p)"
    using ProofV1_dump(2) [OF assms(1) _ w(1) _ d(1)] w(2) unfolding json_proof_def by blast
  moreover have "embedded_hash (norm pd) = Inr (lr_current_hash r)"
    unfolding d(4) norm_PyDict embedded_hash_def w(3) dump_ledger_def
    by (simp add: get_item_def dget_or_def dget_norm_items as_str_def norm_PyDict del: norm.simps(3))
  moreover have "lr_proof_json r \<noteq> []"
  proof
    assume "lr_proof_json r = []"
    with l json_loads_empty(1) show False by simp
  qed
  moreover have "lr_proof_json r \<noteq> ''{}''"
  proof
    assume "lr_proof_json r = ''{}''"
    with l json_loads_empty(2) have "norm pd = PyDict []" by simp
    then show False unfolding d(4) norm_PyDict pyval.inject norm_items_Nil by simp
  qed
  ultimately show thesis by (rule that [OF l])
qed

lemma proof_accepted_norm:
  assumes "pydantic_ok x" "json_proof p" "proof_accepted x p"
  shows "proof_accepted x (norm_proof p)"
proof -
  have "proof_hash x (norm_proof p) = proof_hash x p"
    using assms(2) by (intro proof_hash_norm [OF assms(1)]) (simp add: json_proof_def del: plain.simps)
  with assms(3) show ?thesis
    unfolding proof_accepted_def determinism_inconsistent_def norm_proof_def by simp
qed

lemma norm_proof_fields [simp]:
  "p_ledger (norm_proof p) = p_ledger p" "p_decision (norm_proof p) = p_decision p"
  "p_signature (norm_proof p) = p_signature p"
  by (simp_all add: norm_proof_def)

lemma replay_rows_stored:
  assumes "pydantic_ok x" "list_all2 (stored_proof x) rs ps"
  obtains vs where "replay_rows rs = Inr (Some vs)" "proof_dicts_of rs = Inr vs"
    "rmap_list (ProofV1_validate x) vs = Inr (map norm_proof ps)"
  using assms(2)
proof (induction arbitrary: thesis rule: list_all2_induct)
  case (Cons r rs p ps)
  obtain vs where vs: "replay_rows rs = Inr (Some vs)" "proof_dicts_of rs = Inr vs"
    "rmap_list (ProofV1_validate x) vs = Inr (map norm_proof ps)" by (rule Cons.IH)
  obtain v where "json_loads (lr_proof_json r) = Some v" "ProofV1_validate x v = Inr (norm_proof p)"
    "embedded_hash v = Inr (lr_current_hash r)" "lr_proof_json r \<noteq> []" "lr_proof_json r \<noteq> ''{}''"
    by (rule stored_proof_read [OF assms(1) Cons.hyps(1)])
  with vs Cons.prems [of "v # vs"] show thesis by simp
qed simp

lemma stored_linked:
  "list_all2 (stored_proof x) rs ps \<Longrightarrow> rows_linked n h rs \<Longrightarrow> linked n h (map norm_proof ps)"
  by (induction arbitrary: n h rule: list_all2_induct) (simp_all add: stored_proof_def)

lemma verify_stored_chain:
  assumes x: "pydantic_ok x" and st: "list_all2 (stored_proof x) rs ps" and l: "rows_linked 0 genesis_hash rs"
    and "rs \<noteq> []" and vs: "rmap_list (ProofV1_validate x) vs = Inr (map norm_proof ps)"
  shows "vr_valid (verify_chain x now vs)"
    "vr_final_state (verify_chain x now vs) = Some (lr_to_state (last rs))"
proof -
  have ne: "ps \<noteq> []" using st \<open>rs \<noteq> []\<close> by auto
  have "length vs = length ps" using vs by (auto simp: rmap_list_Inr dest: list_all2_lengthD)
  with ne have "vs \<noteq> []" by auto
  moreover have "list_all (proof_accepted x) (map norm_proof ps)"
    using st by (induction rule: list_all2_induct) (auto simp: stored_proof_def intro: proof_accepted_norm [OF x])
  ultimately show v: "vr_valid (verify_chain x now vs)"
    using stored_linked [OF st l] vs verify_chain_valid_iff by blast
  have "stored_proof x (last rs) (last ps)"
    using st ne \<open>rs \<noteq> []\<close> by (simp add: last_conv_nth list_all2_conv_all_nth)
  then have "lr_to_state (last rs) = d_to_state (p_decision (last (map norm_proof ps)))"
    using ne by (simp add: last_map stored_proof_def)
  with verify_chain_final_state(1) [OF v vs]
  show "vr_final_state (verify_chain x now vs) = Some (lr_to_state (last rs))" by simp
qed

subsection \<open>Recording a decision\<close>

definition engine_ok :: "ext \<Rightarrow> kms_world set \<Rightarrow> engine \<Rightarrow> bool" where
  "engine_ok x W e \<longleftrightarrow> ledger_ok (e_db e) \<and> signer_ok x W (e_signer e) \<and>
     (\<forall>r\<in>set (db_ledger (e_db e)). \<exists>p. stored_proof x r p)"

text \<open>
  The requests whose proofs verify: the metadata is a proper Python value (every dictionary has each key
  once), and a strictly deterministic decision names no seed (the engine does not check the latter,
  \<open>verify_proof\<close> does).
\<close>

definition request_ok :: "decision_request \<Rightarrow> bool" where
  "request_ok rq \<longleftrightarrow> wf_val (rq_metadata rq) \<and>
     (rq_determinism_mode rq = STRICT_DETERMINISTIC \<longrightarrow> rq_random_seed rq = None)"

lemma stored_hash_lower_hex:
  assumes "digest_ok x" "stored_proof x r p"
  shows "lower_hex 64 (lr_current_hash r)"
proof -
  have "proof_hash x p = Inr (lr_current_hash r)"
    using assms(2) by (auto simp: stored_proof_def proof_accepted_def)
  then show ?thesis unfolding proof_hash_def by (auto intro: canonical_hash_lower_hex [OF assms(1)])
qed

lemma previous_hash_lower_hex:
  assumes "digest_ok x" "\<forall>r\<in>set (db_ledger s). \<exists>p. stored_proof x r p"
    "get_previous_hash_and_sequence s i = Inr (ph, n)"
  shows "lower_hex 64 ph"
proof (cases "get_latest_ledger_entry s i ''default''")
  case (Some r)
  then have "r \<in> set (get_ledger_chain s i ''default'')"
    by (auto simp: get_latest_ledger_entry_eq Let_def split: if_splits)
  then have "r \<in> set (db_ledger s)" by (auto simp: get_ledger_chain_def)
  with assms Some show ?thesis
    by (auto simp: get_previous_hash_and_sequence_def Let_def split: if_splits dest: stored_hash_lower_hex)
qed (use assms in \<open>auto simp: get_previous_hash_and_sequence_def\<close>)

lemma hash_raw_lower_hex: "digest_ok x \<Longrightarrow> hash_raw x v = Inr h \<Longrightarrow> lower_hex 64 h"
  by (auto simp: hash_raw_def hexdigest_lower_hex)

lemma metadata_plain:
  assumes "pydantic_ok x" "wf_val v" "validate_metadata (if truthy v then v else PyDict []) = Inr ()"
    "x_meta x (if truthy v then v else PyDict []) = Some md"
  shows "plain (PyDict md) \<and> wf_val (PyDict md)"
proof -
  have "plain (if truthy v then v else PyDict [])"
    using assms(3) unfolding validate_metadata_def validate_payload_iff .
  moreover from pydantic_okD(7) [OF assms(1,4) this] have "(if truthy v then v else PyDict []) = PyDict md" .
  moreover have "wf_val (if truthy v then v else PyDict [])" using assms(2) by simp
  ultimately show ?thesis by metis
qed

lemma ex_unit: "(\<exists>u::unit. P u) \<longleftrightarrow> P ()"
  by auto

lemma prepare_decision_ok:
  assumes x: "pydantic_ok x" "digest_ok x" and rq: "wf_val (rq_metadata rq)"
    and prep: "prepare_decision x s rq = Inr (d, dc, g, t, ph, n, ch)"
  shows "get_previous_hash_and_sequence s (rq_instance_id rq) = Inr (ph, n)"
    "plain (PyDict (dc_metadata dc)) \<and> wf_val (PyDict (dc_metadata dc))"
    "wf_contribs (dc_feature_contributions dc)" "wf_context dc" "dc_model_version dc = g_model_version g"
    "d = \<lparr>d_from_state = rq_from_state rq, d_to_state = rq_to_state rq\<rparr>" "rq_from_state rq \<noteq> []" "rq_to_state rq \<noteq> []"
    "g_model_version g \<noteq> []" "g_agent_version g \<noteq> []" "g_policy_version g \<noteq> []"
    "validate_mode_fields t = Inr t"
    "p_decision p = d \<Longrightarrow> p_decision_context p = dc \<Longrightarrow> p_governance p = g \<Longrightarrow> p_determinism p = t \<Longrightarrow>
       l_previous_hash (p_ledger p) = ph \<Longrightarrow> l_sequence_id (p_ledger p) = n \<Longrightarrow>
       proof_hash x p = Inr ch \<and>
       (determinism_inconsistent p \<longleftrightarrow> rq_determinism_mode rq = STRICT_DETERMINISTIC \<and> rq_random_seed rq \<noteq> None)"
proof -
  let ?md = "if truthy (rq_metadata rq) then rq_metadata rq else PyDict []"
  from prep obtain ih fc th md eh c payload where
    gov: "validate_metadata ?md = Inr ()"
      "check_determinism_args (rq_determinism_mode rq) (rq_random_seed rq) (rq_external_calls rq) = Inr ()"
    and prev: "get_previous_hash_and_sequence s (rq_instance_id rq) = Inr (ph, n)"
    and d: "Decision_init (rq_from_state rq) (rq_to_state rq) = Inr d"
    and ih: "hash_raw x (rq_raw_inputs rq) = Inr ih"
    and fc: "x_contribs x (if truthy (rq_feature_contributions rq) then rq_feature_contributions rq else PyList []) = Some fc"
    and md: "x_meta x ?md = Some md"
    and dc: "DecisionContext_init (rq_reason_code rq) (rq_policy_rule rq) (rq_model_version rq) ih fc th md = Inr dc"
    and g: "Governance_init (rq_model_version rq) (rq_agent_version rq) (rq_policy_version rq) = Inr g"
    and eh: "(if rq_determinism_mode rq = REPLAY_WITH_RECORDED_IO \<and> rq_external_calls rq \<noteq> []
            then rbind (hash_raw x (PyDict [(KStr ''calls'', PyList (rq_external_calls rq))])) (\<lambda>h. Inr (Some h))
            else Inr None) = Inr eh"
    and t: "Determinism_init (rq_determinism_mode rq) (rq_random_seed rq) eh = Inr t"
    and c: "dump_context x dc = Inr c"
    and pay: "build_hash_payload (dump_decision d) c (dump_governance g) (dump_determinism t) ph n = Inr payload"
    and ch: "canonical_hash x payload = Inr ch"
    unfolding prepare_decision_def Let_def
    by (simp only: rbind_Inr_iff opt_res_simps split_paired_Ex prod.case sum.inject prod.inject ex_unit)
       (elim exE conjE, hypsubst, rule that, assumption+)
  show "get_previous_hash_and_sequence s (rq_instance_id rq) = Inr (ph, n)" by (rule prev)
  have dcf: "dc_metadata dc = md" "dc_feature_contributions dc = fc" "dc_model_version dc = rq_model_version rq"
    using dc by (auto simp: DecisionContext_init_def)
  show "plain (PyDict (dc_metadata dc)) \<and> wf_val (PyDict (dc_metadata dc))"
    unfolding dcf using rq by (intro metadata_plain [OF x(1) _ gov(1) md])
  show "wf_contribs (dc_feature_contributions dc)" unfolding dcf using fc by (rule pydantic_okD(6) [OF x(1)])
  show "wf_context dc" using dc by (rule DecisionContext_init_wf)
  show "dc_model_version dc = g_model_version g" "g_model_version g \<noteq> []" "g_agent_version g \<noteq> []"
    "g_policy_version g \<noteq> []" using g dcf by (auto simp: Governance_init_iff)
  show "d = \<lparr>d_from_state = rq_from_state rq, d_to_state = rq_to_state rq\<rparr>" "rq_from_state rq \<noteq> []" "rq_to_state rq \<noteq> []"
    using d by (auto simp: Decision_init_iff)
  show "validate_mode_fields t = Inr t" using t unfolding Determinism_init_iff by blast
  assume p: "p_decision p = d" "p_decision_context p = dc" "p_governance p = g" "p_determinism p = t"
    "l_previous_hash (p_ledger p) = ph" "l_sequence_id (p_ledger p) = n"
  have "proof_hash x p = Inr ch" using c pay ch by (simp add: proof_hash_def to_hash_payload_def p)
  moreover have "determinism_inconsistent p \<longleftrightarrow> rq_determinism_mode rq = STRICT_DETERMINISTIC \<and> rq_random_seed rq \<noteq> None"
  proof -
    have tf: "t = \<lparr>t_mode = rq_determinism_mode rq, t_seed = rq_random_seed rq, t_external_calls_hash = eh\<rparr>"
      using t by (simp add: Determinism_init_iff)
    show ?thesis
      using gov(2) eh rq lower_hex_is_valid_hash hash_raw_lower_hex [OF x(2)]
      by (cases "rq_determinism_mode rq")
         (auto simp: determinism_inconsistent_def p tf check_determinism_args_def Let_def
            split: if_splits)
  qed
  ultimately show "proof_hash x p = Inr ch \<and>
      (determinism_inconsistent p \<longleftrightarrow> rq_determinism_mode rq = STRICT_DETERMINISTIC \<and> rq_random_seed rq \<noteq> None)" by blast
qed

text \<open>The row that \<open>append_ledger_entry\<close> makes of the dump of a proof.\<close>

lemma append_dump:
  assumes x: "pydantic_ok x" and jp: "json_proof p" and pd: "dump_proof x p = Inr pd"
    and ck: "append_checks s pd = Inr (t, i, n, ph, pr, cs)" and r: "ledger_row_of pd t i n ph = Inr r"
  shows "t = ''default''" "lr_tenant_id r = ''default''" "lr_instance_id r = p_instance_id p"
    "lr_sequence_id r = l_sequence_id (p_ledger p)" "lr_previous_hash r = l_previous_hash (p_ledger p)"
    "lr_current_hash r = l_current_hash (p_ledger p)" "lr_to_state r = d_to_state (p_decision p)"
    "lr_proof_json r = emit False (norm pd)"
proof -
  obtain pd' c where c': "dump_proof x p = Inr pd'" "plain pd'" "pd' = PyDict [(KStr ''type'', PyStr (p_type p)), (KStr ''instance_id'', PyStr (p_instance_id p)),
       (KStr ''decision'', dump_decision (p_decision p)), (KStr ''decision_context'', c),
       (KStr ''governance'', dump_governance (p_governance p)),
       (KStr ''determinism'', dump_determinism (p_determinism p)),
       (KStr ''ledger'', dump_ledger (p_ledger p)), (KStr ''signature'', dump_signature (p_signature p))]"
    using dump_proof_json [OF x jp] by metis
  have "pd' = pd" using c'(1) pd by simp
  note c = c'(2,3) [unfolded this]
  have it: "item pd ''ledger'' = Inr (dump_ledger (p_ledger p))" "item pd ''decision'' = Inr (dump_decision (p_decision p))"
    "str_item pd ''instance_id'' = Inr (p_instance_id p)" "get_item pd ''tenant_id'' v = Inr v"
    "item (dump_ledger l) ''sequence_id'' = Inr (PyInt (l_sequence_id l))"
    "str_item (dump_ledger l) ''previous_hash'' = Inr (l_previous_hash l)"
    "str_item (dump_ledger l) ''current_hash'' = Inr (l_current_hash l)"
    "str_item (dump_decision d) ''to_state'' = Inr (d_to_state d)" for v l d
    by (simp_all add: c(2) item_def str_item_def get_item_def dget_or_def as_str_def dump_ledger_def dump_decision_def)
  from ck have k: "t = ''default''" "i = p_instance_id p" "n = l_sequence_id (p_ledger p)" "ph = l_previous_hash (p_ledger p)"
    by (auto simp: append_checks_def it as_str_def as_int_def)
  show "t = ''default''" by (rule k)
  from ledger_row_of_keys [OF r] k show "lr_tenant_id r = ''default''" "lr_instance_id r = p_instance_id p"
    "lr_sequence_id r = l_sequence_id (p_ledger p)" "lr_previous_hash r = l_previous_hash (p_ledger p)" by simp_all
  have "json_dumps False pd = Some (emit False (norm pd))" using c(1) by (rule json_dumps_plain)
  with r show "lr_current_hash r = l_current_hash (p_ledger p)" "lr_to_state r = d_to_state (p_decision p)"
    "lr_proof_json r = emit False (norm pd)"
    unfolding ledger_row_of_def it canonical_json_def by (auto simp: it)
qed

lemma record_decision_cases:
  assumes "record_decision x w now rq e = (Inr p, e')"
  obtains d dc g t ph n ch hb sig sg1 l pk sg2 sgn pd m where
    "prepare_decision x (e_db e) rq = Inr (d, dc, g, t, ph, n, ch)" "fromhex ch = Some hb"
    "sign_hash x w (e_signer e) hb = (Inr sig, sg1)" "Ledger_init n ph ch now = Inr l"
    "get_public_key x w sg1 = (Inr pk, sg2)" "Signature_init ED25519 (get_key_id x sg1) pk sig = Inr sgn"
    "ProofV1_init PROOF_VERSION (rq_instance_id rq) d dc g t l sgn = Inr p" "dump_proof x p = Inr pd"
    "append_ledger_entry now pd (e_db e) = (Inr m, e_db e')" "e_signer e' = sg2"
  using assms unfolding record_decision_def assemble_proof_def Let_def
  by (auto split: sum.splits prod.splits option.splits)

lemma record_decision_ok:
  assumes x: "pydantic_ok x" "digest_ok x" and e: "engine_ok x W e" "w \<in> W" and rq: "request_ok rq"
    and rec: "record_decision x w now rq e = (Inr p, e')"
  obtains r where "db_ledger (e_db e') = db_ledger (e_db e) @ [r]" "stored_proof x r p"
    "lr_tenant_id r = ''default''" "lr_instance_id r = rq_instance_id rq" "lr_to_state r = rq_to_state rq"
    "engine_ok x W e'"
proof -
  obtain d dc g t ph n ch hb sig sg1 l pk sg2 sgn pd m where
    prep: "prepare_decision x (e_db e) rq = Inr (d, dc, g, t, ph, n, ch)" and hb: "fromhex ch = Some hb"
    and sg: "sign_hash x w (e_signer e) hb = (Inr sig, sg1)" and l: "Ledger_init n ph ch now = Inr l"
    and pk: "get_public_key x w sg1 = (Inr pk, sg2)"
    and sgn: "Signature_init ED25519 (get_key_id x sg1) pk sig = Inr sgn"
    and p: "ProofV1_init PROOF_VERSION (rq_instance_id rq) d dc g t l sgn = Inr p" and pd: "dump_proof x p = Inr pd"
    and app: "append_ledger_entry now pd (e_db e) = (Inr m, e_db e')" and sg2: "e_signer e' = sg2"
    using rec by (rule record_decision_cases)
  have lo: "ledger_ok (e_db e)" and so: "signer_ok x W (e_signer e)"
    and st: "\<forall>r\<in>set (db_ledger (e_db e)). \<exists>p. stored_proof x r p" using e(1) unfolding engine_ok_def by blast+
  have wm: "wf_val (rq_metadata rq)" using rq unfolding request_ok_def by blast
  note pr = prepare_decision_ok [OF x wm prep]
  have ph: "lower_hex 64 ph" using previous_hash_lower_hex [OF x(2) st pr(1)] .
  have pf: "p = \<lparr>p_type = PROOF_VERSION, p_instance_id = rq_instance_id rq, p_decision = d, p_decision_context = dc,
      p_governance = g, p_determinism = t, p_ledger = l, p_signature = sgn\<rparr>" "rq_instance_id rq \<noteq> []"
    using p by (auto simp: ProofV1_init_def)
  have lw: "l_previous_hash l = ph" "l_sequence_id l = n" "l_current_hash l = lower ch" "wf_ledger l"
    using l ph Ledger_init_wf [OF l] by (auto simp: Ledger_init_def validate_hex_iff)
  have hash: "proof_hash x p = Inr ch" "\<not> determinism_inconsistent p"
    using pr(13) [of p] lw(1,2) rq by (auto simp: pf request_ok_def)
  have "lower_hex 64 ch" using hash(1) by (auto simp: proof_hash_def intro: canonical_hash_lower_hex [OF x(2)])
  then have ch: "l_current_hash l = ch" using lw(3) by simp
  have sig: "sgn = \<lparr>s_algorithm = ED25519, s_key_id = get_key_id x sg1, s_public_key = pk, s_value = sig\<rparr>"
    "verify_ed25519 x pk hb sig" "signer_ok x W sg2"
    using sc.signed [OF _ sg pk sgn, of W] so e(2) by auto
  have gen: "l_sequence_id l = 1 \<longrightarrow> l_previous_hash l = genesis_hash"
  proof (cases "get_latest_ledger_entry (e_db e) (rq_instance_id rq) ''default''")
    case None
    with pr(1) lw show ?thesis by (auto simp: get_previous_hash_and_sequence_def)
  next
    case (Some r)
    then have "get_ledger_chain (e_db e) (rq_instance_id rq) ''default'' \<noteq> []"
      "r = last (get_ledger_chain (e_db e) (rq_instance_id rq) ''default'')"
      by (auto simp: get_latest_ledger_entry_eq Let_def split: if_splits)
    with rows_linked_last [OF ledger_ok_linked [OF lo], of "rq_instance_id rq" "''default''"]
    have "0 < lr_sequence_id r" by simp
    with Some pr(1) lw(2) show ?thesis by (auto simp: get_previous_hash_and_sequence_def Let_def split: if_splits)
  qed
  have acc: "proof_accepted x p"
    unfolding proof_accepted_def using hash hb sig(1,2) gen by (simp add: pf ch)
  have jp: "json_proof p" using pr(2,3) by (simp add: json_proof_def pf del: plain.simps wf_val.simps)
  have wf: "wf_proof p"
    unfolding wf_proof_def using pr(4-12) lw(4) Signature_init_wf [OF sgn] pf(2) by (simp add: pf(1))
  obtain r t' i ph' prr cs where a: "append_checks (e_db e) pd = Inr (t', i, m, ph', prr, cs)"
    "db_ledger (e_db e') = db_ledger (e_db e) @ [r]" "ledger_row_of pd t' i m ph' = Inr r" "ledger_ok (e_db e')"
    by (rule append_ledger_entry_ok [OF lo app])
  note rf = append_dump [OF x(1) jp pd a(1,3)]
  have sp: "stored_proof x r p" unfolding stored_proof_def using wf jp acc pd rf by blast
  have "engine_ok x W e'"
    unfolding engine_ok_def using a(2,4) st sp sig(3) sg2 by auto
  with that [OF a(2) sp rf(2)] rf(3,7) pr(6) show thesis by (simp add: pf)
qed

lemma record_decision_error:
  assumes "engine_ok x W e" "w \<in> W" "record_decision x w now rq e = (Inl err, e')"
  shows "engine_ok x W e' \<and> db_ledger (e_db e') = db_ledger (e_db e)"
proof -
  have so: "signer_ok x W (e_signer e)" using assms(1) unfolding engine_ok_def by blast
  have s1: "signer_ok x W s1" if "sign_hash x w (e_signer e) hb = (r, s1)" for hb r s1
    using signer_ok_sign [OF so assms(2) that] .
  have s2: "signer_ok x W s2" if "get_public_key x w s1 = (r', s2)" "sign_hash x w (e_signer e) hb = (r, s1)"
    for hb r s1 r' s2
    using signer_ok_public [OF s1 [OF that(2)] assms(2) that(1)] .
  have l: "db_ledger (e_db e') = db_ledger (e_db e)"
    using assms(3) unfolding record_decision_def Let_def
    by (auto split: sum.splits prod.splits option.splits dest: append_ledger_entry_error)
  have "signer_ok x W (e_signer e')"
    using assms(3) so unfolding record_decision_def Let_def
    by (auto split: sum.splits prod.splits option.splits dest: s1 s2)
  with l assms(1) ledger_ok_cong [OF l] show ?thesis unfolding engine_ok_def by simp
qed

subsection \<open>The facade: replay accepts what was recorded\<close>

text \<open>
  The operations of the facade in any order, with governance changes on its store in between.
\<close>

fun governance_op :: "store_op \<Rightarrow> bool" where
  "governance_op (OpAppend _ _) = False"
| "governance_op (OpTransition _ _ _ _ _ _ _ _ _ _ _ _ _ _ _ _) = False"
| "governance_op _ = True"

inductive facade_step :: "ext \<Rightarrow> kms_world set \<Rightarrow> facade \<Rightarrow> facade \<Rightarrow> bool" for x W where
  fs_compile: "Engine_compile x now spec f = (r, f') \<Longrightarrow> facade_step x W f f'"
| fs_create: "Engine_create_instance i f = (r, f') \<Longrightarrow> facade_step x W f f'"
| fs_transition: "w \<in> W \<Longrightarrow> transition x w now i ts ih oh mv av pv mj f = (r, f') \<Longrightarrow> facade_step x W f f'"
| fs_export: "w \<in> W \<Longrightarrow> Engine_export_proof x w i f = (r, f') \<Longrightarrow> facade_step x W f f'"
| fs_governance: "governance_op q \<Longrightarrow>
     facade_step x W f (f\<lparr>f_engine := (f_engine f)\<lparr>e_db := store_step q (f_db f)\<rparr>\<rparr>)"

inductive facade_reach :: "ext \<Rightarrow> kms_world set \<Rightarrow> signer \<Rightarrow> facade \<Rightarrow> bool" for x W sg where
  fr_init: "facade_reach x W sg (Engine_init init_tables sg)"
| fr_step: "facade_reach x W sg f \<Longrightarrow> facade_step x W f f' \<Longrightarrow> facade_reach x W sg f'"

definition memory_ok :: "facade \<Rightarrow> bool" where
  "memory_ok f \<longleftrightarrow> (\<forall>r\<in>set (db_ledger (f_db f)). lr_tenant_id r = ''default'' \<and>
       map_of (f_instances f) (lr_instance_id r) \<noteq> None) \<and>
     (\<forall>i st h. map_of (f_instances f) i = Some (st, h) \<longrightarrow> get_ledger_chain (f_db f) i ''default'' \<noteq> [] \<longrightarrow>
       lr_to_state (last (get_ledger_chain (f_db f) i ''default'')) = st)"

definition facade_ok :: "ext \<Rightarrow> kms_world set \<Rightarrow> facade \<Rightarrow> bool" where
  "facade_ok x W f \<longleftrightarrow> engine_ok x W (f_engine f) \<and> memory_ok f"

lemma engine_ok_cong:
  "db_ledger (e_db e') = db_ledger (e_db e) \<Longrightarrow> signer_ok x W (e_signer e') \<Longrightarrow> engine_ok x W e \<Longrightarrow> engine_ok x W e'"
  unfolding engine_ok_def using ledger_ok_cong [of "e_db e'" "e_db e"] by simp

lemma get_ledger_chain_cong: "db_ledger s = db_ledger s' \<Longrightarrow> get_ledger_chain s i t = get_ledger_chain s' i t"
  by (simp add: get_ledger_chain_def)

lemma memory_ok_cong:
  assumes "db_ledger (f_db f') = db_ledger (f_db f)" "f_instances f' = f_instances f" "memory_ok f"
  shows "memory_ok f'"
  using assms(3) unfolding memory_ok_def assms(1,2) get_ledger_chain_cong [OF assms(1)] .

lemma list_all2_choice: "\<forall>a\<in>set as. \<exists>b. P a b \<Longrightarrow> \<exists>bs. list_all2 P as bs"
  by (induction as) (auto simp: list_all2_Cons1)

lemma replay_facade:
  assumes x: "pydantic_ok x" and f: "facade_ok x W f" and i: "map_of (f_instances f) i = Some (st, h)"
  shows "replay x now f i = Inr (True, Some st)"
proof (cases "get_ledger_chain (f_db f) i ''default'' = []")
  case True
  with i show ?thesis by (simp add: replay_def)
next
  case False
  let ?rs = "get_ledger_chain (f_db f) i ''default''"
  have e: "ledger_ok (f_db f)" "\<forall>r\<in>set ?rs. \<exists>p. stored_proof x r p"
    using f unfolding facade_ok_def engine_ok_def f_db_def by (auto simp: get_ledger_chain_def)
  then obtain ps where ps: "list_all2 (stored_proof x) ?rs ps"
    using list_all2_choice by blast
  obtain vs where vs: "replay_rows ?rs = Inr (Some vs)" "rmap_list (ProofV1_validate x) vs = Inr (map norm_proof ps)"
    using replay_rows_stored [OF x ps] by metis
  note v = verify_stored_chain [OF x ps ledger_ok_linked [OF e(1)] False vs(2), of now]
  have "vs \<noteq> []" using vs(2) ps False by (auto simp: rmap_list_Inr)
  moreover have "lr_to_state (last ?rs) = st" using f i False unfolding facade_ok_def memory_ok_def by blast
  moreover obtain p where "stored_proof x (last ?rs) p" using e(2) False by (meson last_in_set)
  then have "lr_to_state (last ?rs) \<noteq> []" by (simp add: stored_proof_def wf_proof_def)
  ultimately show ?thesis using v vs(1) False by (cases st) (simp_all add: replay_def Let_def)
qed

lemma transition_request_ok: "wf_val md \<Longrightarrow> request_ok (transition_request i fs ts ih oh mv av pv md)"
  by (simp add: request_ok_def transition_request_def)

lemma transition_checks_metadata:
  "transition_checks f i ts ih oh mv av pv mj = Inr (fs, h, n, md) \<Longrightarrow>
     wf_val md \<and> map_of (f_instances f) i = Some (fs, h)"
  by (auto simp: transition_checks_def split: option.splits if_splits dest: body_loads_wf)

lemma facade_ok_transition:
  assumes x: "pydantic_ok x" "digest_ok x" and f: "facade_ok x W f" "w \<in> W"
    and tr: "transition x w now i ts ih oh mv av pv mj f = (res, f')"
  shows "facade_ok x W f'"
proof (cases "transition_checks f i ts ih oh mv av pv mj")
  case (Inl e)
  with tr f show ?thesis by (simp add: transition_def)
next
  case (Inr q)
  obtain fs h n md where q: "transition_checks f i ts ih oh mv av pv mj = Inr (fs, h, n, md)"
    using Inr by (cases q) auto
  have md: "request_ok (transition_request i fs ts ih oh mv av pv md)" "map_of (f_instances f) i = Some (fs, h)"
    using transition_checks_metadata [OF q] transition_request_ok by blast+
  have eo: "engine_ok x W (f_engine f)" and mo: "memory_ok f" using f(1) by (auto simp: facade_ok_def)
  obtain rd e' where rd: "record_decision x w now (transition_request i fs ts ih oh mv av pv md) (f_engine f) = (rd, e')"
    by fastforce
  show ?thesis
  proof (cases rd)
    case (Inl err)
    with rd tr q have f': "f' = f\<lparr>f_engine := e'\<rparr>" by (simp add: transition_def)
    from record_decision_error [OF eo f(2)] rd Inl
    have "engine_ok x W e'" "db_ledger (e_db e') = db_ledger (e_db (f_engine f))" by blast+
    with mo memory_ok_cong [of f' f] show ?thesis by (simp add: f' facade_ok_def f_db_def)
  next
    case (Inr p)
    with rd tr q have f': "f' = f\<lparr>f_engine := e', f_instances := aset (f_instances f) i (ts, h)\<rparr>"
      by (simp add: transition_def)
    obtain r where r: "db_ledger (e_db e') = db_ledger (f_db f) @ [r]" "lr_tenant_id r = ''default''"
      "lr_instance_id r = i" "lr_to_state r = ts" "engine_ok x W e'"
      using record_decision_ok [OF x eo f(2) md(1)] rd Inr
      by (metis f_db_def decision_request.select_convs(1,3) transition_request_def)
    have lo: "ledger_ok (f_db f)" "ledger_ok (e_db e')" using eo r(5) by (simp_all add: engine_ok_def f_db_def)
    have ch: "get_ledger_chain (e_db e') j ''default'' =
        get_ledger_chain (f_db f) j ''default'' @ (if j = i then [r] else [])" for j
      using r by (simp add: get_ledger_chain_filter lo row_of_def)
    have "memory_ok f'"
      using mo r(1-4) unfolding memory_ok_def f' f_db_def [of "f\<lparr>f_engine := _, f_instances := _\<rparr>"]
      by (auto simp: ch)
    with r(5) show ?thesis by (simp add: f' facade_ok_def)
  qed
qed

lemma governance_op_ledger: "governance_op q \<Longrightarrow> db_ledger (store_step q s) = db_ledger s"
  by (cases q) (auto simp: add_approved_model_def add_approved_agent_def add_approved_policy_def approve_policy_def
      deactivate_policy_def register_protocol_def freeze_instance_def Let_def split: sum.splits)

lemma compile_spec_ledger: "compile_spec x now spec s ps = Inr (h, ps', s') \<Longrightarrow> db_ledger s' = db_ledger s"
  using governance_op_ledger [of "OpProtocol now h spec" s] by (auto simp: compile_spec_def Let_def)

lemma not_Some_eq_pair: "(\<forall>a b. v \<noteq> Some (a, b)) \<longleftrightarrow> v = None"
  by (cases v) auto

lemma facade_ok_create:
  assumes "facade_ok x W f" "Engine_create_instance i f = (r, f')"
  shows "facade_ok x W f'"
proof (cases "new_instance (f_active_protocol_hash f) (f_protocols f) (f_instances f) i")
  case (Inr q)
  obtain st ins where q: "q = (st, ins)" by (cases q)
  with Inr obtain h where n: "ins = aset (f_instances f) i (st, h)" "map_of (f_instances f) i = None"
    by (auto simp: new_instance_def not_Some_eq_pair split: option.splits if_splits)
  have f': "f' = f\<lparr>f_instances := ins\<rparr>" using assms(2) Inr q by (simp add: Engine_create_instance_def)
  have mo: "memory_ok f" using assms(1) by (simp add: facade_ok_def)
  have "\<forall>r\<in>set (db_ledger (f_db f)). map_of (f_instances f) (lr_instance_id r) \<noteq> None"
    using mo unfolding memory_ok_def by blast
  with n(2) have "filter (row_of ''default'' i) (db_ledger (f_db f)) = []"
    by (auto simp: row_of_def filter_empty_conv)
  then have "get_ledger_chain (f_db f) i ''default'' = []" by (simp add: get_ledger_chain_def)
  then have "memory_ok f'" using mo n unfolding memory_ok_def f' by (auto simp: f_db_def)
  with assms(1) show ?thesis by (simp add: facade_ok_def f')
qed (use assms in \<open>simp add: Engine_create_instance_def\<close>)

lemma sign_and_freeze_state:
  assumes "engine_ok x W e" "w \<in> W" "sign_and_freeze x w i root vs e = (r, e')"
  shows "engine_ok x W e' \<and> db_ledger (e_db e') = db_ledger (e_db e)"
proof -
  have so: "signer_ok x W (e_signer e)" using assms(1) unfolding engine_ok_def by blast
  have s1: "signer_ok x W s1" if "sign_hash x w (e_signer e) hb = (r, s1)" for hb r s1
    using signer_ok_sign [OF so assms(2) that] .
  have s2: "signer_ok x W s2" if "get_public_key x w s1 = (r', s2)" "sign_hash x w (e_signer e) hb = (r, s1)"
    for hb r s1 r' s2
    using signer_ok_public [OF s1 [OF that(2)] assms(2) that(1)] .
  have l: "db_ledger (e_db e') = db_ledger (e_db e)"
    using assms(3) by (auto simp: sign_and_freeze_def freeze_instance_def split: sum.splits prod.splits option.splits)
  moreover have "signer_ok x W (e_signer e')"
    using assms(3) so by (auto simp: sign_and_freeze_def split: sum.splits prod.splits option.splits dest: s1 s2)
  ultimately show ?thesis using engine_ok_cong [OF l _ assms(1)] by blast
qed

lemma facade_ok_step:
  assumes x: "pydantic_ok x" "digest_ok x"
  shows "facade_step x W f f' \<Longrightarrow> facade_ok x W f \<Longrightarrow> facade_ok x W f'"
proof (induction rule: facade_step.induct)
  case (fs_compile now spec f r f')
  have l: "db_ledger (f_db f') = db_ledger (f_db f)" "e_signer (f_engine f') = e_signer (f_engine f)"
    "f_instances f' = f_instances f"
    using fs_compile(1) by (auto simp: Engine_compile_def f_db_def split: sum.splits prod.splits
        dest: compile_spec_ledger)
  have "engine_ok x W (f_engine f')"
    using fs_compile(2) l engine_ok_cong [of "f_engine f'" "f_engine f" x W]
    by (simp add: facade_ok_def engine_ok_def f_db_def)
  with fs_compile(2) memory_ok_cong [OF l(1,3)] show ?case by (simp add: facade_ok_def)
next
  case (fs_create i f r f')
  then show ?case by (metis facade_ok_create)
next
  case (fs_transition w now i ts ih oh mv av pv mj f r f')
  then show ?case by (metis facade_ok_transition [OF x])
next
  case (fs_export w i f r f')
  show ?case
  proof (cases "f' = f")
    case False
    then obtain root vs e' where e: "sign_and_freeze x w i root vs (f_engine f) = (r, e')" "f' = f\<lparr>f_engine := e'\<rparr>"
      using fs_export(2) by (auto simp: Engine_export_proof_def Let_def split: sum.splits prod.splits)
    have eo: "engine_ok x W (f_engine f)" "memory_ok f" using fs_export(3) by (simp_all add: facade_ok_def)
    from sign_and_freeze_state [OF eo(1) fs_export(1) e(1)] eo(2) memory_ok_cong [of f' f]
    show ?thesis by (simp add: facade_ok_def e(2) f_db_def)
  qed (use fs_export in simp)
next
  case (fs_governance q f)
  let ?f' = "f\<lparr>f_engine := (f_engine f)\<lparr>e_db := store_step q (f_db f)\<rparr>\<rparr>"
  have l: "db_ledger (f_db ?f') = db_ledger (f_db f)"
    using governance_op_ledger [OF fs_governance(1)] by (simp add: f_db_def)
  have eo: "engine_ok x W (f_engine f)" "memory_ok f" using fs_governance(2) by (simp_all add: facade_ok_def)
  have "engine_ok x W (f_engine ?f')"
    using eo(1) l by (intro engine_ok_cong [OF _ _ eo(1)]) (simp_all add: f_db_def engine_ok_def)
  with memory_ok_cong [OF l _ eo(2)] show ?case by (simp add: facade_ok_def)
qed

lemma facade_ok_init: "signer_ok x W sg \<Longrightarrow> facade_ok x W (Engine_init init_tables sg)"
  by (auto simp: facade_ok_def engine_ok_def memory_ok_def Engine_init_def init_tables_def f_db_def
      get_ledger_chain_def ledger_ok_def)

lemma facade_ok_reach:
  assumes "pydantic_ok x" "digest_ok x" "signer_ok x W sg"
  shows "facade_reach x W sg f \<Longrightarrow> facade_ok x W f"
proof (induction rule: facade_reach.induct)
  case fr_init
  then show ?case by (rule facade_ok_init [OF assms(3)])
next
  case (fr_step f f')
  then show ?case by (metis facade_ok_step [OF assms(1,2)])
qed

end
