(* ===== verification/EngineLive.thy ===== *)
theory EngineLive
  imports EngineProofs
begin

text \<open>
  When the engine records: conditions on the request, the store and the signer under which
  \<open>record_decision\<close> and \<open>transition\<close> return a proof instead of raising, so that the theorems about
  recorded decisions are not about calls that never succeed.  The last section has the concrete
  environment, protocol and run that the witnesses use.
\<close>

subsection \<open>A signer that answers\<close>

definition signer_available :: "ext \<Rightarrow> kms_world \<Rightarrow> signer \<Rightarrow> bool" where
  "signer_available x w s \<longleftrightarrow> (\<forall>h. length h = 32 \<longrightarrow> (\<exists>sig s1 pk s2.
     sign_hash x w s h = (Inr sig, s1) \<and> get_public_key x w s1 = (Inr pk, s2)))"

lemma env_available: "signer_available x w (SEnv e)"
  by (simp add: signer_available_def env_sign_hash_def validate_hash_bytes_def)

text \<open>
  A \<open>FailoverSigner\<close> with threshold one answers as long as its fallback does, while the primary is marked
  unhealthy or its signing calls fail with an error it fails over on.
\<close>

lemma failover_available:
  assumes f: "signer_available x w f" and m: "fs_max_consecutive st \<le> 1"
    and p: "fs_primary_healthy st \<Longrightarrow> length h = 32 \<Longrightarrow>
      \<exists>e p'. sign_hash x w p h = (Inl e, p') \<and> is_failover_exception e"
    and h: "length h = 32"
  obtains sig s1 pk s2 where "sign_hash x w (SFailover p f st) h = (Inr sig, s1)" "get_public_key x w s1 = (Inr pk, s2)"
proof -
  obtain sig f1 pk f2 where ff: "sign_hash x w f h = (Inr sig, f1)" "get_public_key x w f1 = (Inr pk, f2)"
    using f h unfolding signer_available_def by blast
  let ?st = "st\<lparr>fs_metrics := record_sign (fs_metrics st)\<rparr>"
  have v: "validate_hash_bytes h = Inr ()" using h by (simp add: validate_hash_bytes_def)
  show thesis
  proof (cases "fs_primary_healthy st")
    case True
    then obtain e p' where e: "sign_hash x w p h = (Inl e, p')" "is_failover_exception e" using p h by blast
    have "\<not> fs_primary_healthy (handle_primary_failure (kw_now w) ?st)"
      using m by (simp add: handle_primary_failure_first)
    with True e ff v show thesis
      using that [of sig "SFailover p' f1 (handle_primary_failure (kw_now w) ?st)"] by simp
  next
    case False
    with ff v show thesis using that [of sig "SFailover p f1 ?st"] by simp
  qed
qed

subsection \<open>What a prepared decision went through\<close>

lemma validate_governance_ok:
  "validate_governance s mv av pv = Inr () \<longleftrightarrow> mv \<in> snd ` set (get_approved_models s) \<and>
     av \<in> snd ` set (get_approved_agents s) \<and> pv \<in> snd ` set (get_approved_policies s)"
  by (auto simp: validate_governance_def Let_def)

lemma prepare_decision_governed:
  assumes "prepare_decision x s rq = Inr (d, dc, g, t, ph, n, ch)"
  shows "validate_governance s (rq_model_version rq) (rq_agent_version rq) (rq_policy_version rq) = Inr ()"
    "plain (if truthy (rq_metadata rq) then rq_metadata rq else PyDict [])"
    "get_previous_hash_and_sequence s (rq_instance_id rq) = Inr (ph, n)"
    "d = \<lparr>d_from_state = rq_from_state rq, d_to_state = rq_to_state rq\<rparr>"
    "g = \<lparr>g_model_version = rq_model_version rq, g_agent_version = rq_agent_version rq,
       g_policy_version = rq_policy_version rq\<rparr>"
    "t_mode t = rq_determinism_mode rq" "t_seed t = rq_random_seed rq"
proof -
  let ?md = "if truthy (rq_metadata rq) then rq_metadata rq else PyDict []"
  from assms obtain eh where p:
    "validate_governance s (rq_model_version rq) (rq_agent_version rq) (rq_policy_version rq) = Inr ()"
    "validate_metadata ?md = Inr ()" "get_previous_hash_and_sequence s (rq_instance_id rq) = Inr (ph, n)"
    "Decision_init (rq_from_state rq) (rq_to_state rq) = Inr d"
    "Governance_init (rq_model_version rq) (rq_agent_version rq) (rq_policy_version rq) = Inr g"
    "Determinism_init (rq_determinism_mode rq) (rq_random_seed rq) eh = Inr t"
    unfolding prepare_decision_def Let_def
    by (simp only: rbind_Inr_iff opt_res_simps split_paired_Ex prod.case sum.inject prod.inject ex_unit)
       (elim exE conjE, hypsubst, rule that, assumption+)
  then show "validate_governance s (rq_model_version rq) (rq_agent_version rq) (rq_policy_version rq) = Inr ()"
    "get_previous_hash_and_sequence s (rq_instance_id rq) = Inr (ph, n)" by blast+
  show "plain ?md" using p(2) unfolding validate_metadata_def validate_payload_iff .
  show "d = \<lparr>d_from_state = rq_from_state rq, d_to_state = rq_to_state rq\<rparr>" using p(4) by (simp add: Decision_init_iff)
  show "g = \<lparr>g_model_version = rq_model_version rq, g_agent_version = rq_agent_version rq,
       g_policy_version = rq_policy_version rq\<rparr>" using p(5) by (simp add: Governance_init_iff)
  show "t_mode t = rq_determinism_mode rq" "t_seed t = rq_random_seed rq" using p(6) by (simp_all add: Determinism_init_iff)
qed

subsection \<open>A request that is complete\<close>

definition request_complete :: "ext \<Rightarrow> db \<Rightarrow> decision_request \<Rightarrow> bool" where
  "request_complete x s rq \<longleftrightarrow>
     list_all (\<lambda>t. t \<noteq> []) [rq_instance_id rq, rq_from_state rq, rq_to_state rq, rq_model_version rq,
       rq_agent_version rq, rq_policy_version rq, rq_reason_code rq, rq_policy_rule rq] \<and>
     rq_model_version rq \<in> snd ` set (get_approved_models s) \<and>
     rq_agent_version rq \<in> snd ` set (get_approved_agents s) \<and>
     rq_policy_version rq \<in> snd ` set (get_approved_policies s) \<and>
     (truthy (rq_metadata rq) \<longrightarrow> plain (rq_metadata rq) \<and> (case rq_metadata rq of PyDict _ \<Rightarrow> True | _ \<Rightarrow> False)) \<and>
     json_dumps False (rq_raw_inputs rq) \<noteq> None \<and>
     x_contribs x (if truthy (rq_feature_contributions rq) then rq_feature_contributions rq else PyList []) \<noteq> None \<and>
     validate_threshold_used (rq_threshold_used rq) \<noteq> Inl ValidationError \<and>
     check_determinism_args (rq_determinism_mode rq) (rq_random_seed rq) (rq_external_calls rq) = Inr () \<and>
     (rq_determinism_mode rq = REPLAY_WITH_RECORDED_IO \<longrightarrow>
       json_dumps False (PyDict [(KStr ''calls'', PyList (rq_external_calls rq))]) \<noteq> None)"

lemma validate_threshold_ok: "validate_threshold_used v \<noteq> Inl ValidationError \<Longrightarrow> \<exists>th. validate_threshold_used v = Inr th"
  by (cases v) auto

lemma lower_hex_validate: "lower_hex 64 h \<Longrightarrow> validate_hex 64 h = Inr (lower h)"
  using lower_hex_is_valid_hash [of h] by (simp add: validate_hex_iff is_valid_hash_def)

lemma hash_raw_ok: "json_dumps False v \<noteq> None \<Longrightarrow> \<exists>h. hash_raw x v = Inr h"
  by (auto simp: hash_raw_def)

lemma prepare_decision_succeeds:
  assumes x: "pydantic_ok x" "digest_ok x" and rq: "request_complete x s rq"
    and prev: "get_previous_hash_and_sequence s (rq_instance_id rq) = Inr (ph, n)"
  obtains d dc g t ch where "prepare_decision x s rq = Inr (d, dc, g, t, ph, n, ch)"
proof -
  let ?md = "if truthy (rq_metadata rq) then rq_metadata rq else PyDict []"
  note rqs = rq [unfolded request_complete_def]
  have ne: "rq_from_state rq \<noteq> []" "rq_to_state rq \<noteq> []" "rq_model_version rq \<noteq> []" "rq_agent_version rq \<noteq> []"
    "rq_policy_version rq \<noteq> []" "rq_reason_code rq \<noteq> []" "rq_policy_rule rq \<noteq> []"
    using rqs by simp_all
  have gov: "validate_governance s (rq_model_version rq) (rq_agent_version rq) (rq_policy_version rq) = Inr ()"
    using rqs by (simp add: validate_governance_def)
  obtain md where md: "?md = PyDict md" "plain ?md"
    using rqs by (cases "truthy (rq_metadata rq)") (auto split: pyval.splits)
  have vm: "validate_metadata ?md = Inr ()" using md(2) by (simp add: validate_metadata_def validate_payload_iff)
  have xm: "x_meta x ?md = Some md" using pydantic_okD(4) [OF x(1)] md by simp
  obtain ih where ih: "hash_raw x (rq_raw_inputs rq) = Inr ih" using rqs hash_raw_ok by blast
  obtain fc where fc: "x_contribs x (if truthy (rq_feature_contributions rq) then rq_feature_contributions rq else PyList []) = Some fc"
    using rqs by blast
  obtain th where th: "validate_threshold_used (rq_threshold_used rq) = Inr th" using rqs validate_threshold_ok by blast
  have "validate_hex 64 ih = Inr (lower ih)"
    using hash_raw_lower_hex [OF x(2) ih] by (rule lower_hex_validate)
  then obtain dc where dc: "DecisionContext_init (rq_reason_code rq) (rq_policy_rule rq) (rq_model_version rq) ih fc th md = Inr dc"
    "dc_metadata dc = md"
    using ne by (simp add: DecisionContext_init_def)
  obtain eh where eh: "(if rq_determinism_mode rq = REPLAY_WITH_RECORDED_IO \<and> rq_external_calls rq \<noteq> []
            then rbind (hash_raw x (PyDict [(KStr ''calls'', PyList (rq_external_calls rq))])) (\<lambda>h. Inr (Some h))
            else Inr None) = Inr eh" "rq_determinism_mode rq = REPLAY_WITH_RECORDED_IO \<Longrightarrow> rq_external_calls rq \<noteq> [] \<Longrightarrow>
            \<exists>h. eh = Some h \<and> length h = 64"
  proof (cases "rq_determinism_mode rq = REPLAY_WITH_RECORDED_IO \<and> rq_external_calls rq \<noteq> []")
    case True
    then obtain h where "hash_raw x (PyDict [(KStr ''calls'', PyList (rq_external_calls rq))]) = Inr h"
      using rqs hash_raw_ok by blast
    with True hash_raw_lower_hex [OF x(2) this] that [of "Some h"] show thesis by (simp add: lower_hex_def)
  qed (use that in auto)
  obtain t where t: "Determinism_init (rq_determinism_mode rq) (rq_random_seed rq) eh = Inr t"
    using rqs eh(2) by (cases "rq_determinism_mode rq")
      (auto simp: Determinism_init_iff validate_mode_fields_def check_determinism_args_def Let_def split: if_splits)
  have "plain (PyDict (dc_metadata dc))" using md dc(2) by simp
  then obtain cv where cv: "dump_context x dc = Inr cv" "plain cv" using dump_context_Inr [OF x(1)] by blast
  obtain d where d: "Decision_init (rq_from_state rq) (rq_to_state rq) = Inr d" using ne by (simp add: Decision_init_iff)
  obtain g where g: "Governance_init (rq_model_version rq) (rq_agent_version rq) (rq_policy_version rq) = Inr g"
    using ne by (simp add: Governance_init_iff)
  obtain pay where pay: "build_hash_payload (dump_decision d) cv (dump_governance g) (dump_determinism t) ph n = Inr pay" "plain pay"
    using cv by (simp add: build_hash_payload_iff)
  then obtain ch where ch: "canonical_hash x pay = Inr ch" by (simp add: canonical_hash_iff)
  show thesis
    by (rule that [of d dc g t ch])
      (use rqs in \<open>simp add: prepare_decision_def gov vm xm prev d ih fc th dc g eh t cv pay ch Let_def\<close>)
qed

lemma lower_hex_length: "lower_hex n h \<Longrightarrow> length h = n"
  by (simp add: lower_hex_def)

lemma signature_init_ok:
  assumes "strip k \<noteq> []" "lower_hex 64 pk" "lower_hex 128 sig"
  shows "\<exists>s. Signature_init ED25519 k pk sig = Inr s"
proof -
  have "k \<noteq> []" using assms(1) by (auto simp: strip_def)
  with assms int16_ok_lower_hex [OF assms(2)] int16_ok_lower_hex [OF assms(3)] show ?thesis
    by (simp add: Signature_init_def validate_hex_def lower_hex_length)
qed

text \<open>The append succeeds when the proof continues the chain and the table has no constraints of its own.\<close>

lemma append_dump_succeeds:
  assumes x: "pydantic_ok x" and jp: "json_proof p" and pd: "dump_proof x p = Inr pd" and wf: "wf_proof p"
    and chain: "validate_chain_integrity s (p_instance_id p) (l_sequence_id (p_ledger p)) (l_previous_hash (p_ledger p))
      ''default'' = Inr ()" and free: "\<not> db_strict s"
  shows "\<exists>s'. append_ledger_entry now pd s = (Inr (l_sequence_id (p_ledger p)), s')"
proof -
  obtain pd' c where c': "dump_proof x p = Inr pd'" "plain pd'" "dump_context x (p_decision_context p) = Inr c"
    "pd' = PyDict [(KStr ''type'', PyStr (p_type p)), (KStr ''instance_id'', PyStr (p_instance_id p)),
       (KStr ''decision'', dump_decision (p_decision p)), (KStr ''decision_context'', c),
       (KStr ''governance'', dump_governance (p_governance p)),
       (KStr ''determinism'', dump_determinism (p_determinism p)),
       (KStr ''ledger'', dump_ledger (p_ledger p)), (KStr ''signature'', dump_signature (p_signature p))]"
    using dump_proof_json [OF x jp] by metis
  have "pd' = pd" using c'(1) pd by simp
  note c = c'(2,4) [unfolded this]
  have md: "plain (PyDict (dc_metadata (p_decision_context p)))" using jp unfolding json_proof_def by blast
  have cm: "get_item c ''metadata'' (PyDict []) = Inr (PyDict (dc_metadata (p_decision_context p)))"
    using c'(3) dump_context_plain [OF x md] by (auto simp: get_item_def dget_or_def)
  have cj: "canonical_json pd = Inr (emit False (norm pd))"
    "canonical_json (PyDict (dc_metadata (p_decision_context p))) =
       Inr (emit False (norm (PyDict (dc_metadata (p_decision_context p)))))"
    using json_dumps_plain [OF c(1)] json_dumps_plain [OF md] by (simp_all add: canonical_json_def)
  have sv: "length (s_value (p_signature p)) = 128"
    using wf by (simp add: wf_proof_def wf_signature_def hex_text_def)
  have it: "item pd ''ledger'' = Inr (dump_ledger (p_ledger p))" "item pd ''decision'' = Inr (dump_decision (p_decision p))"
    "item pd ''decision_context'' = Inr c" "item pd ''governance'' = Inr (dump_governance (p_governance p))"
    "item pd ''signature'' = Inr (dump_signature (p_signature p))" "get_item pd ''type'' v = Inr (PyStr (p_type p))"
    "str_item pd ''instance_id'' = Inr (p_instance_id p)" "get_item pd ''tenant_id'' v = Inr v"
    "item (dump_ledger l) ''sequence_id'' = Inr (PyInt (l_sequence_id l))"
    "str_item (dump_ledger l) ''previous_hash'' = Inr (l_previous_hash l)"
    "str_item (dump_ledger l) ''current_hash'' = Inr (l_current_hash l)"
    "str_item (dump_ledger l) ''timestamp'' = Inr (l_timestamp l)"
    "str_item (dump_decision d) ''to_state'' = Inr (d_to_state d)"
    "str_item (dump_decision d) ''from_state'' = Inr (d_from_state d)"
    "str_item (dump_governance g) ''model_version'' = Inr (g_model_version g)"
    "str_item (dump_governance g) ''agent_version'' = Inr (g_agent_version g)"
    "str_item (dump_governance g) ''policy_version'' = Inr (g_policy_version g)"
    "get_item (dump_governance g) ''policy_version'' v = Inr (PyStr (g_policy_version g))"
    "str_item (dump_signature sg) ''value'' = Inr (s_value sg)" "str_item (dump_signature sg) ''key_id'' = Inr (s_key_id sg)"
    for v l d g sg
    by (simp_all add: c(2) item_def str_item_def get_item_def dget_or_def as_str_def dump_ledger_def dump_decision_def
        dump_governance_def dump_signature_def)
  have as: "as_str (PyStr a) = Inr a" "as_int (PyInt i) = Inr i" for a i by (simp_all add: as_str_def as_int_def)
  have ne: "s_value (p_signature p) \<noteq> []" using sv by auto
  let ?chk = "(''default'', p_instance_id p, l_sequence_id (p_ledger p), l_previous_hash (p_ledger p),
      g_policy_version (p_governance p), d_to_state (p_decision p))"
  have ck: "append_checks s pd = Inr ?chk"
    unfolding append_checks_def by (simp add: it as sv ne chain)
  obtain r where r: "ledger_row_of pd ''default'' (p_instance_id p) (l_sequence_id (p_ledger p)) (l_previous_hash (p_ledger p)) = Inr r"
    unfolding ledger_row_of_def by (simp add: it as cm cj)
  have "ledger_insert_ok (ensure_instance now (p_instance_id p) (g_policy_version (p_governance p))
      (d_to_state (p_decision p)) ''default'' s) r"
    using free by (simp add: ledger_insert_ok_def ensure_instance_def)
  then show ?thesis by (simp add: append_ledger_entry_def ck r Let_def)
qed

lemma previous_of_ledger:
  assumes "digest_ok x" "ledger_ok s" "\<forall>r\<in>set (db_ledger s). \<exists>p. stored_proof x r p"
  shows "get_previous_hash_and_sequence s i = Inr (let rs = get_ledger_chain s i ''default'' in
    (if rs = [] then genesis_hash else lr_current_hash (last rs), int (length rs) + 1))"
proof (cases "get_ledger_chain s i ''default'' = []")
  case True
  then show ?thesis by (simp add: get_previous_hash_and_sequence_def get_latest_ledger_entry_eq)
next
  case False
  let ?r = "last (get_ledger_chain s i ''default'')"
  have "?r \<in> set (get_ledger_chain s i ''default'')" using False by simp
  then have "?r \<in> set (db_ledger s)" by (auto simp: get_ledger_chain_def)
  with assms have "is_valid_hash (lr_current_hash ?r)"
    by (blast intro: lower_hex_is_valid_hash stored_hash_lower_hex)
  moreover have "lr_sequence_id ?r = int (length (get_ledger_chain s i ''default''))"
    using rows_linked_last [OF ledger_ok_linked [OF assms(2)] False] by simp
  ultimately show ?thesis using False
    by (simp add: get_previous_hash_and_sequence_def get_latest_ledger_entry_eq Let_def)
qed

lemma record_decision_succeeds:
  assumes x: "pydantic_ok x" "digest_ok x" and e: "engine_ok x W e" "w \<in> W"
    and sg: "signer_available x w (e_signer e)" and rq: "wf_val (rq_metadata rq)" "request_complete x (e_db e) rq"
    and free: "\<not> db_strict (e_db e)"
    and tenant: "\<forall>r\<in>set (db_ledger (e_db e)). lr_instance_id r = rq_instance_id rq \<longrightarrow> lr_tenant_id r = ''default''"
    and now: "20 \<le> length now" "endswith now ''Z''"
  obtains p e' where "record_decision x w now rq e = (Inr p, e')"
proof -
  have lo: "ledger_ok (e_db e)" and so: "signer_ok x W (e_signer e)"
    and st: "\<forall>r\<in>set (db_ledger (e_db e)). \<exists>p. stored_proof x r p" using e(1) unfolding engine_ok_def by blast+
  obtain ph n where prev: "get_previous_hash_and_sequence (e_db e) (rq_instance_id rq) = Inr (ph, n)"
    "validate_chain_integrity (e_db e) (rq_instance_id rq) n ph ''default'' = Inr ()" "1 \<le> n"
    using previous_of_ledger [OF x(2) lo st, of "rq_instance_id rq"] tenant
    by (auto simp: validate_chain_integrity_iff [OF lo] Let_def)
  obtain d dc g t ch where prep: "prepare_decision x (e_db e) rq = Inr (d, dc, g, t, ph, n, ch)"
    by (rule prepare_decision_succeeds [OF x rq(2) prev(1)])
  note pr = prepare_decision_ok [OF x rq(1) prep]
  have phx: "lower_hex 64 ph" using previous_hash_lower_hex [OF x(2) st prev(1)] .
  let ?l0 = "\<lparr>l_sequence_id = n, l_previous_hash = ph, l_current_hash = ch, l_timestamp = now\<rparr>"
  let ?p0 = "\<lparr>p_type = PROOF_VERSION, p_instance_id = rq_instance_id rq, p_decision = d, p_decision_context = dc,
      p_governance = g, p_determinism = t, p_ledger = ?l0, p_signature = undefined\<rparr>"
  have "proof_hash x ?p0 = Inr ch" using pr(13) [of ?p0] by simp
  then obtain m where m: "ch = hexdigest x m" by (auto simp: proof_hash_def canonical_hash_iff)
  then have chx: "lower_hex 64 ch" using hexdigest_lower_hex [OF x(2)] by blast
  obtain hb where hb: "fromhex ch = Some hb" "length hb = 32" using m digest_ok_length [OF x(2)] by simp
  from sg hb(2) obtain sig s1 pk s2 where sig: "sign_hash x w (e_signer e) hb = (Inr sig, s1)"
    "get_public_key x w s1 = (Inr pk, s2)" unfolding signer_available_def by blast
  have so1: "signer_ok x W s1" by (rule signer_ok_sign [OF so e(2) sig(1)])
  have l: "Ledger_init n ph ch now = Inr ?l0"
    using now prev(3) lower_hex_validate [OF phx] lower_hex_validate [OF chx] phx chx by (simp add: Ledger_init_def)
  have "lower_hex 128 sig" using signer_ok_sign_text [OF so e(2) sig(1)] by blast
  then obtain sgn where sgn: "Signature_init ED25519 (get_key_id x s1) pk sig = Inr sgn"
    using signature_init_ok [OF signer_ok_key_id [OF so1] signer_ok_public_text [OF so1 e(2) sig(2)]] by blast
  have ine: "rq_instance_id rq \<noteq> []" using rq(2) by (simp add: request_complete_def)
  let ?p = "\<lparr>p_type = PROOF_VERSION, p_instance_id = rq_instance_id rq, p_decision = d, p_decision_context = dc,
      p_governance = g, p_determinism = t, p_ledger = ?l0, p_signature = sgn\<rparr>"
  have p: "ProofV1_init PROOF_VERSION (rq_instance_id rq) d dc g t ?l0 sgn = Inr ?p"
    using pr(5) ine by (simp add: ProofV1_init_def)
  have jp: "json_proof ?p" using pr(2,3) by (simp add: json_proof_def del: plain.simps wf_val.simps)
  have wf: "wf_proof ?p"
    unfolding wf_proof_def using pr(4-12) Ledger_init_wf [OF l] Signature_init_wf [OF sgn] ine by simp
  obtain pd where pd: "dump_proof x ?p = Inr pd" using dump_proof_json [OF x(1) jp] by blast
  obtain s' where app: "append_ledger_entry now pd (e_db e) = (Inr n, s')"
    using append_dump_succeeds [OF x(1) jp pd wf _ free] prev(2) by auto
  show thesis
    by (rule that [of ?p]) (simp add: record_decision_def prep hb sig l assemble_proof_def sgn p pd app)
qed

subsection \<open>A transition of a reachable engine\<close>

lemma store_step_strict: "db_strict (store_step q s) = db_strict s"
  by (cases q) (auto simp: append_ledger_entry_def record_transition_def ensure_instance_def add_approved_model_def
      add_approved_agent_def add_approved_policy_def approve_policy_def deactivate_policy_def register_protocol_def
      freeze_instance_def Let_def split: sum.splits)

lemma append_strict: "append_ledger_entry now pd s = (r, s') \<Longrightarrow> db_strict s' = db_strict s"
  using store_step_strict [of "OpAppend now pd" s] by simp

lemma record_decision_strict: "record_decision x w now rq e = (r, e') \<Longrightarrow> db_strict (e_db e') = db_strict (e_db e)"
  unfolding record_decision_def Let_def
  by (auto split: sum.splits prod.splits option.splits dest: append_strict)

lemma facade_step_strict: "facade_step x W f f' \<Longrightarrow> db_strict (f_db f') = db_strict (f_db f)"
proof (induction rule: facade_step.induct)
  case (fs_compile now spec f r f')
  then show ?case
    using store_step_strict [of "OpProtocol now _ spec"]
    by (auto simp: Engine_compile_def compile_spec_def f_db_def Let_def split: sum.splits prod.splits)
next
  case (fs_create i f r f')
  then show ?case by (auto simp: Engine_create_instance_def f_db_def split: sum.splits prod.splits)
next
  case (fs_transition w now i ts ih oh mv av pv mj f r f')
  then show ?case
    by (auto simp: transition_def f_db_def split: sum.splits prod.splits dest: record_decision_strict)
next
  case (fs_export w i f r f')
  then show ?case
    by (auto simp: Engine_export_proof_def sign_and_freeze_def freeze_instance_def f_db_def Let_def
        split: sum.splits prod.splits option.splits)
next
  case (fs_governance q f)
  then show ?case by (simp add: f_db_def store_step_strict)
qed

lemma facade_reach_free: "facade_reach x W sg f \<Longrightarrow> \<not> db_strict (f_db f)"
proof (induction rule: facade_reach.induct)
  case fr_init
  then show ?case by (simp add: Engine_init_def f_db_def)
qed (simp add: facade_step_strict)

text \<open>What a caller of \<open>transition\<close> has to provide beside passing the checks.\<close>

definition transition_args_ok ::
    "string \<Rightarrow> ident \<Rightarrow> state_name \<Rightarrow> state_name \<Rightarrow> version \<Rightarrow> version \<Rightarrow> version \<Rightarrow> pyval \<Rightarrow> bool" where
  "transition_args_ok now i fs ts mv av pv md \<longleftrightarrow>
     20 \<le> length now \<and> endswith now ''Z'' \<and> list_all (\<lambda>t. t \<noteq> []) [i, fs, ts, mv, av, pv] \<and>
     plain md \<and> (case md of PyDict _ \<Rightarrow> True | _ \<Rightarrow> False)"

lemma empty_contribs: "pydantic_ok x \<Longrightarrow> x_contribs x (PyList []) = Some []"
  using pydantic_okD(3) [of x "[]"] by (simp add: contribs_val_def wf_contribs_def)

lemma transition_request_complete:
  assumes "pydantic_ok x" "transition_checks f i ts ih oh mv av pv mj = Inr (fs, h, v, md)"
    "transition_args_ok now i fs ts mv av pv md"
  shows "request_complete x (f_db f) (transition_request i fs ts ih oh mv av pv md)"
proof -
  have c: "mv \<in> snd ` set (get_approved_models (f_db f))" "av \<in> snd ` set (get_approved_agents (f_db f))"
    "pv \<in> snd ` set (get_approved_policies (f_db f))"
    using assms(2) by (auto simp: transition_checks_def split: option.splits)
  have "json_dumps False (PyDict [(KStr ''input_hash'', PyStr ih), (KStr ''output_hash'', PyStr oh)]) \<noteq> None"
    by (subst json_dumps_plain) simp_all
  with c assms(3) empty_contribs [OF assms(1)] show ?thesis
    by (simp add: request_complete_def transition_request_def transition_args_ok_def check_determinism_args_def
        del: json_dumps.simps)
qed

lemma transition_succeeds:
  assumes x: "pydantic_ok x" "digest_ok x" and sg: "signer_ok x W sg" and f: "facade_reach x W sg f" and w: "w \<in> W"
    and av: "signer_available x w (e_signer (f_engine f))"
    and ck: "transition_checks f i ts ih oh mv av' pv mj = Inr (fs, h, v, md)"
    and args: "transition_args_ok now i fs ts mv av' pv md"
  obtains pid f' where "transition x w now i ts ih oh mv av' pv mj f = (Inr (ts, v, pid), f')"
    "map_of (f_instances f') i = Some (ts, h)"
    "length (get_ledger_chain (f_db f') i ''default'') = Suc (length (get_ledger_chain (f_db f) i ''default''))"
proof -
  let ?rq = "transition_request i fs ts ih oh mv av' pv md"
  have fo: "facade_ok x W f" by (rule facade_ok_reach [OF x sg f])
  then have eo: "engine_ok x W (f_engine f)" "memory_ok f" by (simp_all add: facade_ok_def)
  have rq: "request_ok ?rq" using transition_checks_metadata [OF ck] transition_request_ok by blast
  then have wm: "wf_val (rq_metadata ?rq)" unfolding request_ok_def by blast
  have rc: "request_complete x (e_db (f_engine f)) ?rq"
    using transition_request_complete [OF x(1) ck args] by (simp add: f_db_def)
  have free: "\<not> db_strict (e_db (f_engine f))" using facade_reach_free [OF f] by (simp add: f_db_def)
  have ten: "\<forall>r\<in>set (db_ledger (e_db (f_engine f))). lr_instance_id r = rq_instance_id ?rq \<longrightarrow> lr_tenant_id r = ''default''"
    using eo(2) unfolding memory_ok_def f_db_def by blast
  obtain p e' where rd: "record_decision x w now ?rq (f_engine f) = (Inr p, e')"
    using record_decision_succeeds [OF x eo(1) w av wm rc free ten] args unfolding transition_args_ok_def by blast
  obtain r where r: "db_ledger (e_db e') = db_ledger (f_db f) @ [r]" "lr_tenant_id r = ''default''" "lr_instance_id r = i"
    "engine_ok x W e'"
    using record_decision_ok [OF x eo(1) w rq rd]
    by (metis f_db_def decision_request.select_convs(1,3) transition_request_def)
  have lo: "ledger_ok (f_db f)" "ledger_ok (e_db e')" using eo r(4) by (simp_all add: engine_ok_def f_db_def)
  let ?f' = "f\<lparr>f_engine := e', f_instances := aset (f_instances f) i (ts, h)\<rparr>"
  have t: "transition x w now i ts ih oh mv av' pv mj f = (Inr (ts, v, proof_id x p), ?f')"
    by (simp add: transition_def ck rd)
  have "length (get_ledger_chain (f_db ?f') i ''default'') = Suc (length (get_ledger_chain (f_db f) i ''default''))"
    using r lo by (simp add: get_ledger_chain_filter f_db_def row_of_def)
  with that [OF t] show thesis by simp
qed

subsection \<open>A concrete engine\<close>

text \<open>
  KMS is down, the signer is the local one, the protocol has the states \<open>a\<close> and \<open>b\<close> with one transition
  between them, one model, one agent and one policy are approved and the instance \<open>i\<close> is in state \<open>a\<close>.
\<close>

definition sample_world :: kms_world where
  "sample_world = \<lparr>kw_sign = (\<lambda>r k mt alg m. Inl ''unavailable''), kw_public = (\<lambda>r k. Inl ''unavailable''), kw_now = ''t''\<rparr>"

definition sample_signer :: signer where
  "sample_signer = SEnv \<lparr>es_signing_key = replicate 32 7\<rparr>"

definition sample_spec :: pyval where
  "sample_spec = PyDict [(KStr ''initial_state'', PyStr ''a''), (KStr ''transitions'',
     PyList [PyDict [(KStr ''from_state'', PyStr ''a''), (KStr ''to_state'', PyStr ''b'')]])]"

definition governance_step :: "store_op \<Rightarrow> facade \<Rightarrow> facade" where
  "governance_step q f = f\<lparr>f_engine := (f_engine f)\<lparr>e_db := store_step q (f_db f)\<rparr>\<rparr>"

definition sample_start :: facade where
  "sample_start =
     governance_step (OpPolicy ''t'' ''p'' []) (governance_step (OpAgent ''t'' ''g'' [])
       (governance_step (OpModel ''t'' ''m'' []) (snd (Engine_create_instance ''i''
          (snd (Engine_compile sample_ext ''t'' sample_spec (Engine_init init_tables sample_signer)))))))"

abbreviation sample_now :: string where
  "sample_now \<equiv> ''2025-01-01T00:00:00Z''"

definition sample_transition :: "(string \<times> int \<times> string) res \<times> facade" where
  "sample_transition = transition sample_ext sample_world sample_now ''i'' ''b'' ''h'' ''k'' ''m'' ''g'' ''p'' [] sample_start"

lemma sample_signer_ok [simp]: "signer_ok sample_ext W sample_signer"
  by (simp add: sample_signer_def)

lemma sample_start_reach [simp]: "facade_reach sample_ext W sample_signer sample_start"
proof -
  have i: "facade_reach sample_ext W sample_signer (Engine_init init_tables sample_signer)" by (rule fr_init)
  have c: "facade_reach sample_ext W sample_signer (snd (Engine_compile sample_ext ''t'' sample_spec f))"
    if "facade_reach sample_ext W sample_signer f" for f
    by (rule fr_step [OF that], rule fs_compile [OF prod.collapse [symmetric]])
  have n: "facade_reach sample_ext W sample_signer (snd (Engine_create_instance ''i'' f))"
    if "facade_reach sample_ext W sample_signer f" for f
    by (rule fr_step [OF that], rule fs_create [OF prod.collapse [symmetric]])
  have g: "facade_reach sample_ext W sample_signer (governance_step q f)"
    if "facade_reach sample_ext W sample_signer f" "governance_op q" for q f
    unfolding governance_step_def by (rule fr_step [OF that(1)], rule fs_governance [OF that(2)])
  show ?thesis unfolding sample_start_def by (intro g n c i) simp_all
qed

lemma sample_start_checks:
  "\<exists>h. transition_checks sample_start ''i'' ''b'' ''h'' ''k'' ''m'' ''g'' ''p'' [] = Inr (''a'', h, 1, PyDict [])"
proof -
  have "(case transition_checks sample_start ''i'' ''b'' ''h'' ''k'' ''m'' ''g'' ''p'' [] of
     Inr (fs, h, v, md) \<Rightarrow> fs = ''a'' \<and> v = 1 \<and> md = PyDict [] | Inl _ \<Rightarrow> False)" by code_simp
  then show ?thesis by (auto split: sum.splits prod.splits)
qed

lemma sample_args_ok: "transition_args_ok sample_now ''i'' ''a'' ''b'' ''m'' ''g'' ''p'' (PyDict [])"
  by code_simp

lemma sample_transition_ok:
  obtains pid f' h where "sample_transition = (Inr (''b'', 1, pid), f')" "map_of (f_instances f') ''i'' = Some (''b'', h)"
    "length (get_ledger_chain (f_db f') ''i'' ''default'') = Suc (length (get_ledger_chain (f_db sample_start) ''i'' ''default''))"
    "facade_reach sample_ext {sample_world} sample_signer f'"
proof -
  obtain h where ck: "transition_checks sample_start ''i'' ''b'' ''h'' ''k'' ''m'' ''g'' ''p'' [] = Inr (''a'', h, 1, PyDict [])"
    using sample_start_checks by blast
  have "e_signer (f_engine sample_start) = sample_signer" by code_simp
  then have av: "signer_available sample_ext sample_world (e_signer (f_engine sample_start))"
    by (simp add: sample_signer_def env_available)
  obtain pid f' where t: "sample_transition = (Inr (''b'', 1, pid), f')" "map_of (f_instances f') ''i'' = Some (''b'', h)"
    "length (get_ledger_chain (f_db f') ''i'' ''default'') = Suc (length (get_ledger_chain (f_db sample_start) ''i'' ''default''))"
    unfolding sample_transition_def
    by (rule transition_succeeds [OF _ _ _ sample_start_reach _ av ck sample_args_ok, of "{sample_world}"]) auto
  moreover have "facade_reach sample_ext {sample_world} sample_signer f'"
    by (rule fr_step [OF sample_start_reach], rule fs_transition [OF _ t(1) [unfolded sample_transition_def]]) simp
  ultimately show thesis by (rule that)
qed

text \<open>The proof that the transition stored, as a chain of length one.\<close>

lemma sample_proof:
  obtains p pd where "wf_proof p" "json_proof p" "proof_accepted sample_ext p" "dump_proof sample_ext p = Inr pd"
    "plain pd" "wf_val pd" "linked 0 genesis_hash [p]"
proof -
  obtain pid f' h where t: "facade_reach sample_ext {sample_world} sample_signer f'"
    "length (get_ledger_chain (f_db f') ''i'' ''default'') = Suc (length (get_ledger_chain (f_db sample_start) ''i'' ''default''))"
    by (rule sample_transition_ok)
  have z: "get_ledger_chain (f_db sample_start) ''i'' ''default'' = []" by code_simp
  from t(2) [unfolded z] obtain r where r: "get_ledger_chain (f_db f') ''i'' ''default'' = [r]"
    by (auto simp: length_Suc_conv)
  have fo: "facade_ok sample_ext {sample_world} f'" by (rule facade_ok_reach [OF _ _ _ t(1)]) simp_all
  then have lo: "ledger_ok (f_db f')" and st: "\<forall>r\<in>set (db_ledger (f_db f')). \<exists>p. stored_proof sample_ext r p"
    by (auto simp: facade_ok_def engine_ok_def f_db_def)
  have "r \<in> set (db_ledger (f_db f'))" using arg_cong [OF r, of set] by (auto simp: get_ledger_chain_def)
  then obtain p where p: "stored_proof sample_ext r p" using st by blast
  have j: "json_proof p" "wf_proof p" "proof_accepted sample_ext p" using p unfolding stored_proof_def by blast+
  obtain pd where pd: "dump_proof sample_ext p = Inr pd" "plain pd" "wf_val pd"
    by (rule dump_proof_json [OF _ j(1), of sample_ext]) simp_all
  have "rows_linked 0 genesis_hash [r]" using ledger_ok_linked [OF lo, of "''i''" "''default''"] r by simp
  moreover have "lr_sequence_id r = l_sequence_id (p_ledger p)" "lr_previous_hash r = l_previous_hash (p_ledger p)"
    using p unfolding stored_proof_def by blast+
  ultimately have "linked 0 genesis_hash [p]" by simp
  with that [OF j(2,1,3) pd] show thesis .
qed

text \<open>Requests on the sample engine: the one of the transition, and one in strict mode that names a seed.\<close>

definition sample_request :: decision_request where
  "sample_request = transition_request ''i'' ''a'' ''b'' ''h'' ''k'' ''m'' ''g'' ''p'' (PyDict [])"

definition seeded_request :: decision_request where
  "seeded_request = sample_request\<lparr>rq_random_seed := Some ''42''\<rparr>"

lemma sample_engine:
  shows "engine_ok sample_ext {sample_world} (f_engine sample_start)"
    "db_ledger (e_db (f_engine sample_start)) = []" "\<not> db_strict (e_db (f_engine sample_start))"
    "signer_available sample_ext sample_world (e_signer (f_engine sample_start))"
proof -
  show "engine_ok sample_ext {sample_world} (f_engine sample_start)"
    using facade_ok_reach [OF _ _ _ sample_start_reach, of "{sample_world}"] by (simp add: facade_ok_def)
  show "db_ledger (e_db (f_engine sample_start)) = []" by code_simp
  show "\<not> db_strict (e_db (f_engine sample_start))" by code_simp
  have "e_signer (f_engine sample_start) = sample_signer" by code_simp
  then show "signer_available sample_ext sample_world (e_signer (f_engine sample_start))"
    by (simp add: sample_signer_def env_available)
qed

lemma request_complete_seed:
  "rq_determinism_mode rq = STRICT_DETERMINISTIC \<Longrightarrow> request_complete x s rq \<Longrightarrow>
     request_complete x s (rq\<lparr>rq_random_seed := sd\<rparr>)"
  unfolding request_complete_def
  by (cases "truthy (rq_feature_contributions rq)") (simp_all add: check_determinism_args_def)

lemma sample_complete:
  assumes "rq = sample_request \<or> rq = seeded_request"
  shows "wf_val (rq_metadata rq)" "request_complete sample_ext (e_db (f_engine sample_start)) rq"
proof -
  show "wf_val (rq_metadata rq)"
    using assms by (auto simp: sample_request_def seeded_request_def transition_request_def)
  have "request_complete sample_ext (e_db (f_engine sample_start)) sample_request"
    using sample_start_checks transition_request_complete [OF sample_ext_ok(3), where now = sample_now]
    by (metis f_db_def sample_args_ok sample_request_def)
  then show "request_complete sample_ext (e_db (f_engine sample_start)) rq"
    using assms request_complete_seed [of sample_request]
    by (auto simp: seeded_request_def sample_request_def transition_request_def)
qed

lemma sample_recorded:
  assumes "rq = sample_request \<or> rq = seeded_request"
  obtains p e' where "record_decision sample_ext sample_world sample_now rq (f_engine sample_start) = (Inr p, e')"
proof -
  have "20 \<le> length sample_now" "endswith sample_now ''Z''" by code_simp+
  then show thesis
    using record_decision_succeeds [OF _ _ sample_engine(1) _ sample_engine(4) sample_complete [OF assms]
      sample_engine(3), of sample_now] that by (auto simp: sample_engine(2))
qed

end
