(* ===== verification/Export.thy ===== *)
theory Export
  imports EngineLive
begin

text \<open>
  \<open>export_proof\<close> of the facade: what the exported package contains, and that the export closes the
  instance.  Every operation of the facade acts on the database through the methods of the store
  (\<open>facade_step_store\<close>), so what the store never undoes, such as a frozen instance, stays.
\<close>

subsection \<open>The facade acts through the store\<close>

lemma record_decision_store:
  assumes "record_decision x w now rq e = (r, e')"
  shows "e_db e' = e_db e \<or> (\<exists>p pd. dump_proof x p = Inr pd \<and> e_db e' = store_step (OpAppend now pd) (e_db e))"
  using assms unfolding record_decision_def Let_def
  by (auto split: sum.splits prod.splits option.splits)
    (metis snd_conv)+

lemma facade_step_store:
  "facade_step x W f f' \<Longrightarrow> f_db f' = f_db f \<or> (\<exists>q. governance_op q \<and> f_db f' = store_step q (f_db f)) \<or>
     (\<exists>now p pd. dump_proof x p = Inr pd \<and> f_db f' = store_step (OpAppend now pd) (f_db f))"
proof (induction rule: facade_step.induct)
  case (fs_compile now spec f r f')
  then have "f_db f' = f_db f \<or> (\<exists>h. f_db f' = store_step (OpProtocol now h spec) (f_db f))"
    by (auto simp: Engine_compile_def compile_spec_def f_db_def Let_def split: sum.splits prod.splits)
  then show ?case by (metis governance_op.simps)
next
  case (fs_create i f r f')
  then show ?case by (auto simp: Engine_create_instance_def f_db_def split: sum.splits prod.splits)
next
  case (fs_transition w now i ts ih oh mv av pv mj f r f')
  then have "f_db f' = f_db f \<or> (\<exists>rq r' e'. record_decision x w now rq (f_engine f) = (r', e') \<and> f_db f' = e_db e')"
    by (auto simp: transition_def f_db_def split: sum.splits prod.splits) metis+
  then show ?case using record_decision_store by (metis f_db_def)
next
  case (fs_export w i f r f')
  then have "f_db f' = f_db f \<or> f_db f' = store_step (OpFreeze i ''default'') (f_db f)"
    by (auto simp: Engine_export_proof_def sign_and_freeze_def f_db_def Let_def
        split: sum.splits prod.splits option.splits)
  then show ?case by (metis governance_op.simps)
next
  case (fs_governance q f)
  then show ?case by (auto simp: f_db_def)
qed

subsection \<open>Instances\<close>

text \<open>Rows of the table of instances keep their keys, and a frozen one stays frozen.\<close>

definition instances_grow :: "instance_row list \<Rightarrow> instance_row list \<Rightarrow> bool" where
  "instances_grow rs js \<longleftrightarrow> (\<exists>g new. js = map g rs @ new \<and> (\<forall>r. ir_instance_id (g r) = ir_instance_id r \<and>
     ir_tenant_id (g r) = ir_tenant_id r \<and> (ir_frozen r \<longrightarrow> ir_frozen (g r))))"

lemma instances_grow_refl [simp]: "instances_grow rs rs"
  unfolding instances_grow_def by (rule exI [of _ id], rule exI [of _ "[]"]) simp

lemma instances_grow_append [simp]: "instances_grow rs (rs @ new)"
  unfolding instances_grow_def by (rule exI [of _ id], rule exI [of _ new]) simp

lemma ensure_instance_grow: "instances_grow (db_instances s) (db_instances (ensure_instance a b c d e s))"
  by (simp add: ensure_instance_def)

lemma store_step_grow: "instances_grow (db_instances s) (db_instances (store_step q s))"
proof (cases q)
  case (OpAppend now pd)
  then show ?thesis
    by (auto simp: append_ledger_entry_def Let_def ensure_instance_grow split: sum.splits)
next
  case (OpTransition now i fs ts ac ih oh mv av pv ph ch sg pr md sv)
  then show ?thesis
    by (auto simp: record_transition_def Let_def ensure_instance_grow split: sum.splits)
next
  case (OpFreeze i t)
  have "instances_grow rs (map (\<lambda>r. if ir_instance_id r = i \<and> ir_tenant_id r = t then r\<lparr>ir_frozen := True\<rparr> else r) rs)"
    for rs
    unfolding instances_grow_def
    by (rule exI [of _ "\<lambda>r. if ir_instance_id r = i \<and> ir_tenant_id r = t then r\<lparr>ir_frozen := True\<rparr> else r"],
        rule exI [of _ "[]"]) simp
  then show ?thesis using OpFreeze by (simp add: freeze_instance_def)
qed (auto simp: add_approved_model_def add_approved_agent_def add_approved_policy_def approve_policy_def
      deactivate_policy_def register_protocol_def Let_def split: sum.splits)

definition frozen :: "db \<Rightarrow> string \<Rightarrow> bool" where
  "frozen s i \<longleftrightarrow> (case get_instance s i ''default'' of Some r \<Rightarrow> ir_frozen r | None \<Rightarrow> False)"

lemma db_first_map:
  "(\<And>r. P (g r) = P r) \<Longrightarrow> db_first P (map g rs) = map_option g (db_first P rs)"
  by (induction rs) (auto simp: db_first_def)

lemma frozen_grow:
  assumes "instances_grow (db_instances s) (db_instances s')" "frozen s i"
  shows "frozen s' i"
proof -
  obtain g new where g: "db_instances s' = map g (db_instances s) @ new"
    "\<And>r. ir_instance_id (g r) = ir_instance_id r" "\<And>r. ir_tenant_id (g r) = ir_tenant_id r"
    "\<And>r. ir_frozen r \<Longrightarrow> ir_frozen (g r)"
    using assms(1) unfolding instances_grow_def by blast
  obtain r where r: "get_instance s i ''default'' = Some r" "ir_frozen r"
    using assms(2) by (auto simp: frozen_def split: option.splits)
  have "db_first (\<lambda>r. ir_instance_id r = i \<and> ir_tenant_id r = ''default'') (map g (db_instances s)) = Some (g r)"
    using r(1) db_first_map [of "\<lambda>r. ir_instance_id r = i \<and> ir_tenant_id r = ''default''" g "db_instances s"] g(2,3)
    by (simp add: get_instance_def)
  then show ?thesis using g(1,4) r(2) by (simp add: frozen_def get_instance_def db_first_append)
qed

lemma frozen_step: "facade_step x W f f' \<Longrightarrow> frozen (f_db f) i \<Longrightarrow> frozen (f_db f') i"
  using facade_step_store [of x W f f'] frozen_grow [OF store_step_grow] by metis

lemma frozen_run: "(facade_step x W)\<^sup>*\<^sup>* f f' \<Longrightarrow> frozen (f_db f) i \<Longrightarrow> frozen (f_db f') i"
  by (induction rule: rtranclp_induct) (auto intro: frozen_step)

lemma frozen_transition:
  assumes "frozen (f_db f) i"
  shows "\<exists>err. transition x w now i ts ih oh mv av pv mj f = (Inl err, f)"
proof (cases "transition_checks f i ts ih oh mv av pv mj")
  case (Inr q)
  then show ?thesis using assms
    by (auto simp: transition_checks_def frozen_def split: option.splits)
qed (simp add: transition_def)

subsection \<open>Every recorded instance has a row\<close>

definition homed :: "db \<Rightarrow> bool" where
  "homed s \<longleftrightarrow> (\<forall>q\<in>set (db_instances s). ir_tenant_id q = ''default'') \<and>
     (\<forall>r\<in>set (db_ledger s). \<exists>q\<in>set (db_instances s). ir_instance_id q = lr_instance_id r)"

lemma dump_tenant:
  assumes "dump_proof x p = Inr pd" "append_checks s pd = Inr (t, i, n, ph, pr, cs)"
  shows "t = ''default''"
  using assms by (auto simp: dump_proof_def append_checks_def get_item_def dget_or_def as_str_def)

lemma ensure_instance_homed:
  assumes "homed s"
  shows "homed (ensure_instance now i pr cs ''default'' s)"
    "\<exists>q\<in>set (db_instances (ensure_instance now i pr cs ''default'' s)). ir_instance_id q = i"
proof -
  show "homed (ensure_instance now i pr cs ''default'' s)"
    using assms by (auto simp: homed_def ensure_instance_def)
  show "\<exists>q\<in>set (db_instances (ensure_instance now i pr cs ''default'' s)). ir_instance_id q = i"
    by (auto simp: ensure_instance_def db_first_None)
qed

lemma append_homed:
  assumes "homed s" "dump_proof x p = Inr pd"
  shows "homed (store_step (OpAppend now pd) s)"
proof (cases "append_checks s pd")
  case (Inr c)
  then obtain i n ph pr cs where c: "append_checks s pd = Inr (''default'', i, n, ph, pr, cs)"
    using dump_tenant [OF assms(2)] by (metis prod_cases6)
  note e = ensure_instance_homed [OF assms(1), of now i pr cs]
  have "homed (ensure_instance now i pr cs ''default'' s\<lparr>db_ledger := db_ledger s @ [r]\<rparr>)" if "lr_instance_id r = i" for r
    using e that by (auto simp: homed_def)
  with e(1) assms(1) c show ?thesis
    by (auto simp: append_ledger_entry_def Let_def split: sum.splits dest: ledger_row_of_keys)
qed (use assms(1) in \<open>simp add: append_ledger_entry_def\<close>)

lemma governance_homed:
  assumes "governance_op q" "homed s"
  shows "homed (store_step q s)"
proof (cases "db_instances (store_step q s) = db_instances s")
  case True
  with assms(2) governance_op_ledger [OF assms(1), of s] show ?thesis by (simp only: homed_def)
next
  case False
  then obtain i t where q: "q = OpFreeze i t"
    using assms(1) by (cases q) (auto simp: add_approved_model_def add_approved_agent_def add_approved_policy_def
        approve_policy_def deactivate_policy_def register_protocol_def Let_def split: sum.splits if_splits)
  define g where "g r = (if ir_instance_id r = i \<and> ir_tenant_id r = t then r\<lparr>ir_frozen := True\<rparr> else r)" for r :: instance_row
  have k: "ir_instance_id (g r) = ir_instance_id r" "ir_tenant_id (g r) = ir_tenant_id r" for r by (simp_all add: g_def)
  have "db_instances (store_step q s) = map g (db_instances s)"
    by (simp add: q freeze_instance_def g_def [abs_def])
  then show ?thesis
    using assms(2) governance_op_ledger [OF assms(1), of s] by (simp add: homed_def k)
qed

lemma homed_reach: "facade_reach x W sg f \<Longrightarrow> homed (f_db f)"
proof (induction rule: facade_reach.induct)
  case fr_init
  then show ?case by (simp add: homed_def Engine_init_def init_tables_def f_db_def)
next
  case (fr_step f f')
  from facade_step_store [OF fr_step(2)] fr_step(3) show ?case
    by (metis governance_homed append_homed)
qed

lemma freeze_frozen:
  assumes "homed s" "get_ledger_chain s i ''default'' \<noteq> []"
  shows "frozen (freeze_instance i ''default'' s) i"
proof -
  let ?g = "\<lambda>r. if ir_instance_id r = i \<and> ir_tenant_id r = ''default'' then r\<lparr>ir_frozen := True\<rparr> else r"
  have "set (get_ledger_chain s i ''default'') \<noteq> {}" using assms(2) by simp
  then obtain r where "r \<in> set (db_ledger s)" "lr_instance_id r = i"
    by (auto simp: get_ledger_chain_def row_of_def)
  then obtain q where q: "q \<in> set (db_instances s)" "ir_instance_id q = i \<and> ir_tenant_id q = ''default''"
    using assms(1) unfolding homed_def by blast
  then obtain q' where f: "db_first (\<lambda>r. ir_instance_id r = i \<and> ir_tenant_id r = ''default'') (db_instances s) = Some q'"
    using db_first_None [of "\<lambda>r. ir_instance_id r = i \<and> ir_tenant_id r = ''default''"] by (metis not_Some_eq)
  have "db_first (\<lambda>r. ir_instance_id r = i \<and> ir_tenant_id r = ''default'') (map ?g (db_instances s)) = Some (?g q')"
    using db_first_map [of "\<lambda>r. ir_instance_id r = i \<and> ir_tenant_id r = ''default''" ?g "db_instances s"] f by simp
  then show ?thesis using db_first_SomeD [OF f] by (simp add: frozen_def get_instance_def freeze_instance_def)
qed

subsection \<open>The package\<close>

lemma stored_proof_plain:
  assumes "pydantic_ok x" "stored_proof x r p" "json_loads (lr_proof_json r) = Some v"
  shows "plain v"
proof -
  have j: "json_proof p" using assms(2) unfolding stored_proof_def by blast
  obtain pd where d: "dump_proof x p = Inr pd" "plain pd" "wf_val pd" using dump_proof_json [OF assms(1) j] by metis
  have "lr_proof_json r = emit False (norm pd)" using assms(2) d(1) unfolding stored_proof_def by auto
  moreover have "json_loads (emit False (norm pd)) = Some (norm pd)"
    by (rule json_loads_emit) (simp_all add: d(2,3) del: norm.simps)
  ultimately have "v = norm pd" using assms(3) by simp
  then show ?thesis using d(2) by simp
qed

lemma stored_dicts_plain:
  assumes "pydantic_ok x" "list_all2 (stored_proof x) rs ps"
  shows "proof_dicts_of rs = Inr vs \<Longrightarrow> list_all plain vs"
  using assms(2)
proof (induction arbitrary: vs rule: list_all2_induct)
  case (Cons r rs p ps)
  then show ?case using stored_proof_plain [OF assms(1) Cons.hyps(1)] by (auto split: if_splits)
qed simp

lemma export_cases:
  assumes "Engine_export_proof x w i f = (Inr pk, f')"
  obtains root vs hb sig sg1 pub sg2 where "proof_dicts_of (get_ledger_chain (f_db f) i ''default'') = Inr vs"
    "Engine_compute_instance_root x f i = Inr root" "fromhex root = Some hb"
    "sign_hash x w (e_signer (f_engine f)) hb = (Inr sig, sg1)" "get_public_key x w sg1 = (Inr pub, sg2)"
    "build_package x i root vs pub sig = Inr pk" "f_db f' = freeze_instance i ''default'' (f_db f)"
  using assms unfolding Engine_export_proof_def sign_and_freeze_def f_db_def
  by (auto split: sum.splits prod.splits option.splits)

lemma export_succeeds:
  assumes x: "pydantic_ok x" "digest_ok x" and f: "facade_ok x W f" "w \<in> W"
    and sg: "signer_available x w (e_signer (f_engine f))" and ne: "get_ledger_chain (f_db f) i ''default'' \<noteq> []"
  obtains pk f' where "Engine_export_proof x w i f = (Inr pk, f')"
    "vr_valid (verify_chain x now (pk_ledger pk))"
    "pk_chain_length pk = length (get_ledger_chain (f_db f) i ''default'')"
    "length (pk_ledger pk) = length (get_ledger_chain (f_db f) i ''default'')"
    "pk_instance_root pk = hexdigest x (utf8 (concat (map lr_current_hash (get_ledger_chain (f_db f) i ''default''))))"
    "\<exists>hb. fromhex (pk_instance_root pk) = Some hb \<and> verify_ed25519 x (pk_public_key pk) hb (pk_signature pk)"
proof -
  let ?rs = "get_ledger_chain (f_db f) i ''default''"
  have e: "ledger_ok (f_db f)" "\<forall>r\<in>set ?rs. \<exists>p. stored_proof x r p" "signer_ok x W (e_signer (f_engine f))"
    using f(1) unfolding facade_ok_def engine_ok_def f_db_def by (auto simp: get_ledger_chain_def)
  then obtain ps where ps: "list_all2 (stored_proof x) ?rs ps" using list_all2_choice by blast
  obtain vs where vs: "proof_dicts_of ?rs = Inr vs" "rmap_list (ProofV1_validate x) vs = Inr (map norm_proof ps)"
    using replay_rows_stored [OF x(1) ps] by metis
  have len: "length vs = length ?rs"
    using vs(2) list_all2_lengthD [OF ps] by (auto simp: rmap_list_Inr dest: list_all2_lengthD)
  note v = verify_stored_chain(1) [OF x(1) ps ledger_ok_linked [OF e(1)] ne vs(2), of now]
  let ?root = "hexdigest x (utf8 (concat (map lr_current_hash ?rs)))"
  let ?hb = "x_sha256 x (utf8 (concat (map lr_current_hash ?rs)))"
  obtain sig s1 pub s2 where s: "sign_hash x w (e_signer (f_engine f)) ?hb = (Inr sig, s1)"
    "get_public_key x w s1 = (Inr pub, s2)"
    using sg digest_ok_length [OF x(2)] unfolding signer_available_def by blast
  have ver: "verify_ed25519 x pub ?hb sig" using signer_ok_sign_pub [OF e(3) f(2) s] .
  obtain t where "json_dumps False (PyList vs) = Some t"
    using json_dumps_plain [of "PyList vs" False] stored_dicts_plain [OF x(1) ps vs(1)] by (simp del: norm.simps emit.simps json_dumps.simps)
  moreover have "hexdigest x (utf8 t) \<noteq> []" using length_hexdigest [OF x(2), of "utf8 t"] by auto
  ultimately obtain pk where pk: "build_package x i ?root vs pub sig = Inr pk" "pk_ledger pk = vs"
    "pk_chain_length pk = length vs" "pk_instance_root pk = ?root" "pk_public_key pk = pub" "pk_signature pk = sig"
    by (simp add: build_package_def Let_def del: json_dumps.simps)
  have r: "Engine_compute_instance_root x f i = Inr ?root" using ne by (simp add: Engine_compute_instance_root_def)
  have "\<exists>f'. Engine_export_proof x w i f = (Inr pk, f')"
    using vs(1) r s pk(1) by (simp add: Engine_export_proof_def sign_and_freeze_def)
  then show thesis using that v len pk(2-6) ver by fastforce
qed

lemma env_signer_step:
  "facade_step x W f f' \<Longrightarrow> e_signer (f_engine f) = SEnv k \<Longrightarrow> e_signer (f_engine f') = SEnv k"
proof (induction rule: facade_step.induct)
  case (fs_transition w now i ts ih oh mv av pv mj f r f')
  then show ?case
    by (auto simp: transition_def record_decision_def Let_def split: sum.splits prod.splits option.splits)
qed (auto simp: Engine_compile_def compile_spec_def Engine_create_instance_def Engine_export_proof_def
    sign_and_freeze_def Let_def split: sum.splits prod.splits option.splits)

text \<open>The state after the transition of the sample engine.\<close>

lemma sample_exported:
  obtains f' where "snd sample_transition = f'" "length (get_ledger_chain (f_db f') ''i'' ''default'') = 1"
    "facade_reach sample_ext {sample_world} sample_signer f'" "e_signer (f_engine f') = sample_signer"
proof -
  obtain pid f' h where t: "sample_transition = (Inr (''b'', 1, pid), f')"
    "length (get_ledger_chain (f_db f') ''i'' ''default'') = Suc (length (get_ledger_chain (f_db sample_start) ''i'' ''default''))"
    "facade_reach sample_ext {sample_world} sample_signer f'" by (rule sample_transition_ok)
  have "get_ledger_chain (f_db sample_start) ''i'' ''default'' = []"
    using sample_engine(2) by (simp add: get_ledger_chain_def f_db_def)
  then have l: "length (get_ledger_chain (f_db f') ''i'' ''default'') = 1" using t(2) by simp
  have "e_signer (f_engine sample_start) = sample_signer" by code_simp
  moreover have "facade_step sample_ext {sample_world} sample_start f'"
    by (rule fs_transition [OF _ t(1) [unfolded sample_transition_def]]) simp
  ultimately have "e_signer (f_engine f') = sample_signer" using env_signer_step by (metis sample_signer_def)
  moreover have "snd sample_transition = f'" by (simp add: t(1))
  ultimately show thesis using that l t(3) by blast
qed

subsection \<open>Properties\<close>

text \<open>
  C15: An instance with recorded decisions can be exported from every reachable state when the signer answers:
  the package holds the whole chain, \<open>verify_chain\<close> accepts it, the instance root is the hash of the
  chain's hashes in order, and the package's public key verifies its signature over that root.
\<close>

theorem export_package_verifies:
  assumes "pydantic_ok x" "digest_ok x" "signer_ok x W sg" "facade_reach x W sg f" "w \<in> W"
    and "signer_available x w (e_signer (f_engine f))" "get_ledger_chain (f_db f) i ''default'' \<noteq> []"
  shows "\<exists>pk f'. Engine_export_proof x w i f = (Inr pk, f') \<and> vr_valid (verify_chain x now (pk_ledger pk)) \<and>
    length (pk_ledger pk) = length (get_ledger_chain (f_db f) i ''default'') \<and>
    pk_instance_root pk = hexdigest x (utf8 (concat (map lr_current_hash (get_ledger_chain (f_db f) i ''default'')))) \<and>
    (\<exists>hb. fromhex (pk_instance_root pk) = Some hb \<and> verify_ed25519 x (pk_public_key pk) hb (pk_signature pk))"
  using export_succeeds [OF assms(1,2) facade_ok_reach [OF assms(1-4)] assms(5-7)] by metis

theorem export_package_verifies_witness:
  "\<exists>pk f'. Engine_export_proof sample_ext sample_world ''i'' (snd sample_transition) = (Inr pk, f') \<and>
     vr_valid (verify_chain sample_ext sample_now (pk_ledger pk)) \<and> length (pk_ledger pk) = 1"
proof -
  obtain f' where t: "snd sample_transition = f'" "length (get_ledger_chain (f_db f') ''i'' ''default'') = 1"
    "facade_reach sample_ext {sample_world} sample_signer f'" "e_signer (f_engine f') = sample_signer"
    by (rule sample_exported)
  have "signer_available sample_ext sample_world (e_signer (f_engine f'))"
    by (simp add: t(4) sample_signer_def env_available)
  from export_package_verifies [OF _ _ _ t(3) _ this, of "''i''" sample_now] t(2) show ?thesis
    unfolding t(1) by fastforce
qed

text \<open>
  C16: The export closes the instance for good: after \<open>export_proof\<close> returned, and whatever the facade does
  afterwards, every call of \<open>transition\<close> on this instance raises and changes nothing.
\<close>

theorem export_closes_instance:
  assumes "facade_reach x W sg f" "Engine_export_proof x w i f = (Inr pk, f1)" "(facade_step x W)\<^sup>*\<^sup>* f1 f2"
  shows "\<exists>err. transition x w' now i ts ih oh mv av pv mj f2 = (Inl err, f2)"
proof -
  obtain root where r: "Engine_compute_instance_root x f i = Inr root" "f_db f1 = freeze_instance i ''default'' (f_db f)"
    using assms(2) by (rule export_cases)
  have "get_ledger_chain (f_db f) i ''default'' \<noteq> []"
    using r(1) by (auto simp: Engine_compute_instance_root_def)
  then have "frozen (f_db f1) i" using freeze_frozen homed_reach [OF assms(1)] r(2) by simp
  then show ?thesis using frozen_run [OF assms(3)] frozen_transition by blast
qed

theorem export_closes_instance_witness:
  "\<exists>pk f1 err. Engine_export_proof sample_ext sample_world ''i'' (snd sample_transition) = (Inr pk, f1) \<and>
     transition sample_ext sample_world sample_now ''i'' ''a'' ''h'' ''k'' ''m'' ''g'' ''p'' [] f1 = (Inl err, f1)"
proof -
  obtain f' where t: "snd sample_transition = f'" "length (get_ledger_chain (f_db f') ''i'' ''default'') = 1"
    "facade_reach sample_ext {sample_world} sample_signer f'" "e_signer (f_engine f') = sample_signer"
    by (rule sample_exported)
  have av: "signer_available sample_ext sample_world (e_signer (f_engine f'))"
    by (simp add: t(4) sample_signer_def env_available)
  have "get_ledger_chain (f_db f') ''i'' ''default'' \<noteq> []" using t(2) by auto
  then obtain pk f1 where e: "Engine_export_proof sample_ext sample_world ''i'' f' = (Inr pk, f1)"
    using export_succeeds [OF _ _ facade_ok_reach [OF _ _ _ t(3)] _ av] by (metis insertI1 sample_ext_ok(1,3) sample_signer_ok)
  from export_closes_instance [OF t(3) e rtranclp.rtrancl_refl] e show ?thesis unfolding t(1) by blast
qed

end
