(* ===== verification/Batch.thy ===== *)
theory Batch
  imports Merkle AuditLog Export JsonText
begin

text \<open>
  Batch exports: \<open>build_batch_export\<close>, \<open>verify_batch_signature\<close> and \<open>merkle_root_from_entries\<close> of
  \<open>provable_ai/audit_batch.py\<close> and the standalone verifier \<open>verify/verify_batch.py\<close>.  A batch is the
  Python dictionary the code builds; the verifiers take any Python value, as they read it from a file.
  The lemmas relate the exported ids to the proof ids of the engine and the two verifiers to each other.
\<close>

subsection \<open>Exporting\<close>

text \<open>\<open>_fetch_proofs\<close>: an empty bound is no bound; rows whose \<open>proof_json\<close> cannot be read are skipped.\<close>

definition fetch_proofs :: "db \<Rightarrow> string \<Rightarrow> string option \<Rightarrow> string option \<Rightarrow> pyval list" where
  "fetch_proofs s tenant_id from_date to_date =
     (let rows = sort_key (\<lambda>r. (lr_instance_id r, lr_sequence_id r))
            (filter (\<lambda>r. lr_tenant_id r = tenant_id \<and>
               (or_empty from_date \<noteq> [] \<longrightarrow> or_empty from_date \<le> lr_timestamp r) \<and>
               (or_empty to_date \<noteq> [] \<longrightarrow> lr_timestamp r \<le> or_empty to_date)) (db_ledger s))
      in List.map_filter (\<lambda>r. json_loads (lr_proof_json r)) rows)"

text \<open>A missing entry and a value that is no dictionary both lead to the second formula.\<close>

definition derive_proof_id :: "ext \<Rightarrow> pyval \<Rightarrow> string res" where
  "derive_proof_id x proof =
     (case rbind (item proof ''ledger'') (\<lambda>l. rbind (item l ''current_hash'') (\<lambda>h.
           rbind (item l ''sequence_id'') (\<lambda>i. Inr (h, i)))) of
        Inr (h, i) \<Rightarrow> Inr (hexdigest x (utf8 (py_str h @ '':'' @ py_str i)))
      | Inl _ \<Rightarrow> rbind (opt_res TypeError (json_dumps_spaced proof)) (\<lambda>t. Inr (hexdigest x (utf8 t))))"

text \<open>
  \<open>p.get("proof_id") or _derive_proof_id(p)\<close>; an id that is no text makes \<open>sorted\<close> or \<open>encode\<close> raise,
  which is one error here.
\<close>

definition batch_proof_id :: "ext \<Rightarrow> pyval \<Rightarrow> string res" where
  "batch_proof_id x p =
     rbind (get_item p ''proof_id'' PyNone) (\<lambda>v. if truthy v then as_str v else derive_proof_id x p)"

definition batch_root :: "ext \<Rightarrow> pyval list \<Rightarrow> string res" where
  "batch_root x proofs = rbind (rmap_list (batch_proof_id x) proofs) (merkle_root x)"

definition batch_dict :: "string \<Rightarrow> string option \<Rightarrow> string option \<Rightarrow> string \<Rightarrow> pyval list \<Rightarrow> string \<Rightarrow> string
    \<Rightarrow> string \<times> string \<Rightarrow> string \<times> string \<Rightarrow> pyval" where
  "batch_dict tenant_id from_date to_date exported_at proofs root sig_hex key1 key2 = PyDict [
     (KStr ''type'', PyStr ''zorynex-batch-v1''), (KStr ''tenant_id'', PyStr tenant_id),
     (KStr ''from_date'', opt_str from_date), (KStr ''to_date'', opt_str to_date),
     (KStr ''exported_at'', PyStr exported_at), (KStr ''proof_count'', PyInt (int (length proofs))),
     (KStr ''merkle_root'', PyStr root),
     (KStr ''merkle_signature'', PyDict [(KStr ''value'', PyStr sig_hex), (KStr ''public_key'', PyStr (fst key1)),
        (KStr ''key_id'', PyStr (snd key1)), (KStr ''algorithm'', PyStr ''Ed25519''),
        (KStr ''signed_at'', PyStr exported_at)]),
     (KStr ''verification_info'', PyDict [(KStr ''algorithm'', PyStr ''Ed25519''),
        (KStr ''public_key'', PyStr (fst key2)), (KStr ''key_id'', PyStr (snd key2)),
        (KStr ''instructions'', PyStr ''Verify: recompute Merkle root from proof_ids, verify Ed25519 signature over root bytes using public_key.'')]),
     (KStr ''proofs'', PyList proofs)]"

text \<open>The two calls of \<open>get_public_key\<close> and \<open>get_key_id\<close> for the dictionary come after the signature.\<close>

definition build_batch_export ::
    "ext \<Rightarrow> kms_world \<Rightarrow> string \<Rightarrow> db \<Rightarrow> string \<Rightarrow> string option \<Rightarrow> string option \<Rightarrow> signer \<Rightarrow> (pyval \<times> string \<times> nat) res \<times> signer" where
  "build_batch_export x w exported_at s tenant_id from_date to_date signer =
     (let proofs = fetch_proofs s tenant_id from_date to_date in
      case rbind (batch_root x proofs) (\<lambda>root.
           rbind (opt_res (ValueError ''fromhex'') (fromhex root)) (\<lambda>b. Inr (root, b))) of
        Inl e \<Rightarrow> (Inl e, signer)
      | Inr (root, root_bytes) \<Rightarrow>
     (case sign_hash x w signer root_bytes of
        (Inl e, sg1) \<Rightarrow> (Inl e, sg1)
      | (Inr sig_hex, sg1) \<Rightarrow>
     (case get_public_key x w sg1 of
        (Inl e, sg2) \<Rightarrow> (Inl e, sg2)
      | (Inr pk1, sg2) \<Rightarrow>
     (case get_public_key x w sg2 of
        (Inl e, sg3) \<Rightarrow> (Inl e, sg3)
      | (Inr pk2, sg3) \<Rightarrow>
          (Inr (batch_dict tenant_id from_date to_date exported_at proofs root sig_hex
                  (pk1, get_key_id x sg2) (pk2, get_key_id x sg3), root, length proofs), sg3)))))"

text \<open>Audit entries as leaves, sorted by tenant, time and trace.\<close>

definition merkle_root_from_entries :: "ext \<Rightarrow> audit_entry list \<Rightarrow> string res" where
  "merkle_root_from_entries x entries =
     (if entries = [] then Inr (replicate 64 (CHR ''0''))
      else merkle_root x (map (compute_audit_leaf x)
        (sort_key (\<lambda>e. (ae_tenant_id e, ae_verified_at e, ae_trace_id e)) entries)))"

subsection \<open>Verifying with the library\<close>

record batch_result =
  br_valid :: bool
  br_merkle_root_valid :: bool
  br_signature_valid :: bool
  br_proof_count :: nat

definition py_iter :: "pyval \<Rightarrow> pyval list res" where
  "py_iter v = (case v of
     PyList vs \<Rightarrow> Inr vs | PyTuple vs \<Rightarrow> Inr vs
   | PyStr s \<Rightarrow> Inr (map (\<lambda>c. PyStr [c]) s)
   | PyDict d \<Rightarrow> Inr (map (\<lambda>p. case fst p of KStr s \<Rightarrow> PyStr s | KInt i \<Rightarrow> PyInt i | KOther t r \<Rightarrow> PyOther (CObject t)) d)
   | _ \<Rightarrow> Inl TypeError)"

text \<open>\<open>v[:16]\<close> in the text of the failure: it raises on a number or a dictionary.\<close>

definition sliceable :: "pyval \<Rightarrow> bool" where
  "sliceable v = (case v of PyStr _ \<Rightarrow> True | PyList _ \<Rightarrow> True | PyTuple _ \<Rightarrow> True | _ \<Rightarrow> False)"

definition hex_arg :: "pyval \<Rightarrow> bytes res" where
  "hex_arg v = rbind (as_str v) (\<lambda>s. opt_res (ValueError ''fromhex'') (fromhex s))"

definition batch_error :: batch_result where
  "batch_error = \<lparr>br_valid = False, br_merkle_root_valid = False, br_signature_valid = False, br_proof_count = 0\<rparr>"

definition check_batch :: "ext \<Rightarrow> pyval \<Rightarrow> batch_result res" where
  "check_batch x batch =
     rbind (get_item batch ''proofs'' (PyList [])) (\<lambda>proofs_v.
     rbind (get_item batch ''merkle_root'' (PyStr [])) (\<lambda>claimed_root.
     rbind (get_item batch ''merkle_signature'' (PyDict [])) (\<lambda>sig_block.
     rbind (get_item sig_block ''value'' (PyStr [])) (\<lambda>sig_hex.
     rbind (get_item sig_block ''public_key'' (PyStr [])) (\<lambda>pub_hex.
     rbind (py_iter proofs_v) (\<lambda>proofs.
     rbind (batch_root x proofs) (\<lambda>computed_root.
     if PyStr computed_root \<noteq> claimed_root
     then (if sliceable claimed_root
           then Inr \<lparr>br_valid = False, br_merkle_root_valid = False, br_signature_valid = False,
                  br_proof_count = length proofs\<rparr>
           else Inl TypeError)
     else rbind (hex_arg claimed_root) (\<lambda>root_bytes.
          rbind (hex_arg sig_hex) (\<lambda>sig_bytes.
          rbind (hex_arg pub_hex) (\<lambda>pub_bytes.
          case x_ed_verify x pub_bytes root_bytes sig_bytes of
            NaclOk \<Rightarrow> Inr \<lparr>br_valid = True, br_merkle_root_valid = True, br_signature_valid = True,
               br_proof_count = length proofs\<rparr>
          | NaclBadSignature \<Rightarrow> Inr \<lparr>br_valid = False, br_merkle_root_valid = True, br_signature_valid = False,
               br_proof_count = length proofs\<rparr>
          | NaclError \<Rightarrow> Inl (ValueError ''nacl'')))))))))))"

definition verify_batch_signature :: "ext \<Rightarrow> pyval \<Rightarrow> batch_result" where
  "verify_batch_signature x batch = (case check_batch x batch of Inr r \<Rightarrow> r | Inl _ \<Rightarrow> batch_error)"

subsection \<open>The standalone verifier\<close>

text \<open>
  Its own Merkle tree, line for line: \<open>range(0, len(current), 2)\<close>, the loop over it that appends to \<open>next_level\<close>, and
  the \<open>while\<close> loop, which appends the last element to an odd level.
\<close>

definition range_by_two :: "nat \<Rightarrow> nat list" where
  "range_by_two n = map (\<lambda>j. 2 * j) [0..<(n + 1) div 2]"

fun standalone_pairs :: "ext \<Rightarrow> string list \<Rightarrow> nat list \<Rightarrow> string list \<Rightarrow> string list res" where
  "standalone_pairs x current [] next_level = Inr next_level"
| "standalone_pairs x current (i # is) next_level =
     rbind (opt_res (ValueError ''fromhex'') (fromhex (current ! i))) (\<lambda>left.
     rbind (opt_res (ValueError ''fromhex'') (fromhex (current ! (i + 1)))) (\<lambda>right.
     standalone_pairs x current is (next_level @ [hexdigest x (left @ right)])))"

definition standalone_level :: "ext \<Rightarrow> string list \<Rightarrow> string list res" where
  "standalone_level x current =
     (let current = (if length current mod 2 = 1 then current @ [last current] else current)
      in standalone_pairs x current (range_by_two (length current)) [])"

lemma length_standalone_pairs:
  "standalone_pairs x current is acc = Inr ys \<Longrightarrow> length ys = length acc + length is"
  by (induction x current "is" acc rule: standalone_pairs.induct) auto

lemma length_standalone_level: "standalone_level x current = Inr ys \<Longrightarrow> length ys = (length current + 1) div 2"
  by (auto simp: standalone_level_def range_by_two_def Let_def dest!: length_standalone_pairs split: if_splits) presburger

function standalone_loop :: "ext \<Rightarrow> string list \<Rightarrow> string res" where
  "standalone_loop x current =
     (if 1 < length current
      then (case standalone_level x current of Inl e \<Rightarrow> Inl e | Inr next_level \<Rightarrow> standalone_loop x next_level)
      else (case current of [] \<Rightarrow> Inl (ValueError ''IndexError'') | c # _ \<Rightarrow> Inr c))"
  by pat_completeness auto
termination
  by (relation "measure (\<lambda>(x, current). length current)") (auto dest: length_standalone_level)

declare standalone_loop.simps [simp del]

definition standalone_leaves :: "ext \<Rightarrow> string list \<Rightarrow> string list" where
  "standalone_leaves x proof_ids =
     (let sorted_ids = sort proof_ids;
          leaves = map (\<lambda>pid. hexdigest x (utf8 pid)) sorted_ids
      in if length leaves = 1 then leaves @ leaves else leaves)"

definition build_merkle_root :: "ext \<Rightarrow> string list \<Rightarrow> string res" where
  "build_merkle_root x proof_ids =
     (if proof_ids = [] then Inr (replicate 64 (CHR ''0'')) else standalone_loop x (standalone_leaves x proof_ids))"

text \<open>The \<open>while\<close> loop of \<open>verify_proof_in_batch\<close>, which appends to \<open>path\<close>.\<close>

function standalone_path :: "ext \<Rightarrow> string list \<Rightarrow> nat \<Rightarrow> (string \<times> position) list \<Rightarrow> (string \<times> position) list res" where
  "standalone_path x current idx path =
     (if 1 < length current
      then (let padded = (if length current mod 2 = 1 then current @ [last current] else current);
                path = path @ [(padded ! flip1 idx, if idx mod 2 = 0 then PRight else PLeft)]
            in case standalone_level x current of
                 Inl e \<Rightarrow> Inl e
               | Inr next_level \<Rightarrow> standalone_path x next_level (idx div 2) path)
      else Inr path)"
  by pat_completeness auto
termination
  by (relation "measure (\<lambda>(x, current, idx, path). length current)") (auto dest: length_standalone_level)

declare standalone_path.simps [simp del]

text \<open>\<open>verify_inclusion_proof\<close> on a dictionary; every exception gives \<open>False\<close>.\<close>

fun walk_steps :: "ext \<Rightarrow> pyval \<Rightarrow> pyval list \<Rightarrow> pyval res" where
  "walk_steps x current [] = Inr current"
| "walk_steps x current (step # path) =
     rbind (item step ''hash'') (\<lambda>sibling.
     rbind (item step ''position'') (\<lambda>pos.
     rbind (hex_arg sibling) (\<lambda>s.
     rbind (hex_arg current) (\<lambda>c.
     walk_steps x (PyStr (hexdigest x (if pos = PyStr ''left'' then s @ c else c @ s))) path))))"

definition check_inclusion :: "ext \<Rightarrow> pyval \<Rightarrow> bool res" where
  "check_inclusion x proof =
     rbind (item proof ''leaf_hash'') (\<lambda>leaf_hash.
     rbind (item proof ''path'') (\<lambda>path_v.
     rbind (item proof ''root'') (\<lambda>root.
     rbind (get_item proof ''signed_root'' root) (\<lambda>signed_root.
     rbind (get_item proof ''signature'' (PyStr [])) (\<lambda>signature.
     rbind (get_item proof ''public_key'' (PyStr [])) (\<lambda>public_key.
     rbind (py_iter path_v) (\<lambda>path.
     rbind (walk_steps x leaf_hash path) (\<lambda>current.
     if current \<noteq> root then Inr False
     else if truthy signed_root \<and> current \<noteq> signed_root then Inr False
     else if truthy signature \<and> truthy public_key
     then rbind (hex_arg public_key) (\<lambda>pk. rbind (hex_arg root) (\<lambda>m. rbind (hex_arg signature) (\<lambda>s.
       if x_ed_verify x pk m s = NaclOk then Inr True else Inl (ValueError ''nacl''))))
     else Inr True))))))))"

definition verify_inclusion_dict :: "ext \<Rightarrow> pyval \<Rightarrow> bool" where
  "verify_inclusion_dict x proof = (case check_inclusion x proof of Inr b \<Rightarrow> b | Inl _ \<Rightarrow> False)"

text \<open>\<open>[p.get("proof_id") for p in proofs if p.get("proof_id")]\<close>\<close>

fun embedded_ids :: "pyval list \<Rightarrow> pyval list res" where
  "embedded_ids [] = Inr []"
| "embedded_ids (p # ps) =
     rbind (get_item p ''proof_id'' PyNone) (\<lambda>v.
     rbind (embedded_ids ps) (\<lambda>vs. Inr (if truthy v then v # vs else vs)))"

text \<open>The result: the three flags, the count and whether the failure is a missing signature.\<close>

datatype batch_failure = RootMismatch | SignatureMissing | SignatureInvalid

record standalone_result =
  sr_valid :: bool
  sr_merkle_root_valid :: bool
  sr_signature_valid :: bool
  sr_proof_count :: nat
  sr_failure :: "batch_failure option"

definition verify_batch :: "ext \<Rightarrow> pyval \<Rightarrow> standalone_result res" where
  "verify_batch x batch =
     rbind (get_item batch ''proofs'' (PyList [])) (\<lambda>proofs_v.
     rbind (py_iter proofs_v) (\<lambda>proofs.
     rbind (embedded_ids proofs) (\<lambda>vs.
     rbind (get_item batch ''merkle_root'' (PyStr [])) (\<lambda>stored_root.
     rbind (rbind (rmap_list as_str vs) (build_merkle_root x)) (\<lambda>computed_root.
     if PyStr computed_root \<noteq> stored_root
     then (if sliceable stored_root
           then Inr \<lparr>sr_valid = False, sr_merkle_root_valid = False, sr_signature_valid = False,
                  sr_proof_count = length vs, sr_failure = Some RootMismatch\<rparr>
           else Inl TypeError)
     else
       rbind (get_item batch ''merkle_signature'' (PyDict [])) (\<lambda>sig_block.
       rbind (get_item sig_block ''value'' (PyStr [])) (\<lambda>sig_value.
       rbind (get_item sig_block ''public_key'' (PyStr [])) (\<lambda>public_key.
       if \<not> truthy sig_value \<or> \<not> truthy public_key
       then Inr \<lparr>sr_valid = False, sr_merkle_root_valid = True, sr_signature_valid = False,
              sr_proof_count = length vs, sr_failure = Some SignatureMissing\<rparr>
       else
         (let ok = (case rbind (hex_arg public_key) (\<lambda>pk. rbind (hex_arg (PyStr computed_root)) (\<lambda>m.
                      rbind (hex_arg sig_value) (\<lambda>s. Inr (x_ed_verify x pk m s = NaclOk)))) of
                Inr b \<Rightarrow> b | Inl _ \<Rightarrow> False)
          in Inr \<lparr>sr_valid = ok, sr_merkle_root_valid = True, sr_signature_valid = ok,
               sr_proof_count = length vs, sr_failure = (if ok then None else Some SignatureInvalid)\<rparr>)))))))))"

definition path_step :: "string \<times> position \<Rightarrow> pyval" where
  "path_step p = PyDict [(KStr ''hash'', PyStr (fst p)),
     (KStr ''position'', PyStr (case snd p of PLeft \<Rightarrow> ''left'' | PRight \<Rightarrow> ''right''))]"

text \<open>\<open>verify_proof_in_batch\<close>: \<open>None\<close> when the id is not in the batch.\<close>

definition verify_proof_in_batch :: "ext \<Rightarrow> pyval \<Rightarrow> string \<Rightarrow> bool option res" where
  "verify_proof_in_batch x batch target =
     rbind (get_item batch ''proofs'' (PyList [])) (\<lambda>proofs_v.
     rbind (py_iter proofs_v) (\<lambda>proofs.
     rbind (embedded_ids proofs) (\<lambda>vs.
     if PyStr target \<notin> set vs then Inr None
     else
       rbind (get_item batch ''merkle_signature'' (PyDict [])) (\<lambda>sig_block.
       rbind (get_item batch ''merkle_root'' (PyStr [])) (\<lambda>root.
       rbind (rmap_list as_str vs) (\<lambda>proof_ids.
       let leaves = standalone_leaves x proof_ids; target_leaf = hexdigest x (utf8 target) in
       rbind (standalone_path x leaves (index_of target_leaf leaves) []) (\<lambda>path.
       rbind (get_item sig_block ''value'' (PyStr [])) (\<lambda>signature.
       rbind (get_item sig_block ''public_key'' (PyStr [])) (\<lambda>public_key.
       Inr (Some (verify_inclusion_dict x (PyDict [(KStr ''leaf_hash'', PyStr target_leaf),
         (KStr ''path'', PyList (map path_step path)), (KStr ''root'', root), (KStr ''signed_root'', root),
         (KStr ''signature'', signature), (KStr ''public_key'', public_key)]))))))))))))"

subsection \<open>The two Merkle trees agree\<close>

text \<open>The loop over the even indices of a list of even length is the recursion over its pairs.\<close>

lemma standalone_pairs_eq:
  assumes "even (length xs)"
  shows "standalone_pairs x (pre @ xs) (map (\<lambda>j. length pre + 2 * j) [0..<length xs div 2]) acc =
    rbind (pair_level x xs) (\<lambda>ys. Inr (acc @ ys))"
  using assms
proof (induction x xs arbitrary: pre acc rule: pair_level.induct)
  case (1 x l r rest)
  have u: "map (\<lambda>j. length pre + 2 * j) [0..<length (l # r # rest) div 2] =
      length pre # map (\<lambda>j. length (pre @ [l, r]) + 2 * j) [0..<length rest div 2]"
  proof -
    have "[0..<Suc (length rest div 2)] = 0 # map Suc [0..<length rest div 2]" by (metis map_Suc_upt upt_conv_Cons zero_less_Suc)
    then show ?thesis by (simp add: comp_def del: upt_Suc)
  qed
  have n: "(pre @ l # r # rest) ! length pre = l" "(pre @ l # r # rest) ! Suc (length pre) = r"
    by (simp_all add: nth_append)
  have IH: "standalone_pairs x ((pre @ [l, r]) @ rest) (map (\<lambda>j. length (pre @ [l, r]) + 2 * j) [0..<length rest div 2]) acc' =
      rbind (pair_level x rest) (\<lambda>ys. Inr (acc' @ ys))" if "fromhex l = Some a" "fromhex r = Some b" for a b acc'
    by (rule 1(1)) (use 1(2) that in \<open>simp_all add: opt_res_def\<close>)
  show ?case
  proof (cases "fromhex l")
    case (Some a)
    show ?thesis
    proof (cases "fromhex r")
      case (Some b)
      show ?thesis unfolding u using IH [OF \<open>fromhex l = Some a\<close> Some, of "acc @ [hexdigest x (a @ b)]"] \<open>fromhex l = Some a\<close> Some n
        by (cases "pair_level x rest") (simp_all add: opt_res_def)
    qed (unfold u, simp add: n Some opt_res_def)
  qed (unfold u, simp add: n opt_res_def)
qed auto

lemma standalone_level_eq: "standalone_level x current = pair_level x (pad_even current)"
proof -
  let ?c = "pad_even current"
  have e: "even (length ?c)" by (simp add: pad_even_def)
  then have "(length ?c + 1) div 2 = length ?c div 2" by presburger
  then have "standalone_pairs x ?c (range_by_two (length ?c)) [] = pair_level x ?c"
    using standalone_pairs_eq [OF e, of x "[]" "[]"] by (cases "pair_level x ?c") (simp_all add: range_by_two_def del: length_pad_even)
  then show ?thesis unfolding standalone_level_def pad_even_def odd_iff_mod_2_eq_one Let_def by simp
qed

lemma standalone_loop_eq: "standalone_loop x current = rbind (merkle_loop x current) (\<lambda>(root, levels). Inr root)"
proof (induction x current rule: standalone_loop.induct)
  case (1 x current)
  show ?case
  proof (cases "1 < length current")
    case True
    then obtain c d r where c: "current = c # d # r" by (cases current rule: list.exhaust; cases "tl current") auto
    show ?thesis using 1 [OF True] True
      unfolding standalone_loop.simps [of x current] merkle_loop.simps [of x current] standalone_level_eq
      by (auto simp: c split: sum.splits)
  next
    case False
    then show ?thesis by (cases current) (auto simp: standalone_loop.simps merkle_loop.simps)
  qed
qed

lemma standalone_leaves_eq: "standalone_leaves x ids = leaf_hashes x ids"
  by (simp add: standalone_leaves_def leaf_hashes_def Let_def)

lemma build_merkle_root_eq: "build_merkle_root x ids = merkle_root x ids"
  unfolding build_merkle_root_def merkle_root_def build_merkle_tree_def Let_def standalone_loop_eq standalone_leaves_eq
  by (cases "merkle_loop x (leaf_hashes x ids)") auto

lemma standalone_path_eq:
  "current \<noteq> [] \<Longrightarrow> standalone_path x current idx path = rbind (path_loop x current idx) (\<lambda>(p, root). Inr (path @ p))"
proof (induction x current idx path rule: standalone_path.induct)
  case (1 x current idx path)
  show ?case
  proof (cases "1 < length current")
    case True
    then obtain c d r where c: "current = c # d # r" by (cases current rule: list.exhaust; cases "tl current") auto
    have p: "(if length current mod 2 = 1 then current @ [last current] else current) = pad_even current"
      by (simp add: pad_even_def odd_iff_mod_2_eq_one)
    show ?thesis
    proof (cases "pair_level x (pad_even current)")
      case (Inr next_level)
      then have "next_level \<noteq> []" using length_pair_level [OF Inr] True by auto
      then have "standalone_path x next_level (idx div 2) (path @ [(pad_even current ! flip1 idx, if idx mod 2 = 0 then PRight else PLeft)]) =
          rbind (path_loop x next_level (idx div 2)) (\<lambda>(p, root). Inr ((path @ [(pad_even current ! flip1 idx, if even idx then PRight else PLeft)]) @ p))"
        using 1(1) [OF True refl refl, of next_level, unfolded p standalone_level_eq, OF Inr] by (simp add: even_iff_mod_2_eq_zero)
      then show ?thesis using True
        unfolding standalone_path.simps [of x current] path_loop.simps [of x current] standalone_level_eq Let_def p
        by (cases "path_loop x next_level (idx div 2)") (auto simp: c Inr [unfolded c] split: prod.splits)
    qed (simp add: standalone_path.simps [of x "c # d # r"] path_loop.simps [of x "c # d # r"] standalone_level_eq Let_def c)
  next
    case False
    with 1(2) show ?thesis by (cases current) (auto simp: standalone_path.simps path_loop.simps)
  qed
qed

text \<open>What holds of the leaves and is kept by hashing two nodes holds of the root.\<close>

lemma mroot_pred:
  assumes "\<And>a b. P a \<Longrightarrow> P b \<Longrightarrow> P (H (a @ b))" "ls \<noteq> []" "\<forall>b\<in>set ls. P b"
  shows "P (mroot H ls)"
  using assms
proof (induction H ls rule: mroot.induct)
  case (1 H xs)
  show ?case
  proof (cases "length xs \<le> 1")
    case True
    with "1.prems" show ?thesis by (simp add: mroot.simps [of _ xs])
  next
    case False
    have "P b" if "b \<in> set (pairs H (pad_even xs))" for b
    proof -
      have "b \<in> H ` set (pair_messages (pad_even xs))" using that unfolding pairs_messages set_map .
      then obtain m where m: "b = H m" "m \<in> set (pair_messages (pad_even xs))" by blast
      obtain u v where "m = u @ v" "u \<in> set xs" "v \<in> set xs" using pair_messages_elem [OF m(2)] by auto
      with m(1) "1.prems"(1,3) show ?thesis by blast
    qed
    with "1.IH" [OF False "1.prems"(1) pairs_not_Nil [OF False]] False show ?thesis by (simp add: mroot.simps [of _ xs])
  qed
qed

lemma mroot_length:
  "digest_ok x \<Longrightarrow> ls \<noteq> [] \<Longrightarrow> \<forall>b\<in>set ls. length b = 32 \<Longrightarrow> length (mroot (x_sha256 x) ls) = 32"
  by (rule mroot_pred [where P = "\<lambda>b. length b = 32"]) (simp_all add: digest_ok_length)

lemma merkle_root_bytes:
  assumes "digest_ok x"
  obtains m where "merkle_root x ids = Inr (hex m)" "length m = 32"
proof (cases "ids = []")
  case True
  then show thesis
    using that [of genesis_bytes] hex_genesis_bytes by (simp add: merkle_root_def build_merkle_tree_def genesis_bytes_def)
next
  case False
  then have "leaf_bytes x ids \<noteq> []" using leaf_bytes_elems [of x ids] by auto
  then show thesis
    using that merkle_root_eq [OF False] mroot_length [OF assms] leaf_bytes_length32 [OF assms] by blast
qed

lemma merkle_root_perm: "mset ids = mset js \<Longrightarrow> merkle_root x ids = merkle_root x js"
proof -
  assume m: "mset ids = mset js"
  then have "sort ids = sort js" by (metis mset_sort properties_for_sort sorted_sort)
  moreover have "ids = [] \<longleftrightarrow> js = []" using m by (metis mset_zero_iff)
  ultimately show ?thesis by (simp add: merkle_root_def build_merkle_tree_def leaf_hashes_def)
qed

subsection \<open>Inclusion proofs as dictionaries\<close>

text \<open>The dictionary of an inclusion proof, as \<open>dataclasses.asdict\<close> gives it.\<close>

definition inclusion_dict :: "inclusion_proof \<Rightarrow> pyval" where
  "inclusion_dict p = PyDict [(KStr ''leaf_hash'', PyStr (ip_leaf_hash p)),
     (KStr ''leaf_index'', PyInt (int (ip_leaf_index p))), (KStr ''path'', PyList (map path_step (ip_path p))),
     (KStr ''root'', PyStr (ip_root p)), (KStr ''signed_root'', PyStr (ip_signed_root p)),
     (KStr ''signature'', PyStr (ip_signature p)), (KStr ''public_key'', PyStr (ip_public_key p)),
     (KStr ''key_id'', PyStr (ip_key_id p)), (KStr ''valid'', PyBool True)]"

lemma path_step_items [simp]:
  "item (path_step (s, pos)) ''hash'' = Inr (PyStr s)"
  "item (path_step (s, pos)) ''position'' = Inr (PyStr (case pos of PLeft \<Rightarrow> ''left'' | PRight \<Rightarrow> ''right''))"
  by (simp_all add: path_step_def item_def)

lemma walk_steps_eq:
  "walk_steps x (PyStr c) (map path_step path) =
     (case walk_path x c path of Some r \<Rightarrow> Inr (PyStr r) | None \<Rightarrow> Inl (ValueError ''fromhex''))"
proof (induction path arbitrary: c)
  case (Cons p path)
  obtain s pos where p: "p = (s, pos)" by (cases p)
  show ?case
    by (cases pos; cases "fromhex s"; cases "fromhex c")
      (simp_all add: p hex_arg_def as_str_def Cons.IH)
qed simp

lemma verify_inclusion_dict_eq: "verify_inclusion_dict x (inclusion_dict p) = verify_inclusion_proof x p"
proof (cases "walk_path x (ip_leaf_hash p) (ip_path p)")
  case None
  then show ?thesis
    by (simp add: verify_inclusion_dict_def check_inclusion_def verify_inclusion_proof_def inclusion_dict_def
        item_def get_item_def dget_or_def py_iter_def walk_steps_eq)
next
  case (Some r)
  then show ?thesis
    by (auto simp: verify_inclusion_dict_def check_inclusion_def verify_inclusion_proof_def inclusion_dict_def
        item_def get_item_def dget_or_def py_iter_def walk_steps_eq hex_arg_def as_str_def split: option.splits)
qed

subsection \<open>Batches of the engine\<close>

lemma stored_proof_value:
  assumes "pydantic_ok x" "stored_proof x r p" "json_loads (lr_proof_json r) = Some v"
  shows "get_item v ''proof_id'' PyNone = Inr PyNone"
    "batch_proof_id x v = Inr (compute_proof_id x (lr_current_hash r) (lr_sequence_id r))"
proof -
  have w: "json_proof p" "lr_current_hash r = l_current_hash (p_ledger p)" "lr_sequence_id r = l_sequence_id (p_ledger p)"
    using assms(2) unfolding stored_proof_def by blast+
  obtain pd c where d: "dump_proof x p = Inr pd" "plain pd" "wf_val pd"
    "pd = PyDict [(KStr ''type'', PyStr (p_type p)), (KStr ''instance_id'', PyStr (p_instance_id p)),
       (KStr ''decision'', dump_decision (p_decision p)), (KStr ''decision_context'', c),
       (KStr ''governance'', dump_governance (p_governance p)),
       (KStr ''determinism'', dump_determinism (p_determinism p)),
       (KStr ''ledger'', dump_ledger (p_ledger p)), (KStr ''signature'', dump_signature (p_signature p))]"
    using dump_proof_json [OF assms(1) w(1)] by metis
  have j: "lr_proof_json r = emit False (norm pd)" using assms(2) d(1) unfolding stored_proof_def by auto
  have "json_loads (lr_proof_json r) = Some (norm pd)"
    unfolding j by (rule json_loads_emit) (simp_all add: d(2,3) del: norm.simps)
  then have v: "v = norm pd" using assms(3) by simp
  show g: "get_item v ''proof_id'' PyNone = Inr PyNone"
    unfolding v d(4) norm_PyDict by (simp add: get_item_def dget_or_def dget_norm_items del: norm.simps(3))
  have "item v ''ledger'' = Inr (norm (dump_ledger (p_ledger p)))"
    unfolding v d(4) norm_PyDict by (simp add: item_def dget_norm_items del: norm.simps(3))
  moreover have "item (norm (dump_ledger (p_ledger p))) ''current_hash'' = Inr (PyStr (lr_current_hash r))"
    "item (norm (dump_ledger (p_ledger p))) ''sequence_id'' = Inr (PyInt (lr_sequence_id r))"
    unfolding dump_ledger_def norm_PyDict w(2,3) by (simp_all add: item_def dget_norm_items del: norm.simps(3))
  ultimately show "batch_proof_id x v = Inr (compute_proof_id x (lr_current_hash r) (lr_sequence_id r))"
    by (simp add: batch_proof_id_def g derive_proof_id_def py_str_def compute_proof_id_def)
qed

text \<open>The values read from rows that all hold proofs.\<close>

lemma stored_values:
  assumes "pydantic_ok x" "\<forall>r\<in>set rs. \<exists>p. stored_proof x r p"
  obtains vs where "List.map_filter (\<lambda>r. json_loads (lr_proof_json r)) rs = vs" "length vs = length rs"
    "rmap_list (batch_proof_id x) vs = Inr (map (\<lambda>r. compute_proof_id x (lr_current_hash r) (lr_sequence_id r)) rs)"
    "embedded_ids vs = Inr []"
  using assms(2)
proof (induction rs arbitrary: thesis)
  case Nil
  then show ?case by (simp add: map_filter_simps)
next
  case (Cons r rs)
  obtain vs where vs: "List.map_filter (\<lambda>r. json_loads (lr_proof_json r)) rs = vs" "length vs = length rs"
    "rmap_list (batch_proof_id x) vs = Inr (map (\<lambda>r. compute_proof_id x (lr_current_hash r) (lr_sequence_id r)) rs)"
    "embedded_ids vs = Inr []"
    using Cons.IH Cons.prems(2) by (metis list.set_intros(2))
  obtain p where p: "stored_proof x r p" using Cons.prems(2) by auto
  obtain v where v: "json_loads (lr_proof_json r) = Some v" using stored_proof_read [OF assms(1) p] by metis
  show ?case
    by (rule Cons.prems(1) [of "v # vs"])
      (use vs v stored_proof_value [OF assms(1) p v] in \<open>simp_all add: map_filter_simps\<close>)
qed

lemma facade_rows:
  assumes "facade_ok x W f"
  shows "\<forall>r\<in>set (db_ledger (f_db f)). (\<exists>p. stored_proof x r p) \<and> lr_tenant_id r = ''default''"
  using assms unfolding facade_ok_def engine_ok_def memory_ok_def f_db_def by blast

lemma fetch_proofs_facade:
  assumes "pydantic_ok x" "facade_ok x W f"
  obtains rs vs where "fetch_proofs (f_db f) ''default'' None None = vs" "length vs = length (db_ledger (f_db f))"
    "mset rs = mset (db_ledger (f_db f))"
    "rmap_list (batch_proof_id x) vs = Inr (map (\<lambda>r. compute_proof_id x (lr_current_hash r) (lr_sequence_id r)) rs)"
    "embedded_ids vs = Inr []"
proof -
  let ?rs = "sort_key (\<lambda>r. (lr_instance_id r, lr_sequence_id r)) (db_ledger (f_db f))"
  note rows = facade_rows [OF assms(2)]
  have "filter (\<lambda>r. lr_tenant_id r = ''default'') (db_ledger (f_db f)) = db_ledger (f_db f)"
    using rows by (simp add: filter_id_conv)
  then have f: "fetch_proofs (f_db f) ''default'' None None = List.map_filter (\<lambda>r. json_loads (lr_proof_json r)) ?rs"
    by (simp add: fetch_proofs_def or_empty_def)
  have "\<forall>r\<in>set ?rs. \<exists>p. stored_proof x r p" using rows by simp
  from stored_values [OF assms(1) this] obtain vs where
    "List.map_filter (\<lambda>r. json_loads (lr_proof_json r)) ?rs = vs" "length vs = length ?rs"
    "rmap_list (batch_proof_id x) vs = Inr (map (\<lambda>r. compute_proof_id x (lr_current_hash r) (lr_sequence_id r)) ?rs)"
    "embedded_ids vs = Inr []" by blast
  with f that [of vs ?rs] show thesis by simp
qed

text \<open>A signer that gave its public key gives it again.\<close>

lemma public_key_again:
  "get_public_key x w s = (Inr pk, s') \<Longrightarrow> signer_ok x W s \<Longrightarrow> w \<in> W \<Longrightarrow> \<exists>s''. get_public_key x w s' = (Inr pk, s'')"
proof (induction s arbitrary: s')
  case (SKms k)
  then obtain k' where k: "kms_get_public_key w k = (Inr pk, k')" "s' = SKms k'" by (auto simp: Let_def split: prod.splits)
  have "pk \<noteq> []" using signer_ok_public_text [OF SKms.prems(2,3,1)] by (auto simp: lower_hex_def)
  then have "ks_public_key_cache k' = Some pk"
    using k(1) by (auto simp: kms_get_public_key_def Let_def split: option.splits list.splits sum.splits if_splits)
  then show ?case using k(2) \<open>pk \<noteq> []\<close>
    by (auto simp: kms_get_public_key_def Let_def split: list.splits)
next
  case (SFailover p f st)
  from public_key_max [OF SFailover.prems(1)] obtain p' f' where s: "s' = SFailover p' f' st"
    "if fs_primary_healthy st then get_public_key x w p = (Inr pk, p') \<and> f' = f
     else get_public_key x w f = (Inr pk, f') \<and> p' = p" by blast
  then show ?case
    using SFailover.IH(1) [of p'] SFailover.IH(2) [of f'] SFailover.prems(2,3)
    by (cases "fs_primary_healthy st") fastforce+
qed auto

lemma build_batch_cases:
  assumes "build_batch_export x w now s t a b sg = (Inr (d, root, n), sg')"
  obtains m sig sg1 pk1 sg2 pk2 where "batch_root x (fetch_proofs s t a b) = Inr root" "fromhex root = Some m"
    "sign_hash x w sg m = (Inr sig, sg1)" "get_public_key x w sg1 = (Inr pk1, sg2)" "get_public_key x w sg2 = (Inr pk2, sg')"
    "d = batch_dict t a b now (fetch_proofs s t a b) root sig (pk1, get_key_id x sg2) (pk2, get_key_id x sg')"
    "n = length (fetch_proofs s t a b)"
  using assms unfolding build_batch_export_def Let_def
  by (auto split: sum.splits prod.splits option.splits)

lemma batch_dict_items:
  "get_item (batch_dict t a b now ps root sig k1 k2) ''proofs'' v = Inr (PyList ps)"
  "get_item (batch_dict t a b now ps root sig k1 k2) ''merkle_root'' v = Inr (PyStr root)"
  "get_item (batch_dict t a b now ps root sig k1 k2) ''merkle_signature'' v =
     Inr (PyDict [(KStr ''value'', PyStr sig), (KStr ''public_key'', PyStr (fst k1)), (KStr ''key_id'', PyStr (snd k1)),
       (KStr ''algorithm'', PyStr ''Ed25519''), (KStr ''signed_at'', PyStr now)])"
  by (simp_all add: batch_dict_def get_item_def dget_or_def)

lemma build_batch_facade:
  assumes "pydantic_ok x" "digest_ok x" "facade_ok x W f" "w \<in> W" "signer_available x w (e_signer (f_engine f))"
  obtains d m sg' where "build_batch_export x w now (f_db f) ''default'' None None (e_signer (f_engine f)) =
      (Inr (d, hex m, length (db_ledger (f_db f))), sg')"
    "merkle_root x (map (\<lambda>r. compute_proof_id x (lr_current_hash r) (lr_sequence_id r)) (db_ledger (f_db f))) = Inr (hex m)"
proof -
  let ?id = "\<lambda>r. compute_proof_id x (lr_current_hash r) (lr_sequence_id r)"
  obtain rs vs where v: "fetch_proofs (f_db f) ''default'' None None = vs" "length vs = length (db_ledger (f_db f))"
    "mset rs = mset (db_ledger (f_db f))" "rmap_list (batch_proof_id x) vs = Inr (map ?id rs)"
    by (rule fetch_proofs_facade [OF assms(1,3)])
  obtain m where m: "merkle_root x (map ?id rs) = Inr (hex m)" "length m = 32"
    using merkle_root_bytes [OF assms(2)] by blast
  have p: "merkle_root x (map ?id (db_ledger (f_db f))) = Inr (hex m)"
    using m(1) merkle_root_perm [of "map ?id rs" "map ?id (db_ledger (f_db f))" x] v(3) by simp
  obtain sig s1 pk s2 where g: "sign_hash x w (e_signer (f_engine f)) m = (Inr sig, s1)" "get_public_key x w s1 = (Inr pk, s2)"
    using assms(5) m(2) unfolding signer_available_def by blast
  have "signer_ok x W (e_signer (f_engine f))" using assms(3) unfolding facade_ok_def engine_ok_def by blast
  from public_key_again [OF g(2) signer_ok_sign [OF this assms(4) g(1)] assms(4)]
  obtain s3 where s3: "get_public_key x w s2 = (Inr pk, s3)" by blast
  show thesis
    by (rule that [OF _ p]) (simp add: build_batch_export_def batch_root_def v(1,2,4) m(1) g s3)
qed

text \<open>The sample engine after its transition, and that its batch has no all-zero root.\<close>

lemma sample_ledger:
  obtains f where "facade_reach sample_ext {sample_world} sample_signer f" "db_ledger (f_db f) \<noteq> []"
    "signer_available sample_ext sample_world (e_signer (f_engine f))"
proof -
  obtain f where f: "length (get_ledger_chain (f_db f) ''i'' ''default'') = 1"
    "facade_reach sample_ext {sample_world} sample_signer f" "e_signer (f_engine f) = sample_signer"
    by (rule sample_exported)
  have "db_ledger (f_db f) \<noteq> []" using f(1) by (auto simp: get_ledger_chain_def)
  moreover have "signer_available sample_ext sample_world (e_signer (f_engine f))"
    by (simp add: f(3) sample_signer_def env_available)
  ultimately show thesis using that f(2) by blast
qed

lemma lower_hex_utf8: "lower_hex n v \<Longrightarrow> length (utf8 v) = n \<and> 0 \<notin> set (utf8 v)"
proof (induction v arbitrary: n)
  case (Cons c v)
  then have "lower_hex (n - 1) v" "lower_hex_char c" "n = Suc (n - 1)" by (auto simp: lower_hex_def)
  moreover from this(2) have "utf8_char c = [word_of_nat (cp c)]" "cp c < 256" "cp c \<noteq> 0"
    by (auto simp: lower_hex_char_def utf8_char_def Let_def)
  moreover from this(2,3) have "(word_of_nat (cp c) :: byte) \<noteq> 0" by (metis unat_0 unat_byte)
  ultimately show ?case using Cons.IH [of "n - 1"] by (auto simp: utf8_Cons)
qed (simp add: lower_hex_def)

lemma sample_sha_nonzero: "32 \<le> length m \<Longrightarrow> 0 \<notin> set m \<Longrightarrow> 0 \<notin> set (x_sha256 sample_ext m)"
  by (auto simp: sample_ext_def pad32_def dest: in_set_takeD)

lemma sample_root_nonzero:
  assumes "ids \<noteq> []" "\<forall>i\<in>set ids. lower_hex 64 i" "merkle_root sample_ext ids = Inr (hex m)"
  shows "hex m \<noteq> replicate 64 (CHR ''0'')"
proof -
  let ?P = "\<lambda>b :: bytes. length b = 32 \<and> 0 \<notin> set b"
  have "\<forall>b\<in>set (leaf_bytes sample_ext ids). ?P b"
    using assms(2) lower_hex_utf8 sample_sha_nonzero by (fastforce simp: leaf_bytes_elems digest_ok_length)
  moreover have "leaf_bytes sample_ext ids \<noteq> []" using assms(1) leaf_bytes_elems [of sample_ext ids] by auto
  moreover have "?P (x_sha256 sample_ext (a @ b))" if "?P a" "?P b" for a b
    using that sample_sha_nonzero [of "a @ b"] by (simp add: digest_ok_length)
  ultimately have "?P (mroot (x_sha256 sample_ext) (leaf_bytes sample_ext ids))"
    by (intro mroot_pred [where P = ?P]) auto
  then have "?P m" using assms(1,3) merkle_root_eq [OF assms(1)] by simp
  then have "m \<noteq> genesis_bytes" by (auto simp: genesis_bytes_def)
  then show ?thesis unfolding hex_genesis_bytes [symmetric] by simp
qed

lemma sample_batch:
  assumes "facade_ok sample_ext {sample_world} f" "db_ledger (f_db f) \<noteq> []"
    and "signer_available sample_ext sample_world (e_signer (f_engine f))"
  obtains d root n sg' where "build_batch_export sample_ext sample_world ''now'' (f_db f) ''default'' None None (e_signer (f_engine f)) =
    (Inr (d, root, n), sg')" "root \<noteq> replicate 64 (CHR ''0'')" "0 < n"
proof -
  let ?ids = "map (\<lambda>r. compute_proof_id sample_ext (lr_current_hash r) (lr_sequence_id r)) (db_ledger (f_db f))"
  obtain d m sg' where b: "build_batch_export sample_ext sample_world ''now'' (f_db f) ''default'' None None (e_signer (f_engine f)) =
      (Inr (d, hex m, length (db_ledger (f_db f))), sg')" "merkle_root sample_ext ?ids = Inr (hex m)"
    by (rule build_batch_facade [OF sample_ext_ok(3,1) assms(1) _ assms(3)]) simp
  have "\<forall>i\<in>set ?ids. lower_hex 64 i" by (auto simp: compute_proof_id_def hexdigest_lower_hex)
  with assms(2) b(2) have "hex m \<noteq> replicate 64 (CHR ''0'')" by (intro sample_root_nonzero [of ?ids]) simp_all
  with b(1) assms(2) that show thesis by auto
qed

subsection \<open>Properties\<close>

text \<open>
  C17: What \<open>build_batch_export\<close> exports verifies: \<open>verify_batch_signature\<close> accepts the batch, with all its
  proofs counted, whatever the ledger holds and for every signer that keeps the signature contract.
\<close>

theorem batch_export_verifies:
  assumes "signer_ok x W sg" "w \<in> W" "build_batch_export x w now s t a b sg = (Inr (d, root, n), sg')"
  shows "verify_batch_signature x d =
    \<lparr>br_valid = True, br_merkle_root_valid = True, br_signature_valid = True, br_proof_count = n\<rparr>"
proof -
  let ?ps = "fetch_proofs s t a b"
  obtain m sig sg1 pk1 sg2 pk2 where r: "batch_root x ?ps = Inr root" "fromhex root = Some m"
    "sign_hash x w sg m = (Inr sig, sg1)" "get_public_key x w sg1 = (Inr pk1, sg2)"
    "d = batch_dict t a b now ?ps root sig (pk1, get_key_id x sg2) (pk2, get_key_id x sg')" "n = length ?ps"
    using assms(3) by (rule build_batch_cases)
  have "verify_ed25519 x pk1 m sig" using signer_ok_sign_pub [OF assms(1,2) r(3,4)] .
  then obtain q u where "fromhex pk1 = Some q" "fromhex sig = Some u" "x_ed_verify x q m u = NaclOk"
    by (auto simp: verify_ed25519_def split: option.splits)
  with r(1,2) have "check_batch x d = Inr \<lparr>br_valid = True, br_merkle_root_valid = True, br_signature_valid = True,
      br_proof_count = length ?ps\<rparr>"
    unfolding check_batch_def r(5)
    by (simp add: batch_dict_items get_item_def [of "PyDict _"] dget_or_def py_iter_def hex_arg_def as_str_def)
  then show ?thesis by (simp add: verify_batch_signature_def r(6))
qed

theorem batch_export_verifies_witness:
  "\<exists>f d root n sg'. build_batch_export sample_ext sample_world ''now'' (f_db f) ''default'' None None (e_signer (f_engine f)) =
     (Inr (d, root, n), sg') \<and> 0 < n \<and> br_valid (verify_batch_signature sample_ext d)"
proof -
  obtain f where f: "facade_reach sample_ext {sample_world} sample_signer f" "db_ledger (f_db f) \<noteq> []"
    "signer_available sample_ext sample_world (e_signer (f_engine f))" by (rule sample_ledger)
  have ok: "facade_ok sample_ext {sample_world} f" using facade_ok_reach [OF _ _ _ f(1)] by simp
  then have s: "signer_ok sample_ext {sample_world} (e_signer (f_engine f))" unfolding facade_ok_def engine_ok_def by blast
  obtain d root n sg' where b: "build_batch_export sample_ext sample_world ''now'' (f_db f) ''default'' None None (e_signer (f_engine f)) =
      (Inr (d, root, n), sg')" "0 < n"
    by (rule sample_batch [OF ok f(2,3)])
  have "br_valid (verify_batch_signature sample_ext d)" using batch_export_verifies [OF s _ b(1)] by simp
  with b show ?thesis by blast
qed

text \<open>
  C18: A batch of the engine's ledger covers every recorded decision: from every reachable state the export
  succeeds when the signer answers, it contains as many proofs as the ledger has rows, and its Merkle root is the
  root over the proof ids of exactly these rows.
\<close>

theorem batch_covers_ledger:
  assumes "pydantic_ok x" "digest_ok x" "signer_ok x W sg" "facade_reach x W sg f" "w \<in> W"
    and "signer_available x w (e_signer (f_engine f))"
  shows "\<exists>d root sg'. build_batch_export x w now (f_db f) ''default'' None None (e_signer (f_engine f)) =
      (Inr (d, root, length (db_ledger (f_db f))), sg') \<and>
    merkle_root x (map (\<lambda>r. compute_proof_id x (lr_current_hash r) (lr_sequence_id r)) (db_ledger (f_db f))) = Inr root"
proof -
  have "facade_ok x W f" using facade_ok_reach [OF assms(1-3)] assms(4) .
  then obtain d m sg' where "build_batch_export x w now (f_db f) ''default'' None None (e_signer (f_engine f)) =
      (Inr (d, hex m, length (db_ledger (f_db f))), sg')"
    "merkle_root x (map (\<lambda>r. compute_proof_id x (lr_current_hash r) (lr_sequence_id r)) (db_ledger (f_db f))) = Inr (hex m)"
    by (rule build_batch_facade [OF assms(1,2) _ assms(5,6)])
  then show ?thesis by blast
qed

theorem batch_covers_ledger_witness:
  "\<exists>f d root sg'. facade_reach sample_ext {sample_world} sample_signer f \<and> db_ledger (f_db f) \<noteq> [] \<and>
     build_batch_export sample_ext sample_world ''now'' (f_db f) ''default'' None None (e_signer (f_engine f)) =
       (Inr (d, root, length (db_ledger (f_db f))), sg')"
proof -
  obtain f where f: "facade_reach sample_ext {sample_world} sample_signer f" "db_ledger (f_db f) \<noteq> []"
    "signer_available sample_ext sample_world (e_signer (f_engine f))" by (rule sample_ledger)
  from batch_covers_ledger [OF _ _ _ f(1) _ f(3), of "''now''"] f(1,2) show ?thesis by fastforce
qed

text \<open>
  The standalone verifier does not accept these batches: the proofs that the engine records carry no
  \<open>proof_id\<close>, \<open>verify_batch\<close> skips them all, and so it reports a root mismatch for a batch with any
  decision in it whose Merkle root is not the all-zero text.
\<close>

theorem standalone_rejects_engine_batch:
  assumes "pydantic_ok x" "digest_ok x" "signer_ok x W sg" "facade_reach x W sg f"
    and "build_batch_export x w now (f_db f) ''default'' None None sg0 = (Inr (d, root, n), sg')"
    and "root \<noteq> replicate 64 (CHR ''0'')"
  shows "verify_batch x d = Inr \<lparr>sr_valid = False, sr_merkle_root_valid = False, sr_signature_valid = False,
    sr_proof_count = 0, sr_failure = Some RootMismatch\<rparr>"
proof -
  have ok: "facade_ok x W f" using facade_ok_reach [OF assms(1-3)] assms(4) .
  obtain vs where v: "fetch_proofs (f_db f) ''default'' None None = vs" "embedded_ids vs = Inr []"
    using fetch_proofs_facade [OF assms(1) ok] by metis
  obtain sig k1 k2 where d: "d = batch_dict ''default'' None None now vs root sig k1 k2"
    using assms(5) by (rule build_batch_cases) (simp add: v(1))
  show ?thesis
    unfolding verify_batch_def d using assms(6)
    by (simp add: batch_dict_items py_iter_def v(2) build_merkle_root_def sliceable_def)
qed

theorem standalone_rejects_engine_batch_witness:
  "\<exists>f d root n sg'. build_batch_export sample_ext sample_world ''now'' (f_db f) ''default'' None None (e_signer (f_engine f)) =
       (Inr (d, root, n), sg') \<and> 0 < n \<and>
     (\<exists>r. verify_batch sample_ext d = Inr r \<and> \<not> sr_valid r \<and> sr_proof_count r = 0)"
proof -
  obtain f where f: "facade_reach sample_ext {sample_world} sample_signer f" "db_ledger (f_db f) \<noteq> []"
    "signer_available sample_ext sample_world (e_signer (f_engine f))" by (rule sample_ledger)
  have ok: "facade_ok sample_ext {sample_world} f" using facade_ok_reach [OF _ _ _ f(1)] by simp
  obtain d root n sg' where b: "build_batch_export sample_ext sample_world ''now'' (f_db f) ''default'' None None (e_signer (f_engine f)) =
      (Inr (d, root, n), sg')" "root \<noteq> replicate 64 (CHR ''0'')" "0 < n"
    by (rule sample_batch [OF ok f(2,3)])
  from standalone_rejects_engine_batch [OF _ _ _ f(1) b(1,2)] b(1,3) show ?thesis by fastforce
qed

text \<open>
  C19: The standalone verifier and the library agree on the rest, each translated from its own lines: for every list of ids they
  compute the same Merkle root; for an id of the list the script computes the path that the library's inclusion proof has;
  and an inclusion proof written as a dictionary is accepted by the one exactly when the other accepts it.
\<close>

theorem standalone_agrees:
  "build_merkle_root x ids = merkle_root x ids \<and>
   (target \<in> set ids \<longrightarrow>
     standalone_path x (standalone_leaves x ids) (index_of (hexdigest x (utf8 target)) (standalone_leaves x ids)) [] =
       rbind (compute_inclusion_proof x ids target batch) (\<lambda>p. Inr (ip_path p))) \<and>
   verify_inclusion_dict x (inclusion_dict p) = verify_inclusion_proof x p"
proof -
  let ?l = "leaf_hashes x ids"
  have "standalone_path x ?l (index_of (hexdigest x (utf8 target)) ?l) [] =
      rbind (compute_inclusion_proof x ids target batch) (\<lambda>p. Inr (ip_path p))" if "target \<in> set ids"
  proof -
    have ne: "ids \<noteq> []" using that by auto
    then have "sort ids \<noteq> []" by (metis length_0_conv length_sort)
    then have "?l \<noteq> []" by (simp add: leaf_hashes_def Let_def)
    from standalone_path_eq [OF this] that ne show ?thesis
      by (cases "path_loop x ?l (index_of (hexdigest x (utf8 target)) ?l)")
        (auto simp: compute_inclusion_proof_def Let_def split: prod.splits option.splits)
  qed
  then show ?thesis using build_merkle_root_eq verify_inclusion_dict_eq unfolding standalone_leaves_eq by blast
qed

theorem standalone_agrees_witness:
  "standalone_path sample_ext (standalone_leaves sample_ext [''a'', ''b'', ''c''])
     (index_of (hexdigest sample_ext (utf8 ''b'')) (standalone_leaves sample_ext [''a'', ''b'', ''c''])) [] =
   rbind (compute_inclusion_proof sample_ext [''a'', ''b'', ''c''] ''b'' None) (\<lambda>p. Inr (ip_path p))"
  using standalone_agrees [of sample_ext "[''a'', ''b'', ''c'']" "''b''" None] by simp

end
