(* ===== verification/ChainBinding.thy ===== *)
theory ChainBinding
  imports EngineProofs
begin

text \<open>
  Tamper evidence of proof chains: what the last hash of an accepted chain commits to.  The hypothesis on
  the digest is only that it does not collide on the messages hashed in the two chains compared.
\<close>

text \<open>The message that is hashed for a proof, and the part of a proof that the message determines.\<close>

definition hash_message :: "ext \<Rightarrow> proofv1 \<Rightarrow> bytes" where
  "hash_message x p = (case to_hash_payload x p of Inr v \<Rightarrow> utf8 (emit False (norm v)) | Inl _ \<Rightarrow> [])"

definition signed_part ::
    "proofv1 \<Rightarrow> decision \<times> decision_context \<times> governance \<times> determinism \<times> string \<times> int" where
  "signed_part p = (p_decision p, norm_context (p_decision_context p), p_governance p, p_determinism p,
     l_previous_hash (p_ledger p), l_sequence_id (p_ledger p))"

lemma accepted_hash: "proof_accepted x p \<Longrightarrow> l_current_hash (p_ledger p) = hexdigest x (hash_message x p)"
  by (auto simp: proof_accepted_def proof_hash_def hash_message_def canonical_hash_iff)

lemma payload_of:
  assumes "pydantic_ok x" "json_proof p"
  obtains c where "dump_context x (p_decision_context p) = Inr c" "plain c" "wf_val c"
    "to_hash_payload x p = Inr (PyDict [(KStr ''decision'', dump_decision (p_decision p)), (KStr ''decision_context'', c),
       (KStr ''governance'', dump_governance (p_governance p)), (KStr ''determinism'', dump_determinism (p_determinism p)),
       (KStr ''previous_hash'', PyStr (l_previous_hash (p_ledger p))),
       (KStr ''sequence_id'', PyInt (l_sequence_id (p_ledger p)))])"
proof -
  have md: "plain (PyDict (dc_metadata (p_decision_context p)))" "wf_val (PyDict (dc_metadata (p_decision_context p)))"
    "wf_contribs (dc_feature_contributions (p_decision_context p))"
    using assms(2) unfolding json_proof_def by blast+
  note c = dump_context_plain [OF assms(1) md(1)]
  show thesis
    by (rule that [OF c]) (use md wf_contribs_val [OF md(3)] in \<open>simp_all add: to_hash_payload_def c build_hash_payload_iff\<close>)
qed

lemma hash_message_inj:
  assumes x: "pydantic_ok x" and p: "json_proof p" "wf_proof p" and q: "json_proof q" "wf_proof q"
    and m: "hash_message x p = hash_message x q"
  shows "signed_part p = signed_part q"
proof -
  obtain c where c: "dump_context x (p_decision_context p) = Inr c" "plain c" "wf_val c"
    "to_hash_payload x p = Inr (PyDict [(KStr ''decision'', dump_decision (p_decision p)), (KStr ''decision_context'', c),
       (KStr ''governance'', dump_governance (p_governance p)), (KStr ''determinism'', dump_determinism (p_determinism p)),
       (KStr ''previous_hash'', PyStr (l_previous_hash (p_ledger p))),
       (KStr ''sequence_id'', PyInt (l_sequence_id (p_ledger p)))])" (is "_ = Inr ?v")
    by (rule payload_of [OF x p(1)])
  obtain c' where c': "dump_context x (p_decision_context q) = Inr c'" "plain c'" "wf_val c'"
    "to_hash_payload x q = Inr (PyDict [(KStr ''decision'', dump_decision (p_decision q)), (KStr ''decision_context'', c'),
       (KStr ''governance'', dump_governance (p_governance q)), (KStr ''determinism'', dump_determinism (p_determinism q)),
       (KStr ''previous_hash'', PyStr (l_previous_hash (p_ledger q))),
       (KStr ''sequence_id'', PyInt (l_sequence_id (p_ledger q)))])" (is "_ = Inr ?w")
    by (rule payload_of [OF x q(1)])
  have "canonical_encode ?v = Inr (hash_message x p)" "canonical_encode ?w = Inr (hash_message x p)"
    unfolding canonical_encode_iff m using c c' m by (simp_all add: hash_message_def del: norm.simps)
  from canonical_encode_norm [OF this] c c' have "norm ?v = norm ?w" by simp
  then have n: "norm (dump_decision (p_decision p)) = norm (dump_decision (p_decision q))" "norm c = norm c'"
    "norm (dump_governance (p_governance p)) = norm (dump_governance (p_governance q))"
    "norm (dump_determinism (p_determinism p)) = norm (dump_determinism (p_determinism q))"
    "l_previous_hash (p_ledger p) = l_previous_hash (p_ledger q)" "l_sequence_id (p_ledger p) = l_sequence_id (p_ledger q)"
    unfolding sort_hash_fields by simp_all
  have "norm_context (p_decision_context p) = norm_context (p_decision_context q)"
    using Context_dump(2) [OF x] p q c(1) c'(1) n(2) unfolding json_proof_def wf_proof_def by (metis sum.inject(2))
  with n show ?thesis
    using Decision_dump [OF x] Governance_dump [OF x] Determinism_dump [OF x] p(2) q(2)
    unfolding signed_part_def wf_proof_def by (metis sum.inject(2))
qed

lemma build_hash_payload_eq:
  "plain d \<Longrightarrow> plain c \<Longrightarrow> plain g \<Longrightarrow> plain t \<Longrightarrow> build_hash_payload d c g t p i =
     Inr (PyDict [(KStr ''decision'', d), (KStr ''decision_context'', c), (KStr ''governance'', g),
       (KStr ''determinism'', t), (KStr ''previous_hash'', PyStr p), (KStr ''sequence_id'', PyInt i)])"
  by (simp add: build_hash_payload_iff)

lemma hash_message_norm:
  assumes x: "pydantic_ok x" and p: "json_proof p"
  shows "hash_message x (norm_proof p) = hash_message x p"
proof -
  have md: "plain (PyDict (dc_metadata (p_decision_context p)))" using p unfolding json_proof_def by blast
  have md': "plain (PyDict (dc_metadata (norm_context (p_decision_context p))))"
    using md by (simp add: norm_context_def plain_norm_items del: plain.simps)
  obtain v where v: "dump_context x (p_decision_context p) = Inr v" "plain v" using dump_context_Inr [OF x md] .
  obtain w where w: "dump_context x (norm_context (p_decision_context p)) = Inr w" "plain w"
    using dump_context_Inr [OF x md'] .
  have n: "norm w = norm v" by (rule dump_context_norm [OF x md v(1) w(1)])
  show ?thesis
    using v w n by (simp add: hash_message_def to_hash_payload_def norm_proof_def
        build_hash_payload_eq sort_hash_fields del: norm.simps)
qed

lemma dget_plain: "plain (PyDict d) \<Longrightarrow> dget d k = Some v \<Longrightarrow> plain v"
  unfolding dget_def by (drule map_of_SomeD) (force simp: list_all_iff)

lemma dget_wf: "wf_val (PyDict d) \<Longrightarrow> dget d k = Some v \<Longrightarrow> wf_val v"
  unfolding dget_def by (drule map_of_SomeD) (force simp: list_all_iff)

lemma context_validated:
  assumes "DecisionContext_validate x (PyDict e) = Inr dc"
  shows "(case dget e ''feature_contributions'' of None \<Rightarrow> Inr [] | Some w \<Rightarrow> opt_res ValidationError (x_contribs x w)) =
      Inr (dc_feature_contributions dc)"
    "(case dget e ''metadata'' of None \<Rightarrow> Inr [] | Some w \<Rightarrow> opt_res ValidationError (x_meta x w)) =
      Inr (dc_metadata dc)"
  using assms unfolding DecisionContext_validate_def DecisionContext_init_def as_dict_def by auto

lemma field_Inr: "field d k = Inr v \<longleftrightarrow> dget d k = Some v"
  by (simp add: field_def)

text \<open>A proof read from a JSON document without floats has metadata and contributions of that kind.\<close>

lemma validated_json:
  assumes x: "pydantic_ok x" and v: "ProofV1_validate x v = Inr p" "plain v" "wf_val v"
  shows "json_proof p"
proof -
  obtain d c where d: "v = PyDict d" "dget d ''decision_context'' = Some c"
    "DecisionContext_validate x c = Inr (p_decision_context p)"
    using v(1) unfolding ProofV1_validate_def ProofV1_init_def
    by (auto simp: as_dict_def field_Inr split: pyval.splits)
  have c: "plain c" "wf_val c" using dget_plain [OF v(2) [unfolded d(1)] d(2)] dget_wf [OF v(3) [unfolded d(1)] d(2)] .
  obtain e where e: "c = PyDict e"
    using d(3) by (cases c) (auto simp: DecisionContext_validate_def as_dict_def)
  let ?fc = "dc_feature_contributions (p_decision_context p)" and ?md = "dc_metadata (p_decision_context p)"
  note f = context_validated [OF d(3) [unfolded e]]
  have "wf_contribs ?fc"
    using f(1) pydantic_okD(6) [OF x] by (auto split: option.splits simp: wf_contribs_def)
  moreover have "plain (PyDict ?md) \<and> wf_val (PyDict ?md)"
  proof (cases "dget e ''metadata''")
    case (Some w)
    then have w: "plain w" "wf_val w" "x_meta x w = Some ?md"
      using dget_plain [OF c(1) [unfolded e] Some] dget_wf [OF c(2) [unfolded e] Some] f(2) by auto
    with pydantic_okD(7) [OF x w(3,1)] show ?thesis by simp
  qed (use f(2) in simp)
  ultimately show ?thesis by (simp add: json_proof_def del: plain.simps wf_val.simps)
qed

lemma linked_append:
  "linked n h (ps @ [p]) \<longleftrightarrow> linked n h ps \<and> l_sequence_id (p_ledger p) = int (n + length ps) + 1 \<and>
     l_previous_hash (p_ledger p) = (if ps = [] then h else l_current_hash (p_ledger (last ps)))"
  by (induction ps arbitrary: n h) auto

definition chain_ok :: "ext \<Rightarrow> proofv1 list \<Rightarrow> bool" where
  "chain_ok x ps \<longleftrightarrow> linked 0 genesis_hash ps \<and> list_all (\<lambda>p. proof_accepted x p \<and> json_proof p \<and> wf_proof p) ps"

lemma chain_ok_append:
  assumes "chain_ok x (ps @ [p])"
  shows "chain_ok x ps" "l_sequence_id (p_ledger p) = int (length ps) + 1"
    "l_previous_hash (p_ledger p) = (if ps = [] then genesis_hash else l_current_hash (p_ledger (last ps)))"
  using assms unfolding chain_ok_def linked_append by simp_all

lemma chain_binding:
  assumes "pydantic_ok x" "inj_on (x_sha256 x) (hash_message x ` (set ps \<union> set qs))"
    "chain_ok x ps" "chain_ok x qs" "ps \<noteq> []" "qs \<noteq> []"
    "l_current_hash (p_ledger (last ps)) = l_current_hash (p_ledger (last qs))"
  shows "map signed_part ps = map signed_part qs"
  using assms(2-)
proof (induction ps arbitrary: qs rule: rev_induct)
  case (snoc p ps)
  obtain q qs' where qs: "qs = qs' @ [q]" using snoc.prems(5) by (cases qs rule: rev_cases) auto
  have acc: "proof_accepted x p" "json_proof p" "wf_proof p" "proof_accepted x q" "json_proof q" "wf_proof q"
    using snoc.prems(2,3) unfolding qs chain_ok_def by simp_all
  have "x_sha256 x (hash_message x p) = x_sha256 x (hash_message x q)"
    using snoc.prems(6) unfolding qs last_snoc accepted_hash [OF acc(1)] accepted_hash [OF acc(4)] hexdigest_eq_iff .
  then have "hash_message x p = hash_message x q"
    by (rule inj_onD [OF snoc.prems(1)]) (simp_all add: qs)
  from hash_message_inj [OF assms(1) acc(2,3,5,6) this] have sp: "signed_part p = signed_part q" .
  then have sl: "l_sequence_id (p_ledger p) = l_sequence_id (p_ledger q)"
    and prev: "l_previous_hash (p_ledger p) = l_previous_hash (p_ledger q)"
    by (simp_all add: signed_part_def)
  note lp = chain_ok_append [OF snoc.prems(2)] and lq = chain_ok_append [OF snoc.prems(3) [unfolded qs]]
  have len: "length ps = length qs'" using sl lp(2) lq(2) by simp
  show ?case
  proof (cases "ps = []")
    case True
    with len sp qs show ?thesis by simp
  next
    case False
    then have ne: "ps \<noteq> []" "qs' \<noteq> []" using len by auto
    have "l_current_hash (p_ledger (last ps)) = l_current_hash (p_ledger (last qs'))"
      using prev ne lp(3) lq(3) by simp
    moreover have "inj_on (x_sha256 x) (hash_message x ` (set ps \<union> set qs'))"
      by (rule inj_on_subset [OF snoc.prems(1)]) (auto simp: qs)
    ultimately have "map signed_part ps = map signed_part qs'" using snoc.IH [OF _ lp(1) lq(1) ne] by blast
    with sp qs show ?thesis by simp
  qed
qed simp

lemma verified_chain_ok:
  assumes "pydantic_ok x" "vr_valid (verify_chain x now vs)" "list_all (\<lambda>v. plain v \<and> wf_val v) vs"
  obtains ps where "rmap_list (ProofV1_validate x) vs = Inr ps" "chain_ok x ps" "ps \<noteq> []"
proof -
  obtain ps where ps: "vs \<noteq> []" "rmap_list (ProofV1_validate x) vs = Inr ps" "list_all (proof_accepted x) ps"
    "linked 0 genesis_hash ps"
    using assms(2) unfolding verify_chain_valid_iff by blast
  have l: "list_all2 (\<lambda>v p. ProofV1_validate x v = Inr p) vs ps" using ps(2) by (simp add: rmap_list_Inr)
  have "list_all (\<lambda>p. json_proof p \<and> wf_proof p) ps"
    using l assms(3) by (induction rule: list_all2_induct) (auto intro: validated_json [OF assms(1)] ProofV1_validate_wf)
  then have "chain_ok x ps" using ps(3,4) by (simp add: chain_ok_def list_all_iff)
  moreover have "ps \<noteq> []" using l ps(1) by auto
  ultimately show thesis using that ps(2) by blast
qed

end
