(* ===== verification/Packages.thy ===== *)
theory Packages
  imports Batch ChainBinding
begin

text \<open>
  The tools that verify what the engine exported, without the engine: \<open>verify/verify_package.py\<close>,
  \<open>verify/verify_signature.py\<close>, \<open>tools/offline_verify.py\<close> and \<open>tools/verify_core.py\<close>.  They take any Python
  value, as they read it from a file; a raised exception is an \<open>Inl\<close>.  Printing and the texts of the messages
  are left out, a failure is named by a constructor.  The theorems say what these tools accept: every package
  of the engine, which changes of a package they notice, and where they disagree.
\<close>

subsection \<open>The package as a dictionary\<close>

definition package_dict :: "package \<Rightarrow> pyval" where
  "package_dict pk = PyDict [
     (KStr ''valid'', PyBool True), (KStr ''type'', PyStr ''provable-ai-proof-package''),
     (KStr ''public_key'', PyStr (pk_public_key pk)), (KStr ''signature'', PyStr (pk_signature pk)),
     (KStr ''package_hash'', PyStr (pk_package_hash pk)), (KStr ''proof_fingerprint'', PyStr (pk_proof_fingerprint pk)),
     (KStr ''chain_length'', PyInt (int (pk_chain_length pk))),
     (KStr ''proof'', PyDict [(KStr ''instance_id'', PyStr (pk_instance_id pk)),
        (KStr ''instance_root'', PyStr (pk_instance_root pk)), (KStr ''ledger'', PyList (pk_ledger pk))])]"

subsection \<open>\<open>verify_package.py\<close>\<close>

text \<open>The six fields that are hashed, with the defaults of \<open>get\<close>.\<close>

definition entry_content :: "pyval \<Rightarrow> pyval res" where
  "entry_content entry =
     rbind (get_item entry ''ledger'' (PyDict [])) (\<lambda>ledger.
     rbind (get_item entry ''decision'' (PyDict [])) (\<lambda>d.
     rbind (get_item entry ''decision_context'' (PyDict [])) (\<lambda>c.
     rbind (get_item entry ''governance'' (PyDict [])) (\<lambda>g.
     rbind (get_item entry ''determinism'' (PyDict [])) (\<lambda>t.
     rbind (get_item ledger ''previous_hash'' (PyStr [])) (\<lambda>p.
     rbind (get_item ledger ''sequence_id'' (PyInt 0)) (\<lambda>i.
     Inr (PyDict [(KStr ''decision'', d), (KStr ''decision_context'', c), (KStr ''governance'', g),
       (KStr ''determinism'', t), (KStr ''previous_hash'', p), (KStr ''sequence_id'', i)]))))))))"

definition recompute_hash :: "ext \<Rightarrow> pyval \<Rightarrow> string res" where
  "recompute_hash x entry =
     rbind (entry_content entry) (\<lambda>content.
     rbind (opt_res TypeError (json_dumps False content)) (\<lambda>canonical.
     Inr (hexdigest x (utf8 canonical))))"

definition pkg_instance_root :: "ext \<Rightarrow> pyval list \<Rightarrow> string res" where
  "pkg_instance_root x entries = rbind (rmap_list embedded_hash entries) (\<lambda>hs. Inr (hexdigest x (utf8 (concat hs))))"

definition compute_package_hash :: "ext \<Rightarrow> pyval \<Rightarrow> string res" where
  "compute_package_hash x entries =
     rbind (opt_res TypeError (json_dumps False entries)) (\<lambda>canonical. Inr (hexdigest x (utf8 canonical)))"

text \<open>Every exception, a value that is no text included, makes it \<open>False\<close>.\<close>

definition verify_ed25519_hex :: "ext \<Rightarrow> pyval \<Rightarrow> string \<Rightarrow> pyval \<Rightarrow> bool" where
  "verify_ed25519_hex x public_key_hex message_hex sig_hex =
     (case rbind (hex_arg public_key_hex) (\<lambda>pk. rbind (hex_arg (PyStr message_hex)) (\<lambda>m.
           rbind (hex_arg sig_hex) (\<lambda>s. Inr (x_ed_verify x pk m s = NaclOk)))) of
        Inr b \<Rightarrow> b | Inl _ \<Rightarrow> False)"

datatype check_failure = UnknownType | LedgerNotList | LedgerEmpty | PackageHashMismatch | EntryHashMismatch pyval
  | EntryChainBroken pyval | MissingSignature | InstanceRootMismatch | SignatureMismatchKey

record check_result =
  cr_name :: string
  cr_passed :: bool
  cr_failure :: "check_failure option"
  cr_skipped :: bool

definition check_ok :: "string \<Rightarrow> check_result" where
  "check_ok n = \<lparr>cr_name = n, cr_passed = True, cr_failure = None, cr_skipped = False\<rparr>"

definition check_fail :: "string \<Rightarrow> check_failure \<Rightarrow> check_result" where
  "check_fail n r = \<lparr>cr_name = n, cr_passed = False, cr_failure = Some r, cr_skipped = False\<rparr>"

definition check_warn :: "string \<Rightarrow> check_result" where
  "check_warn n = \<lparr>cr_name = n, cr_passed = True, cr_failure = None, cr_skipped = True\<rparr>"

record package_meta =
  pm_ledger :: "pyval list option"
  pm_instance_id :: "pyval option"
  pm_final_state :: "pyval option"
  pm_seq_range :: "(pyval \<times> pyval) option"
  pm_key_id :: "string option"
  pm_public_key :: "string option"

definition no_meta :: package_meta where
  "no_meta = \<lparr>pm_ledger = None, pm_instance_id = None, pm_final_state = None, pm_seq_range = None,
     pm_key_id = None, pm_public_key = None\<rparr>"

definition package_structure :: "pyval \<Rightarrow> (check_result \<times> package_meta) res" where
  "package_structure package =
     (let n = ''Package structure valid'' in
      rbind (get_item package ''type'' PyNone) (\<lambda>ty.
      if ty \<noteq> PyStr ''provable-ai-proof-package'' then Inr (check_fail n UnknownType, no_meta)
      else rbind (get_item package ''proof'' (PyDict [])) (\<lambda>proof_block.
           rbind (get_item proof_block ''ledger'' (PyList [])) (\<lambda>ledger.
           case ledger of
             PyList [] \<Rightarrow> Inr (check_fail n LedgerEmpty, no_meta)
           | PyList (e # es) \<Rightarrow>
               rbind (get_item proof_block ''instance_id'' (PyStr ''unknown'')) (\<lambda>iid.
               Inr (check_ok n, no_meta\<lparr>pm_ledger := Some (e # es), pm_instance_id := Some iid\<rparr>))
           | _ \<Rightarrow> Inr (check_fail n LedgerNotList, no_meta)))))"

definition package_untampered :: "ext \<Rightarrow> pyval \<Rightarrow> pyval list \<Rightarrow> check_result res" where
  "package_untampered x package ledger =
     (let n = ''Package untampered'' in
      rbind (get_item package ''package_hash'' (PyStr [])) (\<lambda>stored_pkg_hash.
      if truthy stored_pkg_hash
      then rbind (compute_package_hash x (PyList ledger)) (\<lambda>computed_pkg_hash.
           if PyStr computed_pkg_hash \<noteq> stored_pkg_hash
           then (if sliceable stored_pkg_hash then Inr (check_fail n PackageHashMismatch) else Inl TypeError)
           else Inr (check_ok n))
      else Inr (check_warn n)))"

text \<open>
  The loop over the entries: the failure that ends it, if any, and the sequence ids seen.  The hash of the entry
  before is \<^const>\<open>None\<close> at first; it is a digest afterwards, since the comparison went before.
\<close>

fun package_chain :: "ext \<Rightarrow> string option \<Rightarrow> pyval list \<Rightarrow> (check_failure option \<times> pyval list) res" where
  "package_chain x prev_hash [] = Inr (None, [])"
| "package_chain x prev_hash (entry # entries) =
     rbind (get_item entry ''ledger'' (PyDict [])) (\<lambda>ledger_block.
     rbind (get_item ledger_block ''current_hash'' (PyStr [])) (\<lambda>stored_hash.
     rbind (get_item ledger_block ''previous_hash'' (PyStr genesis_hash)) (\<lambda>previous_hash.
     rbind (get_item ledger_block ''sequence_id'' (PyStr ''?'')) (\<lambda>seq_id.
     rbind (recompute_hash x entry) (\<lambda>computed.
     if PyStr computed \<noteq> stored_hash
     then (if sliceable stored_hash then Inr (Some (EntryHashMismatch seq_id), [seq_id]) else Inl TypeError)
     else if previous_hash \<noteq> PyStr (case prev_hash of Some h \<Rightarrow> if h = [] then genesis_hash else h | None \<Rightarrow> genesis_hash)
     then Inr (Some (EntryChainBroken seq_id), [seq_id])
     else rbind (package_chain x (Some computed) entries) (\<lambda>(f, seqs). Inr (f, seq_id # seqs)))))))"

definition package_chain_check :: "ext \<Rightarrow> pyval list \<Rightarrow> package_meta \<Rightarrow> (check_result \<times> package_meta) res" where
  "package_chain_check x ledger meta =
     (let n = ''Chain valid'' in
      rbind (package_chain x None ledger) (\<lambda>(failure, seq_ids).
      case failure of
        Some r \<Rightarrow> Inr (check_fail n r, meta)
      | None \<Rightarrow>
          rbind (get_item (last ledger) ''decision'' (PyDict [])) (\<lambda>d.
          rbind (get_item d ''to_state'' (PyStr ''unknown'')) (\<lambda>to_state.
          Inr (check_ok n, meta\<lparr>pm_final_state := Some to_state, pm_seq_range := Some (hd seq_ids, last seq_ids)\<rparr>)))))"

definition package_signer :: "ext \<Rightarrow> pyval \<Rightarrow> pyval list \<Rightarrow> package_meta \<Rightarrow> (check_result \<times> package_meta) res" where
  "package_signer x package ledger meta =
     (let n = ''Original signer verified'' in
      rbind (get_item package ''proof'' (PyDict [])) (\<lambda>proof_block.
      rbind (get_item package ''public_key'' (PyStr [])) (\<lambda>public_key.
      rbind (get_item package ''signature'' (PyStr [])) (\<lambda>sig_hex.
      rbind (get_item proof_block ''instance_root'' (PyStr [])) (\<lambda>stored_root.
      if \<not> truthy public_key \<or> \<not> truthy sig_hex then Inr (check_fail n MissingSignature, meta)
      else rbind (pkg_instance_root x ledger) (\<lambda>computed_root.
           if truthy stored_root \<and> PyStr computed_root \<noteq> stored_root
           then (if sliceable stored_root then Inr (check_fail n InstanceRootMismatch, meta) else Inl TypeError)
           else if verify_ed25519_hex x public_key computed_root sig_hex
           then rbind (as_str public_key) (\<lambda>pk.
                Inr (check_ok n, meta\<lparr>pm_key_id := Some (''env-'' @ take 16 pk), pm_public_key := Some pk\<rparr>))
           else Inr (check_fail n SignatureMismatchKey, meta)))))))"

definition pkg_verify_package :: "ext \<Rightarrow> pyval \<Rightarrow> (bool \<times> check_result list \<times> package_meta) res" where
  "pkg_verify_package x package =
     rbind (package_structure package) (\<lambda>(c1, meta).
     case pm_ledger meta of
       None \<Rightarrow> Inr (False, [c1], meta)
     | Some ledger \<Rightarrow>
         rbind (package_untampered x package ledger) (\<lambda>c2.
         rbind (package_chain_check x ledger meta) (\<lambda>(c3, meta).
         rbind (package_signer x package ledger meta) (\<lambda>(c4, meta).
         Inr (list_all cr_passed [c1, c2, c3, c4], [c1, c2, c3, c4], meta)))))"

text \<open>The exit code of \<open>main\<close>: the argument is what reading and parsing the file gave.\<close>

definition pkg_main :: "ext \<Rightarrow> string option \<Rightarrow> int res" where
  "pkg_main x contents =
     (case contents of None \<Rightarrow> Inr 2
      | Some raw \<Rightarrow> (case body_loads raw of None \<Rightarrow> Inr 2
          | Some package \<Rightarrow> rbind (pkg_verify_package x package) (\<lambda>(all_passed, _). Inr (if all_passed then 0 else 1))))"

subsection \<open>\<open>verify_signature.py\<close>\<close>

text \<open>Its \<open>_recompute_hash\<close> and \<open>verify_ed25519\<close> are the functions above, word for word.\<close>

definition sig_recompute_hash :: "ext \<Rightarrow> pyval \<Rightarrow> string res" where
  "sig_recompute_hash x proof = recompute_hash x proof"

datatype signature_failure = SigHashMismatch | NoPublicKey | BadSignatureLength | SigVerificationFailed

record signature_result =
  sg_valid :: bool
  sg_hash_valid :: bool
  sg_sig_valid :: bool
  sg_proof_id :: pyval
  sg_instance_id :: pyval
  sg_key_id :: pyval
  sg_failure :: "signature_failure option"

text \<open>\<open>len\<close> of a value that has none raises.\<close>

definition py_len :: "pyval \<Rightarrow> nat res" where
  "py_len v = (case v of PyStr s \<Rightarrow> Inr (length s) | PyList vs \<Rightarrow> Inr (length vs) | PyTuple vs \<Rightarrow> Inr (length vs)
     | PyDict d \<Rightarrow> Inr (length d) | _ \<Rightarrow> Inl TypeError)"

definition verify_proof_signature :: "ext \<Rightarrow> pyval \<Rightarrow> string option \<Rightarrow> signature_result res" where
  "verify_proof_signature x proof override_pubkey =
     rbind (get_item proof ''proof_id'' PyNone) (\<lambda>pid.
     rbind (get_item proof ''instance_id'' PyNone) (\<lambda>iid.
     rbind (get_item proof ''signature'' (PyDict [])) (\<lambda>sig_block.
     rbind (get_item sig_block ''key_id'' PyNone) (\<lambda>kid.
     (let result = \<lparr>sg_valid = False, sg_hash_valid = False, sg_sig_valid = False, sg_proof_id = pid,
                    sg_instance_id = iid, sg_key_id = kid, sg_failure = None\<rparr> in
      rbind (get_item proof ''ledger'' (PyDict [])) (\<lambda>ledger.
      rbind (get_item ledger ''current_hash'' (PyStr [])) (\<lambda>stored_hash.
      rbind (sig_recompute_hash x proof) (\<lambda>computed_hash.
      if PyStr computed_hash \<noteq> stored_hash
      then (if sliceable stored_hash then Inr (result\<lparr>sg_failure := Some SigHashMismatch\<rparr>) else Inl TypeError)
      else
        (let result = result\<lparr>sg_hash_valid := True\<rparr> in
         rbind (get_item sig_block ''value'' (PyStr [])) (\<lambda>sig_value.
         rbind (case override_pubkey of
                  Some k \<Rightarrow> if k = [] then get_item sig_block ''public_key'' (PyStr []) else Inr (PyStr k)
                | None \<Rightarrow> get_item sig_block ''public_key'' (PyStr [])) (\<lambda>public_key.
         if \<not> truthy public_key then Inr (result\<lparr>sg_failure := Some NoPublicKey\<rparr>)
         else rbind (py_len sig_value) (\<lambda>len.
         if \<not> truthy sig_value \<or> len \<noteq> 128 then Inr (result\<lparr>sg_failure := Some BadSignatureLength\<rparr>)
         else if \<not> verify_ed25519_hex x public_key computed_hash sig_value
         then Inr (result\<lparr>sg_failure := Some SigVerificationFailed\<rparr>)
         else Inr (result\<lparr>sg_sig_valid := True, sg_valid := True\<rparr>)))))))))))))"

subsection \<open>\<open>offline_verify.py\<close>\<close>

definition offline_recompute_hash :: "ext \<Rightarrow> pyval \<Rightarrow> string res" where
  "offline_recompute_hash x proof_dict = recompute_hash x proof_dict"

definition offline_instance_root :: "ext \<Rightarrow> pyval list \<Rightarrow> string res" where
  "offline_instance_root x entries = pkg_instance_root x entries"

definition offline_package_hash :: "ext \<Rightarrow> pyval \<Rightarrow> string res" where
  "offline_package_hash x entries = compute_package_hash x entries"

datatype offline_message = CannotRead | OfflineUnknownType | NoTransitions | OfflinePackageHash | OfflineHashMismatch
  | OfflineChainBroken | OfflineRootMismatch | OfflineSignatureInvalid | ProofValid

fun offline_chain :: "ext \<Rightarrow> pyval option \<Rightarrow> pyval list \<Rightarrow> offline_message option res" where
  "offline_chain x prev_hash [] = Inr None"
| "offline_chain x prev_hash (entry # entries) =
     rbind (get_item entry ''ledger'' (PyDict [])) (\<lambda>l.
     rbind (get_item l ''current_hash'' (PyStr [])) (\<lambda>stored_hash.
     rbind (offline_recompute_hash x entry) (\<lambda>computed.
     if PyStr computed \<noteq> stored_hash then Inr (Some OfflineHashMismatch)
     else rbind (get_item l ''previous_hash'' (PyStr [])) (\<lambda>chain_prev.
          case prev_hash of
            None \<Rightarrow> offline_chain x (Some stored_hash) entries
          | Some h \<Rightarrow> if chain_prev \<noteq> h then Inr (Some OfflineChainBroken) else offline_chain x (Some stored_hash) entries))))"

text \<open>The argument is what \<open>json.load\<close> gave, \<^const>\<open>None\<close> when opening or reading the file raised.\<close>

definition offline_verify_proof :: "ext \<Rightarrow> pyval option \<Rightarrow> (bool \<times> offline_message \<times> pyval option) res" where
  "offline_verify_proof x contents =
     (case contents of None \<Rightarrow> Inr (False, CannotRead, None)
      | Some package \<Rightarrow>
     rbind (get_item package ''type'' PyNone) (\<lambda>ty.
     if ty \<noteq> PyStr ''provable-ai-proof-package'' then Inr (False, OfflineUnknownType, None)
     else
     rbind (get_item package ''proof'' (PyDict [])) (\<lambda>proof_block.
     rbind (get_item proof_block ''ledger'' (PyList [])) (\<lambda>ledger_v.
     rbind (get_item proof_block ''instance_root'' (PyStr [])) (\<lambda>stored_root.
     rbind (get_item package ''package_hash'' (PyStr [])) (\<lambda>stored_pkg_h.
     rbind (get_item package ''signature'' (PyStr [])) (\<lambda>sig_hex.
     rbind (get_item package ''public_key'' (PyStr [])) (\<lambda>pub_key_hex.
     if \<not> truthy ledger_v then Inr (True, NoTransitions, None)
     else
     rbind (if truthy stored_pkg_h
            then rbind (offline_package_hash x ledger_v) (\<lambda>computed_pkg_h.
                 if PyStr computed_pkg_h \<noteq> stored_pkg_h
                 then (if sliceable stored_pkg_h then Inr True else Inl TypeError) else Inr False)
            else Inr False) (\<lambda>tampered.
     if tampered then Inr (False, OfflinePackageHash, None)
     else
     rbind (py_iter ledger_v) (\<lambda>ledger.
     rbind (offline_chain x None ledger) (\<lambda>broken.
     case broken of Some m \<Rightarrow> Inr (False, m, None)
     | None \<Rightarrow>
     rbind (offline_instance_root x ledger) (\<lambda>computed_root.
     if truthy stored_root \<and> PyStr computed_root \<noteq> stored_root then Inr (False, OfflineRootMismatch, None)
     else if truthy sig_hex \<and> truthy pub_key_hex \<and> \<not> verify_ed25519_hex x pub_key_hex computed_root sig_hex
     then Inr (False, OfflineSignatureInvalid, None)
     else rbind (get_item (last ledger) ''decision'' (PyDict [])) (\<lambda>d.
          rbind (get_item d ''to_state'' PyNone) (\<lambda>final_state.
          Inr (True, ProofValid, Some final_state)))))))))))))))"

subsection \<open>\<open>verify_core.py\<close>\<close>

definition SCHEMA_VERSION :: string where
  "SCHEMA_VERSION = ''1.0''"

text \<open>
  \<open>==\<close> on values from JSON: the order of keys does not count, truth values are numbers, and a float with an
  integral value (written \<open>n.0\<close>, below \<open>10 ^ 16\<close>) equals that integer.
\<close>

fun py_num :: "pyval \<Rightarrow> pyval" where
  "py_num (PyBool b) = PyInt (if b then 1 else 0)"
| "py_num (PyFloat r) =
     (if endswith r ''.0'' then (case int_of_str (take (length r - 2) r) of Some i \<Rightarrow> PyInt i | None \<Rightarrow> PyFloat r) else PyFloat r)"
| "py_num (PyList vs) = PyList (map py_num vs)"
| "py_num (PyTuple vs) = PyTuple (map py_num vs)"
| "py_num (PyDict d) = PyDict (map (\<lambda>p. (fst p, py_num (snd p))) d)"
| "py_num v = v"

definition py_eq :: "pyval \<Rightarrow> pyval \<Rightarrow> bool" where
  "py_eq a b \<longleftrightarrow> norm (py_num a) = norm (py_num b)"

definition core_canonical :: "pyval \<Rightarrow> bytes res" where
  "core_canonical v = rbind (opt_res TypeError (json_dumps True v)) (\<lambda>t. Inr (utf8 t))"

text \<open>\<open>HexEncoder\<close> is \<open>binascii.unhexlify\<close>, which takes no white space.\<close>

definition unhexlify :: "pyval \<Rightarrow> bytes res" where
  "unhexlify v = rbind (as_str v) (\<lambda>s. if list_ex ascii_space s then Inl (ValueError ''unhexlify'') else hex_arg v)"

fun core_layer :: "ext \<Rightarrow> string list \<Rightarrow> string list" where
  "core_layer x (left # right # layer) = hexdigest x (utf8 (left @ right)) # core_layer x layer"
| "core_layer x [left] = [hexdigest x (utf8 (left @ left))]"
| "core_layer x [] = []"

lemma length_core_layer: "length (core_layer x layer) = (length layer + 1) div 2"
  by (induction x layer rule: core_layer.induct) auto

function core_loop :: "ext \<Rightarrow> string list \<Rightarrow> string list" where
  "core_loop x layer = (if 1 < length layer then core_loop x (core_layer x layer) else layer)"
  by pat_completeness auto
termination by (relation "measure (\<lambda>(x, layer). length layer)") (auto simp: length_core_layer)

declare core_loop.simps [simp del]

definition core_merkle_root :: "ext \<Rightarrow> string list \<Rightarrow> string option" where
  "core_merkle_root x hashes = (if hashes = [] then None else Some (hd (core_loop x hashes)))"

definition build_entry_payload :: "pyval \<Rightarrow> pyval \<Rightarrow> pyval res" where
  "build_entry_payload entry previous_hash =
     rbind (rmap_list (\<lambda>k. rbind (item entry k) (\<lambda>v. Inr (KStr k, v)))
       [''protocol_hash'', ''instance_id'', ''from_state'', ''to_state'', ''actor'', ''input_hash'', ''output_hash'',
        ''model_version'', ''agent_version'', ''policy_version'', ''metadata_json'']) (\<lambda>fields.
     rbind (get_item entry ''schema_version'' (PyStr SCHEMA_VERSION)) (\<lambda>sv.
     rbind (item entry ''version'') (\<lambda>v.
     rbind (item entry ''timestamp'') (\<lambda>ts.
     Inr (PyDict ((KStr ''previous_hash'', previous_hash) # fields @
       [(KStr ''schema_version'', sv), (KStr ''version'', v), (KStr ''timestamp'', ts)]))))))"

text \<open>\<open>any\<close> over the transitions: it stops at the first that fits and reads \<open>to_state\<close> only where \<open>from_state\<close> fits.\<close>

fun valid_transition :: "pyval \<Rightarrow> pyval \<Rightarrow> pyval list \<Rightarrow> bool res" where
  "valid_transition state to_state [] = Inr False"
| "valid_transition state to_state (t # ts) =
     rbind (item t ''from_state'') (\<lambda>a.
     if py_eq a state
     then rbind (item t ''to_state'') (\<lambda>b. if py_eq b to_state then Inr True else valid_transition state to_state ts)
     else valid_transition state to_state ts)"

datatype core_reason = InvalidProofType | MissingRequiredFields | OuterSignatureInvalid | MissingProtocolOrInstance
  | ProtocolHashMismatch | EntrySchemaVersion | EntryVersion | EntryHash | EntrySignature | EntryTransition
  | CoreRootMismatch | VerifiedSuccessfully | MissingField string | VerificationException

record core_result =
  cv_valid :: bool
  cv_reason :: core_reason
  cv_final_state :: "pyval option"
  cv_instance_id :: "pyval option"

definition core_fail :: "core_reason \<Rightarrow> core_result" where
  "core_fail r = \<lparr>cv_valid = False, cv_reason = r, cv_final_state = None, cv_instance_id = None\<rparr>"

text \<open>The replay of the ledger: the reason of an early return, or the last state and the hashes.\<close>

fun core_replay :: "ext \<Rightarrow> bytes \<Rightarrow> pyval \<Rightarrow> pyval \<Rightarrow> pyval \<Rightarrow> int \<Rightarrow> pyval list \<Rightarrow> (core_reason + pyval \<times> string list) res" where
  "core_replay x key protocol state previous_hash expected_version [] = Inr (Inr (state, []))"
| "core_replay x key protocol state previous_hash expected_version (entry # entries) =
     rbind (get_item entry ''schema_version'' PyNone) (\<lambda>sv.
     if sv \<noteq> PyStr SCHEMA_VERSION then Inr (Inl EntrySchemaVersion)
     else
     rbind (get_item entry ''version'' PyNone) (\<lambda>v.
     if \<not> py_eq v (PyInt expected_version) then Inr (Inl EntryVersion)
     else
     rbind (build_entry_payload entry previous_hash) (\<lambda>payload.
     rbind (core_canonical payload) (\<lambda>bytes.
     rbind (get_item entry ''current_hash'' PyNone) (\<lambda>current_hash.
     if PyStr (hexdigest x bytes) \<noteq> current_hash then Inr (Inl EntryHash)
     else if (case rbind (item entry ''signature'') hex_arg of Inr sig \<Rightarrow> x_ed_verify x key bytes sig \<noteq> NaclOk | Inl _ \<Rightarrow> True)
     then Inr (Inl EntrySignature)
     else
     rbind (get_item protocol ''transitions'' (PyList [])) (\<lambda>ts_v.
     rbind (py_iter ts_v) (\<lambda>ts.
     rbind (item entry ''to_state'') (\<lambda>to_state.
     rbind (valid_transition state to_state ts) (\<lambda>ok.
     if \<not> ok then Inr (Inl EntryTransition)
     else rbind (core_replay x key protocol to_state current_hash (expected_version + 1) entries) (\<lambda>r.
          Inr (case r of Inl reason \<Rightarrow> Inl reason
               | Inr (final, hashes) \<Rightarrow> Inr (final, hexdigest x bytes # hashes))))))))))))"

definition core_checks :: "ext \<Rightarrow> pyval \<Rightarrow> core_result res" where
  "core_checks x package =
     rbind (get_item package ''type'' PyNone) (\<lambda>ty.
     if ty \<noteq> PyStr ''provable-ai-proof-package'' then Inr (core_fail InvalidProofType)
     else
     rbind (get_item package ''public_key'' PyNone) (\<lambda>public_key_hex.
     rbind (get_item package ''proof'' PyNone) (\<lambda>proof.
     rbind (get_item package ''signature'' PyNone) (\<lambda>signature_hex.
     if \<not> truthy public_key_hex \<or> \<not> truthy proof \<or> \<not> truthy signature_hex then Inr (core_fail MissingRequiredFields)
     else
     (case rbind (unhexlify public_key_hex) (\<lambda>key. rbind (core_canonical proof) (\<lambda>m. rbind (hex_arg signature_hex) (\<lambda>sig.
            if x_ed_verify x key m sig = NaclOk then Inr key else Inl (ValueError ''nacl'')))) of
        Inl _ \<Rightarrow> Inr (core_fail OuterSignatureInvalid)
      | Inr key \<Rightarrow>
     rbind (get_item proof ''protocol'' PyNone) (\<lambda>protocol.
     rbind (get_item proof ''instance'' PyNone) (\<lambda>inst.
     rbind (get_item proof ''ledger'' (PyList [])) (\<lambda>ledger_v.
     rbind (get_item proof ''instance_root'' PyNone) (\<lambda>instance_root.
     if \<not> truthy protocol \<or> \<not> truthy inst then Inr (core_fail MissingProtocolOrInstance)
     else
     rbind (core_canonical protocol) (\<lambda>pb.
     rbind (get_item inst ''protocol_hash'' PyNone) (\<lambda>ph.
     if PyStr (hexdigest x pb) \<noteq> ph then Inr (core_fail ProtocolHashMismatch)
     else
     rbind (item protocol ''initial_state'') (\<lambda>initial.
     rbind (py_iter ledger_v) (\<lambda>ledger.
     rbind (core_replay x key protocol initial PyNone 1 ledger) (\<lambda>r.
     case r of Inl reason \<Rightarrow> Inr (core_fail reason)
     | Inr (state, hashes) \<Rightarrow>
        if (case core_merkle_root x (sort hashes) of None \<Rightarrow> PyNone | Some h \<Rightarrow> PyStr h) \<noteq> instance_root
        then Inr (core_fail CoreRootMismatch)
        else rbind (get_item inst ''instance_id'' PyNone) (\<lambda>iid.
             Inr \<lparr>cv_valid = True, cv_reason = VerifiedSuccessfully, cv_final_state = Some state,
               cv_instance_id = Some iid\<rparr>)))))))))))))))"

definition core_verify_package :: "ext \<Rightarrow> pyval \<Rightarrow> core_result" where
  "core_verify_package x package =
     (case core_checks x package of Inr r \<Rightarrow> r
      | Inl (KeyError k) \<Rightarrow> core_fail (MissingField k)
      | Inl _ \<Rightarrow> core_fail VerificationException)"

subsection \<open>The entries that the engine exports\<close>

text \<open>What the tools read of an entry that holds a recorded proof.\<close>

definition entry_of :: "ext \<Rightarrow> ledger_row \<Rightarrow> pyval \<Rightarrow> bool" where
  "entry_of x r v \<longleftrightarrow>
     (\<exists>l. (\<forall>d. get_item v ''ledger'' d = Inr l) \<and>
        (\<forall>d. get_item l ''current_hash'' d = Inr (PyStr (lr_current_hash r))) \<and>
        (\<forall>d. get_item l ''previous_hash'' d = Inr (PyStr (lr_previous_hash r))) \<and>
        (\<forall>d. get_item l ''sequence_id'' d = Inr (PyInt (lr_sequence_id r)))) \<and>
     (\<exists>dc. (\<forall>d. get_item v ''decision'' d = Inr dc) \<and> (\<forall>d. get_item dc ''to_state'' d = Inr (PyStr (lr_to_state r)))) \<and>
     recompute_hash x v = Inr (lr_current_hash r) \<and> plain v \<and>
     (\<exists>res. verify_proof_signature x v None = Inr res \<and> sg_valid res)"

lemma get_item_norm:
  "distinct (map fst d) \<Longrightarrow> dget d k = Some w \<Longrightarrow> get_item (norm (PyDict d)) k e = Inr (norm w)"
  unfolding norm_PyDict by (simp add: get_item_def dget_or_def dget_norm_items)

lemma stored_entry_recompute:
  assumes x: "pydantic_ok x" and p: "json_proof p" "proof_accepted x p" and d: "dump_proof x p = Inr pd"
  shows "recompute_hash x (norm pd) = Inr (l_current_hash (p_ledger p))"
proof -
  obtain c where c: "dump_context x (p_decision_context p) = Inr c" "plain c" "wf_val c"
    "to_hash_payload x p = Inr (PyDict [(KStr ''decision'', dump_decision (p_decision p)), (KStr ''decision_context'', c),
       (KStr ''governance'', dump_governance (p_governance p)), (KStr ''determinism'', dump_determinism (p_determinism p)),
       (KStr ''previous_hash'', PyStr (l_previous_hash (p_ledger p))),
       (KStr ''sequence_id'', PyInt (l_sequence_id (p_ledger p)))])" (is "_ = Inr ?payload")
    by (rule payload_of [OF x p(1)])
  let ?n = "PyDict [(KStr ''decision'', norm (dump_decision (p_decision p))), (KStr ''decision_context'', norm c),
       (KStr ''governance'', norm (dump_governance (p_governance p))), (KStr ''determinism'', norm (dump_determinism (p_determinism p))),
       (KStr ''previous_hash'', PyStr (l_previous_hash (p_ledger p))),
       (KStr ''sequence_id'', PyInt (l_sequence_id (p_ledger p)))]"
  have pd: "pd = PyDict [(KStr ''type'', PyStr (p_type p)), (KStr ''instance_id'', PyStr (p_instance_id p)),
       (KStr ''decision'', dump_decision (p_decision p)), (KStr ''decision_context'', c),
       (KStr ''governance'', dump_governance (p_governance p)),
       (KStr ''determinism'', dump_determinism (p_determinism p)),
       (KStr ''ledger'', dump_ledger (p_ledger p)), (KStr ''signature'', dump_signature (p_signature p))]"
    using d c(1) by (simp add: dump_proof_def)
  have e: "entry_content (norm pd) = Inr ?n"
    unfolding entry_content_def pd dump_ledger_def
    by (simp add: get_item_norm dget_def del: norm.simps(3))
  have "plain ?n" using c(2) by (simp del: norm.simps)
  then have "json_dumps False ?n = Some (emit False (norm ?n))" by (rule json_dumps_plain)
  also have "norm ?n = norm ?payload" unfolding sort_hash_fields norm_norm ..
  finally show ?thesis
    using accepted_hash [OF p(2)] by (simp only: recompute_hash_def e rbind.simps opt_res_def hash_message_def c(4) option.case sum.case)
qed

lemma stored_entry:
  assumes x: "pydantic_ok x" and st: "stored_proof x r p" and v: "json_loads (lr_proof_json r) = Some v"
  shows "entry_of x r v"
proof -
  have w: "wf_proof p" "json_proof p" "proof_accepted x p" "lr_current_hash r = l_current_hash (p_ledger p)"
    "lr_sequence_id r = l_sequence_id (p_ledger p)" "lr_previous_hash r = l_previous_hash (p_ledger p)"
    "lr_to_state r = d_to_state (p_decision p)"
    using st unfolding stored_proof_def by blast+
  obtain pd c where d: "dump_proof x p = Inr pd" "plain pd" "wf_val pd"
    "pd = PyDict [(KStr ''type'', PyStr (p_type p)), (KStr ''instance_id'', PyStr (p_instance_id p)),
       (KStr ''decision'', dump_decision (p_decision p)), (KStr ''decision_context'', c),
       (KStr ''governance'', dump_governance (p_governance p)),
       (KStr ''determinism'', dump_determinism (p_determinism p)),
       (KStr ''ledger'', dump_ledger (p_ledger p)), (KStr ''signature'', dump_signature (p_signature p))]"
    using dump_proof_json [OF x w(2)] by metis
  have j: "lr_proof_json r = emit False (norm pd)" using st d(1) unfolding stored_proof_def by auto
  have "json_loads (lr_proof_json r) = Some (norm pd)"
    unfolding j by (rule json_loads_emit) (simp_all add: d(2,3) del: norm.simps)
  then have vn: "v = norm pd" using v by simp
  let ?l = "norm (dump_ledger (p_ledger p))" and ?s = "norm (dump_signature (p_signature p))"
    and ?d = "norm (dump_decision (p_decision p))"
  have items: "get_item v ''ledger'' e = Inr ?l" "get_item v ''decision'' e = Inr ?d" "get_item v ''signature'' e = Inr ?s"
    "get_item v ''proof_id'' PyNone = Inr PyNone" "get_item v ''instance_id'' e = Inr (PyStr (p_instance_id p))" for e
    unfolding vn d(4) by (simp_all add: get_item_norm dget_def del: norm.simps(3)) (simp add: norm_PyDict get_item_def dget_or_def dget_norm_items dget_def)
  have l: "get_item ?l ''current_hash'' e = Inr (PyStr (lr_current_hash r))"
    "get_item ?l ''previous_hash'' e = Inr (PyStr (lr_previous_hash r))"
    "get_item ?l ''sequence_id'' e = Inr (PyInt (lr_sequence_id r))" for e
    unfolding w(4-6) dump_ledger_def by (simp_all add: get_item_norm dget_def del: norm.simps(3))
  have s: "get_item ?s ''key_id'' e = Inr (PyStr (s_key_id (p_signature p)))"
    "get_item ?s ''value'' e = Inr (PyStr (s_value (p_signature p)))"
    "get_item ?s ''public_key'' e = Inr (PyStr (s_public_key (p_signature p)))" for e
    unfolding dump_signature_def by (simp_all add: get_item_norm dget_def del: norm.simps(3))
  have to: "get_item ?d ''to_state'' e = Inr (PyStr (lr_to_state r))" for e
    unfolding w(7) dump_decision_def by (simp add: get_item_norm dget_def del: norm.simps(3))
  have rec: "recompute_hash x v = Inr (lr_current_hash r)"
    unfolding vn w(4) by (rule stored_entry_recompute [OF x w(2,3) d(1)])
  have len: "length (s_value (p_signature p)) = 128" "s_public_key (p_signature p) \<noteq> []"
    using w(1) unfolding wf_proof_def wf_signature_def hex_text_def by auto
  have "verify_ed25519_hex x (PyStr (s_public_key (p_signature p))) (lr_current_hash r) (PyStr (s_value (p_signature p)))"
    using w(3) unfolding w(4) proof_accepted_def verify_ed25519_def
    by (auto simp: verify_ed25519_hex_def hex_arg_def as_str_def split: option.splits)
  moreover have "s_value (p_signature p) \<noteq> []" using len(1) by auto
  ultimately have "\<exists>res. verify_proof_signature x v None = Inr res \<and> sg_valid res"
    using len by (simp add: verify_proof_signature_def items l s rec sig_recompute_hash_def py_len_def Let_def)
  moreover have "plain v" unfolding vn using d(2) by simp
  ultimately show ?thesis
    unfolding entry_of_def using items(1,2) l to rec by blast
qed

lemma stored_entries:
  assumes "pydantic_ok x" "list_all2 (stored_proof x) rs ps"
  obtains vs where "proof_dicts_of rs = Inr vs" "list_all2 (entry_of x) rs vs"
  using assms(2)
proof (induction arbitrary: thesis rule: list_all2_induct)
  case (Cons r rs p ps)
  obtain vs where vs: "proof_dicts_of rs = Inr vs" "list_all2 (entry_of x) rs vs" by (rule Cons.IH)
  obtain v where v: "json_loads (lr_proof_json r) = Some v" "ProofV1_validate x v = Inr (norm_proof p)"
    "embedded_hash v = Inr (lr_current_hash r)" "lr_proof_json r \<noteq> []" "lr_proof_json r \<noteq> ''{}''"
    by (rule stored_proof_read [OF assms(1) Cons.hyps(1)])
  show thesis
    by (rule Cons.prems [of "v # vs"]) (use vs v stored_entry [OF assms(1) Cons.hyps(1) v(1)] in simp_all)
qed simp

lemma entries_chain:
  assumes "list_all2 (entry_of x) rs vs" "\<forall>r\<in>set rs. lr_current_hash r \<noteq> []" "rows_linked n h rs"
    "(case prev of Some g \<Rightarrow> if g = [] then genesis_hash else g | None \<Rightarrow> genesis_hash) = h"
  shows "package_chain x prev vs = Inr (None, map (\<lambda>r. PyInt (lr_sequence_id r)) rs)"
  using assms
proof (induction arbitrary: n h prev rule: list_all2_induct)
  case (Cons r rs v vs)
  have "package_chain x (Some (lr_current_hash r)) vs = Inr (None, map (\<lambda>r. PyInt (lr_sequence_id r)) rs)"
    by (rule Cons.IH) (use Cons.prems in auto)
  with Cons.hyps(1) Cons.prems show ?case by (auto simp: entry_of_def)
qed simp

lemma entries_offline_chain:
  assumes "list_all2 (entry_of x) rs vs" "rows_linked n h rs" "prev = None \<or> prev = Some (PyStr h)"
  shows "offline_chain x prev vs = Inr None"
  using assms
proof (induction arbitrary: n h prev rule: list_all2_induct)
  case (Cons r rs v vs)
  have "offline_chain x (Some (PyStr (lr_current_hash r))) vs = Inr None"
    by (rule Cons.IH) (use Cons.prems in auto)
  with Cons.hyps(1) Cons.prems show ?case by (auto simp: entry_of_def offline_recompute_hash_def)
qed simp

lemma entries_hashes: "list_all2 (entry_of x) rs vs \<Longrightarrow> rmap_list embedded_hash vs = Inr (map lr_current_hash rs)"
  by (induction rule: list_all2_induct) (auto simp: entry_of_def embedded_hash_def as_str_def)

lemma entries_root:
  "list_all2 (entry_of x) rs vs \<Longrightarrow> pkg_instance_root x vs = Inr (hexdigest x (utf8 (concat (map lr_current_hash rs))))"
  by (simp add: pkg_instance_root_def entries_hashes)

lemma package_dict_items:
  "get_item (package_dict pk) ''type'' d = Inr (PyStr ''provable-ai-proof-package'')"
  "get_item (package_dict pk) ''package_hash'' d = Inr (PyStr (pk_package_hash pk))"
  "get_item (package_dict pk) ''public_key'' d = Inr (PyStr (pk_public_key pk))"
  "get_item (package_dict pk) ''signature'' d = Inr (PyStr (pk_signature pk))"
  "get_item (package_dict pk) ''proof'' d = Inr (PyDict [(KStr ''instance_id'', PyStr (pk_instance_id pk)),
        (KStr ''instance_root'', PyStr (pk_instance_root pk)), (KStr ''ledger'', PyList (pk_ledger pk))])"
  by (simp_all add: package_dict_def get_item_def dget_or_def dget_def)

lemma proof_block_items:
  "get_item (PyDict [(KStr ''instance_id'', a), (KStr ''instance_root'', b), (KStr ''ledger'', c)]) ''instance_id'' d = Inr a"
  "get_item (PyDict [(KStr ''instance_id'', a), (KStr ''instance_root'', b), (KStr ''ledger'', c)]) ''instance_root'' d = Inr b"
  "get_item (PyDict [(KStr ''instance_id'', a), (KStr ''instance_root'', b), (KStr ''ledger'', c)]) ''ledger'' d = Inr c"
  by (simp_all add: get_item_def dget_or_def dget_def)

text \<open>What an export consists of, in terms of the rows it exports.\<close>

lemma export_parts:
  assumes x: "pydantic_ok x" "digest_ok x" and f: "facade_ok x W f" "w \<in> W"
    and ex: "Engine_export_proof x w i f = (Inr pk, f')" and ne: "get_ledger_chain (f_db f) i ''default'' \<noteq> []"
  defines "rs \<equiv> get_ledger_chain (f_db f) i ''default''"
  shows "list_all2 (entry_of x) rs (pk_ledger pk)" "rows_linked 0 genesis_hash rs" "\<forall>r\<in>set rs. lower_hex 64 (lr_current_hash r)"
    "pk_instance_root pk = hexdigest x (utf8 (concat (map lr_current_hash rs)))"
    "compute_package_hash x (PyList (pk_ledger pk)) = Inr (pk_package_hash pk)"
    "verify_ed25519_hex x (PyStr (pk_public_key pk)) (pk_instance_root pk) (PyStr (pk_signature pk))"
    "pk_public_key pk \<noteq> []" "pk_signature pk \<noteq> []" "pk_package_hash pk \<noteq> []"
proof -
  have e: "ledger_ok (f_db f)" "\<forall>r\<in>set rs. \<exists>p. stored_proof x r p" "signer_ok x W (e_signer (f_engine f))"
    using f(1) unfolding facade_ok_def engine_ok_def f_db_def rs_def by (auto simp: get_ledger_chain_def)
  then obtain ps where ps: "list_all2 (stored_proof x) rs ps" using list_all2_choice by blast
  obtain vs where vs: "proof_dicts_of rs = Inr vs" "list_all2 (entry_of x) rs vs" by (rule stored_entries [OF x(1) ps])
  obtain root vs' hb sig sg1 pub sg2 where c: "proof_dicts_of rs = Inr vs'"
    "Engine_compute_instance_root x f i = Inr root" "fromhex root = Some hb"
    "sign_hash x w (e_signer (f_engine f)) hb = (Inr sig, sg1)" "get_public_key x w sg1 = (Inr pub, sg2)"
    "build_package x i root vs' pub sig = Inr pk" "f_db f' = freeze_instance i ''default'' (f_db f)"
    by (rule export_cases [OF ex, folded rs_def])
  have root: "root = hexdigest x (utf8 (concat (map lr_current_hash rs)))"
    using c(2) ne unfolding Engine_compute_instance_root_def rs_def by simp
  have pk: "pk_ledger pk = vs" "pk_instance_root pk = root" "pk_public_key pk = pub" "pk_signature pk = sig"
    "pk_package_hash pk \<noteq> []" "compute_package_hash x (PyList vs) = Inr (pk_package_hash pk)"
    using c(6) c(1) vs(1) by (auto simp: build_package_def compute_package_hash_def Let_def rbind_rcheck split: if_splits simp del: json_dumps.simps)
  show "list_all2 (entry_of x) rs (pk_ledger pk)" "pk_instance_root pk = hexdigest x (utf8 (concat (map lr_current_hash rs)))"
    "compute_package_hash x (PyList (pk_ledger pk)) = Inr (pk_package_hash pk)" "pk_package_hash pk \<noteq> []"
    using vs(2) pk root by simp_all
  show "rows_linked 0 genesis_hash rs" unfolding rs_def by (rule ledger_ok_linked [OF e(1)])
  show "\<forall>r\<in>set rs. lower_hex 64 (lr_current_hash r)" using e(2) stored_hash_lower_hex [OF x(2)] by blast
  have "verify_ed25519 x pub hb sig" by (rule signer_ok_sign_pub [OF e(3) f(2) c(4,5)])
  then show "verify_ed25519_hex x (PyStr (pk_public_key pk)) (pk_instance_root pk) (PyStr (pk_signature pk))"
    using c(3) pk by (auto simp: verify_ed25519_hex_def verify_ed25519_def hex_arg_def as_str_def split: option.splits)
  have "lower_hex 128 sig" using signer_ok_sign_text [OF e(3) f(2) c(4)] by blast
  moreover have "lower_hex 64 pub" using signer_ok_public_text [OF signer_ok_sign [OF e(3) f(2) c(4)] f(2) c(5)] .
  ultimately show "pk_public_key pk \<noteq> []" "pk_signature pk \<noteq> []" using pk by (auto simp: lower_hex_def)
qed

lemma entry_last:
  assumes "list_all2 (entry_of x) rs vs" "rs \<noteq> []"
  shows "entry_of x (last rs) (last vs)"
  using assms by (cases "vs = []") (auto simp: last_conv_nth list_all2_conv_all_nth)

text \<open>When the parts fit, the four checks pass.\<close>

lemma package_accepts:
  assumes "pk_ledger pk \<noteq> []" "package_chain x None (pk_ledger pk) = Inr (None, qs)"
    "pkg_instance_root x (pk_ledger pk) = Inr (pk_instance_root pk)"
    "compute_package_hash x (PyList (pk_ledger pk)) = Inr (pk_package_hash pk)" "pk_package_hash pk \<noteq> []"
    "verify_ed25519_hex x (PyStr (pk_public_key pk)) (pk_instance_root pk) (PyStr (pk_signature pk))"
    "pk_public_key pk \<noteq> []" "pk_signature pk \<noteq> []"
    "get_item (last (pk_ledger pk)) ''decision'' (PyDict []) = Inr dc" "get_item dc ''to_state'' (PyStr ''unknown'') = Inr to"
  shows "\<exists>checks meta. pkg_verify_package x (package_dict pk) = Inr (True, checks, meta) \<and> length checks = 4 \<and>
      list_all (\<lambda>c. cr_passed c \<and> \<not> cr_skipped c) checks \<and> pm_final_state meta = Some to \<and> pm_ledger meta = Some (pk_ledger pk)"
proof -
  obtain e es where es: "pk_ledger pk = e # es" using assms(1) by (cases "pk_ledger pk") auto
  have s: "package_structure (package_dict pk) =
      Inr (check_ok ''Package structure valid'', no_meta\<lparr>pm_ledger := Some (pk_ledger pk), pm_instance_id := Some (PyStr (pk_instance_id pk))\<rparr>)"
    by (simp add: package_structure_def package_dict_items proof_block_items es)
  have u: "package_untampered x (package_dict pk) (pk_ledger pk) = Inr (check_ok ''Package untampered'')"
    using assms(4,5) by (simp add: package_untampered_def package_dict_items)
  have c: "package_chain_check x (pk_ledger pk) m = Inr (check_ok ''Chain valid'',
      m\<lparr>pm_final_state := Some to, pm_seq_range := Some (hd qs, last qs)\<rparr>)" for m
    by (simp add: package_chain_check_def assms(2,9,10))
  have g: "package_signer x (package_dict pk) (pk_ledger pk) m = Inr (check_ok ''Original signer verified'',
      m\<lparr>pm_key_id := Some (''env-'' @ take 16 (pk_public_key pk)), pm_public_key := Some (pk_public_key pk)\<rparr>)" for m
    using assms(3,6-8) by (simp add: package_signer_def package_dict_items proof_block_items as_str_def)
  show ?thesis by (simp add: pkg_verify_package_def s u c g no_meta_def check_ok_def)
qed

text \<open>
  C22: Whatever the facade exports is accepted by the tools that work without it.  For every package that
  \<open>export_proof\<close> returns in a reachable state, for an instance with recorded decisions, \<open>verify_package.py\<close> passes
  its four checks and skips none, \<open>offline_verify.py\<close> returns that the proof is valid, both with the last recorded
  state, and \<open>verify_signature.py\<close> accepts every entry.
\<close>

theorem export_accepted_offline:
  assumes "pydantic_ok x" "digest_ok x" "signer_ok x W sg" "facade_reach x W sg f" "w \<in> W"
    and "Engine_export_proof x w i f = (Inr pk, f')" "get_ledger_chain (f_db f) i ''default'' \<noteq> []"
  shows "(\<exists>checks meta. pkg_verify_package x (package_dict pk) = Inr (True, checks, meta) \<and> length checks = 4 \<and>
      list_all (\<lambda>c. cr_passed c \<and> \<not> cr_skipped c) checks \<and>
      pm_final_state meta = Some (PyStr (lr_to_state (last (get_ledger_chain (f_db f) i ''default''))))) \<and>
    offline_verify_proof x (Some (package_dict pk)) =
      Inr (True, ProofValid, Some (PyStr (lr_to_state (last (get_ledger_chain (f_db f) i ''default''))))) \<and>
    (\<forall>e\<in>set (pk_ledger pk). \<exists>res. verify_proof_signature x e None = Inr res \<and> sg_valid res)"
proof -
  let ?rs = "get_ledger_chain (f_db f) i ''default''"
  note p = export_parts [OF assms(1,2) facade_ok_reach [OF assms(1-4)] assms(5-7)]
  have ne: "pk_ledger pk \<noteq> []" using p(1) assms(7) by auto
  then obtain e es where es: "pk_ledger pk = e # es" by (cases "pk_ledger pk") auto
  have h: "\<forall>r\<in>set ?rs. lr_current_hash r \<noteq> []" using p(3) by (auto simp: lower_hex_def)
  note ch = entries_chain [OF p(1) h p(2), of None, simplified]
  note oc = entries_offline_chain [OF p(1,2), of None, simplified]
  note root = entries_root [OF p(1), folded p(4)]
  obtain dc where dc: "\<And>d. get_item (last (pk_ledger pk)) ''decision'' d = Inr dc"
    "\<And>d. get_item dc ''to_state'' d = Inr (PyStr (lr_to_state (last ?rs)))"
    using entry_last [OF p(1) assms(7)] unfolding entry_of_def by blast
  note acc = package_accepts [OF ne ch root p(5,9,6,7,8) dc(1) dc(2)]
  have "offline_verify_proof x (Some (package_dict pk)) = Inr (True, ProofValid, Some (PyStr (lr_to_state (last ?rs))))"
    using p(5,6,9) ne oc
    by (simp add: offline_verify_proof_def package_dict_items proof_block_items offline_package_hash_def
        offline_instance_root_def root py_iter_def dc)
  moreover have "\<forall>e\<in>set (pk_ledger pk). \<exists>res. verify_proof_signature x e None = Inr res \<and> sg_valid res"
    using p(1) unfolding entry_of_def by (auto simp: list_all2_conv_all_nth in_set_conv_nth)
  ultimately show ?thesis using acc by blast
qed

theorem export_accepted_offline_witness:
  "\<exists>pk f' checks meta. Engine_export_proof sample_ext sample_world ''i'' (snd sample_transition) = (Inr pk, f') \<and>
     pkg_verify_package sample_ext (package_dict pk) = Inr (True, checks, meta)"
proof -
  obtain f' where t: "snd sample_transition = f'" "length (get_ledger_chain (f_db f') ''i'' ''default'') = 1"
    "facade_reach sample_ext {sample_world} sample_signer f'" "e_signer (f_engine f') = sample_signer"
    by (rule sample_exported)
  have av: "signer_available sample_ext sample_world (e_signer (f_engine f'))"
    by (simp add: t(4) sample_signer_def env_available)
  have ne: "get_ledger_chain (f_db f') ''i'' ''default'' \<noteq> []" using t(2) by auto
  obtain pk f'' where e: "Engine_export_proof sample_ext sample_world ''i'' f' = (Inr pk, f'')"
    by (rule export_succeeds [OF _ _ facade_ok_reach [OF _ _ _ t(3)] _ av ne, where now = sample_now]) simp_all
  from export_accepted_offline [OF _ _ _ t(3) _ e ne] e show ?thesis unfolding t(1) by fastforce
qed

subsection \<open>What an accepted package commits to\<close>

text \<open>The text that is hashed for an entry, and the bytes of the instance root.\<close>

definition hashed_text :: "pyval \<Rightarrow> string" where
  "hashed_text e = (case rbind (entry_content e) (\<lambda>c. opt_res TypeError (json_dumps False c)) of Inr t \<Rightarrow> t | Inl _ \<Rightarrow> [])"

definition root_message :: "pyval list \<Rightarrow> bytes" where
  "root_message es = (case rmap_list embedded_hash es of Inr hs \<Rightarrow> utf8 (concat hs) | Inl _ \<Rightarrow> [])"

lemma recompute_hashed: "recompute_hash x e = Inr h \<Longrightarrow> h = hexdigest x (utf8 (hashed_text e))"
  by (auto simp: recompute_hash_def hashed_text_def)

lemma chain_embedded:
  "package_chain x prev es = Inr (None, qs) \<Longrightarrow>
   rmap_list embedded_hash es = Inr (map (\<lambda>e. hexdigest x (utf8 (hashed_text e))) es)"
proof (induction es arbitrary: prev qs)
  case (Cons e es)
  obtain h qs' where h: "recompute_hash x e = Inr h" "package_chain x (Some h) es = Inr (None, qs')"
    "\<exists>l. get_item e ''ledger'' (PyDict []) = Inr l \<and> get_item l ''current_hash'' (PyStr []) = Inr (PyStr h)"
    using Cons.prems by (auto split: if_splits prod.splits)
  then have "embedded_hash e = Inr h" by (auto simp: embedded_hash_def as_str_def)
  with Cons.IH [OF h(2)] recompute_hashed [OF h(1)] show ?case by simp
qed simp

lemma concat_same_length:
  "\<forall>a\<in>set as. length a = n \<Longrightarrow> \<forall>b\<in>set bs. length b = n \<Longrightarrow> 0 < n \<Longrightarrow> concat as = concat bs \<Longrightarrow> as = bs"
proof (induction as arbitrary: bs)
  case Nil
  then show ?case by (cases bs) auto
next
  case (Cons a as)
  obtain b bs' where bs: "bs = b # bs'" using Cons.prems(1,3,4) by (cases bs) auto
  have "length a = length b" using Cons.prems(1,2) bs by simp
  moreover have "a @ concat as = b @ concat bs'" using Cons.prems(4) unfolding bs by simp
  ultimately have "a = b" "concat as = concat bs'" by (auto simp: append_eq_append_conv)
  moreover have "as = bs'"
    by (rule Cons.IH [OF _ _ Cons.prems(3) \<open>concat as = concat bs'\<close>]) (use Cons.prems(1,2) bs in simp_all)
  ultimately show ?case using bs by simp
qed

lemma chain_check_result:
  assumes "package_chain_check x es m = Inr (c, m')"
  shows "pm_ledger m' = pm_ledger m" "cr_passed c \<Longrightarrow> \<exists>qs. package_chain x None es = Inr (None, qs)"
proof -
  obtain f qs where f: "package_chain x None es = Inr (f, qs)"
    using assms by (auto simp: package_chain_check_def Let_def)
  show "pm_ledger m' = pm_ledger m" "cr_passed c \<Longrightarrow> \<exists>qs. package_chain x None es = Inr (None, qs)"
    using assms f by (cases f; force simp: package_chain_check_def Let_def check_fail_def)+
qed

lemma signer_check_ledger: "package_signer x p es m = Inr (c, m') \<Longrightarrow> pm_ledger m' = pm_ledger m"
  by (auto simp: package_signer_def Let_def split: if_splits)

lemma accepted_cases:
  assumes "pkg_verify_package x p = Inr (True, cs, m)"
  obtains c1 m1 es c2 c3 m3 c4 where "package_structure p = Inr (c1, m1)" "pm_ledger m1 = Some es" "pm_ledger m = Some es"
    "package_untampered x p es = Inr c2" "package_chain_check x es m1 = Inr (c3, m3)" "package_signer x p es m3 = Inr (c4, m)"
    "cs = [c1, c2, c3, c4]" "list_all cr_passed cs"
proof -
  obtain c1 m1 where s: "package_structure p = Inr (c1, m1)" using assms by (auto simp: pkg_verify_package_def)
  then obtain es where es: "pm_ledger m1 = Some es"
    using assms by (cases "pm_ledger m1") (auto simp: pkg_verify_package_def)
  obtain c2 c3 m3 c4 m4 where c: "package_untampered x p es = Inr c2" "package_chain_check x es m1 = Inr (c3, m3)"
    "package_signer x p es m3 = Inr (c4, m4)" "(True, cs, m) = (list_all cr_passed [c1, c2, c3, c4], [c1, c2, c3, c4], m4)"
    using assms s es by (auto simp: pkg_verify_package_def)
  have "pm_ledger m = Some es"
    using c(4) signer_check_ledger [OF c(3)] chain_check_result(1) [OF c(2)] es by simp
  with that s es c show thesis by auto
qed

lemma accepted_parts:
  assumes "pkg_verify_package x p = Inr (True, cs, m)"
  obtains es qs where "pm_ledger m = Some es" "package_chain x None es = Inr (None, qs)"
proof -
  obtain c1 m1 es c2 c3 m3 c4 where c: "package_structure p = Inr (c1, m1)" "pm_ledger m1 = Some es" "pm_ledger m = Some es"
    "package_untampered x p es = Inr c2" "package_chain_check x es m1 = Inr (c3, m3)" "package_signer x p es m3 = Inr (c4, m)"
    "cs = [c1, c2, c3, c4]" "list_all cr_passed cs"
    by (rule accepted_cases [OF assms])
  show thesis using that c(3,7,8) chain_check_result(2) [OF c(5)] by auto
qed

text \<open>
  C23: The instance root commits to the decisions.  When \<open>verify_package.py\<close> accepts two packages whose ledgers have
  the same instance root (the text the signature is over), the ledgers have the same length and agree, entry by
  entry, on the canonical text of the six hashed fields, unless SHA-256 collides on the messages hashed in the two.
\<close>

theorem package_binding:
  assumes "digest_ok x" "pkg_verify_package x p1 = Inr (True, cs1, m1)" "pm_ledger m1 = Some es1"
    "pkg_verify_package x p2 = Inr (True, cs2, m2)" "pm_ledger m2 = Some es2"
    "pkg_instance_root x es1 = pkg_instance_root x es2"
    "inj_on (x_sha256 x) ({root_message es1, root_message es2} \<union> (\<lambda>e. utf8 (hashed_text e)) ` (set es1 \<union> set es2))"
  shows "map hashed_text es1 = map hashed_text es2"
proof -
  let ?h = "\<lambda>e. hexdigest x (utf8 (hashed_text e))"
  obtain q1 q2 where c: "package_chain x None es1 = Inr (None, q1)" "package_chain x None es2 = Inr (None, q2)"
    using accepted_parts [OF assms(2)] accepted_parts [OF assms(4)] assms(3,5) by (metis option.inject)
  note e = chain_embedded [OF c(1)] chain_embedded [OF c(2)]
  have r: "pkg_instance_root x es = Inr (hexdigest x (root_message es))" if "rmap_list embedded_hash es = Inr hs" for es hs
    using that by (simp add: pkg_instance_root_def root_message_def)
  have "x_sha256 x (root_message es1) = x_sha256 x (root_message es2)"
    using assms(6) r [OF e(1)] r [OF e(2)] by (simp add: hexdigest_def hex_inj)
  then have "root_message es1 = root_message es2" using assms(7) by (auto dest: inj_onD)
  then have "concat (map ?h es1) = concat (map ?h es2)" by (simp add: root_message_def e utf8_inj)
  then have hs: "map ?h es1 = map ?h es2"
    by (rule concat_same_length [rotated 3, where n = 64]) (auto simp: length_hexdigest [OF assms(1)])
  then have len: "length es1 = length es2" by (metis length_map)
  show ?thesis
  proof (rule nth_equalityI)
    fix i assume "i < length (map hashed_text es1)"
    then have i: "es1 ! i \<in> set es1" "es2 ! i \<in> set es2" "?h (es1 ! i) = ?h (es2 ! i)" "i < length es1" "i < length es2"
      using len nth_map [of i es1 ?h] nth_map [of i es2 ?h] hs by simp_all
    then have "x_sha256 x (utf8 (hashed_text (es1 ! i))) = x_sha256 x (utf8 (hashed_text (es2 ! i)))"
      by (simp add: hexdigest_def hex_inj)
    then have "utf8 (hashed_text (es1 ! i)) = utf8 (hashed_text (es2 ! i))" using assms(7) i(1,2) by (auto dest: inj_onD)
    then show "map hashed_text es1 ! i = map hashed_text es2 ! i" using i(4,5) by (simp add: utf8_inj)
  qed (simp add: len)
qed

text \<open>A package with one entry, made by hand for the sample environment; the argument is the timestamp of the entry.\<close>

definition demo_entry :: "string \<Rightarrow> string \<Rightarrow> pyval" where
  "demo_entry h ts = PyDict [(KStr ''decision'', PyDict [(KStr ''to_state'', PyStr ''b'')]),
     (KStr ''ledger'', PyDict [(KStr ''sequence_id'', PyInt 1), (KStr ''previous_hash'', PyStr genesis_hash),
        (KStr ''current_hash'', PyStr h), (KStr ''timestamp'', PyStr ts)])]"

definition demo_hash :: string where
  "demo_hash = hexdigest sample_ext (utf8 (hashed_text (demo_entry [] [])))"

definition demo_package :: "string \<Rightarrow> package" where
  "demo_package ts =
     (let e = demo_entry demo_hash ts; key = replicate 32 1; root = x_sha256 sample_ext (utf8 demo_hash)
      in \<lparr>pk_public_key = hex key, pk_signature = hex (key @ pad32 root),
          pk_package_hash = hexdigest sample_ext (utf8 (case json_dumps False (PyList [e]) of Some t \<Rightarrow> t | None \<Rightarrow> [])),
          pk_proof_fingerprint = [], pk_chain_length = 1, pk_instance_id = ''i'', pk_instance_root = hex root, pk_ledger = [e]\<rparr>)"

lemma demo_items:
  "entry_content (demo_entry h ts) = Inr (PyDict [(KStr ''decision'', PyDict [(KStr ''to_state'', PyStr ''b'')]),
      (KStr ''decision_context'', PyDict []), (KStr ''governance'', PyDict []), (KStr ''determinism'', PyDict []),
      (KStr ''previous_hash'', PyStr genesis_hash), (KStr ''sequence_id'', PyInt 1)])"
  "get_item (demo_entry h ts) ''ledger'' d = Inr (PyDict [(KStr ''sequence_id'', PyInt 1), (KStr ''previous_hash'', PyStr genesis_hash),
        (KStr ''current_hash'', PyStr h), (KStr ''timestamp'', PyStr ts)])"
  "get_item (demo_entry h ts) ''decision'' d = Inr (PyDict [(KStr ''to_state'', PyStr ''b'')])"
  "plain (demo_entry h ts)"
  "embedded_hash (demo_entry h ts) = Inr h"
  by (simp_all add: entry_content_def embedded_hash_def demo_entry_def get_item_def dget_or_def dget_def as_str_def)

lemma demo_recompute: "recompute_hash sample_ext (demo_entry h ts) = Inr demo_hash"
proof -
  obtain t where "json_dumps False (PyDict [(KStr ''decision'', PyDict [(KStr ''to_state'', PyStr ''b'')]),
      (KStr ''decision_context'', PyDict []), (KStr ''governance'', PyDict []), (KStr ''determinism'', PyDict []),
      (KStr ''previous_hash'', PyStr genesis_hash), (KStr ''sequence_id'', PyInt 1)]) = Some t"
    using json_dumps_plain [of "PyDict [(KStr ''decision'', PyDict [(KStr ''to_state'', PyStr ''b'')]),
      (KStr ''decision_context'', PyDict []), (KStr ''governance'', PyDict []), (KStr ''determinism'', PyDict []),
      (KStr ''previous_hash'', PyStr genesis_hash), (KStr ''sequence_id'', PyInt 1)]" False]
    by (simp del: json_dumps.simps norm.simps)
  then show ?thesis by (simp add: recompute_hash_def demo_hash_def hashed_text_def demo_items(1) del: json_dumps.simps)
qed

lemma demo_accepted:
  obtains cs m where "pkg_verify_package sample_ext (package_dict (demo_package ts)) = Inr (True, cs, m)"
    "pm_ledger m = Some [demo_entry demo_hash ts]"
proof -
  let ?e = "demo_entry demo_hash ts"
  have "plain (PyList [?e])" by (simp add: demo_items(4))
  then obtain t where t: "json_dumps False (PyList [?e]) = Some t" using json_dumps_plain by metis
  have "hex b \<noteq> []" if "length b = 32" for b :: bytes using that length_hex [of b] by (cases "hex b") simp_all
  then have ne: "hexdigest sample_ext m \<noteq> []" "hex (replicate 32 (1::byte)) \<noteq> []" for m
    by (simp_all add: hexdigest_def digest_ok_length)
  have ch: "package_chain sample_ext None [?e] = Inr (None, [PyInt 1])"
    by (simp add: demo_items(2) demo_recompute) (simp add: get_item_def dget_or_def dget_def)
  have "verify_ed25519_hex sample_ext (PyStr (hex (replicate 32 1))) (hex r) (PyStr (hex (replicate 32 1 @ pad32 r)))" for r
    by (simp add: verify_ed25519_hex_def hex_arg_def as_str_def sample_ext_def)
  note sig = this
  have "\<exists>checks meta. pkg_verify_package sample_ext (package_dict (demo_package ts)) = Inr (True, checks, meta) \<and> length checks = 4 \<and>
      list_all (\<lambda>c. cr_passed c \<and> \<not> cr_skipped c) checks \<and> pm_final_state meta = Some (PyStr ''b'') \<and>
      pm_ledger meta = Some (pk_ledger (demo_package ts))"
  proof (rule package_accepts)
    have "pk_ledger (demo_package ts) = [?e]" by (simp add: demo_package_def Let_def)
    then show "package_chain sample_ext None (pk_ledger (demo_package ts)) = Inr (None, [PyInt 1])"
      "get_item (last (pk_ledger (demo_package ts))) ''decision'' (PyDict []) = Inr (PyDict [(KStr ''to_state'', PyStr ''b'')])"
      "pk_ledger (demo_package ts) \<noteq> []"
      using ch demo_items(3) by simp_all
    have "hex (replicate 32 (1::byte) @ pad32 r) \<noteq> []" for r
      using length_hex [of "replicate 32 (1::byte) @ pad32 r"] by (cases "hex (replicate 32 (1::byte) @ pad32 r)") simp_all
    then show "pk_signature (demo_package ts) \<noteq> []" "pk_public_key (demo_package ts) \<noteq> []" "pk_package_hash (demo_package ts) \<noteq> []"
      using ne by (simp_all add: demo_package_def Let_def)
    show "verify_ed25519_hex sample_ext (PyStr (pk_public_key (demo_package ts))) (pk_instance_root (demo_package ts)) (PyStr (pk_signature (demo_package ts)))"
      using sig by (simp add: demo_package_def Let_def)
    show "compute_package_hash sample_ext (PyList (pk_ledger (demo_package ts))) = Inr (pk_package_hash (demo_package ts))"
      using t by (simp add: demo_package_def Let_def compute_package_hash_def del: json_dumps.simps)
    show "pkg_instance_root sample_ext (pk_ledger (demo_package ts)) = Inr (pk_instance_root (demo_package ts))"
      by (simp add: demo_package_def Let_def pkg_instance_root_def demo_items(5) hexdigest_def)
  qed (simp add: get_item_def dget_or_def dget_def)
  then show thesis using that by (auto simp: demo_package_def Let_def)
qed

lemma sample_sha_last:
  "cp c < 128 \<Longrightarrow> hd (x_sha256 sample_ext (utf8 (t @ [c]))) = word_of_nat (cp c)"
  by (simp add: sample_ext_def pad32_def utf8_def utf8_char_def Let_def hd_take)

lemma demo_inj: "x_sha256 sample_ext (utf8 demo_hash) \<noteq> x_sha256 sample_ext (utf8 (hashed_text (demo_entry h ts)))"
proof -
  let ?c = "PyDict [(KStr ''decision'', PyDict [(KStr ''to_state'', PyStr ''b'')]),
      (KStr ''decision_context'', PyDict []), (KStr ''governance'', PyDict []), (KStr ''determinism'', PyDict []),
      (KStr ''previous_hash'', PyStr genesis_hash), (KStr ''sequence_id'', PyInt 1)]"
  have "plain ?c" by simp
  then obtain t where t: "json_dumps False ?c = Some t" using json_dumps_plain by metis
  then have "\<exists>u. t = u @ ''}''" by (auto simp: wrap_dict_def split: option.splits)
  then obtain u where u: "hashed_text (demo_entry h ts) = u @ [CHR ''}'']"
    using t by (auto simp: hashed_text_def demo_items(1) simp del: json_dumps.simps)
  have l: "lower_hex 64 demo_hash" by (simp add: demo_hash_def hexdigest_lower_hex)
  obtain v c where v: "demo_hash = v @ [c]" using l by (cases demo_hash rule: rev_cases) (auto simp: lower_hex_def)
  then have "lower_hex_char c" using l unfolding v lower_hex_def by simp
  have "cp c < 128" "cp c \<noteq> 125" "cp CHR ''}'' = 125" using \<open>lower_hex_char c\<close> by (auto simp: lower_hex_char_def cp_def)
  then have "(word_of_nat (cp c) :: byte) \<noteq> word_of_nat (cp CHR ''}'')"
    using byte_eq_iff [of "cp c" "cp CHR ''}''"] by linarith
  with \<open>cp c < 128\<close> \<open>cp CHR ''}'' = 125\<close> show ?thesis
    unfolding u v using sample_sha_last [of c v] sample_sha_last [of "CHR ''}''" u] by auto
qed

theorem package_binding_witness:
  "\<exists>m1 m2 cs1 cs2 es1 es2. pkg_verify_package sample_ext (package_dict (demo_package ''t1'')) = Inr (True, cs1, m1) \<and> pm_ledger m1 = Some es1 \<and>
     pkg_verify_package sample_ext (package_dict (demo_package ''t2'')) = Inr (True, cs2, m2) \<and> pm_ledger m2 = Some es2 \<and>
     es1 \<noteq> es2 \<and> map hashed_text es1 = map hashed_text es2"
proof -
  let ?e = "\<lambda>ts. demo_entry demo_hash ts"
  obtain cs1 m1 where 1: "pkg_verify_package sample_ext (package_dict (demo_package ''t1'')) = Inr (True, cs1, m1)" "pm_ledger m1 = Some [?e ''t1'']"
    by (rule demo_accepted)
  obtain cs2 m2 where 2: "pkg_verify_package sample_ext (package_dict (demo_package ''t2'')) = Inr (True, cs2, m2)" "pm_ledger m2 = Some [?e ''t2'']"
    by (rule demo_accepted)
  have t: "hashed_text (?e ts) = hashed_text (?e ts')" for ts ts' by (simp add: hashed_text_def demo_items(1))
  have msgs: "{root_message [?e ''t1''], root_message [?e ''t2'']} \<union> (\<lambda>e. utf8 (hashed_text e)) ` (set [?e ''t1''] \<union> set [?e ''t2''])
      = {utf8 demo_hash, utf8 (hashed_text (?e ''t1''))}"
    using t [of "''t2''" "''t1''"] by (auto simp: root_message_def demo_items(5))
  have inj: "inj_on (x_sha256 sample_ext) {utf8 demo_hash, utf8 (hashed_text (?e ''t1''))}"
    using demo_inj [of demo_hash "''t1''"] by (auto simp: inj_on_def)
  have "map hashed_text [?e ''t1''] = map hashed_text [?e ''t2'']"
    by (rule package_binding [OF _ 1 2]) (use inj msgs in \<open>simp_all add: pkg_instance_root_def demo_items(5)\<close>)
  moreover have "[?e ''t1''] \<noteq> [?e ''t2'']" by (simp add: demo_entry_def)
  ultimately show ?thesis using 1 2 by blast
qed

text \<open>Two entries that differ in nothing the tools hash or compare.\<close>

fun same_evidence :: "pyval \<Rightarrow> pyval \<Rightarrow> bool" where
  "same_evidence (PyDict a) (PyDict b) \<longleftrightarrow>
     list_all (\<lambda>k. dget a k = dget b k) [''decision'', ''decision_context'', ''governance'', ''determinism''] \<and>
     (case (dget a ''ledger'', dget b ''ledger'') of
        (Some (PyDict l), Some (PyDict m)) \<Rightarrow> list_all (\<lambda>k. dget l k = dget m k) [''current_hash'', ''previous_hash'', ''sequence_id'']
      | _ \<Rightarrow> False)"
| "same_evidence _ _ = False"

lemma same_evidence_items:
  assumes "same_evidence a b"
  shows "get_item a ''decision'' d = get_item b ''decision'' d" "recompute_hash x a = recompute_hash x b"
    "\<exists>l m. (\<forall>d. get_item a ''ledger'' d = Inr l \<and> get_item b ''ledger'' d = Inr m) \<and>
       (\<forall>d. get_item l ''current_hash'' d = get_item m ''current_hash'' d) \<and>
       (\<forall>d. get_item l ''previous_hash'' d = get_item m ''previous_hash'' d) \<and>
       (\<forall>d. get_item l ''sequence_id'' d = get_item m ''sequence_id'' d)"
    "embedded_hash a = embedded_hash b"
proof -
  obtain da db where d: "a = PyDict da" "b = PyDict db" using assms by (cases a; cases b; simp)
  obtain u v where uv: "dget da ''ledger'' = Some u" "dget db ''ledger'' = Some v"
    using assms unfolding d by (cases "dget da ''ledger''"; cases "dget db ''ledger''") (simp_all split: pyval.splits)
  obtain la lb where ab: "a = PyDict da" "b = PyDict db" "dget da ''ledger'' = Some (PyDict la)" "dget db ''ledger'' = Some (PyDict lb)"
    using assms uv d unfolding d by (cases u; cases v; simp)
  have k: "dget da ''decision'' = dget db ''decision''" "dget da ''decision_context'' = dget db ''decision_context''"
    "dget da ''governance'' = dget db ''governance''" "dget da ''determinism'' = dget db ''determinism''"
    and kl: "dget la ''current_hash'' = dget lb ''current_hash''" "dget la ''previous_hash'' = dget lb ''previous_hash''"
    "dget la ''sequence_id'' = dget lb ''sequence_id''"
    using assms unfolding ab(1,2) by (simp_all add: ab(3,4))
  show "get_item a ''decision'' d = get_item b ''decision'' d" by (simp add: ab get_item_def dget_or_def k)
  show "recompute_hash x a = recompute_hash x b"
    by (simp add: ab recompute_hash_def entry_content_def get_item_def dget_or_def k kl)
  show "embedded_hash a = embedded_hash b"
    by (simp add: ab embedded_hash_def get_item_def dget_or_def kl)
  show "\<exists>l m. (\<forall>d. get_item a ''ledger'' d = Inr l \<and> get_item b ''ledger'' d = Inr m) \<and>
       (\<forall>d. get_item l ''current_hash'' d = get_item m ''current_hash'' d) \<and>
       (\<forall>d. get_item l ''previous_hash'' d = get_item m ''previous_hash'' d) \<and>
       (\<forall>d. get_item l ''sequence_id'' d = get_item m ''sequence_id'' d)"
    by (rule exI [of _ "PyDict la"], rule exI [of _ "PyDict lb"]) (simp add: ab get_item_def dget_or_def kl)
qed

lemma same_evidence_chain:
  "list_all2 same_evidence es es' \<Longrightarrow> package_chain x prev es = package_chain x prev es'"
proof (induction arbitrary: prev rule: list_all2_induct)
  case (Cons a as b bs)
  note i = same_evidence_items [OF Cons.hyps(1)]
  obtain l m where lm: "\<And>d. get_item a ''ledger'' d = Inr l" "\<And>d. get_item b ''ledger'' d = Inr m"
    "\<And>d. get_item l ''current_hash'' d = get_item m ''current_hash'' d"
    "\<And>d. get_item l ''previous_hash'' d = get_item m ''previous_hash'' d"
    "\<And>d. get_item l ''sequence_id'' d = get_item m ''sequence_id'' d"
    using i(3) by blast
  show ?case by (simp only: package_chain.simps lm i(2) Cons.IH rbind.simps)
qed simp

lemma same_evidence_root: "list_all2 same_evidence es es' \<Longrightarrow> pkg_instance_root x es = pkg_instance_root x es'"
proof -
  assume "list_all2 same_evidence es es'"
  then have "rmap_list embedded_hash es = rmap_list embedded_hash es'"
    by (induction rule: list_all2_induct) (simp_all add: same_evidence_items(4))
  then show ?thesis by (simp add: pkg_instance_root_def)
qed

text \<open>
  The package hash protects nothing that the signature does not.  When \<open>verify_package.py\<close> accepts a package, the
  entries can be changed in every field outside the six hashed ones and the stored hash (timestamps, signatures,
  key and instance ids), with the package hash computed anew, and the package is accepted again with the same
  final state and the same signer.
\<close>

theorem unsigned_fields_change:
  assumes "pkg_verify_package x (package_dict pk) = Inr (True, cs, m)" "list_all2 same_evidence (pk_ledger pk) es"
    "compute_package_hash x (PyList es) = Inr h"
  shows "\<exists>cs' m'. pkg_verify_package x (package_dict (pk\<lparr>pk_ledger := es, pk_package_hash := h\<rparr>)) = Inr (True, cs', m') \<and>
    pm_ledger m' = Some es \<and> pm_final_state m' = pm_final_state m \<and> pm_key_id m' = pm_key_id m"
proof -
  let ?pk = "pk\<lparr>pk_ledger := es, pk_package_hash := h\<rparr>"
  obtain c1 m1 es0 c2 c3 m3 c4 where c: "package_structure (package_dict pk) = Inr (c1, m1)" "pm_ledger m1 = Some es0" "pm_ledger m = Some es0"
    "package_untampered x (package_dict pk) es0 = Inr c2" "package_chain_check x es0 m1 = Inr (c3, m3)" "package_signer x (package_dict pk) es0 m3 = Inr (c4, m)"
    "cs = [c1, c2, c3, c4]" "list_all cr_passed cs"
    by (rule accepted_cases [OF assms(1)])
  have ne: "pk_ledger pk \<noteq> []" "es0 = pk_ledger pk" and m1: "m1 = no_meta\<lparr>pm_ledger := Some es0, pm_instance_id := Some (PyStr (pk_instance_id pk))\<rparr>"
    using c(1,2) by (auto simp: package_structure_def package_dict_items proof_block_items no_meta_def Let_def split: list.splits)
  then have "es \<noteq> []" using assms(2) by auto
  then obtain e es' where es: "es = e # es'" by (cases es) auto
  have last: "same_evidence (last (pk_ledger pk)) (last es)"
    using assms(2) ne(1) \<open>es \<noteq> []\<close> by (simp add: last_conv_nth list_all2_conv_all_nth)
  have s: "package_structure (package_dict ?pk) = Inr (check_ok ''Package structure valid'', m1\<lparr>pm_ledger := Some es\<rparr>)"
    by (simp add: package_structure_def package_dict_items proof_block_items es m1)
  have u: "\<exists>c. package_untampered x (package_dict ?pk) es = Inr c \<and> cr_passed c"
    using assms(3) by (auto simp: package_untampered_def package_dict_items check_ok_def check_warn_def Let_def)
  have k: "package_chain_check x es (m1\<lparr>pm_ledger := Some es\<rparr>) = Inr (c3, m3\<lparr>pm_ledger := Some es\<rparr>)"
  proof -
    obtain qs where q: "package_chain x None es0 = Inr (None, qs)" using chain_check_result(2) [OF c(5)] c(7,8) by auto
    then have "package_chain x None es = Inr (None, qs)" using same_evidence_chain [OF assms(2), of x None] ne(2) by simp
    with c(5) q show ?thesis using same_evidence_items(1) [OF last] ne(2) by (auto simp: package_chain_check_def Let_def)
  qed
  have g: "package_signer x (package_dict ?pk) es (m3\<lparr>pm_ledger := Some es\<rparr>) = Inr (c4, m\<lparr>pm_ledger := Some es\<rparr>)"
  proof -
    obtain root where root: "pkg_instance_root x (pk_ledger pk) = Inr root" "pkg_instance_root x es = Inr root"
      using c(6,7,8) same_evidence_root [OF assms(2), of x] ne(2)
      by (auto simp: package_signer_def Let_def check_fail_def split: if_splits)
    show ?thesis
      using c(6) unfolding package_signer_def Let_def package_dict_items proof_block_items rbind.simps ne(2) package.simps root
      by (auto split: if_splits)
  qed
  obtain c' where "package_untampered x (package_dict ?pk) es = Inr c'" "cr_passed c'" using u by blast
  moreover have "cr_passed c3" "cr_passed c4" using c(7,8) by simp_all
  moreover have "pm_ledger (m1\<lparr>pm_ledger := Some es\<rparr>) = Some es" by simp
  ultimately have "pkg_verify_package x (package_dict ?pk) =
      Inr (True, [check_ok ''Package structure valid'', c', c3, c4], m\<lparr>pm_ledger := Some es\<rparr>)"
    unfolding pkg_verify_package_def s rbind.simps prod.case by (simp add: k g check_ok_def)
  then show ?thesis by simp
qed

theorem unsigned_fields_change_witness:
  "\<exists>h cs m. compute_package_hash sample_ext (PyList [demo_entry demo_hash ''forged'']) = Inr h \<and>
     pkg_verify_package sample_ext (package_dict ((demo_package ''signed'')\<lparr>pk_ledger := [demo_entry demo_hash ''forged''], pk_package_hash := h\<rparr>))
       = Inr (True, cs, m) \<and> pm_ledger m = Some [demo_entry demo_hash ''forged'']"
proof -
  obtain cs m where a: "pkg_verify_package sample_ext (package_dict (demo_package ''signed'')) = Inr (True, cs, m)"
    by (rule demo_accepted)
  have s: "list_all2 same_evidence (pk_ledger (demo_package ''signed'')) [demo_entry demo_hash ''forged'']"
    by (simp add: demo_package_def Let_def demo_entry_def dget_def)
  have "plain (PyList [demo_entry demo_hash ''forged''])" by (simp add: demo_items(4))
  then obtain h where "compute_package_hash sample_ext (PyList [demo_entry demo_hash ''forged'']) = Inr h"
    using json_dumps_plain by (metis compute_package_hash_def opt_res_simps(2) rbind.simps(2))
  with unsigned_fields_change [OF a s this] show ?thesis by blast
qed

subsection \<open>Where the tools disagree\<close>

text \<open>
  \<open>offline_verify.py\<close> accepts unsigned inventions.  Whatever decision, context, governance and determinism blocks
  one writes down, with any previous hash and any sequence number, the package whose only entry carries them and
  the hash of them, with no signature, no public key, no root and no package hash, is a valid proof of the
  decision's target state.
\<close>

theorem offline_accepts_unsigned:
  assumes "plain (PyDict d)" "plain c" "plain g" "plain t" "dget d ''to_state'' = Some to"
  shows "\<exists>h. offline_verify_proof x (Some (PyDict [(KStr ''type'', PyStr ''provable-ai-proof-package''),
      (KStr ''proof'', PyDict [(KStr ''ledger'', PyList [PyDict [(KStr ''decision'', PyDict d), (KStr ''decision_context'', c),
         (KStr ''governance'', g), (KStr ''determinism'', t),
         (KStr ''ledger'', PyDict [(KStr ''previous_hash'', PyStr prev), (KStr ''sequence_id'', PyInt seq),
            (KStr ''current_hash'', PyStr h)])]])])]))
    = Inr (True, ProofValid, Some to)"
proof -
  let ?e = "\<lambda>h. PyDict [(KStr ''decision'', PyDict d), (KStr ''decision_context'', c),
         (KStr ''governance'', g), (KStr ''determinism'', t),
         (KStr ''ledger'', PyDict [(KStr ''previous_hash'', PyStr prev), (KStr ''sequence_id'', PyInt seq), (KStr ''current_hash'', PyStr h)])]"
  let ?c = "PyDict [(KStr ''decision'', PyDict d), (KStr ''decision_context'', c), (KStr ''governance'', g),
      (KStr ''determinism'', t), (KStr ''previous_hash'', PyStr prev), (KStr ''sequence_id'', PyInt seq)]"
  have "plain ?c" using assms(1-4) by simp
  then obtain u where u: "json_dumps False ?c = Some u" using json_dumps_plain by metis
  have r: "recompute_hash x (?e h) = Inr (hexdigest x (utf8 u))" for h
    using u by (simp add: recompute_hash_def entry_content_def get_item_def dget_or_def dget_def del: json_dumps.simps)
  have em: "embedded_hash (?e h) = Inr h" for h
    by (simp add: embedded_hash_def get_item_def dget_or_def dget_def as_str_def)
  have "offline_chain x None [?e (hexdigest x (utf8 u))] = Inr None"
    by (simp add: offline_recompute_hash_def r) (simp add: get_item_def dget_or_def dget_def)
  then show ?thesis
    using assms(5)
    by (intro exI [of _ "hexdigest x (utf8 u)"])
      (simp add: offline_verify_proof_def get_item_def dget_or_def dget_def py_iter_def offline_instance_root_def
        pkg_instance_root_def em del: offline_chain.simps)
qed

theorem offline_accepts_unsigned_witness:
  "\<exists>h. offline_verify_proof sample_ext (Some (PyDict [(KStr ''type'', PyStr ''provable-ai-proof-package''),
      (KStr ''proof'', PyDict [(KStr ''ledger'', PyList [PyDict [(KStr ''decision'', PyDict [(KStr ''to_state'', PyStr ''approved'')]), (KStr ''decision_context'', PyDict []),
         (KStr ''governance'', PyDict []), (KStr ''determinism'', PyDict []),
         (KStr ''ledger'', PyDict [(KStr ''previous_hash'', PyStr ''?''), (KStr ''sequence_id'', PyInt 7),
            (KStr ''current_hash'', PyStr h)])]])])]))
    = Inr (True, ProofValid, Some (PyStr ''approved''))"
  using offline_accepts_unsigned [of "[(KStr ''to_state'', PyStr ''approved'')]" "PyDict []" "PyDict []" "PyDict []" "PyStr ''approved''" sample_ext "''?''" 7]
  by (simp add: dget_def)

text \<open>
  \<open>verify_core.py\<close> accepts no package of the engine.  It looks for a protocol and an instance inside the proof
  block and for a signature over that block; \<open>export_proof\<close> writes neither, so whatever was exported is rejected.
\<close>

theorem core_rejects_export: "\<not> cv_valid (core_verify_package x (package_dict pk))"
proof -
  let ?p = "PyDict [(KStr ''instance_id'', PyStr (pk_instance_id pk)),
        (KStr ''instance_root'', PyStr (pk_instance_root pk)), (KStr ''ledger'', PyList (pk_ledger pk))]"
  have "get_item ?p ''protocol'' PyNone = Inr PyNone" by (simp add: get_item_def dget_or_def dget_def)
  moreover obtain i l r where "get_item ?p ''instance'' PyNone = Inr i" "get_item ?p ''ledger'' (PyList []) = Inr l"
    "get_item ?p ''instance_root'' PyNone = Inr r" by (simp add: get_item_def)
  ultimately have "\<exists>reason. core_checks x (package_dict pk) = Inr (core_fail reason)"
    by (auto simp: core_checks_def package_dict_items split: sum.splits)
  then show ?thesis by (auto simp: core_verify_package_def core_fail_def)
qed

text \<open>The states that the transitions of a protocol allow along the entries of a ledger.\<close>

fun protocol_path :: "pyval list \<Rightarrow> pyval \<Rightarrow> pyval list \<Rightarrow> pyval \<Rightarrow> bool" where
  "protocol_path ts s [] final \<longleftrightarrow> s = final"
| "protocol_path ts s (e # es) final \<longleftrightarrow>
     (\<exists>t\<in>set ts. \<exists>a b to. item t ''from_state'' = Inr a \<and> py_eq a s \<and> item t ''to_state'' = Inr b \<and>
        item e ''to_state'' = Inr to \<and> py_eq b to \<and> protocol_path ts to es final)"

lemma valid_transition_found:
  "valid_transition s to ts = Inr True \<Longrightarrow>
   \<exists>t\<in>set ts. \<exists>a b. item t ''from_state'' = Inr a \<and> py_eq a s \<and> item t ''to_state'' = Inr b \<and> py_eq b to"
proof (induction ts)
  case (Cons t ts)
  obtain a where a: "item t ''from_state'' = Inr a" using Cons.prems by auto
  show ?case
  proof (cases "py_eq a s \<and> (\<exists>b. item t ''to_state'' = Inr b \<and> py_eq b to)")
    case False
    then have "valid_transition s to ts = Inr True" using Cons.prems a by (auto split: if_splits)
    with Cons.IH show ?thesis by auto
  qed (use a in auto)
qed simp

definition protocol_transitions :: "pyval \<Rightarrow> pyval list" where
  "protocol_transitions protocol =
     (case rbind (get_item protocol ''transitions'' (PyList [])) py_iter of Inr ts \<Rightarrow> ts | Inl _ \<Rightarrow> [])"

text \<open>The entries are numbered, each payload carries the hash of the one before, and each is signed with the key.\<close>

fun core_chain :: "ext \<Rightarrow> bytes \<Rightarrow> pyval \<Rightarrow> int \<Rightarrow> pyval list \<Rightarrow> bool" where
  "core_chain x key prev n [] \<longleftrightarrow> True"
| "core_chain x key prev n (e # es) \<longleftrightarrow>
     (\<exists>v payload bytes sig. get_item e ''version'' PyNone = Inr v \<and> py_eq v (PyInt n) \<and>
        build_entry_payload e prev = Inr payload \<and> core_canonical payload = Inr bytes \<and>
        get_item e ''current_hash'' PyNone = Inr (PyStr (hexdigest x bytes)) \<and>
        rbind (item e ''signature'') hex_arg = Inr sig \<and> x_ed_verify x key bytes sig = NaclOk \<and>
        core_chain x key (PyStr (hexdigest x bytes)) (n + 1) es)"

lemma core_replay_sound:
  "core_replay x key protocol s prev n es = Inr (Inr (final, hs)) \<Longrightarrow>
   protocol_path (protocol_transitions protocol) s es final \<and> core_chain x key prev n es"
proof (induction es arbitrary: s prev n hs)
  case (Cons e es)
  obtain v payload bytes where e: "get_item e ''version'' PyNone = Inr v" "py_eq v (PyInt n)"
    "build_entry_payload e prev = Inr payload" "core_canonical payload = Inr bytes"
    "get_item e ''current_hash'' PyNone = Inr (PyStr (hexdigest x bytes))"
    "\<not> (case rbind (item e ''signature'') hex_arg of Inr sig \<Rightarrow> x_ed_verify x key bytes sig \<noteq> NaclOk | Inl _ \<Rightarrow> True)"
    using Cons.prems by (auto split: if_splits)
  obtain ts_v ts to hs' where t: "get_item protocol ''transitions'' (PyList []) = Inr ts_v" "py_iter ts_v = Inr ts"
    "item e ''to_state'' = Inr to" "valid_transition s to ts = Inr True"
    "core_replay x key protocol to (PyStr (hexdigest x bytes)) (n + 1) es = Inr (Inr (final, hs'))"
    using Cons.prems e by (auto split: if_splits sum.splits prod.splits)
  have "protocol_transitions protocol = ts" by (simp add: protocol_transitions_def t(1,2))
  moreover note Cons.IH [OF t(5)] valid_transition_found [OF t(4)]
  moreover obtain sig where "rbind (item e ''signature'') hex_arg = Inr sig" "x_ed_verify x key bytes sig = NaclOk"
    using e(6) by (cases "rbind (item e ''signature'') hex_arg") auto
  ultimately show ?case using e(1-5) t(3) by (simp del: rbind_Inr_iff)
qed simp

text \<open>
  What \<open>verify_core.py\<close> accepts is a run of the protocol.  When it accepts a package, the protocol of the proof block
  has the hash the instance names, and the final state it reports is reached from the protocol's initial state by
  transitions of the protocol, one per ledger entry; the entries are numbered from 1, each hash covers the hash
  before it, and each entry is signed with the package's key.
\<close>

theorem core_accepts_path:
  assumes "core_verify_package x package = r" "cv_valid r"
  shows "\<exists>pb0 protocol inst ledger_v ledger initial final pb key.
    get_item package ''proof'' PyNone = Inr pb0 \<and> get_item pb0 ''protocol'' PyNone = Inr protocol \<and>
    get_item pb0 ''instance'' PyNone = Inr inst \<and> core_canonical protocol = Inr pb \<and>
    get_item inst ''protocol_hash'' PyNone = Inr (PyStr (hexdigest x pb)) \<and>
    get_item pb0 ''ledger'' (PyList []) = Inr ledger_v \<and> py_iter ledger_v = Inr ledger \<and>
    item protocol ''initial_state'' = Inr initial \<and> cv_final_state r = Some final \<and>
    rbind (get_item package ''public_key'' PyNone) unhexlify = Inr key \<and>
    protocol_path (protocol_transitions protocol) initial ledger final \<and> core_chain x key PyNone 1 ledger"
proof -
  have c: "core_checks x package = Inr r"
    using assms by (auto simp: core_verify_package_def core_fail_def split: sum.splits exc.splits)
  obtain pkh pb0 sigh where h: "get_item package ''public_key'' PyNone = Inr pkh" "get_item package ''proof'' PyNone = Inr pb0"
    "get_item package ''signature'' PyNone = Inr sigh"
    using c assms(2) by (auto simp: core_checks_def core_fail_def split: if_splits)
  let ?k = "rbind (unhexlify pkh) (\<lambda>key. rbind (core_canonical pb0) (\<lambda>m. rbind (hex_arg sigh) (\<lambda>sig.
            if x_ed_verify x key m sig = NaclOk then Inr key else Inl (ValueError ''nacl''))))"
  obtain key where key: "?k = Inr key"
    using c assms(2) h by (cases ?k) (auto simp: core_checks_def core_fail_def split: if_splits)
  then have k: "rbind (get_item package ''public_key'' PyNone) unhexlify = Inr key"
    by (auto simp: h split: if_splits)
  obtain protocol inst ledger_v root where p: "get_item pb0 ''protocol'' PyNone = Inr protocol" "get_item pb0 ''instance'' PyNone = Inr inst"
    "get_item pb0 ''ledger'' (PyList []) = Inr ledger_v" "get_item pb0 ''instance_root'' PyNone = Inr root"
    using c assms(2) h key by (auto simp: core_checks_def core_fail_def split: if_splits)
  obtain pb where b: "core_canonical protocol = Inr pb" "get_item inst ''protocol_hash'' PyNone = Inr (PyStr (hexdigest x pb))"
    using c assms(2) h key p by (auto simp: core_checks_def core_fail_def split: if_splits)
  obtain initial ledger q where l: "item protocol ''initial_state'' = Inr initial" "py_iter ledger_v = Inr ledger"
    "core_replay x key protocol initial PyNone 1 ledger = Inr q"
    using c assms(2) h key p b by (auto simp: core_checks_def core_fail_def split: if_splits)
  obtain final hs where f: "q = Inr (final, hs)" "cv_final_state r = Some final"
    using c assms(2) h key p b l by (cases q) (auto simp: core_checks_def core_fail_def split: if_splits)
  note core_replay_sound [OF l(3) [unfolded f(1)]]
  with h p b l f(2) k show ?thesis by blast
qed

text \<open>A package with one transition that \<open>verify_core.py\<close> accepts.\<close>

definition core_entry :: "string \<Rightarrow> string \<Rightarrow> pyval" where
  "core_entry h sig = PyDict [(KStr ''protocol_hash'', PyStr []), (KStr ''instance_id'', PyStr ''i''), (KStr ''from_state'', PyStr ''a''),
     (KStr ''to_state'', PyStr ''b''), (KStr ''actor'', PyStr []), (KStr ''input_hash'', PyStr []), (KStr ''output_hash'', PyStr []),
     (KStr ''model_version'', PyStr []), (KStr ''agent_version'', PyStr []), (KStr ''policy_version'', PyStr []), (KStr ''metadata_json'', PyStr []),
     (KStr ''schema_version'', PyStr ''1.0''), (KStr ''version'', PyInt 1), (KStr ''timestamp'', PyStr []),
     (KStr ''current_hash'', PyStr h), (KStr ''signature'', PyStr sig)]"

definition core_protocol :: pyval where
  "core_protocol = PyDict [(KStr ''initial_state'', PyStr ''a''),
     (KStr ''transitions'', PyList [PyDict [(KStr ''from_state'', PyStr ''a''), (KStr ''to_state'', PyStr ''b'')]])]"

definition core_package :: "string \<Rightarrow> string \<Rightarrow> string \<Rightarrow> string \<Rightarrow> string \<Rightarrow> pyval" where
  "core_package key ph h esig sig = PyDict [(KStr ''type'', PyStr ''provable-ai-proof-package''), (KStr ''public_key'', PyStr key),
     (KStr ''signature'', PyStr sig),
     (KStr ''proof'', PyDict [(KStr ''protocol'', core_protocol), (KStr ''instance'', PyDict [(KStr ''protocol_hash'', PyStr ph)]),
        (KStr ''ledger'', PyList [core_entry h esig]), (KStr ''instance_root'', PyStr h)])]"

lemma canonical_plain: "plain v \<Longrightarrow> \<exists>b. core_canonical v = Inr b"
  by (simp add: core_canonical_def json_dumps_plain)

lemma core_package_accepted:
  obtains ph h esig sig r where "core_verify_package sample_ext (core_package (hex (replicate 32 1)) ph h esig sig) = r"
    "cv_valid r" "cv_final_state r = Some (PyStr ''b'')"
proof -
  let ?k = "replicate 32 (1::byte)"
  let ?pl = "PyDict [(KStr ''previous_hash'', PyNone), (KStr ''protocol_hash'', PyStr []), (KStr ''instance_id'', PyStr ''i''), (KStr ''from_state'', PyStr ''a''),
     (KStr ''to_state'', PyStr ''b''), (KStr ''actor'', PyStr []), (KStr ''input_hash'', PyStr []), (KStr ''output_hash'', PyStr []),
     (KStr ''model_version'', PyStr []), (KStr ''agent_version'', PyStr []), (KStr ''policy_version'', PyStr []), (KStr ''metadata_json'', PyStr []),
     (KStr ''schema_version'', PyStr ''1.0''), (KStr ''version'', PyInt 1), (KStr ''timestamp'', PyStr [])]"
  have pl: "build_entry_payload (core_entry h s) PyNone = Inr ?pl" for h s
    by (simp add: build_entry_payload_def core_entry_def item_def get_item_def dget_or_def dget_def)
  obtain eb where eb: "core_canonical ?pl = Inr eb" using canonical_plain [of ?pl] by auto
  obtain pb where pb: "core_canonical core_protocol = Inr pb" using canonical_plain [of core_protocol] by (auto simp: core_protocol_def)
  let ?h = "hexdigest sample_ext eb" and ?s = "hex (?k @ pad32 eb)"
  let ?proof = "PyDict [(KStr ''protocol'', core_protocol), (KStr ''instance'', PyDict [(KStr ''protocol_hash'', PyStr (hexdigest sample_ext pb))]),
        (KStr ''ledger'', PyList [core_entry ?h ?s]), (KStr ''instance_root'', PyStr ?h)]"
  obtain mb where mb: "core_canonical ?proof = Inr mb"
    using canonical_plain [of ?proof] by (auto simp: core_protocol_def core_entry_def)
  let ?sig = "hex (?k @ pad32 mb)"
  have nosp: "\<not> list_ex ascii_space (hex ?k)"
    using lower_hex_hex [of ?k] lower_hex_char_not by (auto simp: lower_hex_def list_all_iff list_ex_iff int_space_def)
  have ne: "hex b \<noteq> []" if "b \<noteq> []" for b :: bytes using that length_hex [of b] by (cases "hex b") auto
  have ver: "x_ed_verify sample_ext ?k m (?k @ pad32 m) = NaclOk" for m by (simp add: sample_ext_def)
  have e: "get_item (core_entry ?h ?s) ''schema_version'' PyNone = Inr (PyStr SCHEMA_VERSION)" "get_item (core_entry ?h ?s) ''version'' PyNone = Inr (PyInt 1)"
    "get_item (core_entry ?h ?s) ''current_hash'' PyNone = Inr (PyStr ?h)" "item (core_entry ?h ?s) ''signature'' = Inr (PyStr ?s)"
    "item (core_entry ?h ?s) ''to_state'' = Inr (PyStr ''b'')" "hex_arg (PyStr ?s) = Inr (?k @ pad32 eb)"
    by (simp_all add: core_entry_def get_item_def item_def dget_or_def dget_def SCHEMA_VERSION_def hex_arg_def as_str_def)
  have p: "get_item core_protocol ''transitions'' (PyList []) = Inr (PyList [PyDict [(KStr ''from_state'', PyStr ''a''), (KStr ''to_state'', PyStr ''b'')]])"
    "item core_protocol ''initial_state'' = Inr (PyStr ''a'')" "truthy core_protocol"
    by (simp_all add: core_protocol_def get_item_def item_def dget_or_def dget_def)
  have vt: "valid_transition (PyStr ''a'') (PyStr ''b'') [PyDict [(KStr ''from_state'', PyStr ''a''), (KStr ''to_state'', PyStr ''b'')]] = Inr True"
    by (simp add: item_def dget_def py_eq_def)
  have rep: "core_replay sample_ext ?k core_protocol (PyStr ''a'') PyNone 1 [core_entry ?h ?s] = Inr (Inr (PyStr ''b'', [?h]))"
    by (simp add: e pl eb ver p vt py_iter_def py_eq_def del: valid_transition.simps)
  have q: "get_item ?proof ''protocol'' PyNone = Inr core_protocol" "get_item ?proof ''instance'' PyNone = Inr (PyDict [(KStr ''protocol_hash'', PyStr (hexdigest sample_ext pb))])"
    "get_item ?proof ''ledger'' (PyList []) = Inr (PyList [core_entry ?h ?s])" "get_item ?proof ''instance_root'' PyNone = Inr (PyStr ?h)" "truthy ?proof"
    by (simp_all add: get_item_def dget_or_def dget_def)
  let ?pkg = "core_package (hex ?k) (hexdigest sample_ext pb) ?h ?s ?sig"
  have g: "get_item ?pkg ''type'' PyNone = Inr (PyStr ''provable-ai-proof-package'')" "get_item ?pkg ''public_key'' PyNone = Inr (PyStr (hex ?k))"
    "get_item ?pkg ''proof'' PyNone = Inr ?proof" "get_item ?pkg ''signature'' PyNone = Inr (PyStr ?sig)"
    by (simp_all add: core_package_def get_item_def dget_or_def dget_def)
  have i: "get_item (PyDict [(KStr ''protocol_hash'', PyStr ph)]) ''protocol_hash'' PyNone = Inr (PyStr ph)"
    "get_item (PyDict [(KStr ''protocol_hash'', PyStr ph)]) ''instance_id'' PyNone = Inr PyNone"
    "truthy (PyDict [(KStr ''protocol_hash'', PyStr ph)])" for ph
    by (simp_all add: get_item_def dget_or_def dget_def)
  have uh: "unhexlify (PyStr (hex ?k)) = Inr ?k" "hex_arg (PyStr ?sig) = Inr (?k @ pad32 mb)"
    using nosp by (simp_all add: unhexlify_def hex_arg_def as_str_def)
  have "core_merkle_root sample_ext (sort [?h]) = Some ?h" by (simp add: core_merkle_root_def core_loop.simps)
  then have "\<exists>r. core_checks sample_ext ?pkg = Inr r \<and> cv_valid r \<and> cv_final_state r = Some (PyStr ''b'')"
    using ne by (simp add: core_checks_def g q pb i p uh mb ver rep py_iter_def del: core_replay.simps truthy.simps)
       (simp add: ne)
  then obtain r where "core_checks sample_ext ?pkg = Inr r" "cv_valid r" "cv_final_state r = Some (PyStr ''b'')" by blast
  moreover then have "core_verify_package sample_ext ?pkg = r" by (simp add: core_verify_package_def)
  ultimately show thesis using that by blast
qed

theorem core_accepts_path_witness:
  "\<exists>package pb0 protocol ledger_v ledger. cv_valid (core_verify_package sample_ext package) \<and>
     get_item package ''proof'' PyNone = Inr pb0 \<and> get_item pb0 ''protocol'' PyNone = Inr protocol \<and>
     get_item pb0 ''ledger'' (PyList []) = Inr ledger_v \<and> py_iter ledger_v = Inr ledger \<and>
     protocol_path (protocol_transitions protocol) (PyStr ''a'') ledger (PyStr ''b'')"
proof -
  obtain ph h esig sig r where r: "core_verify_package sample_ext (core_package (hex (replicate 32 1)) ph h esig sig) = r"
    "cv_valid r" "cv_final_state r = Some (PyStr ''b'')" by (rule core_package_accepted)
  let ?p = "core_package (hex (replicate 32 1)) ph h esig sig"
  obtain pb0 protocol inst ledger_v ledger initial final where a: "get_item ?p ''proof'' PyNone = Inr pb0"
    "get_item pb0 ''protocol'' PyNone = Inr protocol" "get_item pb0 ''ledger'' (PyList []) = Inr ledger_v" "py_iter ledger_v = Inr ledger"
    "item protocol ''initial_state'' = Inr initial" "cv_final_state r = Some final"
    "protocol_path (protocol_transitions protocol) initial ledger final"
    using core_accepts_path [OF r(1,2)] by blast
  have "protocol = core_protocol" using a(1,2) by (auto simp: core_package_def get_item_def dget_or_def dget_def)
  then have "initial = PyStr ''a''" using a(5) by (auto simp: core_protocol_def item_def dget_def)
  moreover have "final = PyStr ''b''" using a(6) r(3) by simp
  ultimately show ?thesis using a(1-4,7) r(1,2) by blast
qed

end
