(* ===== verification/KeyRegistry.thy ===== *)
theory KeyRegistry
  imports ChainLog
begin

text \<open>
  \<open>provable_ai/audit_keyregistry.py\<close>: the append-only, hash-chained registry of signing keys.  The table
  \<open>key_registry\<close> is the list of its rows in the order of their ids.  \<open>_insert_row\<close> reads the end of the
  tenant's chain, hashes and inserts; no constraint of the table links the read to the insert, so the
  two halves are \<open>key_prepare\<close> and \<open>key_insert\<close>.
\<close>

subsection \<open>Rows and hashes\<close>

definition KEY_REGISTRY_GENESIS :: string where
  "KEY_REGISTRY_GENESIS = replicate 64 (CHR ''0'')"

record key_record =
  kr_key_id :: string
  kr_tenant_id :: string
  kr_public_key :: string
  kr_algorithm :: string
  kr_source :: string
  kr_status :: string
  kr_registered_at :: string
  kr_retired_at :: "string option"
  kr_superseded_by :: "string option"
  kr_notes :: "string option"
  kr_row_hash :: string
  kr_chain_hash :: string

definition key_content :: "key_record \<Rightarrow> pyval" where
  "key_content r = PyDict [(KStr ''key_id'', PyStr (kr_key_id r)), (KStr ''tenant_id'', PyStr (kr_tenant_id r)),
     (KStr ''public_key'', PyStr (kr_public_key r)), (KStr ''algorithm'', PyStr (kr_algorithm r)),
     (KStr ''source'', PyStr (kr_source r)), (KStr ''status'', PyStr (kr_status r)),
     (KStr ''registered_at'', PyStr (kr_registered_at r)), (KStr ''retired_at'', opt_str (kr_retired_at r)),
     (KStr ''superseded_by'', opt_str (kr_superseded_by r)), (KStr ''notes'', opt_str (kr_notes r))]"

definition key_row_hash :: "ext \<Rightarrow> key_record \<Rightarrow> string res" where
  "key_row_hash x r =
     rbind (opt_res TypeError (json_dumps True (key_content r))) (\<lambda>content. Inr (hexdigest x (utf8 content)))"

definition prev_chain_hash :: "key_record list \<Rightarrow> string \<Rightarrow> string" where
  "prev_chain_hash rows tenant_id =
     (case db_last (\<lambda>r. kr_tenant_id r = tenant_id) rows of
        Some r \<Rightarrow> kr_chain_hash r | None \<Rightarrow> KEY_REGISTRY_GENESIS)"

text \<open>\<open>_insert_row\<close>: the row with its hashes, then the \<open>INSERT\<close> with \<open>CHECK(status IN ...)\<close>.\<close>

definition key_prepare :: "ext \<Rightarrow> key_record \<Rightarrow> key_record list \<Rightarrow> key_record res" where
  "key_prepare x r rows =
     rbind (key_row_hash x r) (\<lambda>rh.
     rbind (next_chain_hash x (prev_chain_hash rows (kr_tenant_id r)) rh) (\<lambda>ch.
     Inr (r\<lparr>kr_row_hash := rh, kr_chain_hash := ch\<rparr>)))"

definition key_insert :: "key_record \<Rightarrow> key_record list \<Rightarrow> key_record res \<times> key_record list" where
  "key_insert r rows =
     (if kr_status r = ''active'' \<or> kr_status r = ''retired'' then (Inr r, rows @ [r]) else (Inl IntegrityError, rows))"

definition insert_row :: "ext \<Rightarrow> key_record \<Rightarrow> key_record list \<Rightarrow> key_record res \<times> key_record list" where
  "insert_row x r rows =
     (case key_prepare x r rows of Inl e \<Rightarrow> (Inl e, rows) | Inr r' \<Rightarrow> key_insert r' rows)"

definition active_row :: "string \<Rightarrow> string \<Rightarrow> string \<Rightarrow> string \<Rightarrow> string \<Rightarrow> string \<Rightarrow> string option \<Rightarrow> key_record" where
  "active_row key_id tenant_id public_key algorithm source now notes =
     \<lparr>kr_key_id = key_id, kr_tenant_id = tenant_id, kr_public_key = public_key, kr_algorithm = algorithm,
      kr_source = source, kr_status = ''active'', kr_registered_at = now, kr_retired_at = None,
      kr_superseded_by = None, kr_notes = notes, kr_row_hash = [], kr_chain_hash = []\<rparr>"

definition retired_row :: "key_record \<Rightarrow> string \<Rightarrow> string \<Rightarrow> string option \<Rightarrow> key_record" where
  "retired_row old now new_key_id notes =
     old\<lparr>kr_status := ''retired'', kr_retired_at := Some now, kr_superseded_by := Some new_key_id,
         kr_notes := notes, kr_row_hash := [], kr_chain_hash := []\<rparr>"

subsection \<open>Operations\<close>

definition get_active :: "key_record list \<Rightarrow> string \<Rightarrow> key_record option" where
  "get_active rows tenant_id = db_last (\<lambda>r. kr_tenant_id r = tenant_id \<and> kr_status r = ''active'') rows"

definition find_active :: "key_record list \<Rightarrow> string \<Rightarrow> string \<Rightarrow> key_record option" where
  "find_active rows key_id tenant_id =
     db_last (\<lambda>r. kr_key_id r = key_id \<and> kr_tenant_id r = tenant_id \<and> kr_status r = ''active'') rows"

definition get_key :: "key_record list \<Rightarrow> string \<Rightarrow> string \<Rightarrow> key_record option" where
  "get_key rows key_id tenant_id = db_last (\<lambda>r. kr_key_id r = key_id \<and> kr_tenant_id r = tenant_id) rows"

definition register_key ::
    "ext \<Rightarrow> string \<Rightarrow> string \<Rightarrow> string \<Rightarrow> string \<Rightarrow> string \<Rightarrow> string \<Rightarrow> string option \<Rightarrow> key_record list
       \<Rightarrow> key_record res \<times> key_record list" where
  "register_key x now key_id public_key tenant_id algorithm source notes rows =
     (case find_active rows key_id tenant_id of
        Some existing \<Rightarrow> (Inr existing, rows)
      | None \<Rightarrow>
          (case get_active rows tenant_id of
             Some active \<Rightarrow> (Inl (ValueError ''Tenant already has active key''), rows)
           | None \<Rightarrow> insert_row x (active_row key_id tenant_id public_key algorithm source now notes) rows))"

definition register_or_update ::
    "ext \<Rightarrow> string \<Rightarrow> string \<Rightarrow> string \<Rightarrow> string \<Rightarrow> string \<Rightarrow> string \<Rightarrow> key_record list
       \<Rightarrow> key_record res \<times> key_record list" where
  "register_or_update x now key_id public_key tenant_id algorithm source rows =
     (case find_active rows key_id tenant_id of
        Some existing \<Rightarrow> (Inr existing, rows)
      | None \<Rightarrow>
          (let new = active_row key_id tenant_id public_key algorithm source now None in
           case get_active rows tenant_id of
             Some active \<Rightarrow>
               if kr_key_id active \<noteq> key_id then
                 (case insert_row x (retired_row active now key_id
                         (Some ''Auto-retired during startup key registration'')) rows of
                    (Inl e, rows') \<Rightarrow> (Inl e, rows')
                  | (Inr _, rows') \<Rightarrow> insert_row x new rows')
               else insert_row x new rows
           | None \<Rightarrow> insert_row x new rows))"

text \<open>\<open>rotate_key\<close> returns the new record and the retirement record.\<close>

definition rotate_key ::
    "ext \<Rightarrow> string \<Rightarrow> string \<Rightarrow> string \<Rightarrow> string \<Rightarrow> string \<Rightarrow> string \<Rightarrow> string option \<Rightarrow> key_record list
       \<Rightarrow> (key_record \<times> key_record option) res \<times> key_record list" where
  "rotate_key x now new_key_id new_public_key tenant_id algorithm source notes rows =
     (let new = active_row new_key_id tenant_id new_public_key algorithm source now notes;
          finish = (\<lambda>old rows'. case insert_row x new rows' of
            (Inl e, rows2) \<Rightarrow> (Inl e, rows2) | (Inr r, rows2) \<Rightarrow> (Inr (r, old), rows2))
      in case get_active rows tenant_id of
           Some old_row \<Rightarrow>
             (case insert_row x (retired_row old_row now new_key_id notes) rows of
                (Inl e, rows') \<Rightarrow> (Inl e, rows')
              | (Inr old, rows') \<Rightarrow> finish (Some old) rows')
         | None \<Rightarrow> finish None rows)"

definition was_active_at :: "key_record list \<Rightarrow> string \<Rightarrow> string \<Rightarrow> string \<Rightarrow> bool" where
  "was_active_at rows key_id tenant_id timestamp =
     (case db_first (\<lambda>r. kr_key_id r = key_id \<and> kr_tenant_id r = tenant_id \<and> kr_status r = ''active'') rows of
        None \<Rightarrow> False
      | Some active \<Rightarrow>
          if timestamp < kr_registered_at active then False
          else (case db_first (\<lambda>r. kr_key_id r = key_id \<and> kr_tenant_id r = tenant_id \<and> kr_status r = ''retired'') rows of
              None \<Rightarrow> True
            | Some retired \<Rightarrow>
                (case kr_retired_at retired of
                   None \<Rightarrow> True
                 | Some t \<Rightarrow> \<not> (t \<noteq> [] \<and> t \<le> timestamp))))"

definition key_rows_with_id :: "key_record list \<Rightarrow> string \<Rightarrow> (nat \<times> key_record) list" where
  "key_rows_with_id rows tenant_id = filter (\<lambda>p. kr_tenant_id (snd p) = tenant_id) (enumerate 1 rows)"

text \<open>The result of \<open>verify_chain\<close>: the number of rows and the id of the first broken row.\<close>

definition key_verify_chain :: "ext \<Rightarrow> key_record list \<Rightarrow> string \<Rightarrow> (nat \<times> nat option) res" where
  "key_verify_chain x rows tenant_id =
     (let rs = key_rows_with_id rows tenant_id in
      if rs = [] then Inr (0, None)
      else rbind (chain_walk x (key_row_hash x) kr_row_hash kr_chain_hash KEY_REGISTRY_GENESIS rs) (\<lambda>b.
        Inr (length rs, b)))"

definition list_all_keys :: "key_record list \<Rightarrow> string \<Rightarrow> key_record list" where
  "list_all_keys rows tenant_id = filter (\<lambda>r. kr_tenant_id r = tenant_id) rows"

text \<open>The three computed entries of \<open>rotation_policy\<close>: the active key, all rows and the retired ones.\<close>

definition rotation_policy :: "key_record list \<Rightarrow> string \<Rightarrow> string option \<times> nat \<times> nat" where
  "rotation_policy rows tenant_id =
     (map_option kr_key_id (get_active rows tenant_id), length (list_all_keys rows tenant_id),
      length (filter (\<lambda>r. kr_status r = ''retired'') (list_all_keys rows tenant_id)))"

subsection \<open>The chain invariant\<close>

definition key_bytes :: "key_record \<Rightarrow> bytes" where
  "key_bytes r = utf8 (emit True (norm (key_content r)))"

abbreviation key_chained :: "ext \<Rightarrow> bytes \<Rightarrow> key_record list \<Rightarrow> bool" where
  "key_chained x \<equiv> chained x key_bytes kr_row_hash kr_chain_hash"

definition keys_ok :: "ext \<Rightarrow> key_record list \<Rightarrow> bool" where
  "keys_ok x rows \<longleftrightarrow> (\<forall>t. key_chained x genesis_bytes (list_all_keys rows t))"

lemma key_content_val: "plain (key_content r)" "wf_val (key_content r)"
  by (simp_all add: key_content_def)

lemma key_row_hash_eq: "key_row_hash x r = Inr (hexdigest x (key_bytes r))"
  unfolding key_row_hash_def json_dumps_plain [OF key_content_val(1)] by (simp add: key_bytes_def)

lemma key_bytes_hashes [simp]: "key_bytes (r\<lparr>kr_row_hash := a, kr_chain_hash := b\<rparr>) = key_bytes r"
  by (simp add: key_bytes_def key_content_def)

lemma list_all_keys_append [simp]:
  "list_all_keys (rows @ rs) t = list_all_keys rows t @ list_all_keys rs t"
  by (simp add: list_all_keys_def)

lemma list_all_keys_Cons [simp]:
  "list_all_keys (r # rs) t = (if kr_tenant_id r = t then r # list_all_keys rs t else list_all_keys rs t)"
  "list_all_keys [] t = []"
  by (simp_all add: list_all_keys_def)

lemma prev_chain_hash_eq:
  assumes "keys_ok x rows"
  shows "prev_chain_hash rows t = hex (chain_end x key_bytes genesis_bytes (list_all_keys rows t))"
proof -
  have "prev_chain_hash rows t = (if list_all_keys rows t = [] then replicate 64 (CHR ''0'')
      else kr_chain_hash (last (list_all_keys rows t)))"
    by (simp add: prev_chain_hash_def db_last_filter list_all_keys_def KEY_REGISTRY_GENESIS_def)
  then show ?thesis using chain_last_hash assms unfolding keys_ok_def by metis
qed

text \<open>The row that \<open>_insert_row\<close> makes of the given columns.\<close>

definition sealed :: "ext \<Rightarrow> key_record list \<Rightarrow> key_record \<Rightarrow> key_record" where
  "sealed x rows r = r\<lparr>kr_row_hash := hexdigest x (key_bytes r),
     kr_chain_hash := hexdigest x (chain_end x key_bytes genesis_bytes (list_all_keys rows (kr_tenant_id r)) @
       x_sha256 x (key_bytes r))\<rparr>"

lemma sealed_fields [simp]:
  "kr_key_id (sealed x rows r) = kr_key_id r" "kr_tenant_id (sealed x rows r) = kr_tenant_id r"
  "kr_public_key (sealed x rows r) = kr_public_key r" "kr_status (sealed x rows r) = kr_status r"
  "kr_registered_at (sealed x rows r) = kr_registered_at r" "kr_retired_at (sealed x rows r) = kr_retired_at r"
  "kr_superseded_by (sealed x rows r) = kr_superseded_by r" "kr_algorithm (sealed x rows r) = kr_algorithm r"
  "kr_source (sealed x rows r) = kr_source r" "key_bytes (sealed x rows r) = key_bytes r"
  by (simp_all add: sealed_def)

lemma key_prepare_eq: "keys_ok x rows \<Longrightarrow> key_prepare x r rows = Inr (sealed x rows r)"
  by (simp add: key_prepare_def key_row_hash_eq prev_chain_hash_eq next_chain_hash_eq sealed_def)

lemma keys_ok_sealed: "keys_ok x rows \<Longrightarrow> keys_ok x (rows @ [sealed x rows r])"
  unfolding keys_ok_def by (auto simp: chained_append) (simp_all add: sealed_def)

lemma insert_row_eq:
  "keys_ok x rows \<Longrightarrow> kr_status r = ''active'' \<or> kr_status r = ''retired'' \<Longrightarrow>
     insert_row x r rows = (Inr (sealed x rows r), rows @ [sealed x rows r])"
  by (simp add: insert_row_def key_prepare_eq key_insert_def)

lemma row_status [simp]:
  "kr_status (active_row k t p a s n nt) = ''active''" "kr_status (retired_row r n k nt) = ''retired''"
  "kr_tenant_id (active_row k t p a s n nt) = t" "kr_tenant_id (retired_row r n k nt) = kr_tenant_id r"
  "kr_key_id (active_row k t p a s n nt) = k" "kr_key_id (retired_row r n k nt) = kr_key_id r"
  "kr_public_key (active_row k t p a s n nt) = p" "kr_registered_at (active_row k t p a s n nt) = n"
  "kr_retired_at (retired_row r n k nt) = Some n" "kr_superseded_by (retired_row r n k nt) = Some k"
  by (simp_all add: active_row_def retired_row_def)

lemma get_active_tenant: "get_active rows t = Some r \<Longrightarrow> kr_tenant_id r = t \<and> kr_status r = ''active'' \<and> r \<in> set rows"
  unfolding get_active_def by (drule db_last_SomeD) simp

text \<open>The rows that a rotation appends.\<close>

definition rotation_rows ::
    "ext \<Rightarrow> key_record option \<Rightarrow> string \<Rightarrow> string option \<Rightarrow> key_record \<Rightarrow> key_record list \<Rightarrow> key_record list" where
  "rotation_rows x old now notes new rows =
     (case old of
        None \<Rightarrow> [sealed x rows new]
      | Some r \<Rightarrow> (let q = sealed x rows (retired_row r now (kr_key_id new) notes) in [q, sealed x (rows @ [q]) new]))"

lemma rotate_key_eq:
  assumes "keys_ok x rows"
  shows "rotate_key x now k pk t al so nt rows =
    (let new = active_row k t pk al so now nt; rs = rotation_rows x (get_active rows t) now nt new rows
     in (Inr (last rs, if length rs = 1 then None else Some (hd rs)), rows @ rs))"
  using insert_row_eq [OF assms] insert_row_eq [OF keys_ok_sealed [OF assms]]
  by (simp add: rotate_key_def rotation_rows_def Let_def split: option.splits)

lemma rotation_rows_ok: "keys_ok x rows \<Longrightarrow> keys_ok x (rows @ rotation_rows x old now nt new rows)"
  using keys_ok_sealed [of x rows] keys_ok_sealed [of x "rows @ [_]"]
  by (auto simp: rotation_rows_def Let_def split: option.splits)

lemma register_or_update_eq:
  assumes "keys_ok x rows"
  shows "register_or_update x now k pk t al so rows =
    (case find_active rows k t of
       Some r \<Rightarrow> (Inr r, rows)
     | None \<Rightarrow> (let rs = rotation_rows x (get_active rows t) now (Some ''Auto-retired during startup key registration'')
          (active_row k t pk al so now None) rows in (Inr (last rs), rows @ rs)))"
proof (cases "find_active rows k t")
  case None
  have "kr_key_id a \<noteq> k" if "get_active rows t = Some a" for a
    using that None get_active_tenant [OF that] by (auto simp: find_active_def db_last_None)
  with None show ?thesis
    using insert_row_eq [OF assms] insert_row_eq [OF keys_ok_sealed [OF assms]]
    by (simp add: register_or_update_def rotation_rows_def Let_def split: option.splits)
qed (simp add: register_or_update_def)

lemma register_key_eq:
  assumes "keys_ok x rows"
  shows "register_key x now k pk t al so nt rows =
    (case find_active rows k t of
       Some r \<Rightarrow> (Inr r, rows)
     | None \<Rightarrow> (case get_active rows t of
          Some r \<Rightarrow> (Inl (ValueError ''Tenant already has active key''), rows)
        | None \<Rightarrow> (let r = sealed x rows (active_row k t pk al so now nt) in (Inr r, rows @ [r]))))"
  using insert_row_eq [OF assms] by (simp add: register_key_def Let_def split: option.splits)

subsection \<open>Runs of the registry\<close>

datatype key_op =
    KeyRegister string ident string ident string string "string option"
  | KeyRegisterOrUpdate string ident string ident string string
  | KeyRotate string ident string ident string string "string option"

fun key_step :: "ext \<Rightarrow> key_op \<Rightarrow> key_record list \<Rightarrow> key_record list" where
  "key_step x (KeyRegister now k pk t al so nt) rows = snd (register_key x now k pk t al so nt rows)"
| "key_step x (KeyRegisterOrUpdate now k pk t al so) rows = snd (register_or_update x now k pk t al so rows)"
| "key_step x (KeyRotate now k pk t al so nt) rows = snd (rotate_key x now k pk t al so nt rows)"

lemma key_step_ok:
  assumes "keys_ok x rows"
  shows "keys_ok x (key_step x q rows)" "\<exists>rs. key_step x q rows = rows @ rs"
proof -
  have "keys_ok x (key_step x q rows) \<and> (\<exists>rs. key_step x q rows = rows @ rs)"
    by (cases q) (auto simp: register_key_eq [OF assms] register_or_update_eq [OF assms] rotate_key_eq [OF assms] Let_def
        assms intro: keys_ok_sealed [OF assms] rotation_rows_ok [OF assms] split: option.splits)
  then show "keys_ok x (key_step x q rows)" "\<exists>rs. key_step x q rows = rows @ rs" by blast+
qed

lemma key_verify_chain_spec:
  "\<exists>b. key_verify_chain x rows t = Inr (length (list_all_keys rows t), b) \<and>
     (b = None \<longleftrightarrow> key_chained x genesis_bytes (list_all_keys rows t))"
proof -
  have m: "map snd (key_rows_with_id rows t) = list_all_keys rows t"
    unfolding key_rows_with_id_def list_all_keys_def by (rule enumerate_filter)
  then have l: "length (key_rows_with_id rows t) = length (list_all_keys rows t)" by (metis length_map)
  show ?thesis
  proof (cases "key_rows_with_id rows t = []")
    case True
    with m l show ?thesis by (auto simp: key_verify_chain_def Let_def)
  next
    case False
    obtain b where b: "chain_walk x (key_row_hash x) kr_row_hash kr_chain_hash (hex genesis_bytes) (key_rows_with_id rows t) = Inr b"
      "b = None \<longleftrightarrow> key_chained x genesis_bytes (list_all_keys rows t)"
      using chain_walk_spec [where x = x and compute = "key_row_hash x" and content = key_bytes, OF key_row_hash_eq]
      unfolding m [symmetric] by blast
    with False l show ?thesis
      by (simp add: key_verify_chain_def Let_def KEY_REGISTRY_GENESIS_def hex_genesis_bytes)
  qed
qed

interpretation keyreg: chained_log "key_step x" "\<lambda>rows. rows" "keys_ok x"
  "\<lambda>rows. \<forall>t. key_verify_chain x rows t = Inr (length (list_all_keys rows t), None)" for x
proof unfold_locales
  fix s q assume a: "keys_ok x s"
  show "keys_ok x (key_step x q s)" "\<exists>rs. key_step x q s = s @ rs" using key_step_ok [OF a] by blast+
  show "\<forall>t. key_verify_chain x s t = Inr (length (list_all_keys s t), None)"
    using a key_verify_chain_spec unfolding keys_ok_def by metis
qed

lemma keys_ok_init: "keys_ok x []"
  by (simp add: keys_ok_def)

subsection \<open>Properties\<close>

definition key_unused :: "key_record list \<Rightarrow> string \<Rightarrow> string \<Rightarrow> bool" where
  "key_unused rows k t \<longleftrightarrow> list_all (\<lambda>r. \<not> (kr_key_id r = k \<and> kr_tenant_id r = t)) rows"

lemma db_first_Cons: "db_first P [] = None" "db_first P (r # rs) = (if P r then Some r else db_first P rs)"
  by (simp_all add: db_first_def)

lemma get_active_append_new:
  "kr_tenant_id r = t \<Longrightarrow> kr_status r = ''active'' \<Longrightarrow> get_active (rows @ [r]) t = Some r"
  by (simp add: get_active_def)

lemma rotate_none:
  "keys_ok x rows \<Longrightarrow> get_active rows t = None \<Longrightarrow> rotate_key x now k pk t al so nt rows =
     (let n = sealed x rows (active_row k t pk al so now nt) in (Inr (n, None), rows @ [n]))"
  by (simp add: rotate_key_eq rotation_rows_def Let_def)

lemma rotate_some:
  "keys_ok x rows \<Longrightarrow> get_active rows t = Some r \<Longrightarrow> rotate_key x now k pk t al so nt rows =
     (let q = sealed x rows (retired_row r now k nt); n = sealed x (rows @ [q]) (active_row k t pk al so now nt)
      in (Inr (n, Some q), (rows @ [q]) @ [n]))"
  by (simp add: rotate_key_eq rotation_rows_def Let_def)

lemma rotate_ok: "keys_ok x rows \<Longrightarrow> keys_ok x (snd (rotate_key x now k pk t al so nt rows))"
  using key_step_ok(1) [of x rows "KeyRotate now k pk t al so nt"] by simp

lemma rotate_active:
  assumes "keys_ok x rows"
  obtains n where "get_active (snd (rotate_key x now k pk t al so nt rows)) t = Some n" "kr_key_id n = k"
    "kr_registered_at n = now"
proof (cases "get_active rows t")
  case None
  then show thesis
    using that by (simp add: rotate_none [OF assms] Let_def get_active_append_new)
next
  case (Some r)
  then show thesis
    using that by (simp add: rotate_some [OF assms] Let_def get_active_append_new del: append_assoc)
qed

text \<open>The first row with a property after a rotation, by what it adds.\<close>

lemma first_rotated:
  assumes "keys_ok x rows" "get_active rows t = Some r"
  shows "db_first P (snd (rotate_key x now k pk t al so nt rows)) =
    (case db_first P rows of Some q \<Rightarrow> Some q | None \<Rightarrow>
       db_first P (let q = sealed x rows (retired_row r now k nt) in [q, sealed x (rows @ [q]) (active_row k t pk al so now nt)]))"
  by (simp add: rotate_some [OF assms] Let_def split: option.splits)

lemma first_rotated_none:
  assumes "keys_ok x rows" "get_active rows t = None"
  shows "db_first P (snd (rotate_key x now k pk t al so nt rows)) =
    (case db_first P rows of Some q \<Rightarrow> Some q | None \<Rightarrow> db_first P [sealed x rows (active_row k t pk al so now nt)])"
  by (simp add: rotate_none [OF assms] Let_def)

lemma unused_first:
  "key_unused rows k t \<Longrightarrow> db_first (\<lambda>r. kr_key_id r = k \<and> kr_tenant_id r = t \<and> kr_status r = st) rows = None"
  by (auto simp: db_first_None key_unused_def list_all_iff)

text \<open>Rotation into an unused key: its first active row is the new one, it has no retirement row.\<close>

lemma unused_rotated:
  assumes "keys_ok x rows" "key_unused rows k t"
  obtains n where "db_first (\<lambda>r. kr_key_id r = k \<and> kr_tenant_id r = t \<and> kr_status r = ''active'')
      (snd (rotate_key x now k pk t al so nt rows)) = Some n" "kr_registered_at n = now"
    "db_first (\<lambda>r. kr_key_id r = k \<and> kr_tenant_id r = t \<and> kr_status r = ''retired'')
      (snd (rotate_key x now k pk t al so nt rows)) = None"
proof (cases "get_active rows t")
  case None
  with that assms show thesis
    by (simp add: first_rotated_none unused_first db_first_Cons)
next
  case (Some r)
  have "kr_key_id r \<noteq> k"
    using get_active_tenant [OF Some] assms(2) by (auto simp: key_unused_def list_all_iff)
  with that assms Some show thesis
    by (simp add: first_rotated unused_first db_first_Cons Let_def)
qed

lemma unused_after:
  assumes "keys_ok x rows" "key_unused rows k t" "k \<noteq> k'"
  shows "key_unused (snd (rotate_key x now k' pk t al so nt rows)) k t"
proof (cases "get_active rows t")
  case None
  with assms show ?thesis by (simp add: rotate_none Let_def key_unused_def)
next
  case (Some r)
  have "kr_key_id r \<noteq> k"
    using get_active_tenant [OF Some] assms(2) by (auto simp: key_unused_def list_all_iff)
  with assms Some show ?thesis by (simp add: rotate_some Let_def key_unused_def)
qed

text \<open>A rotation away from \<open>k\<close>: the first active row stays, the first retirement row is the new one.\<close>

lemma retired_rotated:
  assumes "keys_ok x rows" "get_active rows t = Some r" "kr_key_id r = k" "k \<noteq> k'"
    "db_first (\<lambda>r. kr_key_id r = k \<and> kr_tenant_id r = t \<and> kr_status r = ''active'') rows = Some a"
    "db_first (\<lambda>r. kr_key_id r = k \<and> kr_tenant_id r = t \<and> kr_status r = ''retired'') rows = None"
  obtains q where "db_first (\<lambda>r. kr_key_id r = k \<and> kr_tenant_id r = t \<and> kr_status r = ''active'')
      (snd (rotate_key x now k' pk t al so nt rows)) = Some a"
    "db_first (\<lambda>r. kr_key_id r = k \<and> kr_tenant_id r = t \<and> kr_status r = ''retired'')
      (snd (rotate_key x now k' pk t al so nt rows)) = Some q" "kr_retired_at q = Some now"
  using that assms get_active_tenant [OF assms(2)] by (simp add: first_rotated db_first_Cons Let_def)

lemma was_active_at_spec:
  assumes "db_first (\<lambda>r. kr_key_id r = k \<and> kr_tenant_id r = t \<and> kr_status r = ''active'') rows = Some a"
    "db_first (\<lambda>r. kr_key_id r = k \<and> kr_tenant_id r = t \<and> kr_status r = ''retired'') rows = q"
    "\<And>r. q = Some r \<Longrightarrow> kr_retired_at r = Some t2 \<and> t2 \<noteq> []"
  shows "was_active_at rows k t T \<longleftrightarrow> kr_registered_at a \<le> T \<and> (q \<noteq> None \<longrightarrow> T < t2)"
  using assms by (cases q) (auto simp: was_active_at_def not_less not_le)

text \<open>
  C14: Whatever sequence of \<open>register_key\<close>, \<open>register_or_update\<close> and \<open>rotate_key\<close> calls is run on an empty
  registry, \<open>verify_chain\<close> accepts the chain of every tenant with all its rows, and a later run never
  changes or removes a row that is there.
\<close>

theorem key_registry_runs:
  "key_verify_chain x (fold (key_step x) qs []) t =
     Inr (length (list_all_keys (fold (key_step x) qs []) t), None) \<and>
   (\<exists>rs. fold (key_step x) (qs @ ps) [] = fold (key_step x) qs [] @ rs)"
  using keyreg.run_verify [OF keys_ok_init, of x qs] keyreg.run_extends [OF keyreg.run_inv [OF keys_ok_init], where qs = ps]
  by auto

text \<open>
  C12: On a sound registry \<open>rotate_key\<close> always succeeds and only appends: the row it returns is the tenant's
  active key afterwards, the key that was active gets one retirement row with the time and the
  replacement, the rows of other tenants and their active keys stay.
\<close>

theorem rotate_key_activates:
  assumes "keys_ok x rows"
  shows "\<exists>new old qs. rotate_key x now k pk t al so nt rows = (Inr (new, old), rows @ qs @ [new]) \<and>
    get_active (rows @ qs @ [new]) t = Some new \<and> kr_key_id new = k \<and> kr_public_key new = pk \<and>
    kr_registered_at new = now \<and>
    (case get_active rows t of
       None \<Rightarrow> old = None \<and> qs = []
     | Some r \<Rightarrow> \<exists>q. old = Some q \<and> qs = [q] \<and> kr_key_id q = kr_key_id r \<and> kr_status q = ''retired'' \<and>
         kr_retired_at q = Some now \<and> kr_superseded_by q = Some k) \<and>
    (\<forall>u. u = t \<or> get_active (rows @ qs @ [new]) u = get_active rows u)"
proof -
  let ?new = "active_row k t pk al so now nt"
  show ?thesis
  proof (cases "get_active rows t")
    case None
    let ?n = "sealed x rows ?new"
    have e: "rotate_key x now k pk t al so nt rows = (Inr (?n, None), rows @ [] @ [?n])"
      using None by (simp add: rotate_key_eq [OF assms] rotation_rows_def Let_def)
    have "\<forall>u. u = t \<or> get_active (rows @ [] @ [?n]) u = get_active rows u" by (simp add: get_active_def)
    moreover have "get_active (rows @ [] @ [?n]) t = Some ?n" by (simp add: get_active_append_new)
    ultimately show ?thesis using None e by (intro exI [of _ ?n] exI [of _ None] exI [of _ "[]"]) simp
  next
    case (Some r)
    let ?q = "sealed x rows (retired_row r now k nt)"
    let ?n = "sealed x (rows @ [?q]) ?new"
    have e: "rotate_key x now k pk t al so nt rows = (Inr (?n, Some ?q), rows @ [?q] @ [?n])"
      using Some by (simp add: rotate_key_eq [OF assms] rotation_rows_def Let_def)
    have "\<forall>u. u = t \<or> get_active ((rows @ [?q]) @ [?n]) u = get_active rows u"
      unfolding get_active_def db_last_snoc by simp
    moreover have "get_active ((rows @ [?q]) @ [?n]) t = Some ?n" by (rule get_active_append_new) simp_all
    ultimately show ?thesis using Some e by (intro exI [of _ ?n] exI [of _ "Some ?q"] exI [of _ "[?q]"]) simp
  qed
qed

theorem rotate_key_activates_witness:
  "\<exists>new old qs. rotate_key sample_ext ''2'' ''B'' ''pb'' ''t'' ''Ed25519'' ''env'' None
       (snd (rotate_key sample_ext ''1'' ''A'' ''pa'' ''t'' ''Ed25519'' ''env'' None [])) = (Inr (new, Some old), qs) \<and>
     kr_key_id new = ''B'' \<and> kr_key_id old = ''A''"
proof -
  let ?rows = "snd (rotate_key sample_ext ''1'' ''A'' ''pa'' ''t'' ''Ed25519'' ''env'' None [])"
  have ok: "keys_ok sample_ext ?rows"
    using key_step_ok(1) [OF keys_ok_init, of sample_ext "KeyRotate ''1'' ''A'' ''pa'' ''t'' ''Ed25519'' ''env'' None"] by simp
  have "\<exists>r. get_active ?rows ''t'' = Some r \<and> kr_key_id r = ''A''"
    using rotate_key_activates [OF keys_ok_init, of sample_ext "''1''" "''A''" "''pa''" "''t''" "''Ed25519''" "''env''" None]
    by auto
  with rotate_key_activates [OF ok, of "''2''" "''B''" "''pb''" "''t''" "''Ed25519''" "''env''" None]
  show ?thesis by auto
qed

text \<open>Operations for other tenants leave the rows of a tenant alone.\<close>

fun op_tenant :: "key_op \<Rightarrow> string" where
  "op_tenant (KeyRegister now k pk t al so nt) = t"
| "op_tenant (KeyRegisterOrUpdate now k pk t al so) = t"
| "op_tenant (KeyRotate now k pk t al so nt) = t"

lemma rotation_rows_tenant:
  "(\<And>r. old = Some r \<Longrightarrow> kr_tenant_id r = kr_tenant_id new) \<Longrightarrow> r \<in> set (rotation_rows x old now nt new rows) \<Longrightarrow>
    kr_tenant_id r = kr_tenant_id new"
  by (auto simp: rotation_rows_def Let_def split: option.splits)

lemma key_step_tenant:
  assumes "keys_ok x rows"
  shows "\<exists>rs. key_step x q rows = rows @ rs \<and> (\<forall>r\<in>set rs. kr_tenant_id r = op_tenant q)"
proof -
  note t = get_active_tenant
  show ?thesis
    by (cases q) (auto simp: register_key_eq [OF assms] register_or_update_eq [OF assms] rotate_key_eq [OF assms] Let_def
      split: option.splits dest!: rotation_rows_tenant [rotated] dest: t)
qed

lemma other_tenants_run:
  assumes "keys_ok x rows" "list_all (\<lambda>q. op_tenant q \<noteq> t) qs"
  shows "\<exists>rs. fold (key_step x) qs rows = rows @ rs \<and> (\<forall>r\<in>set rs. kr_tenant_id r \<noteq> t)"
  using assms
proof (induction qs arbitrary: rows)
  case (Cons q qs)
  obtain rs where rs: "key_step x q rows = rows @ rs" "\<forall>r\<in>set rs. kr_tenant_id r = op_tenant q"
    using key_step_tenant [OF Cons.prems(1)] by blast
  obtain rs' where "fold (key_step x) qs (rows @ rs) = (rows @ rs) @ rs'" "\<forall>r\<in>set rs'. kr_tenant_id r \<noteq> t"
    using Cons.IH [of "rows @ rs"] key_step_ok(1) [OF Cons.prems(1), of q] Cons.prems(2) unfolding rs(1) by auto
  then show ?case using rs Cons.prems(2) by (intro exI [of _ "rs @ rs'"]) auto
qed simp

lemma get_active_other: "\<forall>r\<in>set rs. kr_tenant_id r \<noteq> t \<Longrightarrow> get_active (rows @ rs) t = get_active rows t"
  unfolding get_active_def by (induction rs rule: rev_induct) (auto simp: append_assoc [symmetric] simp del: append_assoc)

lemma key_unused_other: "\<forall>r\<in>set rs. kr_tenant_id r \<noteq> t \<Longrightarrow> key_unused (rows @ rs) k t = key_unused rows k t"
  by (auto simp: key_unused_def list_all_iff)

lemma first_other:
  "\<forall>r\<in>set rs. kr_tenant_id r \<noteq> t \<Longrightarrow> db_first (\<lambda>r. kr_key_id r = k \<and> kr_tenant_id r = t \<and> kr_status r = st) (rows @ rs) =
    db_first (\<lambda>r. kr_key_id r = k \<and> kr_tenant_id r = t \<and> kr_status r = st) rows"
proof -
  assume "\<forall>r\<in>set rs. kr_tenant_id r \<noteq> t"
  then have "db_first (\<lambda>r. kr_key_id r = k \<and> kr_tenant_id r = t \<and> kr_status r = st) rs = None" by (auto simp: db_first_None)
  then show ?thesis by (simp split: option.splits)
qed

text \<open>
  C13: The window of a key.  Let a tenant rotate at time \<open>t1\<close> to a key \<open>k\<close> it never used before and, with any operations of
  other tenants in between, at a time \<open>t2\<close> on to another unused key \<open>k'\<close>.  Then \<open>was_active_at\<close> holds for \<open>k\<close> exactly
  at the times from \<open>t1\<close> on and before \<open>t2\<close>, and it keeps these answers after any further operations of the registry, also
  if \<open>k\<close> is activated again; and right after the second rotation it holds for \<open>k'\<close> exactly from \<open>t2\<close> on.
\<close>

theorem rotation_window:
  assumes "keys_ok x rows" "key_unused rows k t" "key_unused rows k' t" "k \<noteq> k'" "t2 \<noteq> []"
    and "rows1 = snd (rotate_key x t1 k pk t al so nt rows)" "list_all (\<lambda>q. op_tenant q \<noteq> t) qs"
    and "rows2 = snd (rotate_key x t2 k' pk' t al' so' nt' (fold (key_step x) qs rows1))"
  shows "(was_active_at (fold (key_step x) ps rows2) k t T \<longleftrightarrow> t1 \<le> T \<and> T < t2) \<and> (was_active_at rows2 k' t T \<longleftrightarrow> t2 \<le> T)"
proof -
  have ok1: "keys_ok x rows1" unfolding assms(6) by (rule rotate_ok [OF assms(1)])
  obtain rs where rs: "fold (key_step x) qs rows1 = rows1 @ rs" "\<forall>r\<in>set rs. kr_tenant_id r \<noteq> t"
    using other_tenants_run [OF ok1 assms(7)] by blast
  have ok: "keys_ok x (rows1 @ rs)" using keyreg.run_inv [OF ok1, of qs] by (simp add: rs(1))
  obtain a where a: "db_first (\<lambda>r. kr_key_id r = k \<and> kr_tenant_id r = t \<and> kr_status r = ''active'') rows1 = Some a"
    "kr_registered_at a = t1" "db_first (\<lambda>r. kr_key_id r = k \<and> kr_tenant_id r = t \<and> kr_status r = ''retired'') rows1 = None"
    unfolding assms(6) by (rule unused_rotated [OF assms(1,2)])
  obtain r where r: "get_active rows1 t = Some r" "kr_key_id r = k"
    unfolding assms(6) by (rule rotate_active [OF assms(1)])
  have r': "get_active (rows1 @ rs) t = Some r" unfolding get_active_other [OF rs(2)] by (rule r(1))
  have a': "db_first (\<lambda>r. kr_key_id r = k \<and> kr_tenant_id r = t \<and> kr_status r = ''active'') (rows1 @ rs) = Some a"
    "db_first (\<lambda>r. kr_key_id r = k \<and> kr_tenant_id r = t \<and> kr_status r = ''retired'') (rows1 @ rs) = None"
    unfolding first_other [OF rs(2)] by (rule a(1), rule a(3))
  obtain q where q: "db_first (\<lambda>r. kr_key_id r = k \<and> kr_tenant_id r = t \<and> kr_status r = ''active'') rows2 = Some a"
    "db_first (\<lambda>r. kr_key_id r = k \<and> kr_tenant_id r = t \<and> kr_status r = ''retired'') rows2 = Some q" "kr_retired_at q = Some t2"
    unfolding assms(8) rs(1) by (rule retired_rotated [OF ok r' r(2) assms(4) a'])
  have "key_unused rows1 k' t" unfolding assms(6) using assms(3,4) by (intro unused_after [OF assms(1)]) auto
  then have "key_unused (rows1 @ rs) k' t" by (simp add: key_unused_other [OF rs(2)])
  then obtain b where b: "db_first (\<lambda>r. kr_key_id r = k' \<and> kr_tenant_id r = t \<and> kr_status r = ''active'') rows2 = Some b"
    "kr_registered_at b = t2" "db_first (\<lambda>r. kr_key_id r = k' \<and> kr_tenant_id r = t \<and> kr_status r = ''retired'') rows2 = None"
    unfolding assms(8) rs(1) by (rule unused_rotated [OF ok])
  have "keys_ok x rows2" unfolding assms(8) rs(1) by (rule rotate_ok [OF ok])
  then obtain rs3 where e: "fold (key_step x) ps rows2 = rows2 @ rs3" using keyreg.run_extends by blast
  have "db_first (\<lambda>r. kr_key_id r = k \<and> kr_tenant_id r = t \<and> kr_status r = ''active'') (rows2 @ rs3) = Some a"
    "db_first (\<lambda>r. kr_key_id r = k \<and> kr_tenant_id r = t \<and> kr_status r = ''retired'') (rows2 @ rs3) = Some q"
    using q(1,2) by simp_all
  then show ?thesis unfolding e
    using was_active_at_spec [of k t "rows2 @ rs3" a "Some q" t2 T] was_active_at_spec [OF b(1,3), of t2 T] q(3) assms(5) a(2) b(2)
    by auto
qed

text \<open>The key \<open>A\<close> is activated again at time 3; its window stays the first one.\<close>

theorem rotation_window_witness:
  "let rows2 = snd (rotate_key sample_ext ''2'' ''B'' ''pb'' ''t'' ''Ed25519'' ''env'' None
       (key_step sample_ext (KeyRotate ''1'' ''U'' ''pu'' ''u'' ''Ed25519'' ''env'' None)
         (snd (rotate_key sample_ext ''1'' ''A'' ''pa'' ''t'' ''Ed25519'' ''env'' None []))));
     rows3 = key_step sample_ext (KeyRotate ''3'' ''A'' ''pa'' ''t'' ''Ed25519'' ''env'' None) rows2
   in was_active_at rows3 ''A'' ''t'' ''15'' \<and> \<not> was_active_at rows3 ''A'' ''t'' ''25'' \<and>
      was_active_at rows2 ''B'' ''t'' ''25''"
proof -
  let ?qs = "[KeyRotate ''1'' ''U'' ''pu'' ''u'' ''Ed25519'' ''env'' None]"
  have u: "key_unused [] k t" for k t by (simp add: key_unused_def)
  have l: "''1'' \<le> ''15''" "''15'' < ''2''" "''2'' \<le> ''25''" "\<not> ''25'' < ''2''" by code_simp+
  have n: "''A'' \<noteq> ''B''" "''2'' \<noteq> []" "list_all (\<lambda>q. op_tenant q \<noteq> ''t'') ?qs" by simp_all
  note w = rotation_window [OF keys_ok_init u u n(1,2) refl n(3) refl, where
    ps = "[KeyRotate ''3'' ''A'' ''pa'' ''t'' ''Ed25519'' ''env'' None]"]
  show ?thesis unfolding Let_def using l w
    by (simp only: fold_simps comp_apply id_apply) simp
qed

text \<open>
  A key that is rotated out and later rotated in again is the tenant's active key, but
  \<open>was_active_at\<close> denies it for every time from its first retirement on: it reads the first active row and
  the first retirement row only.
\<close>

theorem reactivated_key_denied:
  assumes "keys_ok x rows" "key_unused rows k t" "k \<noteq> k'" "t2 \<noteq> []" "t2 \<le> T"
    and "rows1 = snd (rotate_key x t1 k pk t al so nt rows)"
    and "rows2 = snd (rotate_key x t2 k' pk' t al' so' nt' rows1)"
    and "rows3 = snd (rotate_key x t3 k pk t al so nt rows2)"
  shows "(\<exists>r. get_active rows3 t = Some r \<and> kr_key_id r = k \<and> kr_registered_at r = t3) \<and> \<not> was_active_at rows3 k t T"
proof -
  have ok1: "keys_ok x rows1" unfolding assms(6) by (rule rotate_ok [OF assms(1)])
  have ok2: "keys_ok x rows2" unfolding assms(7) by (rule rotate_ok [OF ok1])
  obtain a where a: "db_first (\<lambda>r. kr_key_id r = k \<and> kr_tenant_id r = t \<and> kr_status r = ''active'') rows1 = Some a"
    "kr_registered_at a = t1" "db_first (\<lambda>r. kr_key_id r = k \<and> kr_tenant_id r = t \<and> kr_status r = ''retired'') rows1 = None"
    unfolding assms(6) by (rule unused_rotated [OF assms(1,2)])
  obtain r where r: "get_active rows1 t = Some r" "kr_key_id r = k"
    unfolding assms(6) by (rule rotate_active [OF assms(1)])
  obtain q where q: "db_first (\<lambda>r. kr_key_id r = k \<and> kr_tenant_id r = t \<and> kr_status r = ''active'') rows2 = Some a"
    "db_first (\<lambda>r. kr_key_id r = k \<and> kr_tenant_id r = t \<and> kr_status r = ''retired'') rows2 = Some q" "kr_retired_at q = Some t2"
    unfolding assms(7) by (rule retired_rotated [OF ok1 r assms(3) a(1,3)])
  obtain r2 where r2: "get_active rows2 t = Some r2" unfolding assms(7) by (rule rotate_active [OF ok1])
  have "db_first (\<lambda>r. kr_key_id r = k \<and> kr_tenant_id r = t \<and> kr_status r = ''active'') rows3 = Some a"
    "db_first (\<lambda>r. kr_key_id r = k \<and> kr_tenant_id r = t \<and> kr_status r = ''retired'') rows3 = Some q"
    unfolding assms(8) first_rotated [OF ok2 r2] q(1,2) by simp_all
  from was_active_at_spec [OF this, of t2 T] q(3) assms(4,5) have "\<not> was_active_at rows3 k t T" by auto
  moreover obtain n where "get_active rows3 t = Some n" "kr_key_id n = k" "kr_registered_at n = t3"
    unfolding assms(8) by (rule rotate_active [OF ok2])
  ultimately show ?thesis by blast
qed

theorem reactivated_key_denied_witness:
  "let rows3 = snd (rotate_key sample_ext ''3'' ''A'' ''pa'' ''t'' ''Ed25519'' ''env'' None
     (snd (rotate_key sample_ext ''2'' ''B'' ''pb'' ''t'' ''Ed25519'' ''env'' None
       (snd (rotate_key sample_ext ''1'' ''A'' ''pa'' ''t'' ''Ed25519'' ''env'' None [])))))
   in (\<exists>r. get_active rows3 ''t'' = Some r \<and> kr_key_id r = ''A'') \<and> \<not> was_active_at rows3 ''A'' ''t'' ''35''"
proof -
  have u: "key_unused [] k t" for k t by (simp add: key_unused_def)
  have "''2'' \<le> ''35''" by code_simp
  then have t: "''A'' \<noteq> ''B''" "''2'' \<noteq> []" "''2'' \<le> ''35''" by simp_all
  show ?thesis
    unfolding Let_def using reactivated_key_denied [OF keys_ok_init u t refl refl refl] by blast
qed

text \<open>
  After a rotation from \<open>k\<close> to \<open>k'\<close>, registering \<open>k\<close> again at startup (\<open>register_or_update\<close>) or with
  \<open>register_key\<close> changes nothing: both find the old active row of \<open>k\<close> and return it, while the tenant's
  active key stays \<open>k'\<close>.
\<close>

theorem stale_registration:
  assumes "keys_ok x rows" "get_active rows t = Some r" "kr_key_id r \<noteq> k'"
    and "rows' = snd (rotate_key x now k' pk' t al so nt rows)"
  shows "(\<exists>q. register_or_update x now' (kr_key_id r) pk t al' so' rows' = (Inr q, rows') \<and> kr_status q = ''active'') \<and>
    (\<exists>q. register_key x now' (kr_key_id r) pk t al' so' nt' rows' = (Inr q, rows')) \<and>
    (\<exists>n. get_active rows' t = Some n \<and> kr_key_id n = k')"
proof -
  have rr: "r \<in> set rows'" "kr_tenant_id r = t" "kr_status r = ''active''"
    using get_active_tenant [OF assms(2)] unfolding assms(4) rotate_some [OF assms(1,2)] Let_def by simp_all
  then have "find_active rows' (kr_key_id r) t \<noteq> None" unfolding find_active_def db_last_None by blast
  then obtain q where q: "find_active rows' (kr_key_id r) t = Some q" by blast
  have "kr_status q = ''active''" using db_last_SomeD [OF q [unfolded find_active_def]] by simp
  moreover obtain n where "get_active rows' t = Some n" "kr_key_id n = k'"
    unfolding assms(4) by (rule rotate_active [OF assms(1)])
  ultimately show ?thesis using q by (simp add: register_or_update_def register_key_def)
qed

theorem stale_registration_witness:
  "let rows = snd (rotate_key sample_ext ''2'' ''B'' ''pb'' ''t'' ''Ed25519'' ''env'' None
       (snd (rotate_key sample_ext ''1'' ''A'' ''pa'' ''t'' ''Ed25519'' ''env'' None [])))
   in snd (register_or_update sample_ext ''3'' ''A'' ''pa'' ''t'' ''Ed25519'' ''env'' rows) = rows \<and>
      (\<exists>n. get_active rows ''t'' = Some n \<and> kr_key_id n = ''B'')"
proof -
  let ?rows = "snd (rotate_key sample_ext ''1'' ''A'' ''pa'' ''t'' ''Ed25519'' ''env'' None [])"
  have ok: "keys_ok sample_ext ?rows" by (rule rotate_ok [OF keys_ok_init])
  obtain r where r: "get_active ?rows ''t'' = Some r" "kr_key_id r = ''A''" by (rule rotate_active [OF keys_ok_init])
  have "kr_key_id r \<noteq> ''B''" using r(2) by simp
  from stale_registration [OF ok r(1) this refl, of "''3''" "''pa''" "''Ed25519''" "''env''" "''2''" "''pb''" "''Ed25519''" "''env''" None None]
  show ?thesis unfolding Let_def r(2) by (metis snd_conv)
qed

end
