(* ===== verification/Anchor.thy ===== *)
theory Anchor
  imports JsonText AuditLog Storage "HOL-Library.Sublist"
begin

unbundle bit_operations_syntax

text \<open>
  \<open>provable_ai/audit_anchor.py\<close>, the store that anchors chain hashes outside the proof database, and the standalone
  verifier \<open>verify/verify_anchor.py\<close>.  The answer of the timestamp authority, of S3 and of \<open>openssl\<close>, the clock and the
  random ids are arguments.  The table is the list of its rows in insertion order; the triggers make it
  append-only.  The lemmas instantiate the hash chain of \<open>ChainLog\<close>.
\<close>

subsection \<open>RFC 3161 requests and tokens\<close>

text \<open>\<open>nonce_val.to_bytes(8, "big").lstrip(b"\x00") or b"\x00"\<close>, made positive.\<close>

definition nonce_bytes :: "bytes \<Rightarrow> bytes" where
  "nonce_bytes random =
     (let b = dropWhile (\<lambda>c. c = 0) random; b = (if b = [] then [0] else b)
      in if hd b AND 0x80 \<noteq> 0 then 0 # b else b)"

definition tlv :: "byte \<Rightarrow> bytes \<Rightarrow> bytes" where
  "tlv tag content = [tag, word_of_nat (length content)] @ content"

definition build_ts_request :: "ext \<Rightarrow> bytes \<Rightarrow> bytes \<Rightarrow> bytes" where
  "build_ts_request x random data_bytes =
     (let sha256_hash = x_sha256 x data_bytes;
          sha256_oid_der = [0x30, 0x0d, 0x06, 0x09, 0x60, 0x86, 0x48, 0x01, 0x65, 0x03, 0x04, 0x02, 0x01, 0x05, 0x00];
          msg_imprint_der = tlv 0x30 (sha256_oid_der @ tlv 0x04 sha256_hash);
          version_der = [0x02, 0x01, 0x01];
          nonce_der = tlv 0x02 (nonce_bytes random);
          certReq_der = [0x01, 0x01, 0xff]
      in tlv 0x30 (version_der @ msg_imprint_der @ nonce_der @ certReq_der))"

text \<open>The authority's answer to a request: the response, or the text of the exception.\<close>

type_synonym tsa = "bytes \<Rightarrow> string + bytes"

definition ts_dict :: "string \<Rightarrow> string \<Rightarrow> string option \<Rightarrow> string option \<Rightarrow> pydict" where
  "ts_dict status tsa_url token_hex err =
     [(KStr ''status'', PyStr status), (KStr ''tsa_url'', PyStr tsa_url), (KStr ''hash_algo'', PyStr ''sha256''),
      (KStr ''token_hex'', opt_str token_hex), (KStr ''error'', opt_str err)]"

definition request_rfc3161_timestamp :: "ext \<Rightarrow> tsa \<Rightarrow> string \<Rightarrow> bytes \<Rightarrow> string \<Rightarrow> pydict" where
  "request_rfc3161_timestamp x tsa tsa_url random chain_hash =
     (case tsa (build_ts_request x random (utf8 chain_hash)) of
        Inl e \<Rightarrow> ts_dict ''error'' tsa_url None (Some e)
      | Inr tsr_bytes \<Rightarrow>
          (let granted = 10 < length tsr_bytes
           in ts_dict (if granted then ''granted'' else ''rejected'') tsa_url (if granted then Some (hex tsr_bytes) else None) None))"

datatype token_message = HashInToken | HashNotInToken | TokenParseError

record token_result =
  tr_valid :: bool
  tr_message :: token_message
  tr_token_bytes :: nat

definition verify_rfc3161_token :: "ext \<Rightarrow> pyval \<Rightarrow> string \<Rightarrow> token_result" where
  "verify_rfc3161_token x token_hex chain_hash =
     (case rbind (as_str token_hex) (\<lambda>s. opt_res (ValueError ''fromhex'') (fromhex s)) of
        Inl _ \<Rightarrow> \<lparr>tr_valid = False, tr_message = TokenParseError, tr_token_bytes = 0\<rparr>
      | Inr token_bytes \<Rightarrow>
          if sublist (x_sha256 x (utf8 chain_hash)) token_bytes
          then \<lparr>tr_valid = True, tr_message = HashInToken, tr_token_bytes = length token_bytes\<rparr>
          else \<lparr>tr_valid = False, tr_message = HashNotInToken, tr_token_bytes = length token_bytes\<rparr>)"

subsection \<open>The anchor store\<close>

record anchor_row =
  ar_anchor_id :: string
  ar_tenant_id :: string
  ar_chain_hash :: string
  ar_anchored_at :: string
  ar_anchor_seq :: int
  ar_anchor_backends :: string
  ar_rfc3161_json :: "string option"
  ar_row_hash :: string
  ar_prev_anchor_hash :: string
  ar_anchor_chain_hash :: string

definition ANCHOR_GENESIS :: string where
  "ANCHOR_GENESIS = replicate 64 (CHR ''0'')"

definition anchor_content :: "anchor_row \<Rightarrow> pyval" where
  "anchor_content r = PyDict [(KStr ''anchor_id'', PyStr (ar_anchor_id r)), (KStr ''tenant_id'', PyStr (ar_tenant_id r)),
     (KStr ''chain_hash'', PyStr (ar_chain_hash r)), (KStr ''anchored_at'', PyStr (ar_anchored_at r)),
     (KStr ''anchor_seq'', PyInt (ar_anchor_seq r)), (KStr ''rfc3161'', opt_str (ar_rfc3161_json r))]"

definition compute_anchor_row_hash :: "ext \<Rightarrow> anchor_row \<Rightarrow> string res" where
  "compute_anchor_row_hash x r =
     rbind (opt_res TypeError (json_dumps True (anchor_content r))) (\<lambda>content. Inr (hexdigest x (utf8 content)))"

definition tenant_anchors :: "string \<Rightarrow> anchor_row list \<Rightarrow> anchor_row list" where
  "tenant_anchors tenant_id rows = filter (\<lambda>r. ar_tenant_id r = tenant_id) rows"

text \<open>The first read of \<open>anchor\<close>: the next number of the tenant.\<close>

definition next_anchor_seq :: "anchor_row list \<Rightarrow> string \<Rightarrow> int" where
  "next_anchor_seq rows tenant_id =
     (case map ar_anchor_seq (tenant_anchors tenant_id rows) of [] \<Rightarrow> 1 | n # ns \<Rightarrow> foldl max n ns + 1)"

text \<open>
  The backends that took the anchor: the authority, the log, S3 when a bucket is set and the write succeeded, and
  the local store.
\<close>

definition anchor_backends :: "pydict option \<Rightarrow> bool option \<Rightarrow> string list" where
  "anchor_backends rfc s3 =
     (case rfc of Some d \<Rightarrow> if dget d ''status'' = Some (PyStr ''granted'') then [''rfc3161''] else [] | None \<Rightarrow> []) @
     [''stdout''] @ (if s3 = Some True then [''s3''] else []) @ [''local'']"

text \<open>
  The second read, of the last chain hash of the tenant, and the two hashes; the row is complete then.
\<close>

definition link_anchor :: "ext \<Rightarrow> anchor_row list \<Rightarrow> anchor_row \<Rightarrow> anchor_row res" where
  "link_anchor x rows r =
     (let prev_anchor_hash = (case db_last (\<lambda>q. ar_tenant_id q = ar_tenant_id r) rows of
            Some q \<Rightarrow> ar_anchor_chain_hash q | None \<Rightarrow> ANCHOR_GENESIS)
      in rbind (compute_anchor_row_hash x r) (\<lambda>row_hash.
         rbind (next_chain_hash x prev_anchor_hash row_hash) (\<lambda>chain.
         Inr (r\<lparr>ar_row_hash := row_hash, ar_prev_anchor_hash := prev_anchor_hash, ar_anchor_chain_hash := chain\<rparr>))))"

definition new_anchor :: "string \<Rightarrow> string \<Rightarrow> string \<Rightarrow> string \<Rightarrow> int \<Rightarrow> pydict option \<Rightarrow> bool option \<Rightarrow> anchor_row res" where
  "new_anchor anchor_id tenant_id chain_hash now seq rfc s3 =
     rbind (case rfc of None \<Rightarrow> Inr None
            | Some d \<Rightarrow> rbind (opt_res TypeError (json_dumps_spaced (PyDict d))) (\<lambda>t. Inr (Some t))) (\<lambda>rfc3161_json.
     rbind (opt_res TypeError (json_dumps_spaced (PyList (map PyStr (sort (remdups (anchor_backends rfc s3))))))) (\<lambda>backends_json.
     Inr \<lparr>ar_anchor_id = anchor_id, ar_tenant_id = tenant_id, ar_chain_hash = chain_hash, ar_anchored_at = now,
          ar_anchor_seq = seq, ar_anchor_backends = backends_json, ar_rfc3161_json = rfc3161_json,
          ar_row_hash = [], ar_prev_anchor_hash = [], ar_anchor_chain_hash = []\<rparr>))"

text \<open>\<open>INSERT\<close> with \<open>UNIQUE(anchor_id)\<close>; nothing constrains the sequence number.\<close>

definition insert_anchor :: "anchor_row \<Rightarrow> anchor_row list \<Rightarrow> anchor_row res \<times> anchor_row list" where
  "insert_anchor r rows =
     (if list_all (\<lambda>q. ar_anchor_id q \<noteq> ar_anchor_id r) rows then (Inr r, rows @ [r]) else (Inl IntegrityError, rows))"

text \<open>What a call of \<open>anchor\<close> is given: id, tenant, hash, time, the result of the authority if asked, S3.\<close>

record anchor_call =
  an_id :: string
  an_tenant :: string
  an_hash :: string
  an_now :: string
  an_rfc :: "pydict option"
  an_s3 :: "bool option"

text \<open>
  The call after its first read: the sequence number is fixed, the authority has answered, the rows are those
  of the second read.  Another connection may write between the two reads.
\<close>

definition anchor_finish :: "ext \<Rightarrow> anchor_call \<Rightarrow> int \<Rightarrow> anchor_row list \<Rightarrow> anchor_row res \<times> anchor_row list" where
  "anchor_finish x c anchor_seq rows =
     (case rbind (new_anchor (an_id c) (an_tenant c) (an_hash c) (an_now c) anchor_seq (an_rfc c) (an_s3 c)) (link_anchor x rows) of
        Inl e \<Rightarrow> (Inl e, rows)
      | Inr r \<Rightarrow> insert_anchor r rows)"

definition anchor :: "ext \<Rightarrow> anchor_call \<Rightarrow> anchor_row list \<Rightarrow> anchor_row res \<times> anchor_row list" where
  "anchor x c rows = anchor_finish x c (next_anchor_seq rows (an_tenant c)) rows"

definition anchor_chain_hash ::
  "ext \<Rightarrow> tsa \<Rightarrow> string \<Rightarrow> bytes \<Rightarrow> string \<Rightarrow> string \<Rightarrow> bool option \<Rightarrow> string \<Rightarrow> string \<Rightarrow> bool \<Rightarrow> anchor_row list
     \<Rightarrow> anchor_row res \<times> anchor_row list" where
  "anchor_chain_hash x tsa tsa_url random anchor_id now s3 tenant_id chain_hash request_rfc3161 rows =
     anchor x \<lparr>an_id = anchor_id, an_tenant = tenant_id, an_hash = chain_hash, an_now = now,
       an_rfc = (if request_rfc3161 then Some (request_rfc3161_timestamp x tsa tsa_url random chain_hash) else None),
       an_s3 = s3\<rparr> rows"

definition verify_anchor_chain :: "ext \<Rightarrow> anchor_row list \<Rightarrow> string \<Rightarrow> (nat \<times> nat option) res" where
  "verify_anchor_chain x rows tenant_id =
     (let rs = filter (\<lambda>p. ar_tenant_id (snd p) = tenant_id) (enumerate 1 rows)
      in rbind (chain_walk x (compute_anchor_row_hash x) ar_row_hash ar_anchor_chain_hash ANCHOR_GENESIS rs)
           (\<lambda>broken_at. Inr (length rs, broken_at)))"

text \<open>
  \<open>_row_to_anchor\<close>: the row with its two JSON columns parsed; \<open>json.loads\<close> of a bad column raises.
\<close>

record anchor_record =
  rec_row :: anchor_row
  rec_backends :: pyval
  rec_rfc3161 :: "pyval option"

definition row_to_anchor :: "anchor_row \<Rightarrow> anchor_record res" where
  "row_to_anchor r =
     rbind (case ar_rfc3161_json r of
              None \<Rightarrow> Inr None
            | Some s \<Rightarrow> if s = [] then Inr None
                else rbind (opt_res (ValueError ''JSONDecodeError'') (body_loads s)) (\<lambda>v. Inr (Some v))) (\<lambda>rfc.
     rbind (opt_res (ValueError ''JSONDecodeError'')
              (body_loads (if ar_anchor_backends r = [] then ''[]'' else ar_anchor_backends r))) (\<lambda>backends.
     Inr \<lparr>rec_row = r, rec_backends = backends, rec_rfc3161 = rfc\<rparr>))"

definition find_anchor :: "anchor_row list \<Rightarrow> string \<Rightarrow> string \<Rightarrow> anchor_record option res" where
  "find_anchor rows tenant_id chain_hash =
     (case sort_key ar_anchor_seq (filter (\<lambda>r. ar_tenant_id r = tenant_id \<and> ar_chain_hash r = chain_hash) rows) of
        [] \<Rightarrow> Inr None | r # _ \<Rightarrow> rbind (row_to_anchor r) (\<lambda>a. Inr (Some a)))"

text \<open>A negative limit is no limit to SQLite.\<close>

definition list_anchors :: "anchor_row list \<Rightarrow> string \<Rightarrow> int \<Rightarrow> anchor_record list res" where
  "list_anchors rows tenant_id lim =
     (let rs = rev (sort_key ar_anchor_seq (tenant_anchors tenant_id rows)); lim = min lim 100
      in rmap_list row_to_anchor (if lim < 0 then rs else take (nat lim) rs))"

definition anchor_count :: "anchor_row list \<Rightarrow> string \<Rightarrow> nat" where
  "anchor_count rows tenant_id = length (tenant_anchors tenant_id rows)"

record against_result =
  ag_record :: "anchor_record option"
  ag_before_claim :: "bool option"
  ag_rfc3161_available :: bool
  ag_rfc3161_verification :: "token_result option"

text \<open>The parsed column is a dict in every row that \<open>anchor\<close> wrote; \<open>get\<close> on another value raises.\<close>

definition rfc_get :: "pyval option \<Rightarrow> string \<Rightarrow> pyval res" where
  "rfc_get rfc k = (case rfc of Some (PyDict d) \<Rightarrow> Inr (dget_or d k PyNone) | _ \<Rightarrow> Inl AttributeError)"

definition verify_against_anchor :: "ext \<Rightarrow> anchor_row list \<Rightarrow> string \<Rightarrow> string \<Rightarrow> string option \<Rightarrow> against_result res" where
  "verify_against_anchor x rows tenant_id chain_hash expected_before =
     rbind (find_anchor rows tenant_id chain_hash) (\<lambda>found.
     case found of
       None \<Rightarrow> Inr \<lparr>ag_record = None, ag_before_claim = None, ag_rfc3161_available = False, ag_rfc3161_verification = None\<rparr>
     | Some a \<Rightarrow>
         (let rfc = rec_rfc3161 a;
              before_claim = (case expected_before of None \<Rightarrow> None
                | Some b \<Rightarrow> if b = [] then None else Some (ar_anchored_at (rec_row a) \<le> b))
          in rbind (if rfc \<noteq> None \<and> truthy (the rfc)
                    then rbind (rfc_get rfc ''token_hex'') (\<lambda>token.
                      Inr (if truthy token then Some (verify_rfc3161_token x token chain_hash) else None))
                    else Inr None) (\<lambda>verification.
             rbind (if rfc \<noteq> None then rbind (rfc_get rfc ''status'') (\<lambda>v. Inr (v = PyStr ''granted'')) else Inr False) (\<lambda>available.
             Inr \<lparr>ag_record = Some a, ag_before_claim = before_claim, ag_rfc3161_available = available,
                  ag_rfc3161_verification = verification\<rparr>))))"

subsection \<open>The standalone verifier\<close>

text \<open>The argument is the content of the token file, \<^const>\<open>None\<close> when it cannot be read.\<close>

definition verify_rfc3161_structural :: "ext \<Rightarrow> string \<Rightarrow> bytes option \<Rightarrow> bool" where
  "verify_rfc3161_structural x chain_hash token =
     (case token of None \<Rightarrow> False | Some token_bytes \<Rightarrow> sublist (x_sha256 x (utf8 chain_hash)) token_bytes)"

text \<open>
  \<open>openssl\<close> is \<^const>\<open>None\<close> when it is not installed; otherwise it maps token file, data, CA file and TSA
  certificate to its exit code and output.
\<close>

type_synonym openssl = "string \<Rightarrow> bytes \<Rightarrow> string \<Rightarrow> string option \<Rightarrow> int \<times> string"

definition verify_rfc3161_full :: "openssl option \<Rightarrow> string \<Rightarrow> string \<Rightarrow> string \<Rightarrow> string option \<Rightarrow> bool" where
  "verify_rfc3161_full openssl chain_hash token_path ca_cert_path tsa_cert_path =
     (case openssl of
        None \<Rightarrow> False
      | Some run \<Rightarrow>
          (let (returncode, stdout) = run token_path (utf8 chain_hash) ca_cert_path
             (case tsa_cert_path of None \<Rightarrow> None | Some c \<Rightarrow> if c = [] then None else Some c)
           in returncode = 0 \<and> sublist ''Verification: OK'' stdout))"

datatype standalone_failure = RowHashMismatch nat | ChainBrokenAt nat

fun standalone_walk :: "ext \<Rightarrow> string \<Rightarrow> (nat \<times> anchor_row) list \<Rightarrow> (standalone_failure + string) res" where
  "standalone_walk x prev_hash [] = Inr (Inr prev_hash)"
| "standalone_walk x prev_hash ((i, r) # rs) =
     rbind (compute_anchor_row_hash x r) (\<lambda>expected_row_hash.
     rbind (next_chain_hash x prev_hash expected_row_hash) (\<lambda>expected_chain.
     if ar_row_hash r \<noteq> expected_row_hash then Inr (Inl (RowHashMismatch i))
     else if ar_anchor_chain_hash r \<noteq> expected_chain then Inr (Inl (ChainBrokenAt i))
     else standalone_walk x (ar_anchor_chain_hash r) rs))"

text \<open>The argument is the table of the database file, \<^const>\<open>None\<close> when there is no file.\<close>

definition standalone_anchor_chain :: "ext \<Rightarrow> anchor_row list option \<Rightarrow> string \<Rightarrow> (bool \<times> nat \<times> standalone_failure option) res" where
  "standalone_anchor_chain x db tenant_id =
     (case db of None \<Rightarrow> Inr (False, 0, None)
      | Some rows \<Rightarrow>
          (let rs = filter (\<lambda>p. ar_tenant_id (snd p) = tenant_id) (enumerate 1 rows)
           in if rs = [] then Inr (True, 0, None)
              else rbind (standalone_walk x ANCHOR_GENESIS rs) (\<lambda>b.
                Inr (case b of Inl f \<Rightarrow> (False, length rs, Some f) | Inr _ \<Rightarrow> (True, length rs, None)))))"

subsection \<open>The chain invariant\<close>

definition anchor_bytes :: "anchor_row \<Rightarrow> bytes" where
  "anchor_bytes r = utf8 (emit True (norm (anchor_content r)))"

abbreviation anchor_chained :: "ext \<Rightarrow> bytes \<Rightarrow> anchor_row list \<Rightarrow> bool" where
  "anchor_chained x \<equiv> chained x anchor_bytes ar_row_hash ar_anchor_chain_hash"

definition anchors_ok :: "ext \<Rightarrow> anchor_row list \<Rightarrow> bool" where
  "anchors_ok x rows \<longleftrightarrow> (\<forall>t. anchor_chained x genesis_bytes (tenant_anchors t rows) \<and>
     map ar_anchor_seq (tenant_anchors t rows) = map int [1..<Suc (length (tenant_anchors t rows))])"

lemma anchors_ok_init: "anchors_ok x []"
  by (simp add: anchors_ok_def tenant_anchors_def)

lemma anchor_content_val: "plain (anchor_content r)" "wf_val (anchor_content r)"
  by (simp_all add: anchor_content_def)

lemma compute_anchor_row_hash_eq: "compute_anchor_row_hash x r = Inr (hexdigest x (anchor_bytes r))"
  unfolding compute_anchor_row_hash_def json_dumps_plain [OF anchor_content_val(1)] by (simp add: anchor_bytes_def)

lemma anchor_bytes_hashes [simp]:
  "anchor_bytes (r\<lparr>ar_row_hash := a, ar_prev_anchor_hash := p, ar_anchor_chain_hash := c\<rparr>) = anchor_bytes r"
  by (simp add: anchor_bytes_def anchor_content_def)

lemma tenant_anchors_append [simp]:
  "tenant_anchors t (rows @ [r]) = tenant_anchors t rows @ (if ar_tenant_id r = t then [r] else [])"
  by (simp add: tenant_anchors_def)

lemma foldl_max_numbered: "foldl max 1 (map int [2..<Suc (Suc n)]) = int (Suc n)"
  by (induction n) auto

lemma next_anchor_seq_numbered:
  assumes "map ar_anchor_seq (tenant_anchors t rows) = map int [1..<Suc (length (tenant_anchors t rows))]"
  shows "next_anchor_seq rows t = int (length (tenant_anchors t rows)) + 1"
proof (cases "length (tenant_anchors t rows)")
  case (Suc n)
  have "map int [1..<Suc (Suc n)] = 1 # map int [2..<Suc (Suc n)]" by (simp add: upt_conv_Cons numeral_2_eq_2 del: upt_Suc)
  with assms Suc show ?thesis by (simp add: next_anchor_seq_def foldl_max_numbered del: upt_Suc)
qed (simp add: next_anchor_seq_def)

lemma anchor_prev_hash:
  assumes "anchor_chained x genesis_bytes (tenant_anchors t rows)"
  shows "(case db_last (\<lambda>q. ar_tenant_id q = t) rows of Some q \<Rightarrow> ar_anchor_chain_hash q | None \<Rightarrow> ANCHOR_GENESIS) =
    hex (chain_end x anchor_bytes genesis_bytes (tenant_anchors t rows))"
  unfolding chain_last_hash [OF assms, symmetric]
  by (simp add: db_last_filter tenant_anchors_def ANCHOR_GENESIS_def)

text \<open>The row that a call adds to a sound table.\<close>

definition sealed_anchor :: "ext \<Rightarrow> anchor_row list \<Rightarrow> anchor_row \<Rightarrow> anchor_row" where
  "sealed_anchor x rows r =
     (let prev = chain_end x anchor_bytes genesis_bytes (tenant_anchors (ar_tenant_id r) rows)
      in r\<lparr>ar_row_hash := hexdigest x (anchor_bytes r), ar_prev_anchor_hash := hex prev,
           ar_anchor_chain_hash := hexdigest x (prev @ x_sha256 x (anchor_bytes r))\<rparr>)"

lemma sealed_anchor_fields [simp]:
  "ar_anchor_id (sealed_anchor x rows r) = ar_anchor_id r" "ar_tenant_id (sealed_anchor x rows r) = ar_tenant_id r"
  "ar_chain_hash (sealed_anchor x rows r) = ar_chain_hash r" "ar_anchored_at (sealed_anchor x rows r) = ar_anchored_at r"
  "ar_anchor_seq (sealed_anchor x rows r) = ar_anchor_seq r" "ar_rfc3161_json (sealed_anchor x rows r) = ar_rfc3161_json r"
  "ar_anchor_backends (sealed_anchor x rows r) = ar_anchor_backends r"
  "anchor_bytes (sealed_anchor x rows r) = anchor_bytes r"
  by (simp_all add: sealed_anchor_def Let_def)

lemma link_anchor_eq: "anchors_ok x rows \<Longrightarrow> link_anchor x rows r = Inr (sealed_anchor x rows r)"
  using anchor_prev_hash [of x "ar_tenant_id r" rows] unfolding anchors_ok_def link_anchor_def
  by (simp add: Let_def compute_anchor_row_hash_eq next_chain_hash_eq sealed_anchor_def del: upt_Suc)

lemma anchors_ok_sealed:
  assumes "anchors_ok x rows" "ar_anchor_seq r = int (length (tenant_anchors (ar_tenant_id r) rows)) + 1"
  shows "anchors_ok x (rows @ [sealed_anchor x rows r])"
  using assms unfolding anchors_ok_def by (auto simp: chained_append) (simp_all add: sealed_anchor_def Let_def)

lemma new_anchor_fields:
  "new_anchor i t h now n rfc s3 = Inr r \<Longrightarrow>
     ar_anchor_id r = i \<and> ar_tenant_id r = t \<and> ar_chain_hash r = h \<and> ar_anchored_at r = now \<and> ar_anchor_seq r = n"
  by (auto simp: new_anchor_def)

lemma anchor_cases:
  assumes "anchors_ok x rows"
  obtains (raised) e where "anchor x c rows = (Inl e, rows)"
  | (added) r where "anchor x c rows = (Inr (sealed_anchor x rows r), rows @ [sealed_anchor x rows r])"
      "ar_anchor_id r = an_id c" "ar_tenant_id r = an_tenant c" "ar_chain_hash r = an_hash c" "ar_anchored_at r = an_now c"
      "ar_anchor_seq r = int (length (tenant_anchors (an_tenant c) rows)) + 1"
proof -
  have n: "next_anchor_seq rows (an_tenant c) = int (length (tenant_anchors (an_tenant c) rows)) + 1"
    using assms unfolding anchors_ok_def by (intro next_anchor_seq_numbered) blast
  show thesis
  proof (cases "new_anchor (an_id c) (an_tenant c) (an_hash c) (an_now c) (int (length (tenant_anchors (an_tenant c) rows)) + 1) (an_rfc c) (an_s3 c)")
    case (Inl e)
    then show thesis by (intro raised [of e]) (simp add: anchor_def anchor_finish_def n)
  next
    case (Inr r)
    note f = new_anchor_fields [OF Inr]
    show thesis
    proof (cases "list_all (\<lambda>q. ar_anchor_id q \<noteq> an_id c) rows")
      case True
      with Inr f show thesis
        by (intro added [of r]) (simp_all add: anchor_def anchor_finish_def n link_anchor_eq [OF assms] insert_anchor_def)
    next
      case False
      with Inr f show thesis
        by (intro raised [of IntegrityError]) (simp add: anchor_def anchor_finish_def n link_anchor_eq [OF assms] insert_anchor_def)
    qed
  qed
qed

definition anchor_step :: "ext \<Rightarrow> anchor_call \<Rightarrow> anchor_row list \<Rightarrow> anchor_row list" where
  "anchor_step x c rows = snd (anchor x c rows)"

lemma anchor_step_ok:
  assumes "anchors_ok x rows"
  shows "anchors_ok x (anchor_step x c rows) \<and> (\<exists>rs. anchor_step x c rows = rows @ rs)"
proof (cases rule: anchor_cases [OF assms, of c])
  case (2 r)
  then show ?thesis using anchors_ok_sealed [OF assms, of r] by (simp add: anchor_step_def)
qed (simp add: anchor_step_def assms)

lemma verify_anchor_chain_spec:
  "\<exists>b. verify_anchor_chain x rows t = Inr (anchor_count rows t, b) \<and>
     (b = None \<longleftrightarrow> anchor_chained x genesis_bytes (tenant_anchors t rows))"
proof -
  let ?rs = "filter (\<lambda>p. ar_tenant_id (snd p) = t) (enumerate 1 rows)"
  have m: "map snd ?rs = tenant_anchors t rows"
    unfolding tenant_anchors_def by (rule enumerate_filter)
  then have l: "length ?rs = anchor_count rows t" unfolding anchor_count_def by (metis length_map)
  obtain b where b: "chain_walk x (compute_anchor_row_hash x) ar_row_hash ar_anchor_chain_hash (hex genesis_bytes) ?rs = Inr b"
      "b = None \<longleftrightarrow> anchor_chained x genesis_bytes (tenant_anchors t rows)"
    using chain_walk_spec [where x = x and compute = "compute_anchor_row_hash x" and content = anchor_bytes,
        OF compute_anchor_row_hash_eq]
    unfolding m [symmetric] by blast
  with l show ?thesis
    by (auto simp add: verify_anchor_chain_def Let_def ANCHOR_GENESIS_def hex_genesis_bytes)
qed

interpretation anchors: chained_log "anchor_step x" "\<lambda>rows. rows" "anchors_ok x"
  "\<lambda>rows. \<forall>t. verify_anchor_chain x rows t = Inr (anchor_count rows t, None)" for x
proof unfold_locales
  fix s q assume a: "anchors_ok x s"
  show "anchors_ok x (anchor_step x q s)" "\<exists>rs. anchor_step x q s = s @ rs" using anchor_step_ok [OF a] by blast+
  show "\<forall>t. verify_anchor_chain x s t = Inr (anchor_count s t, None)"
    using a verify_anchor_chain_spec unfolding anchors_ok_def by metis
qed

subsection \<open>What a call writes\<close>

text \<open>The row that a call makes of a number, before it is linked.\<close>

definition anchor_draft :: "anchor_call \<Rightarrow> int \<Rightarrow> anchor_row" where
  "anchor_draft c n =
     \<lparr>ar_anchor_id = an_id c, ar_tenant_id = an_tenant c, ar_chain_hash = an_hash c, ar_anchored_at = an_now c,
      ar_anchor_seq = n,
      ar_anchor_backends = emit_sep True '', '' '': '' (PyList (map PyStr (sort (remdups (anchor_backends (an_rfc c) (an_s3 c)))))),
      ar_rfc3161_json = map_option (\<lambda>d. emit_sep True '', '' '': '' (norm (PyDict d))) (an_rfc c),
      ar_row_hash = [], ar_prev_anchor_hash = [], ar_anchor_chain_hash = []\<rparr>"

definition plain_call :: "anchor_call \<Rightarrow> bool" where
  "plain_call c \<longleftrightarrow> (case an_rfc c of None \<Rightarrow> True | Some d \<Rightarrow> d \<noteq> [] \<and> plain (PyDict d) \<and> wf_val (PyDict d))"

lemma new_anchor_eq:
  assumes "plain_call c"
  shows "new_anchor (an_id c) (an_tenant c) (an_hash c) (an_now c) n (an_rfc c) (an_s3 c) = Inr (anchor_draft c n)"
proof -
  have b: "json_dumps_spaced (PyList (map PyStr ss)) = Some (emit_sep True '', '' '': '' (PyList (map PyStr ss)))" for ss
    using json_dumps_spaced_plain [of "PyList (map PyStr ss)"] by (simp add: list_all_iff o_def)
  show ?thesis
    using assms json_dumps_spaced_plain [of "PyDict (the (an_rfc c))"]
    unfolding new_anchor_def b anchor_draft_def plain_call_def
    by (cases "an_rfc c") (simp_all del: json_dumps_spaced.simps norm.simps emit_sep.simps plain.simps wf_val.simps)
qed

lemma anchor_draft_fields [simp]:
  "ar_anchor_id (anchor_draft c n) = an_id c" "ar_tenant_id (anchor_draft c n) = an_tenant c"
  "ar_chain_hash (anchor_draft c n) = an_hash c" "ar_anchored_at (anchor_draft c n) = an_now c"
  "ar_anchor_seq (anchor_draft c n) = n"
  by (simp_all add: anchor_draft_def)

definition fresh_id :: "string \<Rightarrow> anchor_row list \<Rightarrow> bool" where
  "fresh_id i rows \<longleftrightarrow> list_all (\<lambda>q. ar_anchor_id q \<noteq> i) rows"

lemma anchor_finish_eq:
  assumes "anchors_ok x rows" "plain_call c" "fresh_id (an_id c) rows"
  shows "anchor_finish x c n rows =
    (Inr (sealed_anchor x rows (anchor_draft c n)), rows @ [sealed_anchor x rows (anchor_draft c n)])"
  using assms by (simp add: anchor_finish_def new_anchor_eq link_anchor_eq insert_anchor_def fresh_id_def)

lemma anchor_eq:
  assumes "anchors_ok x rows" "plain_call c" "fresh_id (an_id c) rows"
  shows "anchor x c rows = (let r = sealed_anchor x rows (anchor_draft c (int (anchor_count rows (an_tenant c)) + 1))
    in (Inr r, rows @ [r]))"
proof -
  have "next_anchor_seq rows (an_tenant c) = int (anchor_count rows (an_tenant c)) + 1"
    using assms(1) unfolding anchors_ok_def anchor_count_def by (intro next_anchor_seq_numbered) blast
  then show ?thesis by (simp add: anchor_def anchor_finish_eq [OF assms] Let_def)
qed

lemma anchor_count_append [simp]:
  "anchor_count (rows @ [r]) t = anchor_count rows t + (if ar_tenant_id r = t then 1 else 0)"
  by (simp add: anchor_count_def)

lemma reached_anchors_ok: "anchors_ok x (fold (anchor_step x) cs [])"
  by (rule anchors.run_inv [OF anchors_ok_init])

subsection \<open>Properties\<close>

text \<open>
  C20: Calls of \<open>anchor\<close> one after the other, whatever the authority and S3 answer: the chain of every
  tenant verifies, its numbers are \<open>1, 2, \<dots>\<close>, and later calls only add rows after those that are there.
\<close>

theorem anchor_runs:
  "verify_anchor_chain x (fold (anchor_step x) cs []) t = Inr (anchor_count (fold (anchor_step x) cs []) t, None) \<and>
   map ar_anchor_seq (tenant_anchors t (fold (anchor_step x) cs [])) =
     map int [1..<Suc (anchor_count (fold (anchor_step x) cs []) t)] \<and>
   (\<exists>rs. fold (anchor_step x) (cs @ ds) [] = fold (anchor_step x) cs [] @ rs)"
  using anchors.run_verify [OF anchors_ok_init, of x cs] anchors.run_extends [OF reached_anchors_ok, of x ds cs]
    reached_anchors_ok [of x cs]
  unfolding anchors_ok_def anchor_count_def by (simp del: upt_Suc)

lemma overlapped_chain:
  assumes "anchors_ok x rows"
  shows "\<exists>m. verify_anchor_chain x (rows @ [sealed_anchor x rows r]) t = Inr (m, None)"
proof -
  have "anchor_chained x genesis_bytes (tenant_anchors t (rows @ [sealed_anchor x rows r]))"
    using assms unfolding anchors_ok_def by (auto simp: chained_append) (simp_all add: sealed_anchor_def Let_def)
  then show ?thesis using verify_anchor_chain_spec [of x "rows @ [sealed_anchor x rows r]" t] by auto
qed

text \<open>
  Two calls for one tenant that overlap, the second running between the two reads of the first (where the
  first waits for the authority): both rows are written, both carry the same sequence number, and the chain
  still verifies.
\<close>

theorem overlapping_anchors_share_number:
  assumes "rows = fold (anchor_step x) cs []" "plain_call c" "plain_call d" "an_tenant c = an_tenant d"
    "fresh_id (an_id c) rows" "fresh_id (an_id d) rows" "an_id c \<noteq> an_id d"
  shows "\<exists>r q. anchor_finish x c (next_anchor_seq rows (an_tenant c)) (snd (anchor x d rows)) = (Inr q, rows @ [r, q]) \<and>
    ar_anchor_id r = an_id d \<and> ar_anchor_id q = an_id c \<and> ar_anchor_seq r = ar_anchor_seq q \<and>
    (\<exists>n. verify_anchor_chain x (rows @ [r, q]) (an_tenant c) = Inr (n, None))"
proof -
  have ok: "anchors_ok x rows" unfolding assms(1) by (rule reached_anchors_ok)
  let ?n = "int (anchor_count rows (an_tenant d)) + 1"
  let ?r = "sealed_anchor x rows (anchor_draft d ?n)"
  have n: "next_anchor_seq rows (an_tenant c) = ?n"
    using ok assms(4) unfolding anchors_ok_def anchor_count_def by (metis next_anchor_seq_numbered)
  have ok1: "anchors_ok x (rows @ [?r])"
    using anchors_ok_sealed [OF ok, of "anchor_draft d ?n"] by (simp add: anchor_count_def)
  have f: "fresh_id (an_id c) (rows @ [?r])" using assms(5,7) by (simp add: fresh_id_def)
  let ?q = "sealed_anchor x (rows @ [?r]) (anchor_draft c ?n)"
  have e: "anchor_finish x c ?n (rows @ [?r]) = (Inr ?q, rows @ [?r, ?q])"
    using anchor_finish_eq [OF ok1 assms(2) f] by simp
  show ?thesis
    unfolding n anchor_eq [OF ok assms(3,6)] Let_def snd_conv e
    using overlapped_chain [OF ok1, of "anchor_draft c ?n" "an_tenant c"] by auto
qed

fun failure_id :: "standalone_failure \<Rightarrow> nat" where
  "failure_id (RowHashMismatch i) = i"
| "failure_id (ChainBrokenAt i) = i"

lemma standalone_walk_eq:
  "rbind (standalone_walk x prev rs) (\<lambda>b. Inr (case b of Inl f \<Rightarrow> Some (failure_id f) | Inr _ \<Rightarrow> None)) =
    chain_walk x (compute_anchor_row_hash x) ar_row_hash ar_anchor_chain_hash prev rs"
proof (induction rs arbitrary: prev)
  case (Cons p rs)
  obtain i r where p: "p = (i, r)" by (cases p)
  show ?case
    by (cases "next_chain_hash x prev (hexdigest x (anchor_bytes r))") (simp_all add: p compute_anchor_row_hash_eq Cons.IH)
qed simp

text \<open>
  On every table, tampered or not, the standalone verifier and the store agree: same outcome (an exception
  included), same number of rows, same id of the first broken row.
\<close>

theorem standalone_anchor_chain_agrees:
  "rbind (standalone_anchor_chain x (Some rows) t) (\<lambda>(valid, n, f). Inr (valid, n, map_option failure_id f)) =
   rbind (verify_anchor_chain x rows t) (\<lambda>(n, broken_at). Inr (broken_at = None, n, broken_at))"
proof -
  let ?rs = "filter (\<lambda>p. ar_tenant_id (snd p) = t) (enumerate 1 rows)"
  show ?thesis
  proof (cases "?rs = []")
    case True
    then show ?thesis by (simp add: standalone_anchor_chain_def verify_anchor_chain_def Let_def)
  next
    case False
    note w = standalone_walk_eq [of x ANCHOR_GENESIS ?rs, symmetric]
    show ?thesis
      unfolding standalone_anchor_chain_def verify_anchor_chain_def Let_def option.case if_not_P [OF False] w
      by (cases "standalone_walk x ANCHOR_GENESIS ?rs") (simp_all split: sum.splits)
  qed
qed

text \<open>What the row hash covers, as the fields of the row.\<close>

definition anchored_fields :: "anchor_row \<Rightarrow> string \<times> string \<times> string \<times> string \<times> int \<times> string option" where
  "anchored_fields r = (ar_anchor_id r, ar_tenant_id r, ar_chain_hash r, ar_anchored_at r, ar_anchor_seq r, ar_rfc3161_json r)"

lemma anchor_bytes_inj: "anchor_bytes r = anchor_bytes q \<Longrightarrow> anchored_fields r = anchored_fields q"
proof -
  assume "anchor_bytes r = anchor_bytes q"
  then have "json_dumps True (anchor_content r) = json_dumps True (anchor_content q)"
    by (simp add: anchor_bytes_def json_dumps_plain [OF anchor_content_val(1)])
  then have "norm (anchor_content r) = norm (anchor_content q)"
    by (intro json_dumps_inj [where a = True] anchor_content_val)
  then show "anchored_fields r = anchored_fields q"
    by (simp add: anchor_content_def anchored_fields_def)
qed

text \<open>
  Two anchor tables that both verify for a tenant and end in the same chain hash hold the same anchors of that
  tenant (ids, hashes, times, numbers and timestamp answers), unless SHA-256 collides on what the two chains hash.
\<close>

theorem anchor_chain_binding:
  assumes "digest_ok x" "verify_anchor_chain x rows t = Inr (n, None)" "verify_anchor_chain x rows' t = Inr (n', None)"
    "tenant_anchors t rows \<noteq> []" "tenant_anchors t rows' \<noteq> []"
    "ar_anchor_chain_hash (last (tenant_anchors t rows)) = ar_anchor_chain_hash (last (tenant_anchors t rows'))"
    "no_collision x genesis_bytes (chain_messages x anchor_bytes genesis_bytes (tenant_anchors t rows) @
       chain_messages x anchor_bytes genesis_bytes (tenant_anchors t rows'))"
  shows "map anchored_fields (tenant_anchors t rows) = map anchored_fields (tenant_anchors t rows')"
proof -
  have c: "anchor_chained x genesis_bytes (tenant_anchors t rs)" if "verify_anchor_chain x rs t = Inr (m, None)" for rs m
    using verify_anchor_chain_spec [of x rs t] that by auto
  have "map anchor_bytes (tenant_anchors t rows) = map anchor_bytes (tenant_anchors t rows')"
    by (rule chained_binding [OF assms(1) c [OF assms(2)] c [OF assms(3)] assms(4-7)])
  then show ?thesis
    by (rule map_factors [rotated]) (rule anchor_bytes_inj)
qed

text \<open>
  The list of backends and the stored previous hash of a row are not hashed: whatever they are changed to, the verdict of the chain is
  the same.
\<close>

theorem anchor_backends_not_hashed:
  "verify_anchor_chain x (map (\<lambda>r. r\<lparr>ar_anchor_backends := f r, ar_prev_anchor_hash := g r\<rparr>) rows) t =
   verify_anchor_chain x rows t"
proof -
  let ?h = "\<lambda>r. r\<lparr>ar_anchor_backends := f r, ar_prev_anchor_hash := g r\<rparr>"
  have b: "compute_anchor_row_hash x (?h r) = compute_anchor_row_hash x r" for r
    by (simp add: compute_anchor_row_hash_def anchor_content_def)
  have e: "filter (\<lambda>p. ar_tenant_id (snd p) = t) (enumerate n (map ?h rows)) =
      map (\<lambda>p. (fst p, ?h (snd p))) (filter (\<lambda>p. ar_tenant_id (snd p) = t) (enumerate n rows))" for n
    by (induction rows arbitrary: n) auto
  have "chain_walk x (compute_anchor_row_hash x) ar_row_hash ar_anchor_chain_hash prev (map (\<lambda>p. (fst p, ?h (snd p))) rs) =
      chain_walk x (compute_anchor_row_hash x) ar_row_hash ar_anchor_chain_hash prev rs" for prev rs
  proof (induction rs arbitrary: prev)
    case (Cons p rs)
    obtain i r where p: "p = (i, r)" by (cases p)
    have "chain_walk x (compute_anchor_row_hash x) ar_row_hash ar_anchor_chain_hash (ar_anchor_chain_hash r)
        (map (\<lambda>p. (fst p, ?h (snd p))) rs) =
      chain_walk x (compute_anchor_row_hash x) ar_row_hash ar_anchor_chain_hash (ar_anchor_chain_hash r) rs" by (rule Cons.IH)
    then show ?case by (simp add: p b cong del: if_weak_cong)
  qed simp
  then show ?thesis unfolding verify_anchor_chain_def Let_def e length_map by (simp only:)
qed

lemma chain_walk_append:
  assumes "\<And>r. compute r = Inr (hexdigest x (content r))"
  shows "chained x content rh ch prev (map snd rs) \<Longrightarrow>
    chain_walk x compute rh ch (hex prev) (rs @ qs) = chain_walk x compute rh ch (hex (chain_end x content prev (map snd rs))) qs"
proof (induction rs arbitrary: prev)
  case (Cons p rs)
  obtain i r where p: "p = (i, r)" by (cases p)
  let ?next = "x_sha256 x (prev @ x_sha256 x (content r))"
  have "ch r = hex ?next" using Cons.prems p by (simp add: hexdigest_def)
  then show ?case using Cons.IH [of ?next] Cons.prems p by (simp add: assms next_chain_hash_eq)
qed simp

text \<open>
  Two calls for one tenant that read the same last row before either inserts: nothing stops the second
  insert, and from then on the chain of the tenant is reported broken at the second row, unless SHA-256 gives
  the two chain hashes the same value.
\<close>

theorem concurrent_anchors_break_chain:
  assumes "rows = fold (anchor_step x) cs []" "ar_tenant_id d = ar_tenant_id c"
    "link_anchor x rows d = Inr r" "link_anchor x rows c = Inr q"
    "fresh_id (ar_anchor_id d) rows" "fresh_id (ar_anchor_id c) rows" "ar_anchor_id c \<noteq> ar_anchor_id d"
    "next_chain_hash x (ar_anchor_chain_hash r) (ar_row_hash q) \<noteq> Inr (ar_anchor_chain_hash q)"
  shows "snd (insert_anchor q (snd (insert_anchor r rows))) = rows @ [r, q] \<and>
    verify_anchor_chain x (rows @ [r, q]) (ar_tenant_id c) =
      Inr (anchor_count rows (ar_tenant_id c) + 2, Some (length rows + 2))"
proof -
  have ok: "anchors_ok x rows" unfolding assms(1) by (rule reached_anchors_ok)
  let ?t = "ar_tenant_id c"
  have r: "r = sealed_anchor x rows d" and q: "q = sealed_anchor x rows c"
    using assms(3,4) by (simp_all add: link_anchor_eq [OF ok])
  let ?rs = "filter (\<lambda>p. ar_tenant_id (snd p) = ?t) (enumerate 1 rows)"
  have m: "map snd ?rs = tenant_anchors ?t rows" unfolding tenant_anchors_def by (rule enumerate_filter)
  then have l: "length ?rs = anchor_count rows ?t" unfolding anchor_count_def by (metis length_map)
  let ?p = "chain_end x anchor_bytes genesis_bytes (tenant_anchors ?t rows)"
  have h: "ar_row_hash r = hexdigest x (anchor_bytes d)" "ar_row_hash q = hexdigest x (anchor_bytes c)"
    "ar_anchor_chain_hash r = hex (x_sha256 x (?p @ x_sha256 x (anchor_bytes d)))"
    using assms(2) by (simp_all add: r q sealed_anchor_def Let_def hexdigest_def)
  have "anchor_chained x genesis_bytes (tenant_anchors ?t rows)" using ok unfolding anchors_ok_def by blast
  then have ch: "anchor_chained x genesis_bytes (map snd (?rs @ [(length rows + 1, r)]))"
    unfolding map_append m by (simp add: chained_append h) (simp add: r hexdigest_def)
  have e: "filter (\<lambda>p. ar_tenant_id (snd p) = ?t) (enumerate 1 (rows @ [r, q])) =
      (?rs @ [(length rows + 1, r)]) @ [(length rows + 2, q)]"
    using assms(2) by (simp add: enumerate_append_eq r q)
  have w: "chain_walk x (compute_anchor_row_hash x) ar_row_hash ar_anchor_chain_hash ANCHOR_GENESIS
      ((?rs @ [(length rows + 1, r)]) @ [(length rows + 2, q)]) = Inr (Some (length rows + 2))"
    unfolding ANCHOR_GENESIS_def hex_genesis_bytes [symmetric] chain_walk_append [OF compute_anchor_row_hash_eq ch]
      map_append m
    using assms(8) by (simp add: m r q h [unfolded r q] compute_anchor_row_hash_eq next_chain_hash_eq)
  have "snd (insert_anchor q (snd (insert_anchor r rows))) = rows @ [r, q]"
    using assms(5-7) by (simp add: insert_anchor_def r q fresh_id_def)
  moreover have "verify_anchor_chain x (rows @ [r, q]) ?t = Inr (anchor_count rows ?t + 2, Some (length rows + 2))"
    unfolding verify_anchor_chain_def Let_def e w using l by simp
  ultimately show ?thesis by blast
qed

lemma backends_text:
  "body_loads (emit_sep True '', '' '': '' (PyList (map PyStr ss))) = Some (PyList (map PyStr ss))"
  by (rule body_loads_emit) (simp_all add: sep_pair_def list_all_iff)

lemma row_to_anchor_draft:
  assumes "plain_call c"
  shows "row_to_anchor (sealed_anchor x rows (anchor_draft c n)) =
    Inr \<lparr>rec_row = sealed_anchor x rows (anchor_draft c n),
         rec_backends = PyList (map PyStr (sort (remdups (anchor_backends (an_rfc c) (an_s3 c))))),
         rec_rfc3161 = map_option (\<lambda>d. norm (PyDict d)) (an_rfc c)\<rparr>"
proof -
  have b: "ar_anchor_backends (anchor_draft c n) =
      emit_sep True '', '' '': '' (PyList (map PyStr (sort (remdups (anchor_backends (an_rfc c) (an_s3 c))))))"
    and r: "ar_rfc3161_json (anchor_draft c n) = map_option (\<lambda>d. emit_sep True '', '' '': '' (norm (PyDict d))) (an_rfc c)"
    by (simp_all add: anchor_draft_def)
  have ne: "emit_sep True '', '' '': '' (PyList vs) \<noteq> []" "emit_sep True '', '' '': '' (norm (PyDict d)) \<noteq> []" for vs d
    by simp_all
  have "body_loads (emit_sep True '', '' '': '' (norm (PyDict d))) = Some (norm (PyDict d))" if "an_rfc c = Some d" for d
    using assms that unfolding plain_call_def by (intro body_loads_emit) (simp_all add: sep_pair_def del: norm.simps)
  then show ?thesis
    unfolding row_to_anchor_def sealed_anchor_fields b r if_not_P [OF ne(1)] backends_text
    by (cases "an_rfc c") (simp_all add: ne del: emit_sep.simps norm.simps)
qed

lemma find_anchor_append:
  assumes "find_anchor rows t h = Inr None" "ar_tenant_id r = t" "ar_chain_hash r = h"
  shows "find_anchor (rows @ [r]) t h = rbind (row_to_anchor r) (\<lambda>a. Inr (Some a))"
proof -
  have "sort_key ar_anchor_seq (filter (\<lambda>r. ar_tenant_id r = t \<and> ar_chain_hash r = h) rows) = []"
    using assms(1) unfolding find_anchor_def by (simp split: list.splits)
  then have "filter (\<lambda>r. ar_tenant_id r = t \<and> ar_chain_hash r = h) rows = []"
    unfolding length_0_conv [symmetric] by simp
  then show ?thesis using assms(2,3) by (simp add: find_anchor_def)
qed

lemma norm_ts_dict:
  "norm (PyDict (ts_dict st url tok err)) = PyDict [(KStr ''error'', opt_str err), (KStr ''hash_algo'', PyStr ''sha256''),
     (KStr ''status'', PyStr st), (KStr ''token_hex'', opt_str tok), (KStr ''tsa_url'', PyStr url)]"
  by (simp add: ts_dict_def)

lemma ts_dict_val: "ts_dict st url tok err \<noteq> []" "plain (PyDict (ts_dict st url tok err))" "wf_val (PyDict (ts_dict st url tok err))"
  by (simp_all add: ts_dict_def)

text \<open>The result of the authority: \<open>Some\<close> the response if it has more than ten bytes.\<close>

definition granted_response :: "string + bytes \<Rightarrow> bytes option" where
  "granted_response answer = (case answer of Inl _ \<Rightarrow> None | Inr b \<Rightarrow> if 10 < length b then Some b else None)"

lemma request_dict:
  obtains st err where "request_rfc3161_timestamp x tsa url rnd h =
      ts_dict st url (map_option hex (granted_response (tsa (build_ts_request x rnd (utf8 h))))) err"
    "st = ''granted'' \<longleftrightarrow> granted_response (tsa (build_ts_request x rnd (utf8 h))) \<noteq> None"
proof (cases "tsa (build_ts_request x rnd (utf8 h))")
  case (Inl e)
  then show thesis
    by (intro that [of "''error''" "Some e"]) (simp_all add: request_rfc3161_timestamp_def granted_response_def)
next
  case (Inr b)
  then show thesis
    by (intro that [of "if 10 < length b then ''granted'' else ''rejected''" None])
      (simp_all add: request_rfc3161_timestamp_def granted_response_def)
qed

lemma hex_empty_iff: "hex b = [] \<longleftrightarrow> b = []"
  by (metis length_0_conv length_hex mult_is_0 zero_neq_numeral)

lemma verify_token_hex:
  "verify_rfc3161_token x (PyStr (hex b)) h =
    (let found = sublist (x_sha256 x (utf8 h)) b
     in \<lparr>tr_valid = found, tr_message = (if found then HashInToken else HashNotInToken), tr_token_bytes = length b\<rparr>)"
  by (simp add: verify_rfc3161_token_def as_str_def Let_def)

text \<open>
  A hash that was not anchored is, after a call of \<open>anchor_chain_hash\<close> with an unused id.  The anchor holds
  whatever the authority answers: an error or a short response leaves it without a token; any longer response is
  stored as granted, and the later check tells whether the digest of the hash is in it.
\<close>

theorem anchor_then_verify:
  assumes "rows = fold (anchor_step x) cs []" "fresh_id i rows" "find_anchor rows t h = Inr None"
    "resp = granted_response (tsa (build_ts_request x rnd (utf8 h)))"
  shows "\<exists>a. verify_against_anchor x (snd (anchor_chain_hash x tsa url rnd i now s3 t h True rows)) t h None =
      Inr \<lparr>ag_record = Some a, ag_before_claim = None, ag_rfc3161_available = (resp \<noteq> None),
           ag_rfc3161_verification = map_option (\<lambda>b. let found = sublist (x_sha256 x (utf8 h)) b
             in \<lparr>tr_valid = found, tr_message = (if found then HashInToken else HashNotInToken), tr_token_bytes = length b\<rparr>) resp\<rparr> \<and>
    ar_chain_hash (rec_row a) = h \<and> ar_tenant_id (rec_row a) = t \<and> ar_anchored_at (rec_row a) = now \<and>
    ar_anchor_seq (rec_row a) = int (anchor_count rows t) + 1"
proof -
  have ok: "anchors_ok x rows" unfolding assms(1) by (rule reached_anchors_ok)
  obtain st err where d: "request_rfc3161_timestamp x tsa url rnd h = ts_dict st url (map_option hex resp) err"
    and st: "st = ''granted'' \<longleftrightarrow> resp \<noteq> None"
    by (rule request_dict [of x tsa url rnd h]) (simp add: assms(4))
  let ?c = "\<lparr>an_id = i, an_tenant = t, an_hash = h, an_now = now, an_rfc = Some (ts_dict st url (map_option hex resp) err), an_s3 = s3\<rparr>"
  have pc: "plain_call ?c" by (simp add: plain_call_def ts_dict_val del: plain.simps wf_val.simps)
  let ?n = "int (anchor_count rows t) + 1"
  let ?r = "sealed_anchor x rows (anchor_draft ?c ?n)"
  have e: "snd (anchor_chain_hash x tsa url rnd i now s3 t h True rows) = rows @ [?r]"
    unfolding anchor_chain_hash_def d if_True using anchor_eq [OF ok pc] assms(2) by (simp add: Let_def)
  let ?d = "norm (PyDict (ts_dict st url (map_option hex resp) err))"
  have f: "find_anchor (rows @ [?r]) t h = Inr (Some \<lparr>rec_row = ?r,
      rec_backends = PyList (map PyStr (sort (remdups (anchor_backends (an_rfc ?c) s3)))), rec_rfc3161 = Some ?d\<rparr>)"
    using find_anchor_append [OF assms(3), of ?r] row_to_anchor_draft [OF pc, of x rows ?n] by (simp del: norm.simps)
  have g: "rfc_get (Some ?d) ''token_hex'' = Inr (opt_str (map_option hex resp))" "rfc_get (Some ?d) ''status'' = Inr (PyStr st)"
    "truthy ?d"
    by (simp_all add: norm_ts_dict rfc_get_def dget_or_def del: norm.simps)
  have tr: "truthy (opt_str (map_option hex resp)) \<longleftrightarrow> resp \<noteq> None"
    using assms(4) by (auto simp: granted_response_def opt_str_def hex_empty_iff split: sum.splits if_splits)
  show ?thesis
    unfolding e verify_against_anchor_def f rbind.simps option.case Let_def
    using g tr st by (cases resp) (simp_all add: opt_str_def verify_token_hex Let_def del: norm.simps)
qed

lemma nonce_bytes_length:
  assumes "length rnd = 8"
  shows "1 \<le> length (nonce_bytes rnd) \<and> length (nonce_bytes rnd) \<le> 9"
  using length_dropWhile_le [of "\<lambda>c. c = 0" rnd] assms
  by (cases "dropWhile (\<lambda>c. c = 0) rnd") (simp_all add: nonce_bytes_def Let_def)

text \<open>
  The request is DER: every length fits the short form (below 128), so the one length byte that the code writes is
  right; the digest of the data is at its place; the nonce is encoded as a positive integer.
\<close>

theorem ts_request_der:
  assumes "digest_ok x" "length rnd = 8"
  shows "length (build_ts_request x rnd data_bytes) - 2 < 128 \<and>
    build_ts_request x rnd data_bytes ! 1 = word_of_nat (length (build_ts_request x rnd data_bytes) - 2) \<and>
    take 32 (drop 24 (build_ts_request x rnd data_bytes)) = x_sha256 x data_bytes \<and>
    hd (nonce_bytes rnd) AND 0x80 = 0"
proof -
  have l: "length (x_sha256 x data_bytes) = 32" by (rule digest_ok_length [OF assms(1)])
  have "hd (nonce_bytes rnd) AND 0x80 = 0" by (simp add: nonce_bytes_def Let_def)
  then show ?thesis
    using nonce_bytes_length [OF assms(2)] l by (simp add: build_ts_request_def tlv_def)
qed

subsection \<open>Witnesses\<close>

text \<open>An environment whose digest tells messages that start with a zero byte from the others.\<close>

definition first_byte_ext :: ext where
  "first_byte_ext = sample_ext\<lparr>x_sha256 := (\<lambda>m. if m \<noteq> [] \<and> hd m = 0 then replicate 32 1 else replicate 32 2)\<rparr>"

definition sample_call :: "string \<Rightarrow> anchor_call" where
  "sample_call i = \<lparr>an_id = i, an_tenant = ''t'', an_hash = ''ab'', an_now = ''2026-05-01T00:00:00Z'', an_rfc = None, an_s3 = None\<rparr>"

lemma first_byte_digest:
  "x_sha256 first_byte_ext (anchor_bytes r) = replicate 32 2"
  "x_sha256 first_byte_ext (genesis_bytes @ m) = replicate 32 1"
  "x_sha256 first_byte_ext (replicate 32 1 @ m) = replicate 32 2"
proof -
  have "hd (anchor_bytes r) = 123" "anchor_bytes r \<noteq> []"
    by (simp_all add: anchor_bytes_def anchor_content_def wrap_dict_def utf8_Cons utf8_char_def cp_def Let_def)
  then show "x_sha256 first_byte_ext (anchor_bytes r) = replicate 32 2" by (simp add: first_byte_ext_def)
qed (simp_all add: first_byte_ext_def genesis_bytes_def)

lemma first_byte_ok: "digest_ok first_byte_ext"
  by (simp add: digest_ok_def first_byte_ext_def)

lemma sample_call_ok [simp]:
  "plain_call (sample_call i)" "an_tenant (sample_call i) = ''t''" "an_id (sample_call i) = i" "fresh_id i []"
  by (simp_all add: plain_call_def sample_call_def fresh_id_def)

lemma overlapping_anchors_share_number_witness:
  "\<exists>r q. anchor_finish sample_ext (sample_call ''a'') (next_anchor_seq [] ''t'') (snd (anchor sample_ext (sample_call ''b'') [])) = (Inr q, [r, q]) \<and>
    ar_anchor_id r = ''b'' \<and> ar_anchor_id q = ''a'' \<and> ar_anchor_seq r = ar_anchor_seq q"
  using overlapping_anchors_share_number [of "[]" sample_ext "[]" "sample_call ''a''" "sample_call ''b''"] by simp blast

lemma anchor_then_verify_witness:
  "\<exists>a. verify_against_anchor sample_ext (snd (anchor_chain_hash sample_ext (\<lambda>_. Inr (replicate 11 0)) ''tsa'' (replicate 8 7) ''a'' ''now'' None ''t'' ''ab'' True [])) ''t'' ''ab'' None =
      Inr \<lparr>ag_record = Some a, ag_before_claim = None, ag_rfc3161_available = True,
           ag_rfc3161_verification = Some \<lparr>tr_valid = False, tr_message = HashNotInToken, tr_token_bytes = 11\<rparr>\<rparr>"
proof -
  have "\<not> sublist (x_sha256 sample_ext m) (replicate 11 0)" for m
    using sublist_length_le [of "x_sha256 sample_ext m" "replicate 11 0"] digest_ok_length [of sample_ext m] by auto
  then show ?thesis
    using anchor_then_verify [of "[]" sample_ext "[]" "''a''" "''t''" "''ab''" "Some (replicate 11 0)" "\<lambda>_. Inr (replicate 11 0)" "replicate 8 7" "''tsa''" "''now''" None]
    by (simp add: granted_response_def fresh_id_def find_anchor_def Let_def del: replicate.simps) blast
qed

lemma concurrent_anchors_break_chain_witness:
  "\<exists>r q. verify_anchor_chain first_byte_ext [r, q] ''t'' = Inr (2, Some 2)"
proof -
  let ?r = "\<lambda>i. sealed_anchor first_byte_ext [] (anchor_draft (sample_call i) 1)"
  have l: "link_anchor first_byte_ext [] r = Inr (sealed_anchor first_byte_ext [] r)" for r
    by (rule link_anchor_eq [OF anchors_ok_init])
  have h: "ar_row_hash (?r i) = hexdigest first_byte_ext (anchor_bytes (anchor_draft (sample_call i) 1))"
    "ar_anchor_chain_hash (?r i) = hex (replicate 32 1)" for i
    by (simp_all add: sealed_anchor_def Let_def tenant_anchors_def hexdigest_def first_byte_digest)
  have "next_chain_hash first_byte_ext (hex (replicate 32 1)) (hexdigest first_byte_ext (anchor_bytes (anchor_draft (sample_call ''a'') 1))) =
      Inr (hex (replicate 32 2))"
    unfolding next_chain_hash_eq by (simp add: hexdigest_def first_byte_digest)
  then show ?thesis
    using concurrent_anchors_break_chain [of "[]" first_byte_ext "[]" "anchor_draft (sample_call ''b'') 1" "anchor_draft (sample_call ''a'') 1", OF _ _ l l]
    by (auto simp: h anchor_count_def tenant_anchors_def numeral_2_eq_2)
qed

lemma no_collision_pair:
  "x_sha256 x a \<noteq> x_sha256 x b \<Longrightarrow> g \<noteq> x_sha256 x a \<Longrightarrow> g \<noteq> x_sha256 x b \<Longrightarrow> no_collision x g ([a, b] @ [a, b])"
  by (auto simp: no_collision_def inj_on_def)

lemma anchor_chain_binding_witness:
  "let r = sealed_anchor first_byte_ext [] (anchor_draft (sample_call ''a'') 1)
   in map anchored_fields (tenant_anchors ''t'' [r]) = map anchored_fields (tenant_anchors ''t'' [r\<lparr>ar_anchor_backends := ''[]''\<rparr>])"
proof -
  let ?r = "sealed_anchor first_byte_ext [] (anchor_draft (sample_call ''a'') 1)"
  let ?q = "?r\<lparr>ar_anchor_backends := ''[]''\<rparr>"
  have t: "tenant_anchors ''t'' [?r] = [?r]" "tenant_anchors ''t'' [?q] = [?q]" by (simp_all add: tenant_anchors_def)
  have b: "anchor_bytes ?q = anchor_bytes ?r" by (simp add: anchor_bytes_def anchor_content_def)
  have c: "chained first_byte_ext anchor_bytes ar_row_hash ar_anchor_chain_hash genesis_bytes [?q]"
    "chained first_byte_ext anchor_bytes ar_row_hash ar_anchor_chain_hash genesis_bytes [?r]"
    unfolding chained.simps b by (simp_all add: sealed_anchor_def Let_def tenant_anchors_def)
  then obtain n n' where v: "verify_anchor_chain first_byte_ext [?r] ''t'' = Inr (n, None)" "verify_anchor_chain first_byte_ext [?q] ''t'' = Inr (n', None)"
    using verify_anchor_chain_spec [of first_byte_ext "[?r]" "''t''"] verify_anchor_chain_spec [of first_byte_ext "[?q]" "''t''"]
    unfolding t by auto
  have "no_collision first_byte_ext genesis_bytes (chain_messages first_byte_ext anchor_bytes genesis_bytes [?r] @
      chain_messages first_byte_ext anchor_bytes genesis_bytes [?q])"
    unfolding chain_messages.simps b
    by (rule no_collision_pair) (simp_all add: first_byte_digest, simp_all add: genesis_bytes_def)
  then show ?thesis
    using anchor_chain_binding [OF first_byte_ok v] unfolding t Let_def by simp
qed

lemma ts_request_der_witness:
  "length (build_ts_request sample_ext (replicate 8 255) []) - 2 < 128 \<and> hd (nonce_bytes (replicate 8 255)) AND 0x80 = 0"
  using ts_request_der [of sample_ext "replicate 8 255" "[]"] by simp

end
