(* ===== verification/Drift.thy ===== *)
theory Drift
  imports Anchor Verifier
begin

text \<open>
  \<open>provable_ai/drift_detector.py\<close>: snapshots of the state of a tenant, their comparison and the history of the
  comparisons.  The two tables are lists of rows in insertion order; of rows with equal times the one
  inserted last counts as the newest.  \<open>take_snapshot\<close> reads the ledger of \<open>Storage\<close> and the log of \<open>AuditLog\<close>,
  hashes with \<open>compute_system_root\<close> of \<open>Verifier\<close> and writes to the store of \<open>Anchor\<close>; clock and random
  ids are arguments.  The English recommendations are values that name their text.
\<close>

subsection \<open>Snapshots\<close>

record snapshot =
  sn_snapshot_id :: string
  sn_tenant_id :: string
  sn_environment :: string
  sn_system_root :: string
  sn_instance_count :: nat
  sn_audit_chain_hash :: string
  sn_audit_row_count :: nat
  sn_recorded_at :: string

datatype recommendation =
    Consistent
  | BaselineEstablished
  | Recommend string string string
  | Investigate

record drift_result =
  dr_drifted :: bool
  dr_drift_type :: "string option"
  dr_severity :: string
  dr_snap_a :: snapshot
  dr_snap_b :: snapshot
  dr_details :: pydict
  dr_recommendation :: recommendation

record drift_event =
  ev_tenant_id :: string
  ev_env_a :: string
  ev_env_b :: string
  ev_snap_a_id :: string
  ev_snap_b_id :: string
  ev_drifted :: bool
  ev_drift_type :: "string option"
  ev_severity :: string
  ev_details_json :: string
  ev_detected_at :: string

record drift_db =
  dd_snapshots :: "snapshot list"
  dd_events :: "drift_event list"

text \<open>\<open>INSERT OR IGNORE\<close>: a known \<open>snapshot_id\<close> is left as it is.\<close>

definition save_snapshot :: "snapshot \<Rightarrow> drift_db \<Rightarrow> drift_db" where
  "save_snapshot snap s =
     (if list_all (\<lambda>q. sn_snapshot_id q \<noteq> sn_snapshot_id snap) (dd_snapshots s)
      then s\<lparr>dd_snapshots := dd_snapshots s @ [snap]\<rparr> else s)"

definition newest_first :: "('r \<Rightarrow> string) \<Rightarrow> 'r list \<Rightarrow> 'r list" where
  "newest_first time rows = rev (sort_key time rows)"

definition get_latest :: "drift_db \<Rightarrow> string \<Rightarrow> string \<Rightarrow> snapshot option" where
  "get_latest s tenant_id environment =
     (case newest_first sn_recorded_at
        (filter (\<lambda>q. sn_tenant_id q = tenant_id \<and> sn_environment q = environment) (dd_snapshots s)) of
        [] \<Rightarrow> None | q # _ \<Rightarrow> Some q)"

definition get_snapshot :: "drift_db \<Rightarrow> string \<Rightarrow> snapshot option" where
  "get_snapshot s snapshot_id = db_first (\<lambda>q. sn_snapshot_id q = snapshot_id) (dd_snapshots s)"

definition sql_limit :: "int \<Rightarrow> 'r list \<Rightarrow> 'r list" where
  "sql_limit n rows = (if n < 0 then rows else take (nat n) rows)"

definition list_snapshots :: "drift_db \<Rightarrow> string \<Rightarrow> int \<Rightarrow> snapshot list" where
  "list_snapshots s tenant_id lim =
     sql_limit (min lim 100) (newest_first sn_recorded_at (filter (\<lambda>q. sn_tenant_id q = tenant_id) (dd_snapshots s)))"

subsection \<open>Comparison\<close>

definition severity :: "string list \<Rightarrow> string" where
  "severity issues =
     (if ''root_mismatch'' \<in> set issues then ''CRITICAL''
      else if ''combined'' \<in> set issues \<or> 1 < length issues then ''CRITICAL''
      else ''WARNING'')"

definition recommendation_of :: "string \<Rightarrow> string \<Rightarrow> string \<Rightarrow> recommendation" where
  "recommendation_of drift_type env_a env_b =
     (if drift_type \<in> {''root_mismatch'', ''chain_mismatch'', ''count_mismatch'', ''combined''}
      then Recommend drift_type env_a env_b else Investigate)"

definition snap_details :: "snapshot \<Rightarrow> pyval" where
  "snap_details q = PyDict [(KStr ''id'', PyStr (sn_snapshot_id q)), (KStr ''env'', PyStr (sn_environment q)),
     (KStr ''recorded_at'', PyStr (sn_recorded_at q)), (KStr ''system_root'', PyStr (sn_system_root q)),
     (KStr ''instance_count'', PyInt (int (sn_instance_count q))), (KStr ''audit_chain_hash'', PyStr (sn_audit_chain_hash q)),
     (KStr ''audit_row_count'', PyInt (int (sn_audit_row_count q)))]"

text \<open>The entry of \<open>mismatches\<close> for one value: a dict keyed by environment.\<close>

definition mismatch :: "snapshot \<Rightarrow> snapshot \<Rightarrow> (snapshot \<Rightarrow> pyval) \<Rightarrow> pyval" where
  "mismatch snap_a snap_b f =
     PyDict (dset [(KStr (sn_environment snap_a), f snap_a)] (KStr (sn_environment snap_b)) (f snap_b))"

definition find_issues :: "snapshot \<Rightarrow> snapshot \<Rightarrow> (string \<times> string \<times> pyval) list" where
  "find_issues a b =
     (if sn_system_root a \<noteq> sn_system_root b
      then [(''root_mismatch'', ''system_root'', mismatch a b (\<lambda>q. PyStr (sn_system_root q)))] else []) @
     (if sn_audit_chain_hash a \<noteq> sn_audit_chain_hash b
      then [(''chain_mismatch'', ''audit_chain_hash'', mismatch a b (\<lambda>q. PyStr (sn_audit_chain_hash q)))] else []) @
     (if sn_instance_count a \<noteq> sn_instance_count b
      then [(''count_mismatch'', ''instance_count'', mismatch a b (\<lambda>q. PyInt (int (sn_instance_count q))))]
      else if sn_audit_row_count a \<noteq> sn_audit_row_count b
      then [(''count_mismatch'', ''audit_row_count'', mismatch a b (\<lambda>q. PyInt (int (sn_audit_row_count q))))] else [])"

definition compare_snapshots :: "snapshot \<Rightarrow> snapshot \<Rightarrow> drift_result" where
  "compare_snapshots snap_a snap_b =
     (let found = find_issues snap_a snap_b;
          issues = map fst found;
          details = [(KStr ''snap_a'', snap_details snap_a), (KStr ''snap_b'', snap_details snap_b),
            (KStr ''mismatches'', PyDict (map (\<lambda>(i, k, v). (KStr k, v)) found))]
      in if issues = []
         then \<lparr>dr_drifted = False, dr_drift_type = None, dr_severity = ''OK'', dr_snap_a = snap_a, dr_snap_b = snap_b,
               dr_details = details, dr_recommendation = Consistent\<rparr>
         else (let drift_type = (if 1 < length issues then ''combined'' else hd issues)
               in \<lparr>dr_drifted = True, dr_drift_type = Some drift_type, dr_severity = severity issues,
                   dr_snap_a = snap_a, dr_snap_b = snap_b, dr_details = details,
                   dr_recommendation = recommendation_of drift_type (sn_environment snap_a) (sn_environment snap_b)\<rparr>))"

text \<open>The note of a first baseline is written with a hyphen for the dash of the source.\<close>

definition compare_against_baseline :: "snapshot \<Rightarrow> snapshot option \<Rightarrow> drift_db \<Rightarrow> drift_result \<times> drift_db" where
  "compare_against_baseline snap_now baseline s =
     (case baseline of
        None \<Rightarrow> (\<lparr>dr_drifted = False, dr_drift_type = None, dr_severity = ''OK'', dr_snap_a = snap_now, dr_snap_b = snap_now,
                  dr_details = [(KStr ''note'', PyStr ''No baseline found - snap_now saved as first baseline.'')],
                  dr_recommendation = BaselineEstablished\<rparr>, save_snapshot snap_now s)
      | Some b \<Rightarrow> (compare_snapshots b snap_now, s))"

definition record_drift_event :: "string \<Rightarrow> drift_result \<Rightarrow> drift_db \<Rightarrow> unit res \<times> drift_db" where
  "record_drift_event now r s =
     (case opt_res TypeError (json_dumps_spaced (PyDict (dr_details r))) of
        Inl e \<Rightarrow> (Inl e, s)
      | Inr details_json \<Rightarrow>
          (Inr (), s\<lparr>dd_events := dd_events s @
             [\<lparr>ev_tenant_id = sn_tenant_id (dr_snap_a r), ev_env_a = sn_environment (dr_snap_a r),
               ev_env_b = sn_environment (dr_snap_b r), ev_snap_a_id = sn_snapshot_id (dr_snap_a r),
               ev_snap_b_id = sn_snapshot_id (dr_snap_b r), ev_drifted = dr_drifted r, ev_drift_type = dr_drift_type r,
               ev_severity = dr_severity r, ev_details_json = details_json, ev_detected_at = now\<rparr>]\<rparr>))"

definition drift_history :: "drift_db \<Rightarrow> string \<Rightarrow> int \<Rightarrow> drift_event list" where
  "drift_history s tenant_id lim =
     sql_limit (min lim 100) (newest_first ev_detected_at (filter (\<lambda>e. ev_tenant_id e = tenant_id) (dd_events s)))"

subsection \<open>Taking a snapshot\<close>

text \<open>The rows of the ledger with the highest number of their instance, ordered by instance.\<close>

definition snapshot_rows :: "db \<Rightarrow> string \<Rightarrow> ledger_row list" where
  "snapshot_rows s tenant_id =
     sort_key lr_instance_id
       (filter (\<lambda>r. lr_tenant_id r = tenant_id \<and>
          list_all (\<lambda>q. lr_instance_id q = lr_instance_id r \<and> lr_tenant_id q = tenant_id \<longrightarrow> lr_sequence_id q \<le> lr_sequence_id r)
            (db_ledger s)) (db_ledger s))"

text \<open>What a snapshot is taken with: id, time, the id, time, S3 result and timestamp answer of the anchoring.\<close>

record snapshot_env =
  se_id :: string
  se_now :: string
  se_anchor_id :: string
  se_anchor_now :: string
  se_s3 :: "bool option"
  se_use_rfc3161 :: bool
  se_tsa :: tsa
  se_tsa_url :: string
  se_random :: bytes

text \<open>The storage is \<open>Inl e\<close> when reading the ledger raises; the code catches every exception there.\<close>

definition ledger_state :: "ext \<Rightarrow> db res \<Rightarrow> string \<Rightarrow> string \<times> nat" where
  "ledger_state x storage tenant_id =
     (case storage of
        Inl _ \<Rightarrow> (replicate 64 (CHR ''0''), 0)
      | Inr s \<Rightarrow> (let rows = snapshot_rows s tenant_id in (compute_system_root x (map lr_current_hash rows), length rows)))"

definition take_snapshot ::
  "ext \<Rightarrow> snapshot_env \<Rightarrow> db res \<Rightarrow> audit_entry list \<Rightarrow> string \<Rightarrow> string \<Rightarrow> bool \<Rightarrow> anchor_row list \<Rightarrow> snapshot \<times> anchor_row list" where
  "take_snapshot x env storage audit_log tenant_id environment anchor_externally anchors =
     (let (system_root, instance_count) = ledger_state x storage tenant_id;
          snap = \<lparr>sn_snapshot_id = se_id env, sn_tenant_id = tenant_id, sn_environment = environment,
            sn_system_root = system_root, sn_instance_count = instance_count,
            sn_audit_chain_hash = get_latest_chain_hash audit_log tenant_id,
            sn_audit_row_count = audit_count audit_log tenant_id, sn_recorded_at = se_now env\<rparr>
      in (snap,
          if anchor_externally \<and> system_root \<noteq> replicate 64 (CHR ''0'')
          then snd (anchor_chain_hash x (se_tsa env) (se_tsa_url env) (se_random env) (se_anchor_id env) (se_anchor_now env)
                 (se_s3 env) tenant_id system_root (se_use_rfc3161 env) anchors)
          else anchors))"

definition snapshot_to_dict :: "snapshot \<Rightarrow> pydict" where
  "snapshot_to_dict q =
     [(KStr ''snapshot_id'', PyStr (sn_snapshot_id q)), (KStr ''tenant_id'', PyStr (sn_tenant_id q)),
      (KStr ''environment'', PyStr (sn_environment q)), (KStr ''system_root'', PyStr (sn_system_root q)),
      (KStr ''instance_count'', PyInt (int (sn_instance_count q))), (KStr ''audit_chain_hash'', PyStr (sn_audit_chain_hash q)),
      (KStr ''audit_row_count'', PyInt (int (sn_audit_row_count q))), (KStr ''recorded_at'', PyStr (sn_recorded_at q))]"

text \<open>The recommendation text is the argument.\<close>

definition drift_result_to_dict :: "(recommendation \<Rightarrow> string) \<Rightarrow> drift_result \<Rightarrow> pydict" where
  "drift_result_to_dict txt r =
     [(KStr ''drifted'', PyBool (dr_drifted r)), (KStr ''drift_type'', opt_str (dr_drift_type r)),
      (KStr ''severity'', PyStr (dr_severity r)), (KStr ''recommendation'', PyStr (txt (dr_recommendation r))),
      (KStr ''snap_a'', PyDict (snapshot_to_dict (dr_snap_a r))), (KStr ''snap_b'', PyDict (snapshot_to_dict (dr_snap_b r))),
      (KStr ''details'', PyDict (dr_details r))]"

subsection \<open>Comparing\<close>

lemma issues_Nil:
  "find_issues a b = [] \<longleftrightarrow> sn_system_root a = sn_system_root b \<and> sn_audit_chain_hash a = sn_audit_chain_hash b \<and>
     sn_instance_count a = sn_instance_count b \<and> sn_audit_row_count a = sn_audit_row_count b"
  by (simp add: find_issues_def)

lemma issue_names:
  "map fst (find_issues a b) =
     (if sn_system_root a \<noteq> sn_system_root b then [''root_mismatch''] else []) @
     (if sn_audit_chain_hash a \<noteq> sn_audit_chain_hash b then [''chain_mismatch''] else []) @
     (if sn_instance_count a \<noteq> sn_instance_count b \<or> sn_audit_row_count a \<noteq> sn_audit_row_count b then [''count_mismatch''] else [])"
  by (simp add: find_issues_def)

lemma compare_verdict:
  "dr_drifted (compare_snapshots a b) \<longleftrightarrow> map fst (find_issues a b) \<noteq> []"
  "dr_drift_type (compare_snapshots a b) = (let is = map fst (find_issues a b)
     in if is = [] then None else Some (if 1 < length is then ''combined'' else hd is))"
  "dr_severity (compare_snapshots a b) = (let is = map fst (find_issues a b) in if is = [] then ''OK'' else severity is)"
  "dr_snap_a (compare_snapshots a b) = a" "dr_snap_b (compare_snapshots a b) = b"
  by (simp_all add: compare_snapshots_def Let_def)

text \<open>
  The verdict in full.  There is drift exactly when one of the four values differs; it is critical when the
  roots differ or when both the audit chains and a count do, a warning when only one of these two does; and it does not
  depend on the order of the snapshots.
\<close>

theorem drift_classification:
  "(dr_drifted (compare_snapshots a b) \<longleftrightarrow> \<not> (sn_system_root a = sn_system_root b \<and> sn_audit_chain_hash a = sn_audit_chain_hash b \<and>
      sn_instance_count a = sn_instance_count b \<and> sn_audit_row_count a = sn_audit_row_count b)) \<and>
   dr_severity (compare_snapshots a b) =
     (let counts = (sn_instance_count a \<noteq> sn_instance_count b \<or> sn_audit_row_count a \<noteq> sn_audit_row_count b);
          chains = (sn_audit_chain_hash a \<noteq> sn_audit_chain_hash b)
      in if sn_system_root a \<noteq> sn_system_root b \<or> chains \<and> counts then ''CRITICAL''
         else if chains \<or> counts then ''WARNING'' else ''OK'') \<and>
   dr_drift_type (compare_snapshots b a) = dr_drift_type (compare_snapshots a b) \<and>
   dr_severity (compare_snapshots b a) = dr_severity (compare_snapshots a b)"
  by (auto simp: compare_verdict issue_names severity_def Let_def)

text \<open>A comparison can always be recorded, and the history of the tenant then starts with it if its time is the latest.\<close>

lemma details_plain: "plain (PyDict (dr_details (compare_snapshots a b)))"
proof -
  have k: "is_KStr (fst p) \<and> plain (snd p)" if "p \<in> set (map (\<lambda>(i, k, v). (KStr k, v)) (find_issues a b))" for p
    using that by (auto simp: find_issues_def mismatch_def split: if_splits)
  have "dr_details (compare_snapshots a b) = [(KStr ''snap_a'', snap_details a), (KStr ''snap_b'', snap_details b),
      (KStr ''mismatches'', PyDict (map (\<lambda>(i, k, v). (KStr k, v)) (find_issues a b)))]"
    by (simp add: compare_snapshots_def Let_def)
  moreover have "plain (PyDict (map (\<lambda>(i, k, v). (KStr k, v)) (find_issues a b)))"
    unfolding plain.simps list_all_iff using k by blast
  ultimately show ?thesis by (simp add: snap_details_def)
qed

theorem drift_event_recorded:
  "\<exists>e. record_drift_event now (compare_snapshots a b) s = (Inr (), s\<lparr>dd_events := dd_events s @ [e]\<rparr>) \<and>
     ev_tenant_id e = sn_tenant_id a \<and> ev_drifted e = dr_drifted (compare_snapshots a b) \<and>
     ev_severity e = dr_severity (compare_snapshots a b) \<and> ev_snap_a_id e = sn_snapshot_id a \<and> ev_snap_b_id e = sn_snapshot_id b"
  unfolding record_drift_event_def json_dumps_spaced_plain [OF details_plain] compare_verdict(4,5) opt_res_simps sum.case
  by (intro exI conjI, rule refl) simp_all

text \<open>
  Two snapshots of one environment, as in every comparison with a stored baseline: the entry of \<open>mismatches\<close> has one
  key and holds only the new value; the value of the baseline is overwritten.
\<close>

theorem baseline_value_overwritten:
  assumes "sn_environment snap = sn_environment base" "sn_system_root snap \<noteq> sn_system_root base"
  shows "\<exists>m. dget (dr_details (fst (compare_against_baseline snap (Some base) s))) ''mismatches'' = Some (PyDict m) \<and>
    dget m ''system_root'' = Some (PyDict [(KStr (sn_environment snap), PyStr (sn_system_root snap))])"
  using assms by (simp add: compare_against_baseline_def compare_snapshots_def Let_def find_issues_def mismatch_def)

subsection \<open>What an equal comparison shows\<close>

lemma concat_blocks:
  assumes "0 < n"
  shows "list_all (\<lambda>s. length s = n) ss \<Longrightarrow> list_all (\<lambda>s. length s = n) ts \<Longrightarrow> concat ss = concat ts \<Longrightarrow> ss = ts"
proof (induction ss arbitrary: ts)
  case Nil
  then show ?case using assms by (cases ts) auto
next
  case (Cons s ss)
  show ?case
  proof (cases ts)
    case Nil
    then show ?thesis using Cons.prems assms by auto
  next
    case t: (Cons t us)
    then have "s @ concat ss = t @ concat us" "length s = length t" using Cons.prems by simp_all
    then have "s = t" "concat ss = concat us" by (simp_all only: append_eq_append_conv simp_thms)
    then show ?thesis using t Cons.IH [of us] Cons.prems by simp
  qed
qed

lemma system_root_binding:
  assumes "list_all (\<lambda>h. length h = 64) hs" "list_all (\<lambda>h. length h = 64) ks" "length hs = length ks"
    "compute_system_root x hs = compute_system_root x ks"
    "inj_on (x_sha256 x) {utf8 (concat (sort hs)), utf8 (concat (sort ks))}"
  shows "mset hs = mset ks"
proof (cases "hs = []")
  case False
  then have "x_sha256 x (utf8 (concat (sort hs))) = x_sha256 x (utf8 (concat (sort ks)))"
    using assms(3,4) by (cases "ks = []") (simp_all add: compute_system_root_def hexdigest_eq_iff)
  then have "utf8 (concat (sort hs)) = utf8 (concat (sort ks))" by (rule inj_onD [OF assms(5)]) simp_all
  then have "concat (sort hs) = concat (sort ks)" unfolding utf8_inj .
  then have "sort hs = sort ks" using assms(1,2) by (intro concat_blocks [of 64]) simp_all
  then have "mset (sort hs) = mset (sort ks)" by (rule arg_cong)
  then show ?thesis by simp
qed (use assms(3) in simp)

lemma snapshot_values:
  "sn_system_root (fst (take_snapshot x e st log1 t env ae anchors)) = fst (ledger_state x st t)"
  "sn_instance_count (fst (take_snapshot x e st log1 t env ae anchors)) = snd (ledger_state x st t)"
  "sn_audit_chain_hash (fst (take_snapshot x e st log1 t env ae anchors)) = get_latest_chain_hash log1 t"
  "sn_audit_row_count (fst (take_snapshot x e st log1 t env ae anchors)) = audit_count log1 t"
  "sn_environment (fst (take_snapshot x e st log1 t env ae anchors)) = env"
  by (simp_all add: take_snapshot_def case_prod_beta Let_def)

definition hashes_of :: "db \<Rightarrow> string \<Rightarrow> string list" where
  "hashes_of s t = map lr_current_hash (snapshot_rows s t)"

lemma hashes_of_length:
  "list_all (\<lambda>r. length (lr_current_hash r) = 64) (db_ledger s) \<Longrightarrow> list_all (\<lambda>h. length h = 64) (hashes_of s t)"
  by (simp add: hashes_of_def snapshot_rows_def list_all_iff)

text \<open>
  C21: Snapshots of two systems whose ledgers could be read and compare without drift.  If all stored hashes have 64
  characters, the two systems have the same number of instances and the same multiset of latest hashes, one per instance of the
  tenant, unless SHA-256 collides on the two texts the system roots are computed from.  If both audit chains of the tenant
  verify, the two systems have the same audit records in the same order, unless SHA-256 collides on the messages of the
  chains or gives the genesis hash.  Neither part needs the hypotheses of the other.
\<close>

theorem no_drift_same_state:
  assumes "\<not> dr_drifted (compare_snapshots (fst (take_snapshot x e (Inr s) log1 t env ae anchors))
        (fst (take_snapshot x e' (Inr s') log2 t env' ae' anchors')))"
  shows "(list_all (\<lambda>r. length (lr_current_hash r) = 64) (db_ledger s @ db_ledger s') \<and>
      inj_on (x_sha256 x) {utf8 (concat (sort (hashes_of s t))), utf8 (concat (sort (hashes_of s' t)))} \<longrightarrow>
        mset (hashes_of s t) = mset (hashes_of s' t)) \<and>
    (digest_ok x \<and> (\<exists>r. audit_verify_chain x log1 t = Inr r \<and> cr_valid r) \<and> (\<exists>r. audit_verify_chain x log2 t = Inr r \<and> cr_valid r) \<and>
      no_collision x genesis_bytes (chain_messages x audit_bytes genesis_bytes (tenant_rows t log1) @
        chain_messages x audit_bytes genesis_bytes (tenant_rows t log2)) \<longrightarrow>
        map audit_content (tenant_rows t log1) = map audit_content (tenant_rows t log2)) \<and>
    length (hashes_of s t) = length (hashes_of s' t) \<and> length (tenant_rows t log1) = length (tenant_rows t log2)"
proof (intro conjI impI)
  have c: "compute_system_root x (hashes_of s t) = compute_system_root x (hashes_of s' t)"
    "length (hashes_of s t) = length (hashes_of s' t)" "get_latest_chain_hash log1 t = get_latest_chain_hash log2 t"
    "length (tenant_rows t log1) = length (tenant_rows t log2)"
    using assms by (simp_all add: compare_verdict issue_names snapshot_values ledger_state_def hashes_of_def audit_count_def Let_def split: if_splits)
  then show "length (hashes_of s t) = length (hashes_of s' t)" "length (tenant_rows t log1) = length (tenant_rows t log2)" by blast+
  show "mset (hashes_of s t) = mset (hashes_of s' t)"
    if h: "list_all (\<lambda>r. length (lr_current_hash r) = 64) (db_ledger s @ db_ledger s') \<and>
      inj_on (x_sha256 x) {utf8 (concat (sort (hashes_of s t))), utf8 (concat (sort (hashes_of s' t)))}"
    using h by (intro system_root_binding [OF _ _ c(2) c(1)] hashes_of_length) simp_all
  show "map audit_content (tenant_rows t log1) = map audit_content (tenant_rows t log2)"
    if h: "digest_ok x \<and> (\<exists>r. audit_verify_chain x log1 t = Inr r \<and> cr_valid r) \<and> (\<exists>r. audit_verify_chain x log2 t = Inr r \<and> cr_valid r) \<and>
      no_collision x genesis_bytes (chain_messages x audit_bytes genesis_bytes (tenant_rows t log1) @
        chain_messages x audit_bytes genesis_bytes (tenant_rows t log2))"
  proof -
    have a: "audit_chained x genesis_bytes (tenant_rows t log1)" "audit_chained x genesis_bytes (tenant_rows t log2)"
      using h audit_verify_chain_iff by blast+
    have "chain_end x audit_bytes genesis_bytes (tenant_rows t log1) = chain_end x audit_bytes genesis_bytes (tenant_rows t log2)"
      using latest_chain_hash [OF a(1)] latest_chain_hash [OF a(2)] c(3) by simp
    then have "map audit_bytes (tenant_rows t log1) = map audit_bytes (tenant_rows t log2)"
      using h by (intro chain_end_injective) auto
    then show ?thesis by (rule map_factors [rotated]) (rule audit_bytes_content)
  qed
qed

text \<open>
  A ledger that cannot be read gives the snapshot of an empty one: compared with an empty system, or with another
  unreadable one, it shows no drift.
\<close>

theorem unreadable_ledger_looks_empty:
  assumes "snapshot_rows s t = []"
  shows "\<not> dr_drifted (compare_snapshots (fst (take_snapshot x e (Inl err) log1 t env ae anchors))
      (fst (take_snapshot x e' (Inl err') log1 t env' ae' anchors'))) \<and>
    \<not> dr_drifted (compare_snapshots (fst (take_snapshot x e (Inl err) log1 t env ae anchors))
      (fst (take_snapshot x e' (Inr s) log1 t env' ae' anchors')))"
  using assms by (simp add: compare_verdict issue_names snapshot_values ledger_state_def compute_system_root_def Let_def)

text \<open>
  The root of a snapshot that asks for it is anchored for its tenant, whatever the timestamp authority answers; a
  zero root is not, and no anchoring changes the snapshot.
\<close>

theorem snapshot_root_anchored:
  assumes "anchors = fold (anchor_step x) cs []" "fresh_id (se_anchor_id e) anchors"
    "fst (ledger_state x st t) \<noteq> replicate 64 (CHR ''0'')"
  shows "\<exists>r. snd (take_snapshot x e st log1 t env True anchors) = anchors @ [r] \<and> ar_tenant_id r = t \<and>
    ar_chain_hash r = sn_system_root (fst (take_snapshot x e st log1 t env True anchors)) \<and>
    fst (take_snapshot x e st log1 t env True anchors) = fst (take_snapshot x e st log1 t env False anchors) \<and>
    verify_anchor_chain x (anchors @ [r]) t = Inr (anchor_count anchors t + 1, None)"
proof -
  have ok: "anchors_ok x anchors" unfolding assms(1) by (rule reached_anchors_ok)
  let ?root = "fst (ledger_state x st t)"
  obtain st1 err tok where d: "request_rfc3161_timestamp x (se_tsa e) (se_tsa_url e) (se_random e) ?root = ts_dict st1 (se_tsa_url e) tok err"
    by (rule request_dict)
  let ?c = "\<lparr>an_id = se_anchor_id e, an_tenant = t, an_hash = ?root, an_now = se_anchor_now e,
    an_rfc = (if se_use_rfc3161 e then Some (ts_dict st1 (se_tsa_url e) tok err) else None), an_s3 = se_s3 e\<rparr>"
  have pc: "plain_call ?c" by (simp add: plain_call_def ts_dict_val del: plain.simps wf_val.simps)
  let ?r = "sealed_anchor x anchors (anchor_draft ?c (int (anchor_count anchors t) + 1))"
  have a: "anchor x ?c anchors = (Inr ?r, anchors @ [?r])"
    using anchor_eq [OF ok pc] assms(2) by (simp add: Let_def)
  have "anchor_chain_hash x (se_tsa e) (se_tsa_url e) (se_random e) (se_anchor_id e) (se_anchor_now e) (se_s3 e) t ?root
      (se_use_rfc3161 e) anchors = anchor x ?c anchors"
    unfolding anchor_chain_hash_def d by (rule refl)
  then have s: "snd (take_snapshot x e st log1 t env True anchors) = anchors @ [?r]"
    using assms(3) by (simp add: take_snapshot_def case_prod_beta Let_def a)
  have "anchors_ok x (anchors @ [?r])"
    using anchors_ok_sealed [OF ok, of "anchor_draft ?c (int (anchor_count anchors t) + 1)"] by (simp add: anchor_count_def)
  then have "verify_anchor_chain x (anchors @ [?r]) t = Inr (anchor_count anchors t + 1, None)"
    using anchors.inv_verify by fastforce
  moreover have "fst (take_snapshot x e st log1 t env True anchors) = fst (take_snapshot x e st log1 t env False anchors)"
    by (simp add: take_snapshot_def case_prod_beta Let_def)
  ultimately show ?thesis using s by (intro exI [of _ ?r]) (simp add: snapshot_values)
qed

subsection \<open>Witnesses\<close>

definition sample_env :: "string \<Rightarrow> snapshot_env" where
  "sample_env i = \<lparr>se_id = i, se_now = ''now'', se_anchor_id = i, se_anchor_now = ''now'', se_s3 = None, se_use_rfc3161 = True,
     se_tsa = (\<lambda>_. Inl ''timeout''), se_tsa_url = ''tsa'', se_random = replicate 8 1\<rparr>"

definition sample_led :: "string \<Rightarrow> char \<Rightarrow> ledger_row" where
  "sample_led i c = \<lparr>lr_tenant_id = ''t'', lr_instance_id = i, lr_sequence_id = 1, lr_previous_hash = genesis_hash,
     lr_current_hash = replicate 64 c, lr_signature = [], lr_key_id = [], lr_protocol_hash = [], lr_from_state = [], lr_to_state = [],
     lr_actor = [], lr_input_hash = [], lr_output_hash = [], lr_model_version = [], lr_agent_version = [], lr_policy_version = [],
     lr_metadata_json = [], lr_proof_json = [], lr_schema_version = [], lr_version = 1, lr_timestamp = []\<rparr>"

definition sample_db :: "char \<Rightarrow> char \<Rightarrow> db" where
  "sample_db a b = init_tables\<lparr>db_ledger := [sample_led ''i'' a, sample_led ''j'' b]\<rparr>"

lemma sample_db_hashes: "hashes_of (sample_db a b) ''t'' = [replicate 64 a, replicate 64 b]"
  by (simp add: hashes_of_def snapshot_rows_def sample_db_def sample_led_def del: replicate.simps)

lemma sample_db_lengths: "list_all (\<lambda>r. length (lr_current_hash r) = 64) (db_ledger (sample_db a b))"
  by (simp add: sample_db_def sample_led_def)

lemma sample_audit_valid: "\<exists>r. audit_verify_chain sample_ext sample_audit ''t'' = Inr r \<and> cr_valid r"
proof -
  have "audit_ok sample_ext sample_audit"
    using audit.step_inv [OF audit_ok_init, of sample_ext "(''now'', ''t'', ''r'', PyDict [], [])"]
    by (simp add: sample_audit_def audit_step_def)
  then have "audit_chained sample_ext genesis_bytes (tenant_rows ''t'' sample_audit)" unfolding audit_ok_def by blast
  then show ?thesis unfolding audit_verify_chain_iff .
qed

lemma sort_two: "sort [replicate 64 (CHR ''a''), replicate 64 (CHR ''b'')] = sort [replicate 64 (CHR ''b''), replicate 64 (CHR ''a'')]"
  by (rule properties_for_sort) (simp_all, use linear in blast)

lemma no_drift_same_state_witness:
  "mset (hashes_of (sample_db (CHR ''a'') (CHR ''b'')) ''t'') = mset (hashes_of (sample_db (CHR ''b'') (CHR ''a'')) ''t'')"
proof -
  let ?s = "sample_db (CHR ''a'') (CHR ''b'')" and ?s' = "sample_db (CHR ''b'') (CHR ''a'')"
  have so: "sort (hashes_of ?s ''t'') = sort (hashes_of ?s' ''t'')" unfolding sample_db_hashes by (rule sort_two)
  have h: "map lr_current_hash (snapshot_rows ?s ''t'') = hashes_of ?s ''t''" "map lr_current_hash (snapshot_rows ?s' ''t'') = hashes_of ?s' ''t''"
    by (simp_all add: hashes_of_def)
  have l: "length (snapshot_rows ?s ''t'') = 2" "length (snapshot_rows ?s' ''t'') = 2"
    using sample_db_hashes unfolding hashes_of_def by (metis length_map length_Cons list.size(3) numeral_2_eq_2)+
  have nd: "\<not> dr_drifted (compare_snapshots (fst (take_snapshot sample_ext (sample_env ''p'') (Inr ?s) sample_audit ''t'' ''dev'' False []))
      (fst (take_snapshot sample_ext (sample_env ''q'') (Inr ?s') sample_audit ''t'' ''prod'' False [])))"
    unfolding compare_verdict issue_names snapshot_values ledger_state_def sum.case Let_def fst_conv snd_conv h l
      compute_system_root_def so by (simp add: sample_db_hashes)
  have n: "no_collision sample_ext genesis_bytes (chain_messages sample_ext audit_bytes genesis_bytes (tenant_rows ''t'' sample_audit) @
      chain_messages sample_ext audit_bytes genesis_bytes (tenant_rows ''t'' sample_audit))"
    using sample_audit_distinct sample_audit_nonzero by (auto simp: no_collision_def distinct_map list_all_iff)
  have i: "inj_on (x_sha256 sample_ext) {utf8 (concat (sort (hashes_of ?s ''t''))), utf8 (concat (sort (hashes_of ?s' ''t'')))}"
    unfolding so by simp
  have d: "list_all (\<lambda>r. length (lr_current_hash r) = 64) (db_ledger ?s @ db_ledger ?s')" using sample_db_lengths by simp
  show ?thesis using no_drift_same_state [OF nd] d i sample_ext_ok(1) sample_audit_valid n by blast
qed

lemma baseline_value_overwritten_witness:
  "\<exists>m. dget m ''system_root'' = Some (PyDict [(KStr ''prod'', PyStr ''new'')])"
  using baseline_value_overwritten [of
    "\<lparr>sn_snapshot_id = ''b'', sn_tenant_id = ''t'', sn_environment = ''prod'', sn_system_root = ''new'', sn_instance_count = 1,
      sn_audit_chain_hash = [], sn_audit_row_count = 0, sn_recorded_at = []\<rparr>"
    "\<lparr>sn_snapshot_id = ''a'', sn_tenant_id = ''t'', sn_environment = ''prod'', sn_system_root = ''old'', sn_instance_count = 1,
      sn_audit_chain_hash = [], sn_audit_row_count = 0, sn_recorded_at = []\<rparr>" "\<lparr>dd_snapshots = [], dd_events = []\<rparr>"]
  by auto

lemma unreadable_ledger_looks_empty_witness:
  "\<not> dr_drifted (compare_snapshots (fst (take_snapshot sample_ext (sample_env ''a'') (Inl IntegrityError) [] ''t'' ''dev'' True []))
      (fst (take_snapshot sample_ext (sample_env ''b'') (Inr init_tables) [] ''t'' ''prod'' True [])))"
  using unreadable_ledger_looks_empty [of init_tables "''t''" sample_ext "sample_env ''a''" IntegrityError "[]" "''dev''" True "[]"
      "sample_env ''b''" IntegrityError "''prod''" True "[]"]
  by (simp add: snapshot_rows_def init_tables_def)

lemma snapshot_sample_root: "fst (ledger_state sample_ext (Inr (sample_db (CHR ''a'') (CHR ''b''))) ''t'') \<noteq> replicate 64 (CHR ''0'')"
  by code_simp

lemma snapshot_root_anchored_witness:
  "\<exists>r. snd (take_snapshot sample_ext (sample_env ''a'') (Inr (sample_db (CHR ''a'') (CHR ''b''))) [] ''t'' ''prod'' True []) = [r] \<and> ar_tenant_id r = ''t''"
  using snapshot_root_anchored [of "[]" sample_ext "[]" "sample_env ''a''" "Inr (sample_db (CHR ''a'') (CHR ''b''))" "''t''" "[]" "''prod''"]
    snapshot_sample_root by (auto simp: fresh_id_def)

end
