(* ===== verification/RateLimit.thy ===== *)
theory RateLimit
  imports Exceptions Complex_Main "HOL-Library.AList"
begin

text \<open>
  \<open>server/rate_limit.py\<close>: sliding windows of 60 seconds and the three layers of the limiter (global, per
  tenant, per tenant for writes).  A clock value of \<open>time.monotonic()\<close> is a rational number; the
  rounding of floating point differences is left out.  The locks make every \<open>count_and_check\<close> one step.
  The theorems bound the number of requests admitted in any 60 seconds, and say what a refusal costs.
\<close>

subsection \<open>Sliding windows\<close>

type_synonym window = "rat list"

definition evict :: "rat \<Rightarrow> window \<Rightarrow> window" where
  "evict now ts = filter (\<lambda>t. now - 60 < t) ts"

text \<open>\<open>int(q)\<close> rounds towards zero.\<close>

definition trunc :: "rat \<Rightarrow> int" where
  "trunc q = (if 0 \<le> q then \<lfloor>q\<rfloor> else \<lceil>q\<rceil>)"

text \<open>
  The answer \<open>(allowed, retry_after)\<close>.  A limit of zero or less finds \<open>timestamps[0]\<close> of an empty list:
  \<open>IndexError\<close>, the answer \<^const>\<open>None\<close>.
\<close>

definition count_and_check :: "rat \<Rightarrow> int \<Rightarrow> window \<Rightarrow> (bool \<times> int) option \<times> window" where
  "count_and_check now limit ts =
     (let ts = evict now ts in
      if limit \<le> int (length ts)
      then (case ts of [] \<Rightarrow> (None, ts)
            | oldest # _ \<Rightarrow> (Some (False, trunc (60 - (now - oldest)) + 1), ts))
      else (Some (True, 0), ts @ [now]))"

definition current_count :: "rat \<Rightarrow> window \<Rightarrow> nat" where
  "current_count now ts = length (filter (\<lambda>t. now - 60 < t) ts)"

subsection \<open>The limiter\<close>

record rate_config =
  rc_tenant_rpm :: int
  rc_global_rpm :: int
  rc_decision_rpm :: int

text \<open>The two \<open>defaultdict\<close>s are association lists in insertion order.\<close>

record limiter =
  rl_config :: rate_config
  rl_global :: window
  rl_tenant :: "(string \<times> window) list"
  rl_writes :: "(string \<times> window) list"

definition RateLimiter_init :: "rate_config \<Rightarrow> limiter" where
  "RateLimiter_init c = \<lparr>rl_config = c, rl_global = [], rl_tenant = [], rl_writes = []\<rparr>"

definition window_of :: "(string \<times> window) list \<Rightarrow> string \<Rightarrow> window" where
  "window_of ws t = (case map_of ws t of Some w \<Rightarrow> w | None \<Rightarrow> [])"

datatype rate_scope = GlobalScope | TenantScope | DecisionScope

text \<open>
  What \<open>check\<close> does: it returns, raises 429 with its scope, the limit and \<open>Retry-After\<close>, or fails with the
  \<open>IndexError\<close> of an empty window.
\<close>

datatype rate_answer = Admitted | TooManyRequests rate_scope int int | RateIndexError

definition rate_check :: "rat \<Rightarrow> rat \<Rightarrow> rat \<Rightarrow> string \<Rightarrow> string \<Rightarrow> limiter \<Rightarrow> rate_answer \<times> limiter" where
  "rate_check now1 now2 now3 tenant_id action l =
     (case count_and_check now1 (rc_global_rpm (rl_config l)) (rl_global l) of
        (None, w) \<Rightarrow> (RateIndexError, l\<lparr>rl_global := w\<rparr>)
      | (Some (False, retry), w) \<Rightarrow>
          (TooManyRequests GlobalScope (rc_global_rpm (rl_config l)) retry, l\<lparr>rl_global := w\<rparr>)
      | (Some (True, _), w) \<Rightarrow>
     (let l = l\<lparr>rl_global := w\<rparr> in
      case count_and_check now2 (rc_tenant_rpm (rl_config l)) (window_of (rl_tenant l) tenant_id) of
        (None, w) \<Rightarrow> (RateIndexError, l\<lparr>rl_tenant := AList.update tenant_id w (rl_tenant l)\<rparr>)
      | (Some (False, retry), w) \<Rightarrow>
          (TooManyRequests TenantScope (rc_tenant_rpm (rl_config l)) retry,
           l\<lparr>rl_tenant := AList.update tenant_id w (rl_tenant l)\<rparr>)
      | (Some (True, _), w) \<Rightarrow>
     (let l = l\<lparr>rl_tenant := AList.update tenant_id w (rl_tenant l)\<rparr> in
      if action = ''write''
      then (case count_and_check now3 (rc_decision_rpm (rl_config l)) (window_of (rl_writes l) tenant_id) of
              (None, w) \<Rightarrow> (RateIndexError, l\<lparr>rl_writes := AList.update tenant_id w (rl_writes l)\<rparr>)
            | (Some (False, retry), w) \<Rightarrow>
                (TooManyRequests DecisionScope (rc_decision_rpm (rl_config l)) retry,
                 l\<lparr>rl_writes := AList.update tenant_id w (rl_writes l)\<rparr>)
            | (Some (True, _), w) \<Rightarrow> (Admitted, l\<lparr>rl_writes := AList.update tenant_id w (rl_writes l)\<rparr>))
      else (Admitted, l))))"

text \<open>\<open>stats\<close>: the counts and the limits.  Reading the write window of a tenant creates it.\<close>

record rate_usage =
  ru_global_requests_60s :: nat
  ru_global_limit_rpm :: int
  ru_tenant_limit_rpm :: int
  ru_decision_limit_rpm :: int
  ru_tenants :: "(string \<times> nat \<times> nat) list"

definition rate_stats :: "rat \<Rightarrow> limiter \<Rightarrow> rate_usage \<times> limiter" where
  "rate_stats now l =
     (\<lparr>ru_global_requests_60s = current_count now (rl_global l),
       ru_global_limit_rpm = rc_global_rpm (rl_config l),
       ru_tenant_limit_rpm = rc_tenant_rpm (rl_config l),
       ru_decision_limit_rpm = rc_decision_rpm (rl_config l),
       ru_tenants = map (\<lambda>(t, w). (t, current_count now w, current_count now (window_of (rl_writes l) t))) (rl_tenant l)\<rparr>,
      l\<lparr>rl_writes := fold (\<lambda>(t, _) ws. if map_of ws t = None then AList.update t [] ws else ws) (rl_tenant l) (rl_writes l)\<rparr>)"

text \<open>The process-wide limiter: created at the first request; a request with no tenant counts as \<open>unknown\<close>.\<close>

definition get_limiter :: "rate_config \<Rightarrow> limiter option \<Rightarrow> limiter" where
  "get_limiter CONFIG lo = (case lo of None \<Rightarrow> RateLimiter_init CONFIG | Some l \<Rightarrow> l)"

definition rate_limit ::
  "rate_config \<Rightarrow> string \<Rightarrow> rat \<Rightarrow> rat \<Rightarrow> rat \<Rightarrow> string option \<Rightarrow> limiter option \<Rightarrow> rate_answer \<times> limiter option" where
  "rate_limit CONFIG action now1 now2 now3 state_tenant lo =
     (let tenant_id = (case state_tenant of Some t \<Rightarrow> t | None \<Rightarrow> ''unknown'');
          (a, l) = rate_check now1 now2 now3 tenant_id action (get_limiter CONFIG lo)
      in (a, Some l))"

subsection \<open>What a window admits\<close>

text \<open>How many of the times lie in the 60 seconds up to \<open>T\<close>.\<close>

definition cnt :: "rat \<Rightarrow> rat list \<Rightarrow> nat" where
  "cnt T ts = length (filter (\<lambda>t. T - 60 < t \<and> t \<le> T) ts)"

lemma cnt_simps [simp]:
  "cnt T [] = 0" "cnt T (a @ b) = cnt T a + cnt T b" "cnt T (t # ts) = (if T - 60 < t \<and> t \<le> T then 1 else 0) + cnt T ts"
  by (simp_all add: cnt_def)

lemma cnt_le: "cnt T ts \<le> length ts"
  by (simp add: cnt_def)

lemma cnt_late: "\<forall>t\<in>set ts. T < t \<Longrightarrow> cnt T ts = 0"
  by (auto simp: cnt_def filter_empty_conv)

lemma cnt_evict: "t \<le> T \<Longrightarrow> cnt T (evict t w) = cnt T w"
  unfolding cnt_def evict_def filter_filter by (rule arg_cong [of _ _ length], rule filter_cong) auto

text \<open>Evicting at time \<open>t\<close> loses nothing that counts with what comes at \<open>t\<close> or later.\<close>

lemma cnt_step:
  assumes "\<forall>s\<in>set ys. t \<le> s" "length w \<le> N" "\<And>T. cnt T (evict t w @ ys) \<le> N"
  shows "cnt T (w @ ys) \<le> N"
proof (cases "t \<le> T")
  case True
  with assms(3) [of T] show ?thesis by (simp add: cnt_evict)
next
  case False
  then have "cnt T ys = 0" using assms(1) by (intro cnt_late) auto
  then show ?thesis using cnt_le [of T w] assms(2) by simp
qed

text \<open>A run: the calls that were admitted, and the state after them.\<close>

fun admitted :: "('c \<Rightarrow> 'l \<Rightarrow> bool \<times> 'l) \<Rightarrow> 'l \<Rightarrow> 'c list \<Rightarrow> 'c list" where
  "admitted step l [] = []"
| "admitted step l (c # cs) = (let (adm, l') = step c l in (if adm then [c] else []) @ admitted step l' cs)"

fun state_after :: "('c \<Rightarrow> 'l \<Rightarrow> bool \<times> 'l) \<Rightarrow> 'l \<Rightarrow> 'c list \<Rightarrow> 'l" where
  "state_after step l [] = l"
| "state_after step l (c # cs) = state_after step (snd (step c l)) cs"

lemma admitted_sub: "set (admitted step l cs) \<subseteq> set cs"
proof (induction cs arbitrary: l)
  case (Cons c cs)
  obtain adm l' where "step c l = (adm, l')" by (cases "step c l")
  then show ?case using Cons.IH [of l'] by auto
qed simp

text \<open>
  One layer of the limiter.  Calls carry a time; each either leaves the window alone, evicts, or evicts and
  adds its time while there is room.  Only in the last case may the call be admitted and counted.
\<close>

locale rate_layer =
  fixes step :: "'c \<Rightarrow> 'l \<Rightarrow> bool \<times> 'l"
    and win :: "'l \<Rightarrow> window"
    and counted :: "'c \<Rightarrow> bool"
    and time :: "'c \<Rightarrow> rat"
    and limit :: "'l \<Rightarrow> int"
  assumes step_win: "step c l = (adm, l') \<Longrightarrow>
      (win l' = win l \<and> \<not> (adm \<and> counted c)) \<or>
      (win l' = evict (time c) (win l) \<and> \<not> (adm \<and> counted c)) \<or>
      (counted c \<and> win l' = evict (time c) (win l) @ [time c] \<and> int (length (evict (time c) (win l))) < limit l)"
    and step_lim: "step c l = (adm, l') \<Longrightarrow> limit l' = limit l"
begin

lemma window_bound:
  "sorted (map time cs) \<Longrightarrow> int (length (win l)) \<le> max 0 (limit l) \<Longrightarrow>
   cnt T (win l @ map time (filter counted (admitted step l cs))) \<le> nat (limit l)"
proof (induction cs arbitrary: l T)
  case Nil
  then show ?case using cnt_le [of T "win l"] by auto
next
  case (Cons c cs)
  obtain adm l' where s: "step c l = (adm, l')" by (cases "step c l")
  let ?a = "map time (filter counted (admitted step l' cs))"
  have len: "length (win l) \<le> nat (limit l)" using Cons.prems(2) by auto
  have ev: "length (evict (time c) (win l)) \<le> length (win l)" by (simp add: evict_def)
  have late: "\<forall>t\<in>set ?a. time c \<le> t"
    using Cons.prems(1) admitted_sub [of step l' cs] by auto
  have IH: "int (length (win l')) \<le> max 0 (limit l) \<Longrightarrow> cnt T (win l' @ ?a) \<le> nat (limit l)" for T
    using Cons.IH [of l'] Cons.prems(1) step_lim [OF s] by simp
  consider (same) "win l' = win l" "\<not> (adm \<and> counted c)"
    | (old) "win l' = evict (time c) (win l)" "\<not> (adm \<and> counted c)"
    | (new) "counted c" "win l' = evict (time c) (win l) @ [time c]" "int (length (evict (time c) (win l))) < limit l"
    using step_win [OF s] by blast
  then show ?case
  proof cases
    case same
    then have "map time (filter counted (admitted step l (c # cs))) = ?a" using s by auto
    then show ?thesis using IH [of T] same(1) Cons.prems(2) by simp
  next
    case old
    have *: "cnt T (evict (time c) (win l) @ ?a) \<le> nat (limit l)" for T
      using IH [of T] old(1) ev Cons.prems(2) by simp
    have "map time (filter counted (admitted step l (c # cs))) = ?a" using s old(2) by auto
    then show ?thesis using cnt_step [OF late len *] by simp
  next
    case new
    have *: "cnt T (evict (time c) (win l) @ (time c # ?a)) \<le> nat (limit l)" for T
      using IH [of T] new by simp
    have "cnt T (win l @ (time c # ?a)) \<le> nat (limit l)"
      by (rule cnt_step [OF _ len *]) (use late in auto)
    then show ?thesis using s new(1) by auto
  qed
qed

lemma fresh_bound:
  "sorted (map time cs) \<Longrightarrow> win l = [] \<Longrightarrow> cnt T (map time (filter counted (admitted step l cs))) \<le> nat (limit l)"
  using window_bound [of cs l T] by simp

end

subsection \<open>The three layers of the limiter\<close>

record rate_call =
  rk_global_at :: rat
  rk_tenant_at :: rat
  rk_write_at :: rat
  rk_tenant :: string
  rk_action :: string

definition rate_step :: "rate_call \<Rightarrow> limiter \<Rightarrow> bool \<times> limiter" where
  "rate_step c l = (let (a, l') = rate_check (rk_global_at c) (rk_tenant_at c) (rk_write_at c) (rk_tenant c) (rk_action c) l
     in (a = Admitted, l'))"

lemma window_of_update [simp]: "window_of (AList.update t w ws) t' = (if t' = t then w else window_of ws t')"
  by (simp add: window_of_def update_conv')

lemma count_and_check_cases:
  obtains (empty) "count_and_check now limit ts = (None, evict now ts)"
  | (full) r where "count_and_check now limit ts = (Some (False, r), evict now ts)"
  | (room) "count_and_check now limit ts = (Some (True, 0), evict now ts @ [now])" "int (length (evict now ts)) < limit"
proof (cases "limit \<le> int (length (evict now ts))")
  case True
  then show ?thesis using empty full by (cases "evict now ts") (auto simp: count_and_check_def)
next
  case False
  then show ?thesis by (intro room) (simp_all add: count_and_check_def Let_def)
qed

text \<open>What one call does to the three windows.\<close>

lemma rate_step_windows:
  assumes "rate_step c l = (adm, l')"
  defines "t \<equiv> rk_tenant c"
  shows "rl_config l' = rl_config l"
    and "(rl_global l' = evict (rk_global_at c) (rl_global l) \<and> \<not> adm) \<or>
      (rl_global l' = evict (rk_global_at c) (rl_global l) @ [rk_global_at c] \<and>
       int (length (evict (rk_global_at c) (rl_global l))) < rc_global_rpm (rl_config l))" (is ?G)
    and "(\<forall>u. window_of (rl_tenant l') u = window_of (rl_tenant l) u) \<and> \<not> adm \<or>
      (\<exists>w. (\<forall>u. window_of (rl_tenant l') u = (if u = t then w else window_of (rl_tenant l) u)) \<and>
        (w = evict (rk_tenant_at c) (window_of (rl_tenant l) t) \<and> \<not> adm \<or>
         w = evict (rk_tenant_at c) (window_of (rl_tenant l) t) @ [rk_tenant_at c] \<and>
         int (length (evict (rk_tenant_at c) (window_of (rl_tenant l) t))) < rc_tenant_rpm (rl_config l)))" (is ?T)
    and "(\<forall>u. window_of (rl_writes l') u = window_of (rl_writes l) u) \<and> (adm \<longrightarrow> rk_action c \<noteq> ''write'') \<or>
      (\<exists>w. rk_action c = ''write'' \<and> (\<forall>u. window_of (rl_writes l') u = (if u = t then w else window_of (rl_writes l) u)) \<and>
        (w = evict (rk_write_at c) (window_of (rl_writes l) t) \<and> \<not> adm \<or>
         w = evict (rk_write_at c) (window_of (rl_writes l) t) @ [rk_write_at c] \<and>
         int (length (evict (rk_write_at c) (window_of (rl_writes l) t))) < rc_decision_rpm (rl_config l)))" (is ?W)
proof -
  note [simp] = rate_step_def rate_check_def Let_def t_def
  have "rl_config l' = rl_config l \<and> ?G \<and> ?T \<and> ?W"
  proof (cases rule: count_and_check_cases [of "rk_global_at c" "rc_global_rpm (rl_config l)" "rl_global l"])
    case room
    note g = this
    show ?thesis
    proof (cases rule: count_and_check_cases [of "rk_tenant_at c" "rc_tenant_rpm (rl_config l)" "window_of (rl_tenant l) t"])
      case room
      note t = this
      show ?thesis
      proof (cases "rk_action c = ''write''")
        case True
        show ?thesis
          by (cases rule: count_and_check_cases [of "rk_write_at c" "rc_decision_rpm (rl_config l)" "window_of (rl_writes l) t"])
            (use assms(1) g t True in \<open>auto simp del: t_def simp: t_def [symmetric]\<close>)
      qed (use assms(1) g t in auto)
    qed (use assms(1) g in auto)
  qed (use assms(1) in auto)
  then show "rl_config l' = rl_config l" ?G ?T ?W by blast+
qed

interpretation global_layer: rate_layer rate_step rl_global "\<lambda>c. True" rk_global_at "\<lambda>l. rc_global_rpm (rl_config l)"
proof
  fix c l adm l' assume s: "rate_step c l = (adm, l')"
  show "rl_global l' = rl_global l \<and> \<not> (adm \<and> True) \<or>
     rl_global l' = evict (rk_global_at c) (rl_global l) \<and> \<not> (adm \<and> True) \<or>
     True \<and> rl_global l' = evict (rk_global_at c) (rl_global l) @ [rk_global_at c] \<and>
     int (length (evict (rk_global_at c) (rl_global l))) < rc_global_rpm (rl_config l)"
    using rate_step_windows(2) [OF s] by blast
  show "rc_global_rpm (rl_config l') = rc_global_rpm (rl_config l)"
    using rate_step_windows(1) [OF s] by simp
qed

interpretation tenant_layer: rate_layer rate_step "\<lambda>l. window_of (rl_tenant l) t" "\<lambda>c. rk_tenant c = t" rk_tenant_at
  "\<lambda>l. rc_tenant_rpm (rl_config l)" for t
proof
  fix c l adm l' assume s: "rate_step c l = (adm, l')"
  let ?w = "window_of (rl_tenant l) t" and ?w' = "window_of (rl_tenant l') t"
  show "?w' = ?w \<and> \<not> (adm \<and> rk_tenant c = t) \<or>
     ?w' = evict (rk_tenant_at c) ?w \<and> \<not> (adm \<and> rk_tenant c = t) \<or>
     rk_tenant c = t \<and> ?w' = evict (rk_tenant_at c) ?w @ [rk_tenant_at c] \<and>
     int (length (evict (rk_tenant_at c) ?w)) < rc_tenant_rpm (rl_config l)"
    using rate_step_windows(3) [OF s] by (cases "rk_tenant c = t") auto
  show "rc_tenant_rpm (rl_config l') = rc_tenant_rpm (rl_config l)"
    using rate_step_windows(1) [OF s] by simp
qed

interpretation write_layer: rate_layer rate_step "\<lambda>l. window_of (rl_writes l) t"
  "\<lambda>c. rk_tenant c = t \<and> rk_action c = ''write''" rk_write_at "\<lambda>l. rc_decision_rpm (rl_config l)" for t
proof
  fix c l adm l' assume s: "rate_step c l = (adm, l')"
  let ?w = "window_of (rl_writes l) t" and ?w' = "window_of (rl_writes l') t"
  let ?c = "rk_tenant c = t \<and> rk_action c = ''write''"
  show "?w' = ?w \<and> \<not> (adm \<and> ?c) \<or> ?w' = evict (rk_write_at c) ?w \<and> \<not> (adm \<and> ?c) \<or>
     ?c \<and> ?w' = evict (rk_write_at c) ?w @ [rk_write_at c] \<and>
     int (length (evict (rk_write_at c) ?w)) < rc_decision_rpm (rl_config l)"
    using rate_step_windows(4) [OF s] by (cases "rk_tenant c = t") auto
  show "rc_decision_rpm (rl_config l') = rc_decision_rpm (rl_config l)"
    using rate_step_windows(1) [OF s] by simp
qed

text \<open>
  C30: The limits hold in every minute.  For any sequence of calls with nondecreasing clock readings on a
  fresh limiter, the calls admitted in the 60 seconds up to any time \<open>T\<close> number at most \<open>global_rpm\<close> in all,
  \<open>tenant_rpm\<close> for each tenant and \<open>decision_rpm\<close> for the writes of each tenant (a negative limit counts as zero).
\<close>

theorem rate_limit_bounds:
  assumes "sorted (map rk_global_at cs)" "sorted (map rk_tenant_at cs)" "sorted (map rk_write_at cs)"
  shows "let ok = admitted rate_step (RateLimiter_init cfg) cs in
    cnt T (map rk_global_at ok) \<le> nat (rc_global_rpm cfg) \<and>
    cnt T (map rk_tenant_at (filter (\<lambda>c. rk_tenant c = t) ok)) \<le> nat (rc_tenant_rpm cfg) \<and>
    cnt T (map rk_write_at (filter (\<lambda>c. rk_tenant c = t \<and> rk_action c = ''write'') ok)) \<le> nat (rc_decision_rpm cfg)"
  using global_layer.fresh_bound [OF assms(1), of "RateLimiter_init cfg" T]
    tenant_layer.fresh_bound [OF assms(2), of "RateLimiter_init cfg" t T]
    write_layer.fresh_bound [OF assms(3), of "RateLimiter_init cfg" t T]
  by (simp add: RateLimiter_init_def window_of_def)

text \<open>A burst at one instant: three reads of \<open>a\<close> with a tenant limit of two, then a write of \<open>b\<close>.\<close>

definition burst_call :: "rat \<Rightarrow> string \<Rightarrow> string \<Rightarrow> rate_call" where
  "burst_call T t act = \<lparr>rk_global_at = T, rk_tenant_at = T, rk_write_at = T, rk_tenant = t, rk_action = act\<rparr>"

definition burst_config :: rate_config where
  "burst_config = \<lparr>rc_tenant_rpm = 2, rc_global_rpm = 3, rc_decision_rpm = 1\<rparr>"

theorem rate_limit_bounds_witness:
  "(let cs = map (\<lambda>T. burst_call T ''a'' ''write'') [1, 2, 3, 62] in
    cnt 62 (map rk_write_at (filter (\<lambda>c. rk_tenant c = ''a'' \<and> rk_action c = ''write'')
      (admitted rate_step (RateLimiter_init burst_config) cs))) \<le> 1 \<and>
    map rk_global_at (admitted rate_step (RateLimiter_init burst_config) cs) = [1, 62])"
  using rate_limit_bounds [of "map (\<lambda>T. burst_call T ''a'' ''write'') [1, 2, 3, 62]" burst_config 62 "''a''"]
  by (simp add: Let_def burst_call_def burst_config_def RateLimiter_init_def rate_step_def rate_check_def
      count_and_check_def evict_def window_of_def)

text \<open>Every call that finds room in the global window is counted there, whatever the later layers say.\<close>

lemma global_counts:
  assumes "\<forall>c\<in>set cs. T - 60 < rk_global_at c \<and> rk_global_at c \<le> T" "\<forall>x\<in>set (rl_global l). T - 60 < x"
    "int (length (rl_global l) + length cs) \<le> rc_global_rpm (rl_config l)"
  shows "rl_global (state_after rate_step l cs) = rl_global l @ map rk_global_at cs \<and>
    rl_config (state_after rate_step l cs) = rl_config l"
  using assms
proof (induction cs arbitrary: l)
  case (Cons c cs)
  obtain adm l' where s: "rate_step c l = (adm, l')" by (cases "rate_step c l")
  have "evict (rk_global_at c) (rl_global l) = rl_global l"
    using Cons.prems(1,2) by (fastforce simp: evict_def filter_id_conv)
  then have "rl_global l' = rl_global l @ [rk_global_at c]"
    using s Cons.prems(3)
    by (cases rule: count_and_check_cases [of "rk_global_at c" "rc_global_rpm (rl_config l)" "rl_global l"])
      (auto simp: rate_step_def rate_check_def Let_def count_and_check_def split: prod.splits option.splits bool.splits if_splits list.splits)
  then show ?case using Cons.IH [of l'] Cons.prems s rate_step_windows(1) [OF s] by auto
qed simp

text \<open>
  One tenant can starve the others.  The global window is counted before the tenant's own limit is looked
  at, and a call refused there stays counted: when a tenant makes \<open>global_rpm\<close> calls within 60 seconds, of which
  its own limit admits at most \<open>tenant_rpm\<close>, the next call of any tenant in that minute is refused.
\<close>

theorem tenant_starves_others:
  assumes "int (length cs) = rc_global_rpm cfg" "cs \<noteq> []" "\<forall>c\<in>set cs. rk_tenant c = a"
    "sorted (map rk_tenant_at cs)" "\<forall>c\<in>set cs. \<forall>x\<in>{rk_global_at c, rk_tenant_at c}. T - 60 < x \<and> x \<le> T"
  shows "int (length (admitted rate_step (RateLimiter_init cfg) cs)) \<le> max 0 (rc_tenant_rpm cfg) \<and>
    (\<exists>retry. fst (rate_check T now2 now3 b action (state_after rate_step (RateLimiter_init cfg) cs))
       = TooManyRequests GlobalScope (rc_global_rpm cfg) retry)"
proof
  let ?ok = "admitted rate_step (RateLimiter_init cfg) cs"
  have sub: "\<forall>c\<in>set ?ok. rk_tenant c = a \<and> T - 60 < rk_tenant_at c \<and> rk_tenant_at c \<le> T"
    using assms(3,5) admitted_sub by fastforce
  then have "filter (\<lambda>c. rk_tenant c = a) ?ok = ?ok" by (simp add: filter_id_conv)
  then have "cnt T (map rk_tenant_at ?ok) \<le> nat (rc_tenant_rpm cfg)"
    using tenant_layer.fresh_bound [OF assms(4), of "RateLimiter_init cfg" a T]
    by (simp add: RateLimiter_init_def window_of_def)
  moreover have "cnt T (map rk_tenant_at ?ok) = length ?ok" using sub by (induction ?ok) (auto simp: cnt_def filter_map)
  ultimately show "int (length ?ok) \<le> max 0 (rc_tenant_rpm cfg)" by linarith
next
  let ?l = "state_after rate_step (RateLimiter_init cfg) cs"
  have l: "rl_global ?l = map rk_global_at cs" "rl_config ?l = cfg"
    using global_counts [of cs T "RateLimiter_init cfg"] assms(1,5) by (simp_all add: RateLimiter_init_def)
  have "evict T (rl_global ?l) = map rk_global_at cs"
    using l(1) assms(5) by (simp add: evict_def filter_id_conv)
  then show "\<exists>retry. fst (rate_check T now2 now3 b action ?l) = TooManyRequests GlobalScope (rc_global_rpm cfg) retry"
    using assms(1,2) l(2) by (cases cs) (simp_all add: rate_check_def count_and_check_def)
qed

theorem tenant_starves_others_witness:
  "length (admitted rate_step (RateLimiter_init burst_config) (replicate 3 (burst_call 1 ''a'' ''read''))) \<le> 2 \<and>
   (\<exists>retry. fst (rate_check 2 2 2 ''b'' ''read''
      (state_after rate_step (RateLimiter_init burst_config) (replicate 3 (burst_call 1 ''a'' ''read''))))
    = TooManyRequests GlobalScope 3 retry)"
  using tenant_starves_others [of "replicate 3 (burst_call 1 ''a'' ''read'')" burst_config "''a''" 2 2 2 "''b''" "''read''"]
  by (simp add: burst_call_def burst_config_def numeral_3_eq_3)

end
