(* ===== verification/Auth.thy ===== *)
theory Auth
  imports Exceptions "HOL-Library.AList"
begin

text \<open>
  \<open>server/auth.py\<close>: the API keys of the environment variable \<open>ZORYNEX_API_KEYS\<close>, the permission matrix and
  the check in front of every endpoint.  The key table is an association list in insertion order, as the
  \<open>dict\<close> of the code.  The theorems relate the answer of the check to the text of the variable.
\<close>

subsection \<open>Roles and permissions\<close>

definition ROLE_ADMIN :: string where "ROLE_ADMIN = ''admin''"
definition ROLE_AUDITOR :: string where "ROLE_AUDITOR = ''auditor''"
definition ROLE_SYSTEM :: string where "ROLE_SYSTEM = ''system''"


definition PERMISSIONS :: "(string \<times> string list) list" where
  "PERMISSIONS =
     [(''record_decision'', [ROLE_ADMIN, ROLE_SYSTEM]),
      (''read_proof'', [ROLE_ADMIN, ROLE_AUDITOR, ROLE_SYSTEM]),
      (''verify_proof'', [ROLE_ADMIN, ROLE_AUDITOR, ROLE_SYSTEM]),
      (''manage_keys'', [ROLE_ADMIN]),
      (''view_metrics'', [ROLE_ADMIN]),
      (''system_root'', [ROLE_ADMIN, ROLE_AUDITOR]),
      (''webhook_send'', [ROLE_ADMIN, ROLE_SYSTEM])]"

record auth_context =
  ac_api_key :: string
  ac_role :: string
  ac_key_id :: string

subsection \<open>The key table\<close>

type_synonym key_table = "(string \<times> string) list"




definition resolve :: "key_table \<Rightarrow> string option \<Rightarrow> auth_context option" where
  "resolve keys api_key =
     (case api_key of None \<Rightarrow> None
      | Some k \<Rightarrow> if k = [] then None
          else (case map_of keys k of None \<Rightarrow> None
                | Some role \<Rightarrow> Some \<lparr>ac_api_key = k, ac_role = role, ac_key_id = take 8 k @ ''...''\<rparr>))"

subsection \<open>The check of an endpoint\<close>

text \<open>
  The answers 401 and 403.  A denial carries the role, the roles that would do, and the actor of the audit
  line that the logger writes.
\<close>

datatype auth_error = Unauthorized | Forbidden string "string list" string

definition require_role :: "string list \<Rightarrow> key_table \<Rightarrow> string option \<Rightarrow> auth_error + auth_context" where
  "require_role allowed keys api_key =
     (case resolve keys api_key of
        None \<Rightarrow> Inl Unauthorized
      | Some ctx \<Rightarrow>
          if ac_role ctx \<notin> set allowed
          then Inl (Forbidden (ac_role ctx) (sort (remdups allowed))
                 (if 8 < length (ac_api_key ctx) then take 8 (ac_api_key ctx) @ ''...'' else ac_api_key ctx))
          else Inr ctx)"

definition require_permission :: "string \<Rightarrow> exc + (key_table \<Rightarrow> string option \<Rightarrow> auth_error + auth_context)" where
  "require_permission action =
     (case map_of PERMISSIONS action of
        None \<Rightarrow> Inl (ValueError ''Unknown permission'')
      | Some allowed \<Rightarrow> Inr (require_role allowed))"

text \<open>The prepared dependencies.\<close>

definition RequireAdmin :: "key_table \<Rightarrow> string option \<Rightarrow> auth_error + auth_context" where
  "RequireAdmin = require_role [ROLE_ADMIN]"
definition RequireAuditor :: "key_table \<Rightarrow> string option \<Rightarrow> auth_error + auth_context" where
  "RequireAuditor = require_role [ROLE_ADMIN, ROLE_AUDITOR]"
definition RequireSystem :: "key_table \<Rightarrow> string option \<Rightarrow> auth_error + auth_context" where
  "RequireSystem = require_role [ROLE_ADMIN, ROLE_SYSTEM]"
definition RequireRead :: "key_table \<Rightarrow> string option \<Rightarrow> auth_error + auth_context" where
  "RequireRead = require_role [ROLE_ADMIN, ROLE_AUDITOR, ROLE_SYSTEM]"

subsection \<open>What the variable grants\<close>











text \<open>
  The separation of duties that the module promises is not what the matrix gives: every key that may record
  decisions may also read proofs and verify them.
\<close>

theorem recorders_can_read:
  assumes "require_permission ''record_decision'' = Inr check" "check keys hdr = Inr ctx" "action \<in> {''read_proof'', ''verify_proof''}"
  shows "\<exists>check'. require_permission action = Inr check' \<and> check' keys hdr = Inr ctx"
proof -
  have p: "map_of PERMISSIONS ''record_decision'' = Some [ROLE_ADMIN, ROLE_SYSTEM]"
    "map_of PERMISSIONS action = Some [ROLE_ADMIN, ROLE_AUDITOR, ROLE_SYSTEM]"
    using assms(3) by (auto simp: PERMISSIONS_def)
  then have "require_role [ROLE_ADMIN, ROLE_SYSTEM] keys hdr = Inr ctx"
    using assms(1,2) by (simp add: require_permission_def)
  then have "require_role [ROLE_ADMIN, ROLE_AUDITOR, ROLE_SYSTEM] keys hdr = Inr ctx"
    by (auto simp: require_role_def split: option.splits if_splits)
  then show ?thesis using p(2) by (simp add: require_permission_def)
qed

end
