(* ===== verification/Webhook.thy ===== *)
theory Webhook
  imports AuditLog JsonText Complex_Main "HOL-Library.AList"
begin

unbundle bit_operations_syntax

text \<open>
  \<open>server/webhook.py\<close>: outbound webhooks are signed with HMAC-SHA256 over \<open>timestamp.nonce.body\<close>, inbound ones
  checked for their headers, the age of their timestamp, a nonce not seen before, and the signature.  The
  secret and the tolerance come from the environment; clock values are rational numbers.  The body is the text
  that decoding gives, \<^const>\<open>None\<close> when its bytes are not UTF-8.  The theorems show that a signed delivery is
  accepted, when a nonce can be accepted twice, and what a forged request does to a genuine one.
\<close>

subsection \<open>The nonce store\<close>

type_synonym nonce_store = "(string \<times> rat) list"

definition check_and_store :: "int \<Rightarrow> rat \<Rightarrow> string \<Rightarrow> int option \<Rightarrow> nonce_store \<Rightarrow> bool \<times> nonce_store" where
  "check_and_store tolerance now nonce ttl_s store =
     (let ttl = (case ttl_s of None \<Rightarrow> tolerance * 2 | Some t \<Rightarrow> t);
          store = filter (\<lambda>(n, exp). now < exp) store
      in if nonce \<in> fst ` set store then (False, store)
         else (True, AList.update nonce (now + of_int ttl) store))"

definition nonce_store_size :: "nonce_store \<Rightarrow> nat" where
  "nonce_store_size store = length store"

subsection \<open>HMAC\<close>

text \<open>\<open>hmac.new(key, msg, sha256)\<close>: RFC 2104 with blocks of 64 bytes.\<close>

definition hmac_key :: "ext \<Rightarrow> bytes \<Rightarrow> bytes" where
  "hmac_key x key = (let k = (if 64 < length key then x_sha256 x key else key) in k @ replicate (64 - length k) 0)"

definition hmac_sha256 :: "ext \<Rightarrow> bytes \<Rightarrow> bytes \<Rightarrow> bytes" where
  "hmac_sha256 x key msg =
     (let k = hmac_key x key
      in x_sha256 x (map (\<lambda>b. b XOR 0x5C) k @ x_sha256 x (map (\<lambda>b. b XOR 0x36) k @ msg)))"

definition compute_hmac :: "ext \<Rightarrow> bytes \<Rightarrow> string \<Rightarrow> string \<Rightarrow> string \<Rightarrow> string" where
  "compute_hmac x secret timestamp nonce body =
     hex (hmac_sha256 x secret (utf8 (timestamp @ ''.'' @ nonce @ ''.'' @ body)))"

definition ct_equal :: "string \<Rightarrow> string \<Rightarrow> bool" where
  "ct_equal a b = (utf8 a = utf8 b)"

subsection \<open>Outbound\<close>

record signed_webhook =
  sw_body :: string
  sw_headers :: "(string \<times> string) list"

text \<open>\<^const>\<open>None\<close> is the \<open>TypeError\<close> of \<open>json.dumps\<close>.  \<open>int(time.time())\<close> is the floor, the clock being positive.\<close>

definition webhook_envelope :: "string \<Rightarrow> int \<Rightarrow> string \<Rightarrow> pydict \<Rightarrow> pyval" where
  "webhook_envelope event_type ts nonce data =
     PyDict [(KStr ''event'', PyStr event_type), (KStr ''timestamp'', PyInt ts), (KStr ''nonce'', PyStr nonce),
             (KStr ''data'', PyDict data)]"

definition sign_webhook :: "ext \<Rightarrow> bytes \<Rightarrow> rat \<Rightarrow> string \<Rightarrow> string \<Rightarrow> pydict \<Rightarrow> signed_webhook option" where
  "sign_webhook x secret now nonce event_type data =
     (let ts = \<lfloor>now\<rfloor>
      in map_option (\<lambda>body. \<lparr>sw_body = body, sw_headers =
           [(''Content-Type'', ''application/json''),
            (''X-Zorynex-Signature'', ''sha256='' @ compute_hmac x secret (show_int ts) nonce body),
            (''X-Zorynex-Timestamp'', show_int ts),
            (''X-Zorynex-Nonce'', nonce),
            (''X-Zorynex-Event'', event_type)]\<rparr>)
         (json_dumps False (webhook_envelope event_type ts nonce data)))"

subsection \<open>Inbound\<close>

record web_request =
  wr_headers :: "(string \<times> string) list"
  wr_body :: "string option"

text \<open>\<open>request.headers.get(name, "")\<close>: names are compared without regard to case, the first match counts.\<close>

definition header_get :: "web_request \<Rightarrow> string \<Rightarrow> string" where
  "header_get r name = (case find (\<lambda>(n, v). lower n = lower name) (wr_headers r) of Some (n, v) \<Rightarrow> v | None \<Rightarrow> [])"

text \<open>
  \<open>int\<close> of a header refuses more than 4300 digits.  The difference with the clock is a float: a value that rounds
  to \<open>2 ^ 1024\<close> or beyond raises \<open>OverflowError\<close>.
\<close>

definition ts_of_header :: "string \<Rightarrow> int option" where
  "ts_of_header s = (if 4300 < length (filter is_digit s) then None else int_of_str s)"

definition float_overflow :: "int \<Rightarrow> bool" where
  "float_overflow i \<longleftrightarrow> 2 ^ 1024 - 2 ^ 970 \<le> \<bar>i\<bar>"

text \<open>The answers of the dependency: 401 with a code, 400 for the JSON, and the two exceptions nothing catches.\<close>

datatype webhook_error =
    MissingHeaders | InvalidTimestamp | TimestampExpired int int | ReplayDetected string
  | InvalidSigFormat | SignatureInvalid | InvalidJson | UncaughtOverflowError | UncaughtUnicodeDecodeError

definition verify_webhook_request ::
  "ext \<Rightarrow> bytes \<Rightarrow> int \<Rightarrow> rat \<Rightarrow> rat \<Rightarrow> web_request \<Rightarrow> nonce_store \<Rightarrow> (webhook_error + pyval) \<times> nonce_store" where
  "verify_webhook_request x secret tolerance now1 now2 request store =
     (let sig_header = header_get request ''X-Zorynex-Signature'';
          ts_header = header_get request ''X-Zorynex-Timestamp'';
          nonce = header_get request ''X-Zorynex-Nonce''
      in if sig_header = [] \<or> ts_header = [] \<or> nonce = [] then (Inl MissingHeaders, store)
         else case ts_of_header ts_header of
           None \<Rightarrow> (Inl InvalidTimestamp, store)
         | Some ts \<Rightarrow>
             if float_overflow ts then (Inl UncaughtOverflowError, store)
             else let age = \<bar>now1 - of_int ts\<bar>
             in if of_int tolerance < age then (Inl (TimestampExpired \<lfloor>age\<rfloor> tolerance), store)
             else case check_and_store tolerance now2 nonce None store of
               (False, store) \<Rightarrow> (Inl (ReplayDetected nonce), store)
             | (True, store) \<Rightarrow>
                (case wr_body request of
                   None \<Rightarrow> (Inl UncaughtUnicodeDecodeError, store)
                 | Some body_str \<Rightarrow>
                     if \<not> startswith sig_header ''sha256='' then (Inl InvalidSigFormat, store)
                     else let claimed_sig = drop (length ''sha256='') sig_header;
                              expected_sig = compute_hmac x secret ts_header nonce body_str
                     in if \<not> ct_equal claimed_sig expected_sig then (Inl SignatureInvalid, store)
                     else case body_loads body_str of
                       None \<Rightarrow> (Inl InvalidJson, store)
                     | Some v \<Rightarrow> (Inr v, store)))"

subsection \<open>A signed delivery is accepted\<close>

lemma is_digit_not: "is_digit c \<Longrightarrow> \<not> int_space c \<and> c \<noteq> CHR ''_'' \<and> c \<noteq> CHR ''+'' \<and> c \<noteq> CHR ''-''"
  by (auto simp: is_digit_def int_space_def ascii_space_def)

lemma digrun_digits: "s \<noteq> [] \<Longrightarrow> list_all is_digit s \<Longrightarrow> digrun s"
  by (induction s rule: digrun.induct) (auto dest: is_digit_not)

lemma int_of_str_show [simp]: "int_of_str (show_int i) = Some i"
proof -
  let ?d = "show_nat (nat \<bar>i\<bar>)"
  obtain c r where d: "?d = c # r" by (cases ?d) auto
  have dig: "list_all is_digit ?d" by (auto simp: list_all_iff dest: show_nat_digits)
  then have f: "filter is_digit ?d = ?d" by (simp add: list_all_iff filter_id_conv)
  have run: "digrun ?d" using dig by (intro digrun_digits) auto
  have l: "is_digit (last ?d)" by (rule show_nat_digits [of _ "nat \<bar>i\<bar>"]) simp
  have ends: "dropWhile int_space ?d = ?d" "dropWhile int_space (rev ?d) = rev ?d" "drop_sign ?d = ?d" "hd ?d \<noteq> CHR ''-''"
    using dig d is_digit_not [of c] is_digit_not [OF l]
    by (auto simp: drop_sign_def hd_rev intro!: dropWhile_none simp del: rev.simps split: if_splits)
  show ?thesis
  proof (cases "i < 0")
    case True
    have "dropWhile int_space (rev ?d @ ''-'') = rev ?d @ ''-''"
      using is_digit_not [OF l] by (intro dropWhile_none) (simp add: hd_rev hd_append)
    with True show ?thesis using run f
      by (simp add: int_of_str_def show_int_def Let_def drop_sign_def int_space_def ascii_space_def)
  next
    case False
    then show ?thesis using run f ends by (simp add: int_of_str_def show_int_def Let_def)
  qed
qed

lemma length_show_nat: "n < 10 ^ Suc k \<Longrightarrow> length (show_nat n) \<le> Suc k"
proof (induction k arbitrary: n)
  case 0
  then show ?case by (simp add: show_nat.simps [of n])
next
  case (Suc k)
  show ?case
  proof (cases "n < 10")
    case False
    have "n div 10 < 10 ^ Suc k" using Suc.prems by (simp add: less_mult_imp_div_less)
    with Suc.IH [of "n div 10"] False show ?thesis by (simp add: show_nat.simps [of n])
  qed (simp add: show_nat.simps [of n])
qed

lemma ts_of_header_show: "0 \<le> i \<Longrightarrow> i < 2 ^ 64 \<Longrightarrow> ts_of_header (show_int i) = Some i \<and> \<not> float_overflow i"
proof -
  assume i: "0 \<le> i" "i < 2 ^ 64"
  then have "nat i < 10 ^ Suc 19" by simp
  then have "length (filter is_digit (show_nat (nat i))) \<le> Suc 19"
    using length_show_nat length_filter_le le_trans by blast
  moreover have "(2::int) ^ 64 \<le> 2 ^ 1024 - 2 ^ 970" by simp
  ultimately show "ts_of_header (show_int i) = Some i \<and> \<not> float_overflow i"
    using i int_of_str_show [of i] by (simp add: ts_of_header_def float_overflow_def show_int_def del: int_of_str_show)
qed

lemma header_names:
  "lower ''Content-Type'' = ''content-type''" "lower ''X-Zorynex-Signature'' = ''x-zorynex-signature''"
  "lower ''X-Zorynex-Timestamp'' = ''x-zorynex-timestamp''" "lower ''X-Zorynex-Nonce'' = ''x-zorynex-nonce''"
  by code_simp+

text \<open>The request that carries a signed payload, with the further headers a client adds behind.\<close>

definition delivery :: "signed_webhook \<Rightarrow> (string \<times> string) list \<Rightarrow> web_request" where
  "delivery sw others = \<lparr>wr_headers = sw_headers sw @ others, wr_body = Some (sw_body sw)\<rparr>"

lemma delivery_headers:
  assumes "sign_webhook x secret now nonce ev data = Some sw"
  shows "header_get (delivery sw others) ''X-Zorynex-Signature'' = ''sha256='' @ compute_hmac x secret (show_int \<lfloor>now\<rfloor>) nonce (sw_body sw)"
    and "header_get (delivery sw others) ''X-Zorynex-Timestamp'' = show_int \<lfloor>now\<rfloor>"
    and "header_get (delivery sw others) ''X-Zorynex-Nonce'' = nonce"
  using assms by (auto simp: sign_webhook_def Let_def header_get_def delivery_def header_names)

lemma check_and_store_fresh:
  "\<forall>(n, exp)\<in>set store. n = nonce \<longrightarrow> exp \<le> now \<Longrightarrow>
   check_and_store tol now nonce None store
     = (True, AList.update nonce (now + of_int (tol * 2)) (filter (\<lambda>(n, exp). now < exp) store))"
  by (auto simp: check_and_store_def Let_def)

lemma show_int_nonempty [simp]: "show_int i \<noteq> []"
  by (simp add: show_int_def)

text \<open>
  C32: A signed webhook is accepted.  Whatever plain data is signed, with any secret and nonce, the delivery is
  accepted by a receiver with the same secret whose clock is within the tolerance and that has no live entry
  for the nonce; the receiver gets the envelope back (keys sorted) and stores the nonce for twice the tolerance.
\<close>

theorem webhook_roundtrip:
  assumes "plain (PyDict data)" "wf_val (PyDict data)" "nonce \<noteq> []" "0 \<le> now" "now < 2 ^ 64"
    "\<bar>now1 - of_int \<lfloor>now\<rfloor>\<bar> \<le> of_int tol" "\<forall>(n, exp)\<in>set store. n = nonce \<longrightarrow> exp \<le> now2"
  shows "\<exists>sw. sign_webhook x secret now nonce event_type data = Some sw \<and>
    verify_webhook_request x secret tol now1 now2 (delivery sw others) store =
      (Inr (Json.norm (webhook_envelope event_type \<lfloor>now\<rfloor> nonce data)),
       AList.update nonce (now2 + of_int (tol * 2)) (filter (\<lambda>(n, exp). now2 < exp) store))"
proof -
  let ?e = "webhook_envelope event_type \<lfloor>now\<rfloor> nonce data"
  have e: "plain ?e" "wf_val ?e" using assms(1,2) by (simp_all add: webhook_envelope_def)
  then have d: "json_dumps False ?e = Some (emit False (Json.norm ?e))" by (simp add: json_dumps_plain)
  obtain sw where sw: "sign_webhook x secret now nonce event_type data = Some sw" and b: "sw_body sw = emit False (Json.norm ?e)"
    by (simp add: sign_webhook_def Let_def d)
  have "body_loads (sw_body sw) = Some (Json.norm ?e)"
    using body_loads_dumps [OF e] d b by simp
  moreover have "0 \<le> \<lfloor>now\<rfloor>" "\<lfloor>now\<rfloor> < 2 ^ 64" using assms(4,5) by (simp_all add: floor_less_iff)
  ultimately have "verify_webhook_request x secret tol now1 now2 (delivery sw others) store =
      (Inr (Json.norm ?e), AList.update nonce (now2 + of_int (tol * 2)) (filter (\<lambda>(n, exp). now2 < exp) store))"
    using assms(3,6) ts_of_header_show [of "\<lfloor>now\<rfloor>"] check_and_store_fresh [OF assms(7), of tol]
    by (simp add: verify_webhook_request_def delivery_headers [OF sw] Let_def)
      (simp add: delivery_def startswith_def ct_equal_def)
  with sw show ?thesis by blast
qed

theorem webhook_roundtrip_witness:
  "\<exists>sw. sign_webhook sample_ext (utf8 ''secret'') (2001 / 2) ''n1'' ''decision'' [(KStr ''ok'', PyBool True)] = Some sw \<and>
    fst (verify_webhook_request sample_ext (utf8 ''secret'') 300 1200 1200 (delivery sw []) [(''n1'', 900)]) =
      Inr (PyDict [(KStr ''data'', PyDict [(KStr ''ok'', PyBool True)]), (KStr ''event'', PyStr ''decision''),
             (KStr ''nonce'', PyStr ''n1''), (KStr ''timestamp'', PyInt 1000)])"
proof -
  let ?d = "[(KStr ''ok'', PyBool True)]"
  have f: "\<lfloor>2001 / 2 :: rat\<rfloor> = 1000" by (simp add: floor_eq_iff)
  obtain sw where "sign_webhook sample_ext (utf8 ''secret'') (2001 / 2) ''n1'' ''decision'' ?d = Some sw"
    "fst (verify_webhook_request sample_ext (utf8 ''secret'') 300 1200 1200 (delivery sw []) [(''n1'', 900)]) =
     Inr (Json.norm (webhook_envelope ''decision'' 1000 ''n1'' ?d))"
    using webhook_roundtrip [of ?d "''n1''" "2001 / 2" 1200 300 "[(''n1'', 900)]" 1200 sample_ext "utf8 ''secret''" "''decision''" "[]"]
    by (auto simp: f)
  moreover have "Json.norm (webhook_envelope ''decision'' 1000 ''n1'' ?d) =
     PyDict [(KStr ''data'', PyDict ?d), (KStr ''event'', PyStr ''decision''), (KStr ''nonce'', PyStr ''n1''), (KStr ''timestamp'', PyInt 1000)]"
    by code_simp
  ultimately show ?thesis by metis
qed

subsection \<open>Replays\<close>

text \<open>What acceptance and refusal mean for the store.\<close>

lemma accepted_checks:
  assumes "verify_webhook_request x secret tol now1 now2 r store = (Inr v, store')"
  obtains ts where "ts_of_header (header_get r ''X-Zorynex-Timestamp'') = Some ts" "\<bar>now1 - of_int ts\<bar> \<le> of_int tol"
    "check_and_store tol now2 (header_get r ''X-Zorynex-Nonce'') None store = (True, store')"
  using assms
  by (auto simp: verify_webhook_request_def Let_def split: if_splits option.splits prod.splits bool.splits)

lemma verify_store:
  assumes "verify_webhook_request x secret tol now1 now2 r store = (a, store')"
  shows "store' = store \<or> store' = snd (check_and_store tol now2 (header_get r ''X-Zorynex-Nonce'') None store)"
  using assms
  by (auto simp: verify_webhook_request_def Let_def split: if_splits option.splits prod.splits bool.splits)

text \<open>
  Requests served one after the other, with nondecreasing clocks.  The log holds the accepted requests, the
  latest first: nonce, timestamp, and the two clock values at which the age and the nonce were looked at.
\<close>

record accepted =
  wa_nonce :: string
  wa_ts :: int
  wa_age_at :: rat
  wa_nonce_at :: rat

inductive webhook_run :: "ext \<Rightarrow> bytes \<Rightarrow> int \<Rightarrow> rat \<Rightarrow> accepted list \<Rightarrow> nonce_store \<Rightarrow> bool" for x secret tol where
  start: "webhook_run x secret tol t [] []"
| refuse: "webhook_run x secret tol t past store \<Longrightarrow> t \<le> now1 \<Longrightarrow> now1 \<le> now2 \<Longrightarrow>
    verify_webhook_request x secret tol now1 now2 r store = (Inl e, store') \<Longrightarrow> webhook_run x secret tol now2 past store'"
| accept: "webhook_run x secret tol t past store \<Longrightarrow> t \<le> now1 \<Longrightarrow> now1 \<le> now2 \<Longrightarrow>
    verify_webhook_request x secret tol now1 now2 r store = (Inr v, store') \<Longrightarrow>
    ts_of_header (header_get r ''X-Zorynex-Timestamp'') = Some ts \<Longrightarrow>
    webhook_run x secret tol now2
      (\<lparr>wa_nonce = header_get r ''X-Zorynex-Nonce'', wa_ts = ts, wa_age_at = now1, wa_nonce_at = now2\<rparr> # past) store'"

text \<open>An accepted nonce stays in the store for twice the tolerance.\<close>

definition held :: "int \<Rightarrow> rat \<Rightarrow> nonce_store \<Rightarrow> accepted \<Rightarrow> bool" where
  "held tol t store e \<longleftrightarrow> wa_nonce_at e \<le> t \<and>
     (t < wa_nonce_at e + of_int (tol * 2) \<longrightarrow> (\<exists>exp. (wa_nonce e, exp) \<in> set store \<and> wa_nonce_at e + of_int (tol * 2) \<le> exp))"

lemma held_later: "held tol t store e \<Longrightarrow> t \<le> t' \<Longrightarrow> held tol t' store e"
  by (auto simp: held_def)

lemma update_keeps: "(n, u) \<in> set store \<Longrightarrow> n \<noteq> k \<Longrightarrow> (n, u) \<in> set (AList.update k v store)"
  by (induction store) auto

lemma check_and_store_held:
  assumes "held tol t store e" "t \<le> now" "check_and_store tol now nonce None store = (ok, store')"
  shows "held tol now store' e" "ok \<Longrightarrow> wa_nonce e = nonce \<Longrightarrow> wa_nonce_at e + of_int (tol * 2) \<le> now"
proof -
  let ?live = "filter (\<lambda>(n, exp). now < exp) store"
  have keep: "\<exists>exp. (wa_nonce e, exp) \<in> set ?live \<and> wa_nonce_at e + of_int (tol * 2) \<le> exp"
    if "now < wa_nonce_at e + of_int (tol * 2)"
    using assms(1,2) that unfolding held_def by fastforce
  have store': "store' = ?live \<or> store' = AList.update nonce (now + of_int (tol * 2)) ?live \<and> nonce \<notin> fst ` set ?live"
    using assms(3) by (auto simp: check_and_store_def Let_def split: if_splits)
  have "\<exists>exp. (wa_nonce e, exp) \<in> set store' \<and> wa_nonce_at e + of_int (tol * 2) \<le> exp"
    if late: "now < wa_nonce_at e + of_int (tol * 2)"
  proof -
    obtain exp where exp: "(wa_nonce e, exp) \<in> set ?live" "wa_nonce_at e + of_int (tol * 2) \<le> exp" using keep [OF late] by blast
    then have "nonce \<notin> fst ` set ?live \<Longrightarrow> wa_nonce e \<noteq> nonce" by (metis fst_conv image_eqI)
    then have "(wa_nonce e, exp) \<in> set store'" using store' update_keeps [OF exp(1)] exp(1) by metis
    with exp(2) show ?thesis by blast
  qed
  then show "held tol now store' e" using assms(1,2) unfolding held_def by auto
  show "wa_nonce_at e + of_int (tol * 2) \<le> now" if "ok" "wa_nonce e = nonce"
    using assms(3) keep that by (force simp: check_and_store_def Let_def split: if_splits)
qed

text \<open>Two accepted requests with the same nonce are twice the tolerance apart.\<close>

definition apart :: "int \<Rightarrow> accepted \<Rightarrow> accepted \<Rightarrow> bool" where
  "apart tol later earlier \<longleftrightarrow> wa_nonce later = wa_nonce earlier \<longrightarrow>
     wa_nonce_at earlier + of_int (tol * 2) \<le> wa_nonce_at later"

lemma webhook_run_inv:
  "webhook_run x secret tol t past store \<Longrightarrow>
   sorted_wrt (apart tol) past \<and> list_all (held tol t store) past \<and>
   list_all (\<lambda>e. \<bar>wa_age_at e - of_int (wa_ts e)\<bar> \<le> of_int tol) past"
proof (induction rule: webhook_run.induct)
  case (refuse t past store now1 now2 r e store')
  let ?c = "check_and_store tol now2 (header_get r ''X-Zorynex-Nonce'') None store"
  obtain ok st where c: "?c = (ok, st)" by (cases ?c)
  from verify_store [OF refuse(4)] have "store' = store \<or> store' = st" by (simp add: c)
  moreover have "held tol now2 store a \<and> held tol now2 st a" if "a \<in> set past" for a
    using refuse that held_later [of tol t store a now2] check_and_store_held(1) [OF _ _ c, of t a] by (auto simp: list_all_iff)
  ultimately show ?case using refuse.IH by (auto simp: list_all_iff)
next
  case (accept t past store now1 now2 r v store' ts)
  let ?n = "header_get r ''X-Zorynex-Nonce''"
  obtain ts' where ts': "ts_of_header (header_get r ''X-Zorynex-Timestamp'') = Some ts'" "\<bar>now1 - of_int ts'\<bar> \<le> of_int tol"
    and c: "check_and_store tol now2 ?n None store = (True, store')"
    by (rule accepted_checks [OF accept(4)])
  have old: "held tol now2 store' a \<and> (wa_nonce a = ?n \<longrightarrow> wa_nonce_at a + of_int (tol * 2) \<le> now2)" if "a \<in> set past" for a
    using accept that check_and_store_held [OF _ _ c, of t a] by (auto simp: list_all_iff)
  have "(?n, now2 + of_int (tol * 2)) \<in> set store'"
    using c by (auto simp: check_and_store_def Let_def split: if_splits intro: map_of_SomeD simp: update_conv')
  with accept.IH old ts' accept(5) show ?case
    by (auto simp: list_all_iff held_def apart_def)
qed simp

text \<open>
  C33: No replays, up to the boundary.  When two requests with the same nonce and timestamp were accepted in a
  run, the second came at least twice the tolerance after the first.  As both were within the tolerance of the
  timestamp, the first was accepted at the very start of its time (a timestamp in the future by the tolerance,
  less the delay between the two clock readings of the second): a timestamp that was not in the future rules a
  replay out unless serving the second request paused for the whole tolerance.
\<close>

theorem no_replay:
  assumes "webhook_run x secret tol t past store" "past = later @ e2 # mid @ e1 # older"
    "wa_nonce e1 = wa_nonce e2" "wa_ts e1 = wa_ts e2"
  shows "wa_nonce_at e1 + of_int (2 * tol) \<le> wa_nonce_at e2 \<and>
    wa_age_at e1 - (of_int (wa_ts e1) - of_int tol) \<le> (wa_nonce_at e2 - wa_age_at e2) - (wa_nonce_at e1 - wa_age_at e1) \<and>
    (of_int (wa_ts e1) \<le> wa_age_at e1 \<longrightarrow>
       of_int tol \<le> (wa_nonce_at e2 - wa_age_at e2) - (wa_nonce_at e1 - wa_age_at e1))"
proof -
  have i: "wa_nonce_at e1 + of_int (tol * 2) \<le> wa_nonce_at e2" "\<bar>wa_age_at e2 - of_int (wa_ts e2)\<bar> \<le> of_int tol"
    using webhook_run_inv [OF assms(1)] assms(2,3) by (simp_all add: sorted_wrt_append apart_def)
  then have "wa_age_at e2 \<le> of_int (wa_ts e1) + of_int tol" using assms(4) by linarith
  moreover have "wa_nonce_at e1 + 2 * of_int tol \<le> wa_nonce_at e2" using i(1) by simp
  ultimately show ?thesis by (simp add: algebra_simps)
qed

text \<open>
  The boundary is real: with the tolerance of 300 seconds, a delivery stamped 1300 is accepted at 1000 and, byte
  for byte the same, again at 1600, when its entry in the store has just expired.
\<close>

definition stamped :: "string \<Rightarrow> string \<Rightarrow> web_request" where
  "stamped nonce sig = \<lparr>wr_headers = [(''x-zorynex-signature'', sig), (''x-zorynex-timestamp'', ''1300''), (''x-zorynex-nonce'', nonce)],
     wr_body = Some ''{}''\<rparr>"

definition stamped_sig :: "string \<Rightarrow> string" where
  "stamped_sig nonce = ''sha256='' @ compute_hmac sample_ext (utf8 ''secret'') ''1300'' nonce ''{}''"

lemma stamped_headers:
  "header_get (stamped n s) ''X-Zorynex-Signature'' = s" "header_get (stamped n s) ''X-Zorynex-Timestamp'' = ''1300''"
  "header_get (stamped n s) ''X-Zorynex-Nonce'' = n" "wr_body (stamped n s) = Some ''{}''"
  "ts_of_header ''1300'' = Some 1300" "\<not> float_overflow 1300" "body_loads ''{}'' = Some (PyDict [])"
  by (simp_all add: stamped_def header_get_def header_names lower_def lower_char_def cp_def) code_simp+

lemma stamped_accepted:
  "n \<noteq> [] \<Longrightarrow> 1000 \<le> now1 \<Longrightarrow> now1 \<le> 1600 \<Longrightarrow> \<forall>(m, u)\<in>set store. m = n \<longrightarrow> u \<le> now2 \<Longrightarrow>
   verify_webhook_request sample_ext (utf8 ''secret'') 300 now1 now2 (stamped n (stamped_sig n)) store
     = (Inr (PyDict []), AList.update n (now2 + 600) (filter (\<lambda>(m, u). now2 < u) store))"
  using check_and_store_fresh [of store n now2 300]
  by (simp add: verify_webhook_request_def stamped_headers Let_def ct_equal_def abs_le_iff)
    (simp add: stamped_sig_def startswith_def)

theorem no_replay_witness:
  "\<exists>e1 e2 store. webhook_run sample_ext (utf8 ''secret'') 300 1600 [e2, e1] store \<and> wa_nonce e1 = wa_nonce e2 \<and>
     wa_ts e1 = wa_ts e2 \<and> wa_age_at e1 - (of_int (wa_ts e1) - 300) \<le> 0"
proof -
  let ?e = "\<lambda>t. \<lparr>wa_nonce = ''n'', wa_ts = 1300, wa_age_at = t, wa_nonce_at = t\<rparr>"
  note acc = webhook_run.accept [where r = "stamped ''n'' (stamped_sig ''n'')" and ts = 1300, unfolded stamped_headers(2,3,5)]
  have "webhook_run sample_ext (utf8 ''secret'') 300 1000 [?e 1000] [(''n'', 1600)]"
    by (rule acc [OF webhook_run.start [of _ _ _ 0]]) (simp_all add: stamped_accepted)
  then have run: "webhook_run sample_ext (utf8 ''secret'') 300 1600 [?e 1600, ?e 1000] [(''n'', 2200)]"
    by (rule acc) (simp_all add: stamped_accepted)
  show ?thesis
    using no_replay [OF run, of "[]" "?e 1600" "[]" "?e 1000" "[]"] run by fastforce
qed

text \<open>
  A forged request spends the nonce of a genuine one.  The nonce is stored before the signature is looked at:
  when a request with the nonce of a delivery but without its signature arrives first and is refused for its
  signature, the genuine delivery, due and correctly signed, is refused as a replay for twice the tolerance.
\<close>

theorem forged_request_burns_nonce:
  assumes "verify_webhook_request x secret tol now1 now2 forged store = (Inl e, store')"
    "e \<in> {SignatureInvalid, InvalidSigFormat, UncaughtUnicodeDecodeError}"
    "header_get forged ''X-Zorynex-Nonce'' = nonce" "now2 \<le> now4" "now4 < now2 + of_int (2 * tol)"
    "sign_webhook x secret now nonce event_type data = Some sw" "0 \<le> now" "now < 2 ^ 64" "\<bar>now3 - of_int \<lfloor>now\<rfloor>\<bar> \<le> of_int tol"
  shows "fst (verify_webhook_request x secret tol now3 now4 (delivery sw others) store') = Inl (ReplayDetected nonce)"
proof -
  have n: "nonce \<noteq> []" and c: "check_and_store tol now2 nonce None store = (True, store')"
    using assms(1-3)
    by (auto simp: verify_webhook_request_def Let_def split: if_splits option.splits prod.splits bool.splits)
  have "(nonce, now2 + of_int (tol * 2)) \<in> set store'"
    using c by (auto simp: check_and_store_def Let_def update_conv' split: if_splits intro: map_of_SomeD)
  then have "nonce \<in> fst ` set (filter (\<lambda>(n, u). now4 < u) store')"
    using assms(5) by (force simp: mult.commute)
  then have "fst (check_and_store tol now4 nonce None store') = False" by (simp add: check_and_store_def Let_def)
  then obtain st where st: "check_and_store tol now4 nonce None store' = (False, st)" by (metis prod.collapse)
  have "0 \<le> \<lfloor>now\<rfloor>" "\<lfloor>now\<rfloor> < 2 ^ 64" using assms(7,8) by (simp_all add: floor_less_iff)
  then show ?thesis
    using n st assms(9) ts_of_header_show [of "\<lfloor>now\<rfloor>"]
    by (simp add: verify_webhook_request_def delivery_headers [OF assms(6)])
qed

theorem forged_request_burns_nonce_witness:
  "\<exists>sw store. sign_webhook sample_ext (utf8 ''secret'') 1200 ''n'' ''decision'' [] = Some sw \<and>
     verify_webhook_request sample_ext (utf8 ''secret'') 300 1200 1200 (stamped ''n'' ''no'') [] = (Inl InvalidSigFormat, store) \<and>
     fst (verify_webhook_request sample_ext (utf8 ''secret'') 300 1201 1201 (delivery sw []) store) = Inl (ReplayDetected ''n'')"
proof -
  let ?e = "webhook_envelope ''decision'' 1200 ''n'' []"
  have "json_dumps False ?e = Some (emit False (Json.norm ?e))"
    by (rule json_dumps_plain) (simp_all add: webhook_envelope_def)
  then obtain sw where sw: "sign_webhook sample_ext (utf8 ''secret'') 1200 ''n'' ''decision'' [] = Some sw"
    by (simp add: sign_webhook_def)
  have f: "verify_webhook_request sample_ext (utf8 ''secret'') 300 1200 1200 (stamped ''n'' ''no'') [] = (Inl InvalidSigFormat, [(''n'', 1800)])"
    by (simp add: verify_webhook_request_def stamped_headers check_and_store_def startswith_def)
  show ?thesis
    using forged_request_burns_nonce [OF f _ stamped_headers(3) _ _ sw, of 1201 1201 "[]"] sw f by auto
qed

end
