(* ===== verification/Siem.thy ===== *)
theory Siem
  imports Webhook "HOL-Library.Sublist"
begin

text \<open>
  \<open>provable_ai/siem.py\<close>: audit events are put on a bounded queue and workers hand each of them to every
  configured transport.  A transport turns an event into messages (HTTP posts, datagrams, lines of a stream); clock,
  host name and what the network answers are arguments.  \<open>router_step\<close> interleaves callers, workers and
  flushes, the idle polls of the workers included.  The theorems tie what every transport posted and buffered to the calls
  of \<open>transport_send\<close> it received, account for every event in those calls, and show that the queue drains.
\<close>

subsection \<open>Events\<close>

record siem_event =
  sv_event :: string
  sv_level :: string
  sv_tenant_id :: string
  sv_trace_id :: string
  sv_extras :: pydict

text \<open>\<open>{**a, **b}\<close>.\<close>

definition dict_merge :: "pydict \<Rightarrow> pydict \<Rightarrow> pydict" where
  "dict_merge a b = fold (\<lambda>(k, v) d. dset d k v) b a"

definition event_to_dict :: "string \<Rightarrow> siem_event \<Rightarrow> pydict" where
  "event_to_dict utcnow e = dict_merge
     [(KStr ''source'', PyStr ''zorynex''), (KStr ''version'', PyStr ''1.0''), (KStr ''event'', PyStr (sv_event e)),
      (KStr ''level'', PyStr (sv_level e)), (KStr ''timestamp'', PyStr utcnow), (KStr ''tenant_id'', PyStr (sv_tenant_id e)),
      (KStr ''trace_id'', PyStr (sv_trace_id e))] (sv_extras e)"

definition event_to_json :: "string \<Rightarrow> siem_event \<Rightarrow> string res" where
  "event_to_json utcnow e = opt_res TypeError (json_dumps False (PyDict (event_to_dict utcnow e)))"

subsection \<open>Transports\<close>

text \<open>What one call sees of its surroundings: the clock at its two readings, \<open>time.time()\<close>, the host name and the network.\<close>

datatype net_outcome = NetOk | NetConnectFails | NetSendFails

record siem_world =
  nw_now1 :: string
  nw_now2 :: string
  nw_time :: string
  nw_hostname :: string
  nw_net :: net_outcome

datatype outgoing =
    HttpPost string bytes "(string \<times> string) list"
  | Datagram string int bytes
  | StreamData string int bytes

record webhook_transport =
  wt_url :: string
  wt_secret :: bytes
  wt_headers :: "(string \<times> string) list"

definition WebhookTransport_init :: "string \<Rightarrow> string \<Rightarrow> (string \<times> string) list \<Rightarrow> webhook_transport" where
  "WebhookTransport_init url secret headers = \<lparr>wt_url = url, wt_secret = utf8 secret, wt_headers = headers\<rparr>"

text \<open>Whatever the server answers, and every error of the request, is only logged.\<close>

definition webhook_send :: "ext \<Rightarrow> siem_world \<Rightarrow> webhook_transport \<Rightarrow> siem_event \<Rightarrow> outgoing list res" where
  "webhook_send x w t e =
     rbind (event_to_json (nw_now1 w) e) (\<lambda>json.
       let body = utf8 json;
           hdrs = fold (\<lambda>(k, v). AList.update k v) (wt_headers t)
             [(''Content-Type'', ''application/json''), (''User-Agent'', ''zorynex-siem/1.0'')];
           hdrs = (if wt_secret t \<noteq> []
             then AList.update ''X-Zorynex-Signature'' (''sha256='' @ hex (hmac_sha256 x (wt_secret t) body)) hdrs else hdrs)
       in Inr [HttpPost (wt_url t) body hdrs])"

record syslog_transport =
  st_host :: string
  st_port :: int
  st_proto :: string
  st_facility :: int
  st_app_name :: string
  st_sock :: bool

definition SyslogTransport_init :: "string \<Rightarrow> int \<Rightarrow> string \<Rightarrow> int \<Rightarrow> string \<Rightarrow> syslog_transport" where
  "SyslogTransport_init host port proto facility app_name =
     \<lparr>st_host = host, st_port = port, st_proto = lower proto, st_facility = facility, st_app_name = app_name, st_sock = False\<rparr>"

definition syslog_severity :: "string \<Rightarrow> int" where
  "syslog_severity level =
     (if level = ''debug'' then 7 else if level = ''info'' then 6 else if level = ''warning'' then 4
      else if level = ''error'' then 3 else if level = ''critical'' then 2 else 6)"

definition format_rfc5424 :: "siem_world \<Rightarrow> syslog_transport \<Rightarrow> siem_event \<Rightarrow> bytes res" where
  "format_rfc5424 w t e =
     (let priority = st_facility t * 8 + syslog_severity (sv_level e)
      in rbind (event_to_json (nw_now2 w) e) (\<lambda>msg.
         Inr (utf8 (''<'' @ show_int priority @ ''>1 '' @ nw_now1 w @ '' '' @ nw_hostname w @ '' '' @ st_app_name t @ '' - '' @
           sv_event e @ '' - '' @ msg))))"

text \<open>\<open>st_sock\<close>: a TCP connection is open.  UDP makes a socket for each message.\<close>

definition syslog_send :: "siem_world \<Rightarrow> syslog_transport \<Rightarrow> siem_event \<Rightarrow> outgoing list res \<times> syslog_transport" where
  "syslog_send w t e =
     (case format_rfc5424 w t e of
        Inl err \<Rightarrow> (Inl err, t)
      | Inr data \<Rightarrow>
          if st_proto t = ''tcp''
          then (if \<not> st_sock t \<and> nw_net w = NetConnectFails then (Inr [], t\<lparr>st_sock := False\<rparr>)
                else if nw_net w = NetSendFails then (Inr [], t\<lparr>st_sock := False\<rparr>)
                else (Inr [StreamData (st_host t) (st_port t) (data @ [10])], t\<lparr>st_sock := True\<rparr>))
          else (Inr (if nw_net w = NetOk then [Datagram (st_host t) (st_port t) data] else []), t))"

definition syslog_flush :: "syslog_transport \<Rightarrow> syslog_transport" where
  "syslog_flush t = t\<lparr>st_sock := False\<rparr>"

record splunk_transport =
  sp_url :: string
  sp_token :: string
  sp_index :: string
  sp_source :: string
  sp_sourcetype :: string
  sp_batch_size :: int
  sp_buffer :: "pyval list"

definition SplunkHECTransport_init ::
  "string \<Rightarrow> string \<Rightarrow> string \<Rightarrow> string \<Rightarrow> string \<Rightarrow> int \<Rightarrow> splunk_transport" where
  "SplunkHECTransport_init url token index source sourcetype batch_size =
     \<lparr>sp_url = rev (dropWhile (\<lambda>c. c = CHR ''/'') (rev url)), sp_token = token, sp_index = index, sp_source = source,
      sp_sourcetype = sourcetype, sp_batch_size = batch_size, sp_buffer = []\<rparr>"

definition splunk_envelope :: "siem_world \<Rightarrow> splunk_transport \<Rightarrow> siem_event \<Rightarrow> pyval" where
  "splunk_envelope w t e = PyDict
     [(KStr ''time'', PyFloat (nw_time w)), (KStr ''index'', PyStr (sp_index t)), (KStr ''source'', PyStr (sp_source t)),
      (KStr ''sourcetype'', PyStr (sp_sourcetype t)), (KStr ''event'', PyDict (event_to_dict (nw_now1 w) e))]"

text \<open>\<open>_flush_locked\<close>: the buffer is emptied before the batch is written as text and posted.\<close>

definition splunk_post :: "splunk_transport \<Rightarrow> pyval list \<Rightarrow> outgoing res" where
  "splunk_post t batch =
     rbind (opt_res TypeError (those (map (json_dumps_ordered '','' '':'') batch))) (\<lambda>ss.
       Inr (HttpPost (sp_url t) (utf8 (join [char_of (10::nat)] ss))
         [(''Authorization'', ''Splunk '' @ sp_token t), (''Content-Type'', ''application/json''),
          (''User-Agent'', ''zorynex-siem/1.0'')]))"

definition splunk_flush :: "splunk_transport \<Rightarrow> outgoing list res \<times> splunk_transport" where
  "splunk_flush t =
     (if sp_buffer t = [] then (Inr [], t)
      else (rbind (splunk_post t (sp_buffer t)) (\<lambda>p. Inr [p]), t\<lparr>sp_buffer := []\<rparr>))"

definition splunk_send :: "siem_world \<Rightarrow> splunk_transport \<Rightarrow> siem_event \<Rightarrow> outgoing list res \<times> splunk_transport" where
  "splunk_send w t e =
     (let t = t\<lparr>sp_buffer := sp_buffer t @ [splunk_envelope w t e]\<rparr>
      in if sp_batch_size t \<le> int (length (sp_buffer t)) then splunk_flush t else (Inr [], t))"

record datadog_transport =
  dt_api_key :: string
  dt_url :: string
  dt_service :: string
  dt_env :: string

definition DatadogTransport_init :: "string \<Rightarrow> string \<Rightarrow> string \<Rightarrow> string \<Rightarrow> datadog_transport" where
  "DatadogTransport_init api_key site service env =
     \<lparr>dt_api_key = api_key, dt_url = ''https://http-intake.logs.'' @ site @ ''/api/v2/logs'', dt_service = service, dt_env = env\<rparr>"

definition dd_payload :: "siem_world \<Rightarrow> datadog_transport \<Rightarrow> siem_event \<Rightarrow> pyval res" where
  "dd_payload w t e =
     rbind (event_to_json (nw_now2 w) e) (\<lambda>json.
       Inr (PyDict (dict_merge
         [(KStr ''ddsource'', PyStr ''zorynex''),
          (KStr ''ddtags'', PyStr (''env:'' @ dt_env t @ '',service:'' @ dt_service t @ '',event:'' @ sv_event e)),
          (KStr ''hostname'', PyStr (nw_hostname w)), (KStr ''message'', PyStr json), (KStr ''service'', PyStr (dt_service t))]
         (event_to_dict (nw_now1 w) e))))"

definition datadog_post :: "datadog_transport \<Rightarrow> pyval list \<Rightarrow> outgoing list res" where
  "datadog_post t payload =
     rbind (opt_res TypeError (json_dumps_ordered '','' '':'' (PyList payload))) (\<lambda>body.
       Inr [HttpPost (dt_url t) (utf8 body)
         [(''DD-API-KEY'', dt_api_key t), (''Content-Type'', ''application/json''), (''User-Agent'', ''zorynex-siem/1.0'')]])"

definition datadog_send :: "siem_world \<Rightarrow> datadog_transport \<Rightarrow> siem_event \<Rightarrow> outgoing list res" where
  "datadog_send w t e = rbind (dd_payload w t e) (\<lambda>p. datadog_post t [p])"

definition datadog_send_batch :: "siem_world \<Rightarrow> datadog_transport \<Rightarrow> siem_event list \<Rightarrow> outgoing list res" where
  "datadog_send_batch w t es =
     (if es = [] then Inr [] else rbind (rmap_list (dd_payload w t) es) (datadog_post t))"

datatype transport =
    TWebhook webhook_transport
  | TSyslog syslog_transport
  | TSplunk splunk_transport
  | TDatadog datadog_transport

fun transport_name :: "transport \<Rightarrow> string" where
  "transport_name (TWebhook _) = ''webhook''"
| "transport_name (TSyslog _) = ''syslog''"
| "transport_name (TSplunk _) = ''splunk''"
| "transport_name (TDatadog _) = ''datadog''"

fun transport_send :: "ext \<Rightarrow> siem_world \<Rightarrow> siem_event \<Rightarrow> transport \<Rightarrow> outgoing list res \<times> transport" where
  "transport_send x w e (TWebhook t) = (webhook_send x w t e, TWebhook t)"
| "transport_send x w e (TSyslog t) = (let (r, t') = syslog_send w t e in (r, TSyslog t'))"
| "transport_send x w e (TSplunk t) = (let (r, t') = splunk_send w t e in (r, TSplunk t'))"
| "transport_send x w e (TDatadog t) = (datadog_send w t e, TDatadog t)"

fun transport_flush :: "transport \<Rightarrow> outgoing list res \<times> transport" where
  "transport_flush (TSyslog t) = (Inr [], TSyslog (syslog_flush t))"
| "transport_flush (TSplunk t) = (let (r, t') = splunk_flush t in (r, TSplunk t'))"
| "transport_flush t = (Inr [], t)"

subsection \<open>Transports from the environment\<close>

type_synonym environ = "string \<Rightarrow> string option"

definition env_get :: "environ \<Rightarrow> string \<Rightarrow> string \<Rightarrow> string" where
  "env_get env k d = (case env k of None \<Rightarrow> d | Some s \<Rightarrow> s)"

text \<open>When \<open>float(s)\<close> returns; the value is a timeout and changes nothing else.\<close>

definition float_number :: "string \<Rightarrow> bool" where
  "float_number s =
     (let m = takeWhile (\<lambda>c. c \<noteq> CHR ''e'' \<and> c \<noteq> CHR ''E'') s; r = dropWhile (\<lambda>c. c \<noteq> CHR ''e'' \<and> c \<noteq> CHR ''E'') s;
          a = takeWhile (\<lambda>c. c \<noteq> CHR ''.'') m; b = dropWhile (\<lambda>c. c \<noteq> CHR ''.'') m
      in (r = [] \<or> digrun (drop_sign (tl r))) \<and>
         (if b = [] then digrun m else (a = [] \<or> digrun a) \<and> (tl b = [] \<or> digrun (tl b)) \<and> \<not> (a = [] \<and> tl b = [])))"

definition float_ok :: "string \<Rightarrow> bool" where
  "float_ok s = (let t = drop_sign (strip s) in lower t \<in> {''inf'', ''infinity'', ''nan''} \<or> float_number t)"

definition env_int :: "environ \<Rightarrow> string \<Rightarrow> string \<Rightarrow> int res" where
  "env_int env k d = opt_res (ValueError ''int'') (ts_of_header (env_get env k d))"

definition webhook_from_env :: "environ \<Rightarrow> transport option res" where
  "webhook_from_env env =
     (let url = env_get env ''ZORYNEX_SIEM_WEBHOOK_URL'' []
      in if url = [] then Inr None
         else rbind (rcheck (float_ok (env_get env ''ZORYNEX_SIEM_WEBHOOK_TIMEOUT_S'' ''5'')) (ValueError ''float'')) (\<lambda>_.
           Inr (Some (TWebhook (WebhookTransport_init url (env_get env ''ZORYNEX_SIEM_WEBHOOK_SECRET'' []) [])))))"

definition syslog_from_env :: "environ \<Rightarrow> transport option res" where
  "syslog_from_env env =
     (let host = env_get env ''ZORYNEX_SIEM_SYSLOG_HOST'' []
      in if host = [] then Inr None
         else rbind (env_int env ''ZORYNEX_SIEM_SYSLOG_PORT'' ''514'') (\<lambda>port.
           rbind (env_int env ''ZORYNEX_SIEM_SYSLOG_FACILITY'' ''16'') (\<lambda>facility.
           Inr (Some (TSyslog (SyslogTransport_init host port (env_get env ''ZORYNEX_SIEM_SYSLOG_PROTO'' ''udp'') facility ''zorynex''))))))"

definition splunk_from_env :: "environ \<Rightarrow> transport option res" where
  "splunk_from_env env =
     (let url = env_get env ''ZORYNEX_SIEM_SPLUNK_URL'' []; token = env_get env ''ZORYNEX_SIEM_SPLUNK_TOKEN'' []
      in if url = [] \<or> token = [] then Inr None
         else rbind (env_int env ''ZORYNEX_SIEM_SPLUNK_BATCH'' ''50'') (\<lambda>batch_size.
           Inr (Some (TSplunk (SplunkHECTransport_init url token (env_get env ''ZORYNEX_SIEM_SPLUNK_INDEX'' ''zorynex'')
             ''zorynex'' ''_json'' batch_size)))))"

definition datadog_from_env :: "environ \<Rightarrow> transport option" where
  "datadog_from_env env =
     (let api_key = env_get env ''ZORYNEX_SIEM_DATADOG_API_KEY'' []
      in if api_key = [] then None
         else Some (TDatadog (DatadogTransport_init api_key (env_get env ''ZORYNEX_SIEM_DATADOG_SITE'' ''datadoghq.com'')
           (env_get env ''ZORYNEX_SIEM_DATADOG_SERVICE'' ''zorynex'') (env_get env ''ZORYNEX_SIEM_DATADOG_ENV'' ''production''))))"

subsection \<open>The router\<close>

definition level_of :: "string \<Rightarrow> nat" where
  "level_of level =
     (let l = lower level in if l = ''debug'' then 0 else if l = ''info'' then 1 else if l = ''warning'' then 2
      else if l = ''error'' then 3 else if l = ''critical'' then 4 else 1)"

text \<open>
  A worker waits for the queue, hands an event to the transports (the position is that of the next one), or has returned.
  The queue holds events or the sentinel \<open>None\<close>; \<open>rt_unfinished\<close> is its count of items not yet marked with
  \<open>task_done\<close>.
\<close>

datatype worker = Waiting | Delivering siem_event nat | Stopped

record router =
  rt_transports :: "transport list"
  rt_min_level :: nat
  rt_queue :: "siem_event option list"
  rt_queue_size :: int
  rt_unfinished :: nat
  rt_dropped :: nat
  rt_emitted :: nat
  rt_workers :: "worker list"

definition SIEMRouter_init :: "transport list \<Rightarrow> string \<Rightarrow> nat \<Rightarrow> int \<Rightarrow> router" where
  "SIEMRouter_init transports min_level workers queue_size =
     \<lparr>rt_transports = transports, rt_min_level = level_of min_level, rt_queue = [], rt_queue_size = queue_size,
      rt_unfinished = 0, rt_dropped = 0, rt_emitted = 0, rt_workers = replicate workers Waiting\<rparr>"

text \<open>The two critical sections of \<open>emit\<close>: counting, and \<open>put_nowait\<close>.  A queue with no positive size is unbounded.\<close>

definition passes_level :: "router \<Rightarrow> siem_event \<Rightarrow> bool" where
  "passes_level r e \<longleftrightarrow> \<not> level_of (sv_level e) < rt_min_level r"

definition emit_count :: "router \<Rightarrow> router" where
  "emit_count r = r\<lparr>rt_emitted := rt_emitted r + 1\<rparr>"

definition queue_full :: "router \<Rightarrow> bool" where
  "queue_full r \<longleftrightarrow> 0 < rt_queue_size r \<and> rt_queue_size r \<le> int (length (rt_queue r))"

definition emit_put :: "siem_event \<Rightarrow> router \<Rightarrow> router" where
  "emit_put e r = (if queue_full r then r\<lparr>rt_dropped := rt_dropped r + 1\<rparr> else r\<lparr>rt_queue := rt_queue r @ [Some e], rt_unfinished := rt_unfinished r + 1\<rparr>)"

definition router_emit :: "siem_event \<Rightarrow> router \<Rightarrow> router" where
  "router_emit e r = (if passes_level r e then emit_put e (emit_count r) else r)"

text \<open>
  \<open>emit_from_log\<close>; \<open>None\<close> when one of the four values is not a string, which the server's log never writes.
\<close>

definition event_of_log :: "pydict \<Rightarrow> siem_event option" where
  "event_of_log log_dict =
     (case (dget_or log_dict ''message'' (PyStr ''unknown''), dget_or log_dict ''level'' (PyStr ''info''),
            dget_or log_dict ''tenant_id'' (PyStr ''default''), dget_or log_dict ''trace_id'' (PyStr [])) of
        (PyStr ev, PyStr lv, PyStr tid, PyStr tr) \<Rightarrow>
          Some \<lparr>sv_event = ev, sv_level = lv, sv_tenant_id = tid, sv_trace_id = tr,
            sv_extras = filter (\<lambda>(k, v). k \<notin> KStr ` {''message'', ''level'', ''tenant_id'', ''trace_id'', ''timestamp'', ''source'', ''version''})
              log_dict\<rparr>
      | _ \<Rightarrow> None)"

definition emit_from_log :: "pydict \<Rightarrow> router \<Rightarrow> router option" where
  "emit_from_log log_dict r = map_option (\<lambda>e. router_emit e r) (event_of_log log_dict)"

definition siem_emit :: "string \<Rightarrow> string \<Rightarrow> string \<Rightarrow> string \<Rightarrow> pydict \<Rightarrow> router \<Rightarrow> router" where
  "siem_emit event_name level tenant_id trace_id kwargs r =
     router_emit \<lparr>sv_event = event_name, sv_level = level, sv_tenant_id = tenant_id, sv_trace_id = trace_id, sv_extras = kwargs\<rparr> r"

text \<open>
  One worker.  \<open>worker_get\<close> is its \<open>queue.get\<close> with the three ways on: an empty queue (the poll times out and the loop
  goes round), the sentinel (the worker returns) and an event.  \<open>task_done\<close> on a queue with nothing
  unfinished raises \<open>ValueError\<close>, which nothing catches: the thread ends.
\<close>

definition task_done :: "nat \<Rightarrow> worker \<Rightarrow> router \<Rightarrow> router" where
  "task_done i w r =
     (if rt_unfinished r = 0 then r\<lparr>rt_workers := (rt_workers r)[i := Stopped]\<rparr>
      else r\<lparr>rt_unfinished := rt_unfinished r - 1, rt_workers := (rt_workers r)[i := w]\<rparr>)"

definition worker_get :: "nat \<Rightarrow> router \<Rightarrow> router" where
  "worker_get i r =
     (case rt_queue r of
        [] \<Rightarrow> r
      | None # q \<Rightarrow> task_done i Stopped (r\<lparr>rt_queue := q\<rparr>)
      | Some e # q \<Rightarrow> r\<lparr>rt_queue := q, rt_workers := (rt_workers r)[i := Delivering e 0]\<rparr>)"

text \<open>What a transport raises is logged and the next one follows.\<close>

definition sent_of :: "outgoing list res \<Rightarrow> outgoing list" where
  "sent_of res = (case res of Inl _ \<Rightarrow> [] | Inr ms \<Rightarrow> ms)"

definition worker_send :: "ext \<Rightarrow> siem_world \<Rightarrow> nat \<Rightarrow> siem_event \<Rightarrow> nat \<Rightarrow> router \<Rightarrow> outgoing list \<times> router" where
  "worker_send x w i e k r =
     (let (res, t) = transport_send x w e (rt_transports r ! k)
      in (sent_of res, r\<lparr>rt_transports := (rt_transports r)[k := t], rt_workers := (rt_workers r)[i := Delivering e (Suc k)]\<rparr>))"

definition worker_done :: "nat \<Rightarrow> router \<Rightarrow> router" where
  "worker_done i r = task_done i Waiting r"

text \<open>
  \<open>flush\<close> flushes the transports in turn and then waits for the queue to be empty, at most for the timeout.  It holds no
  lock of the router, so that workers run between two of its transports.
\<close>

definition flush_at :: "nat \<Rightarrow> router \<Rightarrow> outgoing list \<times> router" where
  "flush_at k r = (let (res, t) = transport_flush (rt_transports r ! k) in (sent_of res, r\<lparr>rt_transports := (rt_transports r)[k := t]\<rparr>))"

fun flush_transports :: "nat list \<Rightarrow> router \<Rightarrow> outgoing list \<times> router" where
  "flush_transports [] r = ([], r)"
| "flush_transports (k # ks) r = (let (ms, r1) = flush_at k r; (ms', r2) = flush_transports ks r1 in (ms @ ms', r2))"

definition router_flush :: "router \<Rightarrow> outgoing list \<times> router" where
  "router_flush r = flush_transports [0..<length (rt_transports r)] r"

definition router_metrics :: "router \<Rightarrow> nat \<times> nat \<times> nat \<times> string list" where
  "router_metrics r = (rt_emitted r, rt_dropped r, length (rt_queue r), map transport_name (rt_transports r))"

definition router_enabled :: "router \<Rightarrow> bool" where
  "router_enabled r \<longleftrightarrow> rt_transports r \<noteq> []"

definition siem_router_from_env :: "environ \<Rightarrow> router res" where
  "siem_router_from_env env =
     rbind (webhook_from_env env) (\<lambda>wh. rbind (syslog_from_env env) (\<lambda>sl. rbind (splunk_from_env env) (\<lambda>sp.
       Inr (SIEMRouter_init (List.map_filter id [wh, sl, sp, datadog_from_env env])
         (env_get env ''ZORYNEX_SIEM_LEVEL'' ''info'') 2 1000))))"

subsection \<open>Interleavings\<close>

text \<open>
  A run of the router: callers that have counted their event and not yet put it, the events whose
  \<open>put_nowait\<close> returned, and the messages that left, each with the position of its transport.
\<close>

record siem_run =
  sr_router :: router
  sr_callers :: "siem_event list"
  sr_queued :: "siem_event list"
  sr_out :: "(nat \<times> outgoing) list"

definition siem_start :: "router \<Rightarrow> siem_run" where
  "siem_start r = \<lparr>sr_router = r, sr_callers = [], sr_queued = [], sr_out = []\<rparr>"

inductive worker_step :: "ext \<Rightarrow> siem_run \<Rightarrow> siem_run \<Rightarrow> bool" for x where
  get: "i < length (rt_workers (sr_router s)) \<Longrightarrow> rt_workers (sr_router s) ! i = Waiting \<Longrightarrow>
    worker_step x s (s\<lparr>sr_router := worker_get i (sr_router s)\<rparr>)"
| send: "i < length (rt_workers (sr_router s)) \<Longrightarrow> rt_workers (sr_router s) ! i = Delivering e k \<Longrightarrow>
    k < length (rt_transports (sr_router s)) \<Longrightarrow> worker_send x w i e k (sr_router s) = (ms, r) \<Longrightarrow>
    worker_step x s (s\<lparr>sr_router := r, sr_out := sr_out s @ map (Pair k) ms\<rparr>)"
| finish: "i < length (rt_workers (sr_router s)) \<Longrightarrow> rt_workers (sr_router s) ! i = Delivering e k \<Longrightarrow>
    \<not> k < length (rt_transports (sr_router s)) \<Longrightarrow>
    worker_step x s (s\<lparr>sr_router := worker_done i (sr_router s)\<rparr>)"

inductive router_step :: "ext \<Rightarrow> siem_run \<Rightarrow> siem_run \<Rightarrow> bool" for x where
  accept: "passes_level (sr_router s) e \<Longrightarrow>
    router_step x s (s\<lparr>sr_router := emit_count (sr_router s), sr_callers := sr_callers s @ [e]\<rparr>)"
| put: "sr_callers s = as @ e # bs \<Longrightarrow>
    router_step x s (s\<lparr>sr_router := emit_put e (sr_router s), sr_callers := as @ bs,
      sr_queued := sr_queued s @ (if queue_full (sr_router s) then [] else [e])\<rparr>)"
| work: "worker_step x s s' \<Longrightarrow> router_step x s s'"
| flush: "k < length (rt_transports (sr_router s)) \<Longrightarrow> flush_at k (sr_router s) = (ms, r) \<Longrightarrow>
    router_step x s (s\<lparr>sr_router := r, sr_out := sr_out s @ map (Pair k) ms\<rparr>)"

inductive_cases worker_stepE: "worker_step x s s'"

abbreviation siem_reach :: "ext \<Rightarrow> router \<Rightarrow> siem_run \<Rightarrow> bool" where
  "siem_reach x r s \<equiv> (router_step x)\<^sup>*\<^sup>* (siem_start r) s"

text \<open>
  What a transport has done after some calls of its \<open>send\<close> and \<open>flush\<close>: the messages that left and its state.
  \<open>delivered\<close>: the messages and the state of every transport are those of its calls in \<open>calls\<close>.
\<close>

datatype transport_call = CSend siem_world siem_event | CFlush

fun call_transport :: "ext \<Rightarrow> transport_call \<Rightarrow> transport \<Rightarrow> outgoing list res \<times> transport" where
  "call_transport x (CSend w e) t = transport_send x w e t"
| "call_transport x CFlush t = transport_flush t"

fun replay_calls :: "ext \<Rightarrow> transport \<Rightarrow> transport_call list \<Rightarrow> outgoing list \<times> transport" where
  "replay_calls x t [] = ([], t)"
| "replay_calls x t (c # cs) =
     (let (res, t1) = call_transport x c t; (ms, t2) = replay_calls x t1 cs in (sent_of res @ ms, t2))"

definition at_transport :: "nat \<Rightarrow> (nat \<times> 'a) list \<Rightarrow> 'a list" where
  "at_transport k cs = map snd (filter (\<lambda>p. fst p = k) cs)"

definition delivered :: "ext \<Rightarrow> transport list \<Rightarrow> (nat \<times> transport_call) list \<Rightarrow> siem_run \<Rightarrow> bool" where
  "delivered x ts calls s \<longleftrightarrow> length (rt_transports (sr_router s)) = length ts \<and>
     (\<forall>k < length ts. replay_calls x (ts ! k) (at_transport k calls) = (at_transport k (sr_out s), rt_transports (sr_router s) ! k))"

fun call_event :: "transport_call \<Rightarrow> siem_event list" where
  "call_event (CSend w e) = [e]"
| "call_event CFlush = []"

definition sent_to :: "nat \<Rightarrow> (nat \<times> transport_call) list \<Rightarrow> siem_event multiset" where
  "sent_to k calls = mset (concat (map call_event (at_transport k calls)))"

text \<open>The event of a worker that it has still to hand to transport \<open>k\<close>.\<close>

fun still_to_send :: "nat \<Rightarrow> worker \<Rightarrow> siem_event multiset" where
  "still_to_send k (Delivering e j) = (if j \<le> k then {#e#} else {#})"
| "still_to_send k _ = {#}"

fun worker_ok :: "nat \<Rightarrow> worker \<Rightarrow> bool" where
  "worker_ok n Waiting = True"
| "worker_ok n (Delivering e k) = (k \<le> n)"
| "worker_ok n Stopped = False"

fun worker_busy :: "worker \<Rightarrow> nat" where
  "worker_busy (Delivering e k) = 1"
| "worker_busy _ = 0"

text \<open>The invariant of a run, for the events \<open>q\<close> on the queue and the \<open>calls\<close> the transports received.\<close>

definition siem_inv :: "ext \<Rightarrow> transport list \<Rightarrow> nat \<Rightarrow> int \<Rightarrow> siem_event list \<Rightarrow> (nat \<times> transport_call) list \<Rightarrow> siem_run \<Rightarrow> bool" where
  "siem_inv x ts m cap q calls s \<longleftrightarrow> (let r = sr_router s in
     length (rt_workers r) = m \<and> rt_queue_size r = cap \<and>
     rt_emitted r = length (sr_callers s) + length (sr_queued s) + rt_dropped r \<and>
     rt_queue r = map Some q \<and> suffix q (sr_queued s) \<and>
     rt_unfinished r = length q + sum_list (map worker_busy (rt_workers r)) \<and>
     list_all (worker_ok (length ts)) (rt_workers r) \<and>
     (0 < cap \<longrightarrow> int (length q) \<le> cap) \<and>
     delivered x ts calls s \<and>
     (\<forall>k < length ts. mset (sr_queued s) = mset q + sum_list (map (still_to_send k) (rt_workers r)) + sent_to k calls))"

lemma sum_list_map_update:
  fixes f :: "'a \<Rightarrow> 'b :: comm_monoid_add"
  shows "i < length xs \<Longrightarrow> sum_list (map f (xs[i := y])) + f (xs ! i) = sum_list (map f xs) + f y"
proof (induction xs arbitrary: i)
  case (Cons a xs)
  show ?case
  proof (cases i)
    case (Suc j)
    then have "sum_list (map f (xs[j := y])) + f (xs ! j) = sum_list (map f xs) + f y" using Cons by simp
    then show ?thesis using Suc by (simp add: add.assoc)
  qed (simp add: ac_simps)
qed simp

lemma list_all_update: "list_all P xs \<Longrightarrow> P y \<Longrightarrow> list_all P (xs[i := y])"
  unfolding list_all_iff using set_update_subset_insert [of xs i y] by blast

lemma sum_list_empty: "sum_list (replicate m {#}) = {#}"
  by (induction m) simp_all

lemma at_transport_append [simp]: "at_transport k (as @ bs) = at_transport k as @ at_transport k bs"
  by (simp add: at_transport_def)

lemma at_transport_pairs [simp]: "at_transport k (map (Pair j) ms) = (if j = k then ms else [])"
  by (induction ms) (auto simp: at_transport_def)

lemma at_transport_single [simp]: "at_transport k [(j, c)] = (if j = k then [c] else [])"
  by (simp add: at_transport_def)

lemma sent_to_snoc [simp]: "sent_to k (calls @ [(j, c)]) = sent_to k calls + (if j = k then mset (call_event c) else {#})"
  by (simp add: sent_to_def)

lemma replay_calls_snoc:
  "replay_calls x t (cs @ [c]) =
    (let (ms, t1) = replay_calls x t cs; (res, t2) = call_transport x c t1 in (ms @ sent_of res, t2))"
  by (induction cs arbitrary: t) (simp_all add: case_prod_beta Let_def)

text \<open>One call of transport \<open>k\<close>, whose messages go out and whose state is stored back.\<close>

lemma delivered_call:
  assumes "delivered x ts calls s" "k < length ts" "call_transport x c (rt_transports (sr_router s) ! k) = (res, t)"
    "rt_transports (sr_router s') = (rt_transports (sr_router s))[k := t]" "sr_out s' = sr_out s @ map (Pair k) (sent_of res)"
  shows "delivered x ts (calls @ [(k, c)]) s'"
  using assms unfolding delivered_def by (auto simp: replay_calls_snoc nth_list_update)

lemma delivered_same:
  assumes "delivered x ts calls s" "rt_transports (sr_router s') = rt_transports (sr_router s)" "sr_out s' = sr_out s"
  shows "delivered x ts calls s'"
  using assms unfolding delivered_def by simp

lemma siem_inv_start: "siem_inv x ts m cap [] [] (siem_start (SIEMRouter_init ts ml m cap))"
  by (simp add: siem_inv_def siem_start_def SIEMRouter_init_def Let_def list_all_iff map_replicate_const sum_list_empty
    delivered_def at_transport_def sent_to_def)

lemma worker_step_inv:
  assumes "worker_step x s s'" "siem_inv x ts m cap q calls s"
  shows "\<exists>q calls. siem_inv x ts m cap q calls s'"
  using assms
proof (induction rule: worker_step.induct)
  case (get i s)
  let ?ws = "rt_workers (sr_router s)"
  show ?case
  proof (cases q)
    case Nil
    then have "worker_get i (sr_router s) = sr_router s" using get(3) by (simp add: worker_get_def siem_inv_def Let_def)
    then show ?thesis using get(3) by auto
  next
    case (Cons e q')
    let ?s = "s\<lparr>sr_router := worker_get i (sr_router s)\<rparr>"
    have r: "worker_get i (sr_router s) = (sr_router s)\<lparr>rt_queue := map Some q', rt_workers := ?ws[i := Delivering e 0]\<rparr>"
      using get(3) by (simp add: worker_get_def siem_inv_def Let_def Cons)
    have b: "sum_list (map (still_to_send k) (?ws[i := Delivering e 0])) = sum_list (map (still_to_send k) ?ws) + {#e#}"
      "sum_list (map worker_busy (?ws[i := Delivering e 0])) = sum_list (map worker_busy ?ws) + 1" for k
      using sum_list_map_update [OF get(1), of "still_to_send k" "Delivering e 0"] sum_list_map_update [OF get(1), of worker_busy "Delivering e 0"] get(2)
      by simp_all
    have d: "delivered x ts calls ?s" using get(3) by - (rule delivered_same [of x ts calls s], simp_all add: siem_inv_def Let_def r)
    have su: "suffix q' (sr_queued s)" using get(3) by (auto simp: siem_inv_def Let_def Cons suffix_def)
    have "siem_inv x ts m cap q' calls ?s"
      using get(3) d su list_all_update [of "worker_ok (length ts)" ?ws "Delivering e 0" i] unfolding siem_inv_def Let_def r Cons
      by (simp add: b) linarith
    then show ?thesis by blast
  qed
next
  case (send i s e k w ms r)
  let ?ws = "rt_workers (sr_router s)" and ?s = "s\<lparr>sr_router := r, sr_out := sr_out s @ map (Pair k) ms\<rparr>"
  obtain res t where st: "transport_send x w e (rt_transports (sr_router s) ! k) = (res, t)" by (cases "transport_send x w e (rt_transports (sr_router s) ! k)")
  have r: "r = (sr_router s)\<lparr>rt_transports := (rt_transports (sr_router s))[k := t], rt_workers := ?ws[i := Delivering e (Suc k)]\<rparr>"
    "ms = sent_of res"
    using send(4) by (auto simp: worker_send_def Let_def st)
  have n: "length (rt_transports (sr_router s)) = length ts" using send(5) by (simp add: siem_inv_def Let_def delivered_def)
  have b: "sum_list (map (still_to_send j) ?ws) = sum_list (map (still_to_send j) (?ws[i := Delivering e (Suc k)])) + (if k = j then {#e#} else {#})"
    "sum_list (map worker_busy (?ws[i := Delivering e (Suc k)])) = sum_list (map worker_busy ?ws)" for j
    using sum_list_map_update [OF send(1), of "still_to_send j" "Delivering e (Suc k)"]
      sum_list_map_update [OF send(1), of worker_busy "Delivering e (Suc k)"] send(2)
    by (cases "k = j"; auto split: if_splits)+
  have d: "delivered x ts (calls @ [(k, CSend w e)]) ?s"
    using send(3,5) by - (rule delivered_call [of x ts calls s], simp_all add: siem_inv_def Let_def r st n)
  have "siem_inv x ts m cap q (calls @ [(k, CSend w e)]) ?s"
    using send(3,5) d list_all_update [of "worker_ok (length ts)" ?ws "Delivering e (Suc k)" i] unfolding siem_inv_def Let_def r
    by (simp add: b n ac_simps)
  then show ?case by blast
next
  case (finish i s e k)
  let ?ws = "rt_workers (sr_router s)" and ?s = "s\<lparr>sr_router := worker_done i (sr_router s)\<rparr>"
  have n: "length (rt_transports (sr_router s)) = length ts" using finish(4) by (simp add: siem_inv_def Let_def delivered_def)
  have b: "sum_list (map worker_busy ?ws) = Suc (sum_list (map worker_busy (?ws[i := Waiting])))"
    "j < length ts \<Longrightarrow> sum_list (map (still_to_send j) (?ws[i := Waiting])) = sum_list (map (still_to_send j) ?ws)" for j
    using sum_list_map_update [OF finish(1), of "still_to_send j" Waiting] sum_list_map_update [OF finish(1), of worker_busy Waiting] finish(2,3) n
    by simp_all
  have r: "worker_done i (sr_router s) =
      (sr_router s)\<lparr>rt_unfinished := rt_unfinished (sr_router s) - 1, rt_workers := ?ws[i := Waiting]\<rparr>"
    using finish(4) b(1) by (simp add: worker_done_def task_done_def siem_inv_def Let_def)
  have d: "delivered x ts calls ?s" using finish(4) by - (rule delivered_same [of x ts calls s], simp_all add: siem_inv_def Let_def r)
  have "siem_inv x ts m cap q calls ?s"
    using finish(4) d list_all_update [of "worker_ok (length ts)" ?ws Waiting i] unfolding siem_inv_def Let_def r
    by (simp add: b)
  then show ?case by blast
qed

lemma flush_step_inv:
  assumes "siem_inv x ts m cap q calls s" "k < length (rt_transports (sr_router s))" "flush_at k (sr_router s) = (ms, r)"
  shows "siem_inv x ts m cap q (calls @ [(k, CFlush)]) (s\<lparr>sr_router := r, sr_out := sr_out s @ map (Pair k) ms\<rparr>)"
proof -
  obtain res t where st: "transport_flush (rt_transports (sr_router s) ! k) = (res, t)" by (cases "transport_flush (rt_transports (sr_router s) ! k)")
  have r: "r = (sr_router s)\<lparr>rt_transports := (rt_transports (sr_router s))[k := t]\<rparr>" "ms = sent_of res"
    using assms(3) by (auto simp: flush_at_def Let_def st)
  have "k < length ts" using assms(1,2) by (simp add: siem_inv_def Let_def delivered_def)
  then have "delivered x ts (calls @ [(k, CFlush)]) (s\<lparr>sr_router := r, sr_out := sr_out s @ map (Pair k) ms\<rparr>)"
    using assms(1) by - (rule delivered_call [of x ts calls s], simp_all add: siem_inv_def Let_def r st)
  then show ?thesis using assms(1) unfolding siem_inv_def Let_def r by simp
qed

lemma emit_step_inv:
  assumes "siem_inv x ts m cap q calls s" "sr_callers s = as @ e # bs"
  shows "siem_inv x ts m cap (if queue_full (sr_router s) then q else q @ [e]) calls
    (s\<lparr>sr_router := emit_put e (sr_router s), sr_callers := as @ bs,
      sr_queued := sr_queued s @ (if queue_full (sr_router s) then [] else [e])\<rparr>)"
proof -
  have "delivered x ts calls (s\<lparr>sr_router := emit_put e (sr_router s), sr_callers := as @ bs,
      sr_queued := sr_queued s @ (if queue_full (sr_router s) then [] else [e])\<rparr>)"
    using assms(1) by - (rule delivered_same [of x ts calls s], simp_all add: siem_inv_def Let_def emit_put_def)
  then show ?thesis
    using assms by (cases "queue_full (sr_router s)") (auto simp: siem_inv_def Let_def emit_put_def queue_full_def)
qed

lemma router_step_inv:
  assumes "router_step x s s'" "siem_inv x ts m cap q calls s"
  shows "\<exists>q calls. siem_inv x ts m cap q calls s'"
  using assms
proof (induction rule: router_step.induct)
  case (accept s e)
  have "delivered x ts calls (s\<lparr>sr_router := emit_count (sr_router s), sr_callers := sr_callers s @ [e]\<rparr>)"
    using accept(2) by - (rule delivered_same [of x ts calls s], simp_all add: siem_inv_def Let_def emit_count_def)
  with accept(2) have "siem_inv x ts m cap q calls (s\<lparr>sr_router := emit_count (sr_router s), sr_callers := sr_callers s @ [e]\<rparr>)"
    by (simp add: siem_inv_def Let_def emit_count_def)
  then show ?case by blast
next
  case (work s s')
  then show ?case by (rule worker_step_inv)
next
  case (flush k s ms r)
  then show ?case using flush_step_inv by blast
next
  case (put s as e bs)
  then show ?case using emit_step_inv by blast
qed

lemma siem_reach_inv: "siem_reach x (SIEMRouter_init ts ml m cap) s \<Longrightarrow> \<exists>q calls. siem_inv x ts m cap q calls s"
proof (induction rule: rtranclp_induct)
  case base
  show ?case using siem_inv_start by blast
next
  case (step s s')
  then show ?case using router_step_inv by blast
qed

subsection \<open>Properties\<close>

text \<open>
  C38: In every interleaving of callers, workers and flushes: an event that passes the level is counted, and waits with its
  caller, was put on the queue or was dropped; the queue is within its size and is emptied from its front; and there are
  calls of \<open>transport_send\<close> and \<open>transport_flush\<close> such that what every transport sent out and its state are
  exactly the result of its calls in their order, and for each transport every event put on the queue is still on it,
  is with a worker that has yet to reach that transport, or was sent to it, each as often as it was put.
\<close>

theorem siem_accounting:
  assumes "siem_reach x (SIEMRouter_init ts ml m cap) s"
  shows "rt_emitted (sr_router s) = length (sr_callers s) + length (sr_queued s) + rt_dropped (sr_router s) \<and>
    (\<exists>q calls. rt_queue (sr_router s) = map Some q \<and> suffix q (sr_queued s) \<and> (0 < cap \<longrightarrow> int (length q) \<le> cap) \<and>
      (\<forall>k < length ts.
        replay_calls x (ts ! k) (at_transport k calls) = (at_transport k (sr_out s), rt_transports (sr_router s) ! k) \<and>
        mset (sr_queued s) = mset q + sum_list (map (still_to_send k) (rt_workers (sr_router s))) + sent_to k calls))"
proof -
  obtain q calls where "siem_inv x ts m cap q calls s" using siem_reach_inv [OF assms] by blast
  then show ?thesis unfolding siem_inv_def Let_def delivered_def by blast
qed

fun worker_left :: "nat \<Rightarrow> worker \<Rightarrow> nat" where
  "worker_left n (Delivering e k) = Suc (n - k)"
| "worker_left n _ = 0"

definition work_left :: "siem_run \<Rightarrow> nat" where
  "work_left s = (let r = sr_router s; n = length (rt_transports r)
     in (n + 2) * length (rt_queue r) + sum_list (map (worker_left n) (rt_workers r)))"

lemma task_done_left:
  assumes "i < length (rt_workers r)" "worker_left n w = 0"
  shows "sum_list (map (worker_left n) (rt_workers (task_done i w r))) + worker_left n (rt_workers r ! i) =
      sum_list (map (worker_left n) (rt_workers r))"
    "rt_queue (task_done i w r) = rt_queue r" "rt_transports (task_done i w r) = rt_transports r"
  using sum_list_map_update [OF assms(1), of "worker_left n" w] sum_list_map_update [OF assms(1), of "worker_left n" Stopped] assms(2)
  by (simp_all add: task_done_def)

lemma worker_step_decreases: "worker_step x s s' \<Longrightarrow> s' \<noteq> s \<Longrightarrow> work_left s' < work_left s"
proof (induction rule: worker_step.induct)
  case (get i s)
  let ?r = "sr_router s" and ?n = "length (rt_transports (sr_router s))"
  show ?case
  proof (cases "rt_queue ?r")
    case Nil
    then show ?thesis using get(3) by (simp add: worker_get_def)
  next
    case (Cons c q)
    show ?thesis
    proof (cases c)
      case None
      then show ?thesis using task_done_left [of i "?r\<lparr>rt_queue := q\<rparr>" ?n Stopped] get(1,2)
        by (simp add: work_left_def worker_get_def Cons Let_def)
    next
      case (Some e)
      then show ?thesis using sum_list_map_update [OF get(1), of "worker_left ?n" "Delivering e 0"] get(2)
        by (simp add: work_left_def worker_get_def Cons Let_def)
    qed
  qed
next
  case (send i s e k w ms r)
  have r: "rt_workers r = (rt_workers (sr_router s))[i := Delivering e (Suc k)]"
    "length (rt_transports r) = length (rt_transports (sr_router s))" "rt_queue r = rt_queue (sr_router s)"
    using send(4) by (auto simp: worker_send_def Let_def case_prod_beta)
  show ?case
    using sum_list_map_update [OF send(1), of "worker_left (length (rt_transports (sr_router s)))" "Delivering e (Suc k)"] send(2,3)
    by (simp add: work_left_def Let_def r)
next
  case (finish i s e k)
  then show ?case using task_done_left [OF finish(1), of "length (rt_transports (sr_router s))" Waiting]
    by (simp add: work_left_def worker_done_def Let_def)
qed

definition drained :: "siem_run \<Rightarrow> bool" where
  "drained s \<longleftrightarrow> rt_queue (sr_router s) = [] \<and> list_all (\<lambda>w. w = Waiting) (rt_workers (sr_router s))"

text \<open>A worker that is not waiting can go on, and so can every waiting one when there is something on the queue.\<close>

lemma busy_worker_steps:
  assumes "i < length (rt_workers (sr_router s))" "rt_workers (sr_router s) ! i = Delivering e k"
  shows "\<exists>s'. worker_step x s s' \<and> s' \<noteq> s"
proof (cases "k < length (rt_transports (sr_router s))")
  case True
  obtain ms r where r: "worker_send x undefined i e k (sr_router s) = (ms, r)" by (cases "worker_send x undefined i e k (sr_router s)")
  then have "rt_workers r ! i = Delivering e (Suc k)" using assms(1) by (auto simp: worker_send_def Let_def case_prod_beta)
  then have "r \<noteq> sr_router s" using assms(2) by auto
  then have "s\<lparr>sr_router := r, sr_out := sr_out s @ map (Pair k) ms\<rparr> \<noteq> s" by (metis siem_run.select_convs(1) siem_run.surjective siem_run.update_convs(1,4))
  then show ?thesis using worker_step.send [OF assms True r] by blast
next
  case False
  have "rt_workers (worker_done i (sr_router s)) ! i \<noteq> Delivering e k" using assms(1) by (simp add: worker_done_def task_done_def)
  then have "s\<lparr>sr_router := worker_done i (sr_router s)\<rparr> \<noteq> s" using assms(2) by (metis siem_run.select_convs(1) siem_run.surjective siem_run.update_convs(1))
  then show ?thesis using worker_step.finish [OF assms False] by blast
qed

lemma waiting_worker_steps:
  assumes "i < length (rt_workers (sr_router s))" "rt_workers (sr_router s) ! i = Waiting" "rt_queue (sr_router s) = Some e # q"
  shows "\<exists>s'. worker_step x s s' \<and> s' \<noteq> s"
proof -
  have "rt_workers (worker_get i (sr_router s)) ! i = Delivering e 0" using assms by (simp add: worker_get_def)
  then have "s\<lparr>sr_router := worker_get i (sr_router s)\<rparr> \<noteq> s"
    using assms(2) by (metis siem_run.select_convs(1) siem_run.surjective siem_run.update_convs(1) worker.distinct(1))
  then show ?thesis using worker_step.get [OF assms(1,2)] by blast
qed

lemma worker_step_exists:
  assumes inv: "siem_inv x ts m cap q calls s" and "0 < m" "\<not> drained s"
  shows "\<exists>s'. worker_step x s s' \<and> s' \<noteq> s"
proof (cases "list_all (\<lambda>w. w = Waiting) (rt_workers (sr_router s))")
  case True
  have l: "0 < length (rt_workers (sr_router s))" using inv assms(2) by (auto simp: siem_inv_def Let_def)
  moreover have "rt_workers (sr_router s) ! 0 = Waiting" using True l by (simp add: list_all_length)
  moreover obtain e q' where "rt_queue (sr_router s) = Some e # q'"
    using True assms(3) inv by (cases q) (simp_all add: drained_def siem_inv_def Let_def)
  ultimately show ?thesis by (rule waiting_worker_steps)
next
  case False
  then obtain i where i: "i < length (rt_workers (sr_router s))" "rt_workers (sr_router s) ! i \<noteq> Waiting" by (auto simp: list_all_length)
  have "worker_ok (length ts) (rt_workers (sr_router s) ! i)" using i(1) inv by (simp add: siem_inv_def Let_def list_all_length)
  then obtain e k where "rt_workers (sr_router s) ! i = Delivering e k" using i(2) by (cases "rt_workers (sr_router s) ! i") simp_all
  with i(1) show ?thesis by (rule busy_worker_steps)
qed

lemma worker_step_queued: "worker_step x s s' \<Longrightarrow> sr_queued s' = sr_queued s"
  by (induction rule: worker_step.induct) simp_all

lemma workers_drain:
  assumes "siem_inv x ts m cap q calls s" "0 < m"
  shows "\<exists>s'. (worker_step x)\<^sup>*\<^sup>* s s' \<and> drained s' \<and> sr_queued s' = sr_queued s"
  using assms(1)
proof (induction "work_left s" arbitrary: s q calls rule: less_induct)
  case less
  show ?case
  proof (cases "drained s")
    case False
    then obtain s1 where s1: "worker_step x s s1" "s1 \<noteq> s" using worker_step_exists [OF less.prems assms(2)] by blast
    obtain q1 c1 where "siem_inv x ts m cap q1 c1 s1" using worker_step_inv [OF s1(1) less.prems] by blast
    then obtain s' where "(worker_step x)\<^sup>*\<^sup>* s1 s'" "drained s'" "sr_queued s' = sr_queued s1"
      using less.hyps worker_step_decreases [OF s1] by blast
    then show ?thesis using s1(1) worker_step_queued [OF s1(1)] by (intro exI [of _ s']) (auto intro: converse_rtranclp_into_rtranclp)
  qed blast
qed

lemma drained_sums: "list_all (\<lambda>w. w = Waiting) ws \<Longrightarrow> sum_list (map (still_to_send k) ws) = {#}"
  by (induction ws) simp_all

lemma worker_ok_not_stopped: "list_all (worker_ok n) ws \<Longrightarrow> Stopped \<notin> set ws"
  by (auto simp: list_all_iff)

text \<open>
  C39: The queue drains.  In a reachable state with at least one worker no worker has ended (nothing puts the
  sentinel on the queue); only finitely many steps of workers change the state (the others are polls of an empty queue),
  whatever the network answers; as long as something is queued or in delivery some worker can go on, and the workers alone
  can empty the queue; and when the queue is empty and nobody is delivering, what every transport sent and its state are
  the result of calls in which it was sent every event that was put on the queue, exactly as often as it was put.
\<close>

theorem siem_drains:
  assumes "siem_reach x (SIEMRouter_init ts ml m cap) s" "0 < m"
  shows "Stopped \<notin> set (rt_workers (sr_router s)) \<and>
    wf {(b, a). worker_step x a b \<and> b \<noteq> a} \<and>
    (drained s \<or> (\<exists>s'. worker_step x s s' \<and> s' \<noteq> s)) \<and>
    (\<exists>s'. (worker_step x)\<^sup>*\<^sup>* s s' \<and> drained s' \<and> sr_queued s' = sr_queued s) \<and>
    (drained s \<longrightarrow> (\<exists>calls. \<forall>k < length ts.
      replay_calls x (ts ! k) (at_transport k calls) = (at_transport k (sr_out s), rt_transports (sr_router s) ! k) \<and>
      sent_to k calls = mset (sr_queued s)))"
proof -
  obtain q calls where inv: "siem_inv x ts m cap q calls s" using siem_reach_inv [OF assms(1)] by blast
  have w: "wf {(b, a). worker_step x a b \<and> b \<noteq> a}"
    by (rule wf_subset [OF wf_measure [of work_left]]) (auto simp: worker_step_decreases)
  have "Stopped \<notin> set (rt_workers (sr_router s))" using inv by (intro worker_ok_not_stopped) (auto simp: siem_inv_def Let_def)
  moreover have "drained s \<or> (\<exists>s'. worker_step x s s' \<and> s' \<noteq> s)" using worker_step_exists [OF inv assms(2)] by blast
  moreover have "drained s \<longrightarrow> (\<forall>k < length ts.
      replay_calls x (ts ! k) (at_transport k calls) = (at_transport k (sr_out s), rt_transports (sr_router s) ! k) \<and>
      sent_to k calls = mset (sr_queued s))"
    using inv by (auto simp: siem_inv_def Let_def drained_def delivered_def drained_sums)
  ultimately show ?thesis using w workers_drain [OF inv assms(2)] by blast
qed

text \<open>
  Splunk batches: over any events sent to a transport whose batch size is positive and whose buffer is below it, what is posted,
  batch after batch, followed by what is still in the buffer is exactly the events in their order; every batch has
  the configured size and the buffer stays below it.
\<close>

fun splunk_sends :: "splunk_transport \<Rightarrow> (siem_world \<times> siem_event) list \<Rightarrow> outgoing list res list \<times> splunk_transport" where
  "splunk_sends t [] = ([], t)"
| "splunk_sends t ((w, e) # es) = (let (r, t') = splunk_send w t e; (rs, t'') = splunk_sends t' es in (r # rs, t''))"

definition batch_result_of :: "splunk_transport \<Rightarrow> pyval list \<Rightarrow> outgoing list res" where
  "batch_result_of t b = (if b = [] then Inr [] else rbind (splunk_post t b) (\<lambda>p. Inr [p]))"

lemma splunk_buffer_irrelevant:
  "splunk_post (t\<lparr>sp_buffer := b\<rparr>) c = splunk_post t c" "splunk_envelope w (t\<lparr>sp_buffer := b\<rparr>) e = splunk_envelope w t e"
  by (simp_all add: splunk_post_def splunk_envelope_def)

lemma splunk_send_cases:
  assumes "0 < sp_batch_size t" "int (length (sp_buffer t)) < sp_batch_size t"
  obtains b c where "splunk_send w t e = (batch_result_of t b, t\<lparr>sp_buffer := c\<rparr>)" "b @ c = sp_buffer t @ [splunk_envelope w t e]"
    "b = [] \<or> int (length b) = sp_batch_size t" "int (length c) < sp_batch_size t"
proof (cases "sp_batch_size t \<le> int (length (sp_buffer t)) + 1")
  case True
  then show thesis using assms
    by (intro that [of "sp_buffer t @ [splunk_envelope w t e]" "[]"])
      (auto simp: splunk_send_def splunk_flush_def batch_result_of_def splunk_buffer_irrelevant Let_def)
next
  case False
  then show thesis using assms
    by (intro that [of "[]" "sp_buffer t @ [splunk_envelope w t e]"])
      (auto simp: splunk_send_def batch_result_of_def splunk_buffer_irrelevant Let_def)
qed

theorem splunk_batches:
  assumes "0 < sp_batch_size t" "int (length (sp_buffer t)) < sp_batch_size t"
  shows "\<exists>bs c. splunk_sends t es = (map (batch_result_of t) bs, t\<lparr>sp_buffer := c\<rparr>) \<and>
    concat bs @ c = sp_buffer t @ map (\<lambda>(w, e). splunk_envelope w t e) es \<and>
    list_all (\<lambda>b. b = [] \<or> int (length b) = sp_batch_size t) bs \<and> int (length c) < sp_batch_size t"
  using assms
proof (induction es arbitrary: t)
  case Nil
  then show ?case by (intro exI [of _ "[]"] exI [of _ "sp_buffer t"]) simp
next
  case (Cons p es)
  obtain w e where p: "p = (w, e)" by (cases p)
  obtain b c where b: "splunk_send w t e = (batch_result_of t b, t\<lparr>sp_buffer := c\<rparr>)" "b @ c = sp_buffer t @ [splunk_envelope w t e]"
    "b = [] \<or> int (length b) = sp_batch_size t" "int (length c) < sp_batch_size t"
    by (rule splunk_send_cases [OF Cons.prems])
  have f: "batch_result_of (t\<lparr>sp_buffer := c\<rparr>) = batch_result_of t"
    by (rule ext) (simp add: batch_result_of_def splunk_buffer_irrelevant)
  obtain bs d where d: "splunk_sends (t\<lparr>sp_buffer := c\<rparr>) es = (map (batch_result_of t) bs, t\<lparr>sp_buffer := d\<rparr>)"
    "concat bs @ d = c @ map (\<lambda>(w, e). splunk_envelope w t e) es"
    "list_all (\<lambda>b. b = [] \<or> int (length b) = sp_batch_size t) bs" "int (length d) < sp_batch_size t"
    using Cons.IH [of "t\<lparr>sp_buffer := c\<rparr>"] Cons.prems(1) b(4) unfolding f by (auto simp: splunk_buffer_irrelevant)
  have "concat (b # bs) @ d = sp_buffer t @ map (\<lambda>(w, e). splunk_envelope w t e) (p # es)"
    using b(2) d(2) by (simp add: p)
  then show ?case using b d by (intro exI [of _ "b # bs"] exI [of _ d]) (simp add: p)
qed

text \<open>
  \<open>flush\<close> at shutdown empties the transports before the queue: an event still on the queue goes into the Splunk
  buffer after the buffer was flushed; when the queue is empty and \<open>flush\<close> returns, nothing has been posted and the
  event is left in the buffer.
\<close>

theorem flush_before_drain_loses_event:
  assumes "rt_transports r = [TSplunk t]" "sp_buffer t = []" "1 < sp_batch_size t" "rt_queue r = [Some e]" "rt_workers r = [Waiting]"
    "rt_unfinished r = 1"
  shows "fst (router_flush r) = [] \<and>
    (let (ms, r') = worker_send x w 0 e 0 (worker_get 0 (snd (router_flush r))); r'' = worker_done 0 r'
     in ms = [] \<and> rt_queue r'' = [] \<and> rt_workers r'' = [Waiting] \<and>
        rt_transports r'' = [TSplunk (t\<lparr>sp_buffer := [splunk_envelope w t e]\<rparr>)])"
  using assms by (simp add: router_flush_def flush_at_def splunk_flush_def worker_get_def worker_send_def worker_done_def task_done_def
    splunk_send_def sent_of_def Let_def)

subsection \<open>Witnesses\<close>

definition sample_event :: siem_event where
  "sample_event = \<lparr>sv_event = ''login'', sv_level = ''error'', sv_tenant_id = ''t'', sv_trace_id = [], sv_extras = []\<rparr>"

definition sample_world_siem :: siem_world where
  "sample_world_siem = \<lparr>nw_now1 = [], nw_now2 = [], nw_time = ''0.0'', nw_hostname = ''h'', nw_net = NetOk\<rparr>"

definition sample_splunk :: splunk_transport where
  "sample_splunk = SplunkHECTransport_init ''u'' ''k'' ''i'' ''s'' ''j'' 2"

abbreviation sample_router :: router where
  "sample_router \<equiv> SIEMRouter_init [TSplunk sample_splunk] ''warning'' 1 5"

lemma sample_run:
  obtains s where "siem_reach sample_ext sample_router s" "sr_queued s = [sample_event]" "rt_queue (sr_router s) = [Some sample_event]"
    "rt_workers (sr_router s) = [Waiting]" "rt_emitted (sr_router s) = 1"
proof -
  let ?s1 = "(siem_start sample_router)\<lparr>sr_router := emit_count sample_router, sr_callers := [sample_event]\<rparr>"
  have a: "router_step sample_ext (siem_start sample_router) ?s1"
    using router_step.accept [of "siem_start sample_router" sample_event sample_ext]
    by (simp add: siem_start_def passes_level_def level_of_def SIEMRouter_init_def sample_event_def lower_def lower_char_def cp_def)
  let ?s2 = "?s1\<lparr>sr_router := emit_put sample_event (emit_count sample_router), sr_callers := [], sr_queued := [sample_event]\<rparr>"
  have b: "router_step sample_ext ?s1 ?s2"
    using router_step.put [of ?s1 "[]" sample_event "[]" sample_ext]
    by (simp add: siem_start_def queue_full_def emit_count_def SIEMRouter_init_def)
  have "siem_reach sample_ext sample_router ?s2" using a b by (meson converse_rtranclp_into_rtranclp rtranclp.rtrancl_refl)
  then show thesis
    by (rule that) (simp_all add: emit_put_def emit_count_def queue_full_def SIEMRouter_init_def)
qed

lemma worker_steps_reach: "(worker_step x)\<^sup>*\<^sup>* s s' \<Longrightarrow> siem_reach x r s \<Longrightarrow> siem_reach x r s'"
  by (induction rule: rtranclp_induct) (auto intro: rtranclp.rtrancl_into_rtrancl router_step.work)

theorem siem_accounting_witness:
  "\<exists>s q calls. siem_reach sample_ext sample_router s \<and> sr_queued s = [sample_event] \<and>
    rt_emitted (sr_router s) = length (sr_callers s) + 1 + rt_dropped (sr_router s) \<and> rt_queue (sr_router s) = map Some q \<and>
    replay_calls sample_ext (TSplunk sample_splunk) (at_transport 0 calls) = (at_transport 0 (sr_out s), rt_transports (sr_router s) ! 0) \<and>
    {#sample_event#} = mset q + sum_list (map (still_to_send 0) (rt_workers (sr_router s))) + sent_to 0 calls"
proof -
  obtain s where s: "siem_reach sample_ext sample_router s" "sr_queued s = [sample_event]" by (rule sample_run)
  show ?thesis using siem_accounting [OF s(1)] s by (intro exI [of _ s]) auto
qed

text \<open>The run of one event: the queue drains, and the buffer of the transport is what sending the event to it gives.\<close>

theorem siem_drains_witness:
  "\<exists>s calls. siem_reach sample_ext sample_router s \<and> drained s \<and> sr_queued s = [sample_event] \<and> sent_to 0 calls = {#sample_event#} \<and>
    replay_calls sample_ext (TSplunk sample_splunk) (at_transport 0 calls) = (at_transport 0 (sr_out s), rt_transports (sr_router s) ! 0)"
proof -
  obtain s where s: "siem_reach sample_ext sample_router s" "sr_queued s = [sample_event]" by (rule sample_run)
  obtain s' where s': "(worker_step sample_ext)\<^sup>*\<^sup>* s s'" "drained s'" "sr_queued s' = sr_queued s"
    using siem_drains [OF s(1)] by auto
  have r: "siem_reach sample_ext sample_router s'" using s'(1) s(1) by (rule worker_steps_reach)
  show ?thesis using siem_drains [OF r] s s' r by (intro exI [of _ s']) auto
qed

theorem splunk_batches_witness:
  "\<exists>bs c. snd (splunk_sends sample_splunk [(sample_world_siem, sample_event)]) = sample_splunk\<lparr>sp_buffer := c\<rparr> \<and>
    concat bs @ c = [splunk_envelope sample_world_siem sample_splunk sample_event] \<and> int (length c) < 2"
  using splunk_batches [of sample_splunk "[(sample_world_siem, sample_event)]"]
  by (auto simp: sample_splunk_def SplunkHECTransport_init_def)

theorem flush_before_drain_loses_event_witness:
  "fst (router_flush (sample_router\<lparr>rt_queue := [Some sample_event], rt_unfinished := 1\<rparr>)) = []"
  using flush_before_drain_loses_event [of "sample_router\<lparr>rt_queue := [Some sample_event], rt_unfinished := 1\<rparr>" sample_splunk sample_event]
  by (simp add: sample_splunk_def SplunkHECTransport_init_def SIEMRouter_init_def)

end
