(* ===== verification/Postgres.thy ===== *)
theory Postgres
  imports JsonText Storage
begin

text \<open>
  The PostgreSQL stores: \<open>PostgreSQLStorage\<close> of \<open>provable_ai/repositories.py\<close> and \<open>PostgreSQLHardenedStorage\<close> of
  \<open>provable_ai/postgres_storage.py\<close>, with its pools, retries and read replica.  The database is the record of the tables
  of the migration, with the constraints that it declares; a transaction changes it when it commits and not
  otherwise.  What the server and the network do (locks, lost connections, commits without an answer) is an
  argument.  Strings contain no NUL character, which PostgreSQL does not store.
\<close>

record pg_instance =
  pi_tenant_id :: string
  pi_instance_id :: string
  pi_current_state :: string
  pi_protocol_hash :: string

record pg_db =
  pg_ledger :: "ledger_row list"
  pg_instances :: "pg_instance list"
  pg_models :: "string list"
  pg_agents :: "string list"
  pg_policies :: "(string \<times> bool) list"
  pg_protocols :: "(string \<times> string) list"

text \<open>
  What a call raises: an exception of the program or of Python, \<open>StorageUnavailable\<close>, or an error of psycopg2 with its code.
\<close>

datatype pg_error = PyExc exc | StorageUnavailable | PgError "string option"

type_synonym 'a pg_res = "pg_error + 'a"

definition py :: "'a res \<Rightarrow> 'a pg_res" where
  "py r = (case r of Inl e \<Rightarrow> Inl (PyExc e) | Inr a \<Rightarrow> Inr a)"

lemma py_simps [simp]: "py (Inl e) = Inl (PyExc e)" "py (Inr a) = Inr a" "py r = Inr a \<longleftrightarrow> r = Inr a"
  by (auto simp: py_def split: sum.splits)

subsection \<open>The tables\<close>

definition pg_chain :: "ledger_row list \<Rightarrow> string \<Rightarrow> string \<Rightarrow> ledger_row list" where
  "pg_chain rows instance_id tenant_id = sort_key lr_sequence_id (filter (row_of tenant_id instance_id) rows)"

definition pg_latest :: "ledger_row list \<Rightarrow> string \<Rightarrow> string \<Rightarrow> ledger_row option" where
  "pg_latest rows instance_id tenant_id =
     (case pg_chain rows instance_id tenant_id of [] \<Rightarrow> None | r # rs \<Rightarrow> Some (last (r # rs)))"

text \<open>\<open>INSERT\<close> into the ledger: range of \<open>INTEGER\<close>, \<open>CHECK\<close> and \<open>UNIQUE\<close>.\<close>

definition pg_insert :: "ledger_row \<Rightarrow> ledger_row list \<Rightarrow> ledger_row list pg_res" where
  "pg_insert r rows =
     (if \<not> (- (2 ^ 31) \<le> lr_sequence_id r \<and> lr_sequence_id r < 2 ^ 31) then Inl (PgError (Some ''22003''))
      else if length (lr_current_hash r) \<noteq> 64 \<or> length (lr_signature r) \<noteq> 128 then Inl (PgError (Some ''23514''))
      else if list_ex (\<lambda>q. row_of (lr_tenant_id r) (lr_instance_id r) q \<and>
          (lr_sequence_id q = lr_sequence_id r \<or> lr_current_hash q = lr_current_hash r)) rows
      then Inl (PgError (Some ''23505''))
      else Inr (rows @ [r]))"

text \<open>\<open>ON CONFLICT (tenant_id, instance_id) DO UPDATE SET current_state\<close>.\<close>

definition upsert_instance :: "pg_instance \<Rightarrow> pg_instance list \<Rightarrow> pg_instance list" where
  "upsert_instance r rows =
     (let same = (\<lambda>q. pi_tenant_id q = pi_tenant_id r \<and> pi_instance_id q = pi_instance_id r)
      in if list_ex same rows then map (\<lambda>q. if same q then q\<lparr>pi_current_state := pi_current_state r\<rparr> else q) rows
         else rows @ [r])"

subsection \<open>\<open>PostgreSQLStorage\<close>\<close>

text \<open>
  The code raises \<open>ChainBroken\<close>, \<open>SequenceGap\<close> and \<open>DuplicateSequenceId\<close> with the keywords \<open>instance_id\<close>, \<open>got_hash\<close>, \<open>expected\<close>
  and \<open>got\<close>, which their constructors do not have: each of these statements raises \<open>TypeError\<close>.
\<close>

definition pg_validate_chain :: "ledger_row option \<Rightarrow> int \<Rightarrow> string \<Rightarrow> unit res" where
  "pg_validate_chain row sequence_id previous_hash =
     (case row of
        None \<Rightarrow> if previous_hash \<noteq> genesis_hash then Inl TypeError else if sequence_id \<noteq> 1 then Inl TypeError else Inr ()
      | Some r \<Rightarrow>
          if previous_hash \<noteq> lr_current_hash r then Inl TypeError
          else if sequence_id \<noteq> lr_sequence_id r + 1 then Inl TypeError else Inr ())"

text \<open>Everything up to the transaction: tenant, instance, number and previous hash.\<close>

definition pg_checks :: "pyval \<Rightarrow> (string \<times> string \<times> int \<times> string) res" where
  "pg_checks pd =
     rbind (item pd ''ledger'') (\<lambda>ledger.
     rbind (item pd ''decision'') (\<lambda>decision.
     rbind (item pd ''decision_context'') (\<lambda>decision_context.
     rbind (item pd ''governance'') (\<lambda>governance.
     rbind (item pd ''signature'') (\<lambda>signature.
     rbind (str_item pd ''instance_id'') (\<lambda>instance_id.
     rbind (rbind (item ledger ''sequence_id'') as_int) (\<lambda>sequence_id.
     rbind (str_item ledger ''previous_hash'') (\<lambda>previous_hash.
     rbind (rbind (get_item pd ''tenant_id'' (PyStr ''default'')) as_str) (\<lambda>tenant_id.
     rbind (str_item signature ''value'') (\<lambda>sig.
     rbind (if sig = [] \<or> length sig \<noteq> 128
            then rbind (rbind (get_item signature ''key_id'' (PyStr ''unknown'')) as_str)
                   (\<lambda>k. Inl (SigningFailed k ''Signature must be 128 hex chars''))
            else Inr ()) (\<lambda>_.
     rbind (canonical_json pd) (\<lambda>_.
     rbind (rbind (get_item decision_context ''metadata'' (PyDict [])) canonical_json) (\<lambda>_.
     Inr (tenant_id, instance_id, sequence_id, previous_hash))))))))))))))"

text \<open>The instance row of a proof: the new state and, as protocol hash, the policy version.\<close>

definition instance_of :: "pyval \<Rightarrow> string \<Rightarrow> string \<Rightarrow> pg_instance res" where
  "instance_of pd tenant_id instance_id =
     rbind (item pd ''decision'') (\<lambda>decision.
     rbind (item pd ''governance'') (\<lambda>governance.
     rbind (str_item decision ''to_state'') (\<lambda>to_state.
     rbind (rbind (get_item governance ''policy_version'' (PyStr ''unknown'')) as_str) (\<lambda>protocol_hash.
     Inr \<lparr>pi_tenant_id = tenant_id, pi_instance_id = instance_id, pi_current_state = to_state, pi_protocol_hash = protocol_hash\<rparr>))))"

definition pg_append_ledger_entry :: "bool \<Rightarrow> pyval \<Rightarrow> pg_db \<Rightarrow> int pg_res \<times> pg_db" where
  "pg_append_ledger_entry got_lock pd s =
     (case rbind (py (pg_checks pd)) (\<lambda>(tenant_id, instance_id, sequence_id, previous_hash).
           if \<not> got_lock then Inl (PyExc TypeError)
           else rbind (py (pg_validate_chain (pg_latest (pg_ledger s) instance_id tenant_id) sequence_id previous_hash)) (\<lambda>_.
             rbind (py (instance_of pd tenant_id instance_id)) (\<lambda>inst.
             rbind (py (ledger_row_of pd tenant_id instance_id sequence_id previous_hash)) (\<lambda>r.
             case pg_insert r (pg_ledger s) of
               Inl e \<Rightarrow> Inl (if e = PgError (Some ''23505'') then PyExc TypeError else e)
             | Inr rows \<Rightarrow> Inr (sequence_id, s\<lparr>pg_instances := upsert_instance inst (pg_instances s), pg_ledger := rows\<rparr>))))) of
        Inl e \<Rightarrow> (Inl e, s)
      | Inr (n, s') \<Rightarrow> (Inr n, s'))"

text \<open>The stored text of a proof or specification; \<open>json.loads\<close> of a bad one raises.\<close>

definition loads_text :: "string \<Rightarrow> pyval res" where
  "loads_text s = opt_res (ValueError ''JSONDecodeError'') (body_loads s)"

definition loads_row :: "ledger_row option \<Rightarrow> pyval option res" where
  "loads_row row = (case row of None \<Rightarrow> Inr None | Some r \<Rightarrow> rbind (loads_text (lr_proof_json r)) (\<lambda>v. Inr (Some v)))"

definition pg_get_latest_ledger_entry :: "pg_db \<Rightarrow> string \<Rightarrow> string \<Rightarrow> pyval option res" where
  "pg_get_latest_ledger_entry s instance_id tenant_id = loads_row (pg_latest (pg_ledger s) instance_id tenant_id)"

definition pg_get_ledger_entry :: "pg_db \<Rightarrow> string \<Rightarrow> int \<Rightarrow> string \<Rightarrow> pyval option res" where
  "pg_get_ledger_entry s instance_id sequence_id tenant_id =
     loads_row (db_first (\<lambda>r. row_of tenant_id instance_id r \<and> lr_sequence_id r = sequence_id) (pg_ledger s))"

definition pg_get_ledger_chain :: "pg_db \<Rightarrow> string \<Rightarrow> string \<Rightarrow> pyval list res" where
  "pg_get_ledger_chain s instance_id tenant_id =
     rmap_list (\<lambda>r. loads_text (lr_proof_json r)) (pg_chain (pg_ledger s) instance_id tenant_id)"

definition pg_get_ledger_count :: "pg_db \<Rightarrow> string option \<Rightarrow> string \<Rightarrow> nat" where
  "pg_get_ledger_count s instance_id tenant_id =
     length (filter (\<lambda>r. lr_tenant_id r = tenant_id \<and>
        (case instance_id of Some i \<Rightarrow> i \<noteq> [] \<longrightarrow> lr_instance_id r = i | None \<Rightarrow> True)) (pg_ledger s))"

definition pg_get_max_sequence_id :: "pg_db \<Rightarrow> string \<Rightarrow> string \<Rightarrow> int" where
  "pg_get_max_sequence_id s instance_id tenant_id =
     (case pg_latest (pg_ledger s) instance_id tenant_id of None \<Rightarrow> 0 | Some r \<Rightarrow> lr_sequence_id r)"

definition add_once :: "string \<Rightarrow> string list \<Rightarrow> string list" where
  "add_once v vs = (if v \<in> set vs then vs else vs @ [v])"

definition pg_add_approved_model :: "string \<Rightarrow> pg_db \<Rightarrow> pg_db" where
  "pg_add_approved_model model_version s = s\<lparr>pg_models := add_once model_version (pg_models s)\<rparr>"

definition pg_add_approved_agent :: "string \<Rightarrow> pg_db \<Rightarrow> pg_db" where
  "pg_add_approved_agent agent_version s = s\<lparr>pg_agents := add_once agent_version (pg_agents s)\<rparr>"

definition pg_get_approved_models :: "pg_db \<Rightarrow> string list" where
  "pg_get_approved_models s = pg_models s"

definition pg_get_approved_agents :: "pg_db \<Rightarrow> string list" where
  "pg_get_approved_agents s = pg_agents s"

definition set_policy :: "string \<Rightarrow> bool \<Rightarrow> (string \<times> bool) list \<Rightarrow> (string \<times> bool) list" where
  "set_policy v active ps = map (\<lambda>(p, a). (p, if p = v then active else a)) ps"

definition pg_add_approved_policy :: "string \<Rightarrow> pg_db \<Rightarrow> pg_db" where
  "pg_add_approved_policy policy_version s =
     s\<lparr>pg_policies := (if policy_version \<in> fst ` set (pg_policies s) then set_policy policy_version True (pg_policies s)
        else pg_policies s @ [(policy_version, True)])\<rparr>"

definition pg_deactivate_policy :: "string \<Rightarrow> pg_db \<Rightarrow> pg_db" where
  "pg_deactivate_policy policy_version s = s\<lparr>pg_policies := set_policy policy_version False (pg_policies s)\<rparr>"

definition pg_get_approved_policies :: "pg_db \<Rightarrow> string list" where
  "pg_get_approved_policies s = map fst (filter snd (pg_policies s))"

definition add_protocol :: "string \<Rightarrow> string \<Rightarrow> pg_db \<Rightarrow> pg_db" where
  "add_protocol protocol_hash spec_json s =
     s\<lparr>pg_protocols := (if protocol_hash \<in> fst ` set (pg_protocols s) then pg_protocols s
        else pg_protocols s @ [(protocol_hash, spec_json)])\<rparr>"

definition pg_register_protocol :: "string \<Rightarrow> pyval \<Rightarrow> pg_db \<Rightarrow> unit res \<times> pg_db" where
  "pg_register_protocol protocol_hash spec s =
     (case canonical_json spec of Inl e \<Rightarrow> (Inl e, s) | Inr t \<Rightarrow> (Inr (), add_protocol protocol_hash t s))"

definition pg_get_protocol :: "pg_db \<Rightarrow> string \<Rightarrow> pyval option res" where
  "pg_get_protocol s protocol_hash =
     (case map_of (pg_protocols s) protocol_hash of None \<Rightarrow> Inr None | Some t \<Rightarrow> rbind (loads_text t) (\<lambda>v. Inr (Some v)))"

subsection \<open>Pools and retries\<close>

datatype conn_outcome = Connected | PoolExhausted | ConnectError "string option"

record pool =
  po_checkouts :: nat
  po_exhausted :: nat
  po_errors :: nat

text \<open>\<open>_Pool.acquire\<close> around a body; the body rolls back what it did when it raises.\<close>

definition acquire :: "conn_outcome \<Rightarrow> ('s \<Rightarrow> 'a pg_res \<times> 's) \<Rightarrow> pool \<Rightarrow> 's \<Rightarrow> 'a pg_res \<times> pool \<times> 's" where
  "acquire c body p s =
     (case c of
        PoolExhausted \<Rightarrow> (Inl StorageUnavailable, p\<lparr>po_exhausted := po_exhausted p + 1\<rparr>, s)
      | ConnectError code \<Rightarrow> (Inl (PgError code), p, s)
      | Connected \<Rightarrow>
          (case body s of
             (Inr a, s') \<Rightarrow> (Inr a, p\<lparr>po_checkouts := po_checkouts p + 1\<rparr>, s')
           | (Inl e, s') \<Rightarrow> (Inl e, p\<lparr>po_checkouts := po_checkouts p + 1, po_errors := po_errors p + 1\<rparr>, s')))"

definition TRANSIENT_CODES :: "string list" where
  "TRANSIENT_CODES = [''40001'', ''40P01'', ''57P01'', ''57P02'', ''08006'', ''08001'', ''08004'']"

text \<open>
  \<open>_with_retry\<close>: the loop over \<open>range(max_retries)\<close>, of which \<open>n\<close> rounds are left; the third component are the
  attempts after which it slept.
\<close>

fun retry_loop :: "nat \<Rightarrow> (nat \<Rightarrow> 's \<Rightarrow> 'a pg_res \<times> 's) \<Rightarrow> nat \<Rightarrow> 's \<Rightarrow> 'a pg_res \<times> 's \<times> nat list" where
  "retry_loop max_retries fn 0 s = (Inl StorageUnavailable, s, [])"
| "retry_loop max_retries fn (Suc n) s =
     (let attempt = max_retries - Suc n
      in case fn attempt s of
           (Inl (PgError (Some code)), s') \<Rightarrow>
             if strip code \<in> set TRANSIENT_CODES \<and> attempt < max_retries - 1
             then (let (r, s'', waits) = retry_loop max_retries fn n s' in (r, s'', attempt # waits))
             else (Inl (PgError (Some code)), s', [])
         | (r, s') \<Rightarrow> (r, s', []))"

definition with_retry :: "nat \<Rightarrow> (nat \<Rightarrow> 's \<Rightarrow> 'a pg_res \<times> 's) \<Rightarrow> 's \<Rightarrow> 'a pg_res \<times> 's \<times> nat list" where
  "with_retry max_retries fn s = retry_loop max_retries fn max_retries s"

subsection \<open>\<open>PostgreSQLHardenedStorage\<close>\<close>

text \<open>
  What a transaction meets: the connection, the advisory lock, the rows another transaction has locked, and the commit, which
  may fail or may succeed without the client learning of it.
\<close>

datatype commit_outcome = Commits | CommitFails "string option" | CommitLost "string option"

record pg_world =
  gw_conn :: conn_outcome
  gw_lock :: bool
  gw_locked :: "ledger_row \<Rightarrow> bool"
  gw_commit :: commit_outcome

record hardened =
  hs_write_pool :: pool
  hs_read_pool :: pool
  hs_has_replica :: bool
  hs_primary :: pg_db
  hs_replica :: pg_db

definition new_pool :: pool where
  "new_pool = \<lparr>po_checkouts = 0, po_exhausted = 0, po_errors = 0\<rparr>"

text \<open>The constructor; the data sources are given by their names, the databases behind them by their content.\<close>

definition hardened_init :: "string option \<Rightarrow> string option \<Rightarrow> string \<Rightarrow> string option \<Rightarrow> pg_db \<Rightarrow> pg_db \<Rightarrow> hardened res" where
  "hardened_init write_dsn read_dsn env_url env_replica primary replica =
     (let given = (\<lambda>o1 d. case o1 of Some s \<Rightarrow> if s \<noteq> [] then s else d | None \<Rightarrow> d);
          w = given write_dsn env_url;
          r = given read_dsn (case env_replica of Some s \<Rightarrow> s | None \<Rightarrow> w)
      in if w = [] then Inl (ValueError ''DATABASE_URL or write_dsn required'')
         else Inr \<lparr>hs_write_pool = new_pool, hs_read_pool = new_pool, hs_has_replica = (r \<noteq> w),
                   hs_primary = primary, hs_replica = replica\<rparr>)"

definition transaction :: "commit_outcome \<Rightarrow> (pg_db \<Rightarrow> ('a \<times> pg_db) pg_res) \<Rightarrow> pg_db \<Rightarrow> 'a pg_res \<times> pg_db" where
  "transaction c f s =
     (case f s of
        Inl e \<Rightarrow> (Inl e, s)
      | Inr (a, s') \<Rightarrow>
          (case c of Commits \<Rightarrow> (Inr a, s') | CommitFails code \<Rightarrow> (Inl (PgError code), s) | CommitLost code \<Rightarrow> (Inl (PgError code), s')))"

definition hs_write :: "pg_world \<Rightarrow> (pg_db \<Rightarrow> ('a \<times> pg_db) pg_res) \<Rightarrow> hardened \<Rightarrow> 'a pg_res \<times> hardened" where
  "hs_write w f st =
     (let (r, p, db) = acquire (gw_conn w) (transaction (gw_commit w) f) (hs_write_pool st) (hs_primary st)
      in (r, st\<lparr>hs_write_pool := p, hs_primary := db\<rparr>))"

text \<open>\<open>_read\<close>: only an exhausted replica pool falls back to the primary.  The two connections are those of the two pools.\<close>

definition hs_read :: "conn_outcome \<Rightarrow> conn_outcome \<Rightarrow> (pg_db \<Rightarrow> 'a pg_res) \<Rightarrow> hardened \<Rightarrow> 'a pg_res \<times> hardened" where
  "hs_read replica_conn primary_conn q st =
     (let from_primary = (\<lambda>st. let (r, p, db) = acquire primary_conn (\<lambda>s. (q s, s)) (hs_write_pool st) (hs_primary st)
            in (r, st\<lparr>hs_write_pool := p\<rparr>))
      in if hs_has_replica st
         then (let (r, p, db) = acquire replica_conn (\<lambda>s. (q s, s)) (hs_read_pool st) (hs_replica st); st = st\<lparr>hs_read_pool := p\<rparr>
               in if r = Inl StorageUnavailable then from_primary st else (r, st))
         else from_primary st)"

definition hardened_checks :: "pyval \<Rightarrow> (string \<times> string \<times> int \<times> string) res" where
  "hardened_checks pd =
     rbind (item pd ''ledger'') (\<lambda>ledger.
     rbind (item pd ''decision'') (\<lambda>decision.
     rbind (item pd ''decision_context'') (\<lambda>decision_context.
     rbind (item pd ''governance'') (\<lambda>governance.
     rbind (item pd ''signature'') (\<lambda>signature.
     rbind (str_item pd ''instance_id'') (\<lambda>instance_id.
     rbind (rbind (get_item pd ''tenant_id'' (PyStr ''default'')) as_str) (\<lambda>tenant_id.
     rbind (rbind (item ledger ''sequence_id'') as_int) (\<lambda>sequence_id.
     rbind (str_item ledger ''previous_hash'') (\<lambda>previous_hash.
     rbind (canonical_json pd) (\<lambda>_.
     Inr (tenant_id, instance_id, sequence_id, previous_hash)))))))))))"

text \<open>The row differs from that of \<open>PostgreSQLStorage\<close> in the text of the metadata and the default schema version.\<close>

definition hardened_row :: "pyval \<Rightarrow> string \<Rightarrow> string \<Rightarrow> int \<Rightarrow> string \<Rightarrow> ledger_row res" where
  "hardened_row pd tenant_id instance_id sequence_id previous_hash =
     rbind (item pd ''ledger'') (\<lambda>ledger.
     rbind (item pd ''decision'') (\<lambda>decision.
     rbind (item pd ''decision_context'') (\<lambda>decision_ctx.
     rbind (item pd ''governance'') (\<lambda>governance.
     rbind (item pd ''signature'') (\<lambda>signature.
     rbind (canonical_json pd) (\<lambda>proof_json.
     rbind (str_item ledger ''current_hash'') (\<lambda>current_hash.
     rbind (str_item signature ''value'') (\<lambda>sig.
     rbind (str_item signature ''key_id'') (\<lambda>key_id.
     rbind (rbind (get_item governance ''policy_version'' (PyStr ''unknown'')) as_str) (\<lambda>protocol_hash.
     rbind (str_item decision ''from_state'') (\<lambda>from_state.
     rbind (str_item decision ''to_state'') (\<lambda>to_state.
     rbind (str_item governance ''model_version'') (\<lambda>model_version.
     rbind (str_item governance ''agent_version'') (\<lambda>agent_version.
     rbind (str_item governance ''policy_version'') (\<lambda>policy_version.
     rbind (rbind (get_item decision_ctx ''metadata'' (PyDict []))
              (\<lambda>m. opt_res TypeError (json_dumps_ordered '', '' '': '' m))) (\<lambda>metadata_json.
     rbind (str_item ledger ''timestamp'') (\<lambda>timestamp.
     Inr \<lparr>lr_tenant_id = tenant_id, lr_instance_id = instance_id, lr_sequence_id = sequence_id,
          lr_previous_hash = previous_hash, lr_current_hash = current_hash, lr_signature = sig,
          lr_key_id = key_id, lr_protocol_hash = protocol_hash, lr_from_state = from_state,
          lr_to_state = to_state, lr_actor = ''system'', lr_input_hash = [], lr_output_hash = [],
          lr_model_version = model_version, lr_agent_version = agent_version,
          lr_policy_version = policy_version, lr_metadata_json = metadata_json,
          lr_proof_json = proof_json, lr_schema_version = ''1.0'', lr_version = 1,
          lr_timestamp = timestamp\<rparr>)))))))))))))))))"

text \<open>
  The transaction of \<open>append_ledger_entry\<close>.  \<open>FOR UPDATE SKIP LOCKED\<close> passes over rows that are locked.
\<close>

definition hardened_insert ::
  "pg_world \<Rightarrow> pyval \<Rightarrow> string \<Rightarrow> string \<Rightarrow> int \<Rightarrow> string \<Rightarrow> pg_db \<Rightarrow> (int \<times> pg_db) pg_res" where
  "hardened_insert w pd tenant_id instance_id sequence_id previous_hash s =
     (if \<not> gw_lock w then Inl StorageUnavailable
      else rbind (py (pg_validate_chain (pg_latest (filter (\<lambda>r. \<not> gw_locked w r) (pg_ledger s)) instance_id tenant_id)
             sequence_id previous_hash)) (\<lambda>_.
        rbind (py (instance_of pd tenant_id instance_id)) (\<lambda>inst.
        rbind (py (hardened_row pd tenant_id instance_id sequence_id previous_hash)) (\<lambda>r.
        case pg_insert r (pg_ledger s) of
          Inl e \<Rightarrow> Inl (if e = PgError (Some ''23505'') then PyExc TypeError else e)
        | Inr rows \<Rightarrow> Inr (sequence_id, s\<lparr>pg_instances := upsert_instance inst (pg_instances s), pg_ledger := rows\<rparr>)))))"

definition hardened_append_once :: "pg_world \<Rightarrow> pyval \<Rightarrow> hardened \<Rightarrow> int pg_res \<times> hardened" where
  "hardened_append_once w pd st =
     (case hardened_checks pd of
        Inl e \<Rightarrow> (Inl (PyExc e), st)
      | Inr (tenant_id, instance_id, sequence_id, previous_hash) \<Rightarrow>
          hs_write w (hardened_insert w pd tenant_id instance_id sequence_id previous_hash) st)"

definition hardened_append :: "nat \<Rightarrow> (nat \<Rightarrow> pg_world) \<Rightarrow> pyval \<Rightarrow> hardened \<Rightarrow> int pg_res \<times> hardened \<times> nat list" where
  "hardened_append max_retries world pd st = with_retry max_retries (\<lambda>a. hardened_append_once (world a) pd) st"

text \<open>The other writes.\<close>

definition hardened_exec :: "nat \<Rightarrow> (nat \<Rightarrow> pg_world) \<Rightarrow> (pg_db \<Rightarrow> pg_db) \<Rightarrow> hardened \<Rightarrow> unit pg_res \<times> hardened \<times> nat list" where
  "hardened_exec max_retries world f st = with_retry max_retries (\<lambda>a. hs_write (world a) (\<lambda>s. Inr ((), f s))) st"

definition hardened_add_approved_model where
  "hardened_add_approved_model n world v = hardened_exec n world (pg_add_approved_model v)"

definition hardened_add_approved_agent where
  "hardened_add_approved_agent n world v = hardened_exec n world (pg_add_approved_agent v)"

definition hardened_add_approved_policy where
  "hardened_add_approved_policy n world v = hardened_exec n world (pg_add_approved_policy v)"

definition hardened_deactivate_policy where
  "hardened_deactivate_policy n world v = hardened_exec n world (pg_deactivate_policy v)"

definition hardened_register_protocol ::
  "nat \<Rightarrow> (nat \<Rightarrow> pg_world) \<Rightarrow> string \<Rightarrow> pyval \<Rightarrow> hardened \<Rightarrow> unit pg_res \<times> hardened \<times> nat list" where
  "hardened_register_protocol n world protocol_hash spec st =
     with_retry n (\<lambda>a. hs_write (world a) (\<lambda>s. rbind (py (opt_res TypeError (json_dumps_spaced spec))) (\<lambda>t.
       Inr ((), add_protocol protocol_hash t s)))) st"

text \<open>The reads.\<close>

definition hardened_query ::
  "nat \<Rightarrow> (nat \<Rightarrow> conn_outcome \<times> conn_outcome) \<Rightarrow> (pg_db \<Rightarrow> 'a pg_res) \<Rightarrow> hardened \<Rightarrow> 'a pg_res \<times> hardened \<times> nat list" where
  "hardened_query max_retries conns q st = with_retry max_retries (\<lambda>a. hs_read (fst (conns a)) (snd (conns a)) q) st"

definition hardened_get_ledger_chain where
  "hardened_get_ledger_chain n conns i t = hardened_query n conns (\<lambda>s. Inr (pg_chain (pg_ledger s) i t))"

definition hardened_get_latest_ledger_entry where
  "hardened_get_latest_ledger_entry n conns i t = hardened_query n conns (\<lambda>s. py (pg_get_latest_ledger_entry s i t))"

definition hardened_get_ledger_entry where
  "hardened_get_ledger_entry n conns i k t = hardened_query n conns (\<lambda>s. py (pg_get_ledger_entry s i k t))"

definition hardened_get_ledger_count where
  "hardened_get_ledger_count n conns i t = hardened_query n conns (\<lambda>s. Inr (pg_get_ledger_count s i t))"

definition hardened_get_max_sequence_id where
  "hardened_get_max_sequence_id n conns i t = hardened_query n conns (\<lambda>s. Inr (pg_get_max_sequence_id s i t))"

definition hardened_get_approved_models where
  "hardened_get_approved_models n conns = hardened_query n conns (\<lambda>s. Inr (pg_get_approved_models s))"

definition hardened_get_approved_agents where
  "hardened_get_approved_agents n conns = hardened_query n conns (\<lambda>s. Inr (pg_get_approved_agents s))"

definition hardened_get_approved_policies where
  "hardened_get_approved_policies n conns = hardened_query n conns (\<lambda>s. Inr (pg_get_approved_policies s))"

definition hardened_get_protocol where
  "hardened_get_protocol n conns h = hardened_query n conns (\<lambda>s. py (pg_get_protocol s h))"

text \<open>\<open>health_check\<close> runs \<open>SELECT 1\<close> on both pools and commits nothing.\<close>

definition health_check :: "conn_outcome \<Rightarrow> conn_outcome \<Rightarrow> conn_outcome \<Rightarrow> hardened \<Rightarrow> (bool \<times> bool \<times> bool) \<times> hardened" where
  "health_check write_conn replica_conn primary_conn st =
     (let (r1, p, db) = acquire write_conn (\<lambda>s. (Inr (), s)) (hs_write_pool st) (hs_primary st); st1 = st\<lparr>hs_write_pool := p\<rparr>;
          (r2, st2) = hs_read replica_conn primary_conn (\<lambda>s. Inr ()) st1
      in ((r1 = Inr (), r2 = Inr (), hs_has_replica st), st2))"

definition pool_metrics :: "hardened \<Rightarrow> pool \<times> pool option" where
  "pool_metrics st = (hs_write_pool st, if hs_has_replica st then Some (hs_read_pool st) else None)"

subsection \<open>Retries\<close>

definition transient :: "'a pg_res \<Rightarrow> bool" where
  "transient r \<longleftrightarrow> (case r of Inl (PgError (Some code)) \<Rightarrow> strip code \<in> set TRANSIENT_CODES | _ \<Rightarrow> False)"

lemma retry_loop_Suc:
  "retry_loop m fn (Suc n) s =
     (case fn (m - Suc n) s of (r, s') \<Rightarrow>
        if transient r \<and> n \<noteq> 0 \<and> Suc n \<le> m
        then (let (r', s'', waits) = retry_loop m fn n s' in (r', s'', (m - Suc n) # waits))
        else (r, s', []))" if "Suc n \<le> m"
  using that by (auto simp: transient_def Let_def split: prod.splits sum.splits pg_error.splits option.splits)

lemma retry_loop_result:
  assumes "0 < n" "n \<le> m" "retry_loop m fn n s = (r, s', waits)"
  shows "\<exists>k s0. k < n \<and> waits = [m - n..<m - n + k] \<and> s0 = fold (\<lambda>a s. snd (fn a s)) waits s \<and>
    fn (m - n + k) s0 = (r, s') \<and> (transient r \<longrightarrow> Suc k = n)"
  using assms
proof (induction n arbitrary: s waits)
  case (Suc n)
  obtain r1 s1 where f: "fn (m - Suc n) s = (r1, s1)" by fastforce
  note step = Suc.prems(3) [unfolded retry_loop_Suc [OF Suc.prems(2)] f prod.case]
  show ?case
  proof (cases "transient r1 \<and> n \<noteq> 0")
    case True
    with step Suc.prems(2) obtain waits' where l: "retry_loop m fn n s1 = (r, s', waits')"
      and w: "waits = (m - Suc n) # waits'" by (auto simp: Let_def split: prod.splits)
    from True Suc.prems(2) Suc.IH [OF _ _ l] obtain k where k: "k < n" "waits' = [m - n..<m - n + k]"
      "fn (m - n + k) (fold (\<lambda>a s. snd (fn a s)) waits' s1) = (r, s')" "transient r \<longrightarrow> Suc k = n" by auto
    have m: "m - n = Suc (m - Suc n)" using Suc.prems(2) by simp
    have "waits = [m - Suc n..<m - Suc n + Suc k]" unfolding w k(2) m by (simp add: upt_conv_Cons)
    moreover have "fold (\<lambda>a s. snd (fn a s)) waits s = fold (\<lambda>a s. snd (fn a s)) waits' s1" by (simp add: w f)
    ultimately show ?thesis using k(1,3,4) m by (intro exI [of _ "Suc k"]) auto
  next
    case False
    with step have "r1 = r" "s1 = s'" "waits = []" by auto
    with f False show ?thesis by (intro exI [of _ 0]) auto
  qed
qed simp

lemma retry_loop_invariant:
  assumes "\<And>a s. Q s \<Longrightarrow> Q (snd (fn a s))" "Q s"
  shows "Q (fold (\<lambda>a s. snd (fn a s)) as s)"
  using assms(2) by (induction as arbitrary: s) (auto intro: assms(1))

subsection \<open>The ledger of the primary\<close>

definition pg_ok :: "pg_db \<Rightarrow> bool" where
  "pg_ok s \<longleftrightarrow> (\<forall>t i. rows_linked 0 genesis_hash (filter (row_of t i) (pg_ledger s)))"

lemma rows_linked_nth: "rows_linked n h rs \<Longrightarrow> j < length rs \<Longrightarrow> lr_sequence_id (rs ! j) = int (n + j) + 1"
  by (induction rs arbitrary: n h j) (auto simp: nth_Cons split: nat.splits)

lemma pg_latest_eq:
  "pg_latest rows i t = (if pg_chain rows i t = [] then None else Some (last (pg_chain rows i t)))"
  by (simp add: pg_latest_def split: list.splits)

lemma pg_latest_Some:
  assumes "pg_latest rows i t = Some q"
  shows "q \<in> set rows \<and> row_of t i q"
proof -
  have "q \<in> set (pg_chain rows i t)"
    using assms by (auto simp: pg_latest_eq split: if_splits)
  then show ?thesis by (simp add: pg_chain_def)
qed

lemma pg_insert_Inr:
  "pg_insert r rows = Inr rows' \<longleftrightarrow> rows' = rows @ [r] \<and> - (2 ^ 31) \<le> lr_sequence_id r \<and> lr_sequence_id r < 2 ^ 31 \<and>
     length (lr_current_hash r) = 64 \<and> length (lr_signature r) = 128 \<and>
     (\<forall>q\<in>set rows. row_of (lr_tenant_id r) (lr_instance_id r) q \<longrightarrow>
        lr_sequence_id q \<noteq> lr_sequence_id r \<and> lr_current_hash q \<noteq> lr_current_hash r)"
  by (auto simp: pg_insert_def list_ex_iff)

text \<open>
  A new row is the next of its chain even when the predecessor was looked up among a part of the rows: the \<open>UNIQUE\<close>
  constraint refuses a number that the chain already has.
\<close>

lemma unique_makes_next:
  assumes "rows_linked 0 genesis_hash (filter (row_of t i) rows)" "set vis \<subseteq> set rows"
    "pg_validate_chain (pg_latest vis i t) n ph = Inr ()"
    "\<And>q. q \<in> set rows \<Longrightarrow> row_of t i q \<Longrightarrow> lr_sequence_id q \<noteq> n"
  shows "n = int (length (filter (row_of t i) rows)) + 1 \<and>
    ph = (if filter (row_of t i) rows = [] then genesis_hash else lr_current_hash (last (filter (row_of t i) rows)))"
proof -
  let ?c = "filter (row_of t i) rows"
  have no: "\<not> (int j + 1 = n \<and> j < length ?c)" for j
    using rows_linked_nth [OF assms(1), of j] assms(4) [of "?c ! j"] nth_mem [of j ?c] by auto
  show ?thesis
  proof (cases "pg_latest vis i t")
    case None
    with assms(3) have "n = 1" "ph = genesis_hash" by (auto simp: pg_validate_chain_def split: if_splits)
    with no [of 0] show ?thesis by auto
  next
    case (Some q)
    with assms(2) have "q \<in> set ?c" using pg_latest_Some [of vis i t q] by auto
    then obtain j where j: "j < length ?c" "?c ! j = q" unfolding in_set_conv_nth by blast
    from Some assms(3) have n: "n = lr_sequence_id q + 1" "ph = lr_current_hash q"
      by (auto simp: pg_validate_chain_def split: if_splits)
    with rows_linked_nth [OF assms(1) j(1)] j(2) have "n = int (Suc j) + 1" by simp
    with no [of "Suc j"] j(1) have "length ?c = Suc j" by auto
    moreover from this j(2) have "last ?c = q"
      using last_conv_nth [of ?c] unfolding length_0_conv [symmetric] by simp
    ultimately show ?thesis using n rows_linked_nth [OF assms(1) j(1)] j(2) by auto
  qed
qed

lemma pg_ok_append:
  assumes "pg_ok s" "pg_ledger s' = pg_ledger s @ [r]" "set vis \<subseteq> set (pg_ledger s)"
    "pg_validate_chain (pg_latest vis (lr_instance_id r) (lr_tenant_id r)) (lr_sequence_id r) (lr_previous_hash r) = Inr ()"
    "pg_insert r (pg_ledger s) = Inr rows"
  shows "pg_ok s'"
  unfolding pg_ok_def
proof (intro allI)
  fix t i
  let ?c = "filter (row_of (lr_tenant_id r) (lr_instance_id r)) (pg_ledger s)"
  have l: "rows_linked 0 genesis_hash (filter (row_of t i) (pg_ledger s))" for t i
    using assms(1) unfolding pg_ok_def by blast
  have "lr_sequence_id r = int (length ?c) + 1 \<and>
      lr_previous_hash r = (if ?c = [] then genesis_hash else lr_current_hash (last ?c))"
    using assms(5) unfolding pg_insert_Inr by (intro unique_makes_next [OF l assms(3,4)]) auto
  with l show "rows_linked 0 genesis_hash (filter (row_of t i) (pg_ledger s'))"
    by (cases "row_of t i r") (auto simp: assms(2) rows_linked_append row_of_def)
qed

lemma hardened_row_keys:
  "hardened_row pd t i n ph = Inr r \<Longrightarrow>
     lr_tenant_id r = t \<and> lr_instance_id r = i \<and> lr_sequence_id r = n \<and> lr_previous_hash r = ph"
  by (auto simp: hardened_row_def)

lemma hardened_insert_Inr:
  assumes "hardened_insert w pd t i n ph s = Inr (m, s')" "pg_ok s"
  obtains r where "m = n" "hardened_row pd t i n ph = Inr r" "pg_ledger s' = pg_ledger s @ [r]" "pg_ok s'"
    "\<And>q. q \<in> set (pg_ledger s) \<Longrightarrow> row_of t i q \<Longrightarrow> lr_sequence_id q \<noteq> n"
proof -
  let ?vis = "filter (\<lambda>r. \<not> gw_locked w r) (pg_ledger s)"
  from assms(1) obtain r inst where v: "pg_validate_chain (pg_latest ?vis i t) n ph = Inr ()"
    and r1: "hardened_row pd t i n ph = Inr r"
    and c: "(case pg_insert r (pg_ledger s) of Inl e \<Rightarrow> Inl (if e = PgError (Some ''23505'') then PyExc TypeError else e)
        | Inr rows \<Rightarrow> Inr (n, s\<lparr>pg_instances := upsert_instance inst (pg_instances s), pg_ledger := rows\<rparr>)) = Inr (m, s')"
    by (auto simp: hardened_insert_def split: if_splits)
  from c obtain rows where "pg_insert r (pg_ledger s) = Inr rows" "m = n"
    "s' = s\<lparr>pg_instances := upsert_instance inst (pg_instances s), pg_ledger := rows\<rparr>"
    by (auto split: sum.splits)
  note r = r1 this
  note k = hardened_row_keys [OF r(1)]
  from r(2,4) have l: "pg_ledger s' = pg_ledger s @ [r]" by (simp add: pg_insert_Inr)
  have "pg_ok s'" by (rule pg_ok_append [OF assms(2) l _ _ r(2), of ?vis]) (use v k in auto)
  moreover have "lr_sequence_id q \<noteq> n" if "q \<in> set (pg_ledger s)" "row_of t i q" for q
    using r(2) k that by (auto simp: pg_insert_Inr)
  ultimately show thesis using that r(1,3) l by blast
qed

text \<open>One attempt: it leaves the database as it is, or it adds the row of the proof, whose number was free.\<close>

lemma hardened_append_once_cases:
  assumes "pg_ok (hs_primary st)" "hardened_append_once w pd st = (res, st')"
  obtains "hs_primary st' = hs_primary st" "\<And>n. res \<noteq> Inr n"
  | t i n ph r where "hardened_checks pd = Inr (t, i, n, ph)" "hardened_row pd t i n ph = Inr r"
    "pg_ledger (hs_primary st') = pg_ledger (hs_primary st) @ [r]" "pg_ok (hs_primary st')" "\<And>m. res = Inr m \<Longrightarrow> m = n"
    "\<And>q. q \<in> set (pg_ledger (hs_primary st)) \<Longrightarrow> row_of t i q \<Longrightarrow> lr_sequence_id q \<noteq> n"
proof (cases "hs_primary st' = hs_primary st \<and> (\<forall>n. res \<noteq> Inr n)")
  case False
  with assms(2) obtain t i n ph where c: "hardened_checks pd = Inr (t, i, n, ph)"
    by (auto simp: hardened_append_once_def split: sum.splits)
  let ?f = "hardened_insert w pd t i n ph"
  from False assms(2) c obtain m s' where f: "?f (hs_primary st) = Inr (m, s')" "hs_primary st' = s'" "\<And>k. res = Inr k \<Longrightarrow> k = m"
    by (auto simp: hardened_append_once_def hs_write_def acquire_def transaction_def Let_def
        split: sum.splits conn_outcome.splits commit_outcome.splits prod.splits if_splits)
  from hardened_insert_Inr [OF f(1) assms(1)] f c that(2) show thesis by metis
qed (use that(1) in blast)

text \<open>
  What the attempts of one call keep: the ledger is the old one, or the old one with the row of the proof, after which
  further attempts add nothing.
\<close>

definition appended :: "pyval \<Rightarrow> hardened \<Rightarrow> hardened \<Rightarrow> bool" where
  "appended pd st st' \<longleftrightarrow> pg_ok (hs_primary st') \<and>
     (pg_ledger (hs_primary st') = pg_ledger (hs_primary st) \<or>
      (\<exists>t i n ph r. hardened_checks pd = Inr (t, i, n, ph) \<and> hardened_row pd t i n ph = Inr r \<and>
         pg_ledger (hs_primary st') = pg_ledger (hs_primary st) @ [r]))"

lemma appended_step:
  assumes "appended pd st st1" "hardened_append_once w pd st1 = (res, st2)"
  shows "appended pd st st2 \<and> (\<forall>m. res = Inr m \<longrightarrow> pg_ledger (hs_primary st2) \<noteq> pg_ledger (hs_primary st) \<and>
    (\<exists>t i ph. hardened_checks pd = Inr (t, i, m, ph)))"
proof -
  have ok: "pg_ok (hs_primary st1)" using assms(1) by (simp add: appended_def)
  from ok assms(2) show ?thesis
  proof (cases rule: hardened_append_once_cases)
    case 1
    with assms(1) show ?thesis by (simp add: appended_def)
  next
    case (2 t i n ph r)
    have "pg_ledger (hs_primary st1) = pg_ledger (hs_primary st)"
    proof (rule ccontr)
      assume "pg_ledger (hs_primary st1) \<noteq> pg_ledger (hs_primary st)"
      with assms(1) 2(1,2) have "r \<in> set (pg_ledger (hs_primary st1))" by (auto simp: appended_def)
      moreover have "row_of t i r" "lr_sequence_id r = n" using hardened_row_keys [OF 2(2)] by (simp_all add: row_of_def)
      ultimately show False using 2(6) by blast
    qed
    with 2 show ?thesis unfolding appended_def by auto
  qed
qed

subsection \<open>The two stores and SQLite\<close>

lemma pg_append_Inr:
  "pg_append_ledger_entry True pd p = (Inr n, p') \<longleftrightarrow>
     (\<exists>t i ph inst r rows. pg_checks pd = Inr (t, i, n, ph) \<and>
        pg_validate_chain (pg_latest (pg_ledger p) i t) n ph = Inr () \<and> instance_of pd t i = Inr inst \<and>
        ledger_row_of pd t i n ph = Inr r \<and> pg_insert r (pg_ledger p) = Inr rows \<and>
        p' = p\<lparr>pg_instances := upsert_instance inst (pg_instances p), pg_ledger := rows\<rparr>)"
proof -
  have c: "(case X of Inl e \<Rightarrow> (Inl e, p) | Inr (k, s') \<Rightarrow> (Inr k, s')) = (Inr n, p') \<longleftrightarrow> X = Inr (n, p')" for X :: "(int \<times> pg_db) pg_res"
    by (auto split: sum.splits)
  have i: "(case pg_insert r rs of Inl e \<Rightarrow> Inl (g e) | Inr rows \<Rightarrow> Inr (k, f rows)) = Inr (n, p') \<longleftrightarrow>
    (\<exists>rows. pg_insert r rs = Inr rows \<and> k = n \<and> p' = f rows)" for r rs k f and g :: "pg_error \<Rightarrow> pg_error"
    by (auto split: sum.splits)
  show ?thesis unfolding pg_append_ledger_entry_def c by (auto simp: i)
qed

lemma pg_append_error: "pg_append_ledger_entry g pd p = (Inl e, p') \<Longrightarrow> p' = p"
  by (auto simp: pg_append_ledger_entry_def split: sum.splits prod.splits)

lemma sqlite_append_Inr:
  "append_ledger_entry now pd s = (Inr n, s') \<longleftrightarrow>
     (\<exists>t i ph pr cs r. append_checks s pd = Inr (t, i, n, ph, pr, cs) \<and> ledger_row_of pd t i n ph = Inr r \<and>
        ledger_insert_ok s r \<and> s' = (ensure_instance now i pr cs t s)\<lparr>db_ledger := db_ledger s @ [r]\<rparr>)"
proof -
  have "ledger_insert_ok (ensure_instance now i pr cs t s) r = ledger_insert_ok s r" for i pr cs t r
    by (simp add: ledger_insert_ok_def ensure_instance_def)
  then show ?thesis by (auto simp: append_ledger_entry_def Let_def split: sum.splits prod.splits if_splits)
qed

lemma append_checks_pg:
  assumes "ledger_row_of pd t i n ph = Inr r"
  shows "append_checks s pd = Inr (t, i, n, ph, pr, cs) \<longleftrightarrow>
    pg_checks pd = Inr (t, i, n, ph) \<and> validate_chain_integrity s i n ph t = Inr () \<and>
    instance_of pd t i = Inr \<lparr>pi_tenant_id = t, pi_instance_id = i, pi_current_state = cs, pi_protocol_hash = pr\<rparr>"
  using assms by (auto simp: append_checks_def pg_checks_def instance_of_def ledger_row_of_def split: if_splits)

lemma instance_of_eq:
  "instance_of pd t i = Inr inst \<Longrightarrow> inst = \<lparr>pi_tenant_id = t, pi_instance_id = i,
     pi_current_state = pi_current_state inst, pi_protocol_hash = pi_protocol_hash inst\<rparr>"
  by (auto simp: instance_of_def)

lemma validate_pg:
  assumes "\<And>r. r \<in> set (db_ledger s) \<Longrightarrow> lr_instance_id r = i \<Longrightarrow> lr_tenant_id r = t"
  shows "validate_chain_integrity s i n ph t = Inr () \<longleftrightarrow> pg_validate_chain (pg_latest (db_ledger s) i t) n ph = Inr ()"
proof -
  have "db_first (\<lambda>r. lr_instance_id r = i \<and> lr_tenant_id r \<noteq> t) (db_ledger s) = None"
    using assms by (auto simp: db_first_None)
  moreover have "get_latest_ledger_entry s i t = pg_latest (db_ledger s) i t"
    by (simp add: get_latest_ledger_entry_def get_ledger_chain_def pg_latest_def pg_chain_def)
  ultimately show ?thesis
    by (auto simp: validate_chain_integrity_def pg_validate_chain_def split: option.splits if_splits)
qed

lemma insert_agrees:
  assumes "db_strict s" "pg_ledger p = db_ledger s" "0 \<le> lr_sequence_id r" "lr_sequence_id r < 2 ^ 31"
  shows "pg_insert r (pg_ledger p) = Inr rows \<longleftrightarrow> ledger_insert_ok s r \<and> rows = db_ledger s @ [r]"
  using assms(1,3,4) unfolding pg_insert_Inr assms(2) ledger_insert_ok_def by (auto simp: list_all_iff)

lemma pg_append_sqlite:
  assumes "ledger_ok s" "db_strict s" "pg_ledger p = db_ledger s" "length (db_ledger s) < 2 ^ 31 - 1"
    "\<And>t i n ph r. pg_checks pd = Inr (t, i, n, ph) \<Longrightarrow> r \<in> set (db_ledger s) \<Longrightarrow> lr_instance_id r = i \<Longrightarrow> lr_tenant_id r = t"
  shows "(\<exists>s'. append_ledger_entry now pd s = (Inr n, s') \<and> db_ledger s' = rs) \<longleftrightarrow>
    (\<exists>p'. pg_append_ledger_entry True pd p = (Inr n, p') \<and> pg_ledger p' = rs)"
proof -
  have bound: "0 \<le> n \<and> n < 2 ^ 31" if "validate_chain_integrity s i n ph t = Inr ()" for i n ph t
    using that le_less_trans [OF length_filter_le [of "row_of t i" "db_ledger s"] assms(4)]
    unfolding validate_chain_integrity_iff [OF assms(1)] get_ledger_chain_filter [OF assms(1)] by auto
  have ins: "pg_insert r (pg_ledger p) = Inr rows \<longleftrightarrow> ledger_insert_ok s r \<and> rows = db_ledger s @ [r]"
    if "ledger_row_of pd t i n ph = Inr r" "validate_chain_integrity s i n ph t = Inr ()" for t i n ph r rows
    using insert_agrees [OF assms(2,3), of r rows] bound [OF that(2)] ledger_row_of_keys [OF that(1)] by simp
  have val: "validate_chain_integrity s i n ph t = Inr () \<longleftrightarrow> pg_validate_chain (pg_latest (pg_ledger p) i t) n ph = Inr ()"
    if "pg_checks pd = Inr (t, i, n, ph)" for t i n ph
    unfolding assms(3) by (rule validate_pg) (use assms(5) that in blast)
  have l: "(\<exists>s'. append_ledger_entry now pd s = (Inr n, s') \<and> db_ledger s' = rs) \<longleftrightarrow>
    (\<exists>t i ph pr cs r. append_checks s pd = Inr (t, i, n, ph, pr, cs) \<and> ledger_row_of pd t i n ph = Inr r \<and>
       ledger_insert_ok s r \<and> rs = db_ledger s @ [r])"
    unfolding sqlite_append_Inr by auto
  have m: "(\<exists>p'. pg_append_ledger_entry True pd p = (Inr n, p') \<and> pg_ledger p' = rs) \<longleftrightarrow>
    (\<exists>t i ph inst r. pg_checks pd = Inr (t, i, n, ph) \<and> pg_validate_chain (pg_latest (pg_ledger p) i t) n ph = Inr () \<and>
       instance_of pd t i = Inr inst \<and> ledger_row_of pd t i n ph = Inr r \<and> pg_insert r (pg_ledger p) = Inr rs)"
    unfolding pg_append_Inr by auto
  show ?thesis
  proof
    assume "\<exists>s'. append_ledger_entry now pd s = (Inr n, s') \<and> db_ledger s' = rs"
    then show "\<exists>p'. pg_append_ledger_entry True pd p = (Inr n, p') \<and> pg_ledger p' = rs"
      unfolding l m using append_checks_pg ins val by metis
  next
    assume "\<exists>p'. pg_append_ledger_entry True pd p = (Inr n, p') \<and> pg_ledger p' = rs"
    then obtain t i ph inst r where h: "pg_checks pd = Inr (t, i, n, ph)"
      "pg_validate_chain (pg_latest (pg_ledger p) i t) n ph = Inr ()"
      "instance_of pd t i = Inr inst" "ledger_row_of pd t i n ph = Inr r" "pg_insert r (pg_ledger p) = Inr rs" unfolding m by blast
    have v: "validate_chain_integrity s i n ph t = Inr ()" using val [OF h(1)] h(2) by blast
    have "append_checks s pd = Inr (t, i, n, ph, pi_protocol_hash inst, pi_current_state inst)"
      unfolding append_checks_pg [OF h(4)] using h(1,3) v instance_of_eq [OF h(3)] by simp
    with h(4,5) ins [OF h(4) v] show "\<exists>s'. append_ledger_entry now pd s = (Inr n, s') \<and> db_ledger s' = rs"
      unfolding l by blast
  qed
qed

lemma pg_append_reads:
  assumes "pg_ok p" "pg_append_ledger_entry True pd p = (Inr n, p')"
  obtains t i ph r where "pg_checks pd = Inr (t, i, n, ph)" "pg_ok p'" "pg_ledger p' = pg_ledger p @ [r]"
    "canonical_json pd = Inr (lr_proof_json r)" "pg_latest (pg_ledger p') i t = Some r"
    "db_first (\<lambda>r. row_of t i r \<and> lr_sequence_id r = n) (pg_ledger p') = Some r"
proof -
  from assms(2) obtain t i ph r rows where h: "pg_checks pd = Inr (t, i, n, ph)"
    "pg_validate_chain (pg_latest (pg_ledger p) i t) n ph = Inr ()" "ledger_row_of pd t i n ph = Inr r"
    "pg_insert r (pg_ledger p) = Inr rows" "pg_ledger p' = rows" unfolding pg_append_Inr by auto
  note k = ledger_row_of_keys [OF h(3)]
  have l: "pg_ledger p' = pg_ledger p @ [r]" using h(4,5) by (simp add: pg_insert_Inr)
  have ok: "pg_ok p'" by (rule pg_ok_append [OF assms(1) l subset_refl _ h(4)]) (use h(2) k in simp)
  then have "sorted (map lr_sequence_id (filter (row_of t i) (pg_ledger p')))"
    unfolding pg_ok_def by (blast intro: rows_linked_sorted)
  then have c: "pg_chain (pg_ledger p') i t = filter (row_of t i) (pg_ledger p')"
    unfolding pg_chain_def by (rule sort_key_id_if_sorted)
  have "pg_latest (pg_ledger p') i t = Some r"
    unfolding pg_latest_eq c unfolding l using k by (simp add: row_of_def)
  moreover have "db_first (\<lambda>r. row_of t i r \<and> lr_sequence_id r = n) (pg_ledger p) = None"
    using h(4) k by (auto simp: pg_insert_Inr db_first_None)
  then have "db_first (\<lambda>r. row_of t i r \<and> lr_sequence_id r = n) (pg_ledger p') = Some r"
    using k by (simp add: l) (simp add: db_first_def row_of_def)
  moreover have "canonical_json pd = Inr (lr_proof_json r)" using h(3) by (auto simp: ledger_row_of_def)
  ultimately show thesis using that [OF h(1) ok l] by blast
qed

subsection \<open>Properties\<close>

definition empty_pg :: pg_db where
  "empty_pg = \<lparr>pg_ledger = [], pg_instances = [], pg_models = [], pg_agents = [], pg_policies = [], pg_protocols = []\<rparr>"

definition fresh_store :: hardened where
  "fresh_store = \<lparr>hs_write_pool = new_pool, hs_read_pool = new_pool, hs_has_replica = True,
     hs_primary = empty_pg, hs_replica = empty_pg\<rparr>"

definition quiet_world :: "commit_outcome \<Rightarrow> pg_world" where
  "quiet_world c = \<lparr>gw_conn = Connected, gw_lock = True, gw_locked = (\<lambda>_. False), gw_commit = c\<rparr>"

lemma pg_ok_empty: "pg_ok empty_pg"
  by (simp add: pg_ok_def empty_pg_def)

text \<open>
  C34: \<open>append_ledger_entry\<close> of the hardened store records a proof at most once, whatever happens to its attempts: lost
  connections, refused locks, rows that \<open>SKIP LOCKED\<close> passes over, failed commits and commits whose answer is lost.  The
  ledger of every instance stays a chain; a call that returns a number has added exactly the row of the proof, with that
  number, and a call that raises has added that row or nothing.
\<close>

theorem append_at_most_once:
  assumes "pg_ok (hs_primary st)" "hardened_append m world pd st = (res, st', waits)"
  shows "pg_ok (hs_primary st') \<and>
    (pg_ledger (hs_primary st') = pg_ledger (hs_primary st) \<and> (\<forall>n. res \<noteq> Inr n) \<or>
     (\<exists>t i n ph r. hardened_checks pd = Inr (t, i, n, ph) \<and> hardened_row pd t i n ph = Inr r \<and>
        pg_ledger (hs_primary st') = pg_ledger (hs_primary st) @ [r] \<and> (\<forall>k. res = Inr k \<longrightarrow> k = n)))"
proof (cases "m = 0")
  case True
  with assms show ?thesis by (auto simp: hardened_append_def with_retry_def)
next
  case False
  let ?fn = "\<lambda>a. hardened_append_once (world a) pd"
  have a0: "appended pd st st" using assms(1) by (simp add: appended_def)
  have step: "appended pd st (snd (?fn a s))" if "appended pd st s" for a s
    using appended_step [OF that, of "world a"] by (metis prod.collapse)
  obtain k where k: "?fn k (fold (\<lambda>a s. snd (?fn a s)) waits st) = (res, st')"
    using retry_loop_result [OF _ order_refl assms(2) [unfolded hardened_append_def with_retry_def]] False by auto
  from appended_step [OF retry_loop_invariant [OF step a0] k]
  have "appended pd st st'" and r: "\<And>n. res = Inr n \<Longrightarrow> pg_ledger (hs_primary st') \<noteq> pg_ledger (hs_primary st) \<and>
      (\<exists>t i ph. hardened_checks pd = Inr (t, i, n, ph))" by blast+
  then show ?thesis
    by (cases "pg_ledger (hs_primary st') = pg_ledger (hs_primary st)") (auto simp: appended_def)
qed

text \<open>
  The retries end: with at least one attempt a call answers with the result of an attempt after at most \<open>max_retries - 1\<close>
  waits, one after each earlier attempt in turn, and only a transient error of the last attempt is reported.  So the
  \<open>StorageUnavailable\<close> at the end of the loop is never raised.
\<close>

theorem retry_stops:
  assumes "0 < m" "with_retry m fn s = (r, s', waits)"
  shows "\<exists>k < m. waits = [0..<k] \<and> fn k (fold (\<lambda>a s. snd (fn a s)) [0..<k] s) = (r, s') \<and> (transient r \<longrightarrow> Suc k = m)"
  using retry_loop_result [OF assms(1) order_refl assms(2) [unfolded with_retry_def]] by auto

theorem retry_stops_witness:
  "\<exists>k<3. snd (snd (hardened_append 3 (\<lambda>a. quiet_world (CommitFails (Some ''40001''))) sample_entry fresh_store)) = [0..<k]"
proof -
  obtain r s' w where "with_retry 3 (\<lambda>a. hardened_append_once (quiet_world (CommitFails (Some ''40001''))) sample_entry) fresh_store = (r, s', w)"
    by (metis prod.collapse)
  from retry_stops [OF _ this] this show ?thesis by (auto simp: hardened_append_def)
qed

text \<open>
  C35: The store and \<open>SQLiteStorage\<close> agree on \<open>append_ledger_entry\<close> for an instance no other tenant uses: with the same
  ledger both accept or both refuse a proof, return the same number and hold the same ledger afterwards.
\<close>

theorem pg_agrees_with_sqlite:
  assumes "ledger_ok s" "db_strict s" "pg_ledger p = db_ledger s" "length (db_ledger s) < 2 ^ 31 - 1"
    "\<And>t i n ph r. pg_checks pd = Inr (t, i, n, ph) \<Longrightarrow> r \<in> set (db_ledger s) \<Longrightarrow> lr_instance_id r = i \<Longrightarrow> lr_tenant_id r = t"
  shows "case (append_ledger_entry now pd s, pg_append_ledger_entry True pd p) of
      ((Inr n, s'), (Inr m, p')) \<Rightarrow> n = m \<and> pg_ledger p' = db_ledger s'
    | ((Inl _, s'), (Inl _, p')) \<Rightarrow> pg_ledger p' = db_ledger s'
    | _ \<Rightarrow> False"
proof -
  obtain a s' b p' where e: "append_ledger_entry now pd s = (a, s')" "pg_append_ledger_entry True pd p = (b, p')" by fastforce
  have agree: "(\<exists>s'. append_ledger_entry now pd s = (Inr n, s') \<and> db_ledger s' = rs) \<longleftrightarrow>
    (\<exists>p'. pg_append_ledger_entry True pd p = (Inr n, p') \<and> pg_ledger p' = rs)" for n rs
    by (rule pg_append_sqlite [OF assms(1-4)]) (use assms(5) in blast)
  show ?thesis
  proof (cases a)
    case (Inl x)
    then have "b \<noteq> Inr n" for n using agree [of n] e by auto
    then obtain y where b: "b = Inl y" by (cases b) auto
    with pg_append_error [of True pd p y p'] append_ledger_entry_error [of now pd s x s'] assms(3) e Inl
    show ?thesis by simp
  next
    case (Inr n)
    with agree [of n "db_ledger s'"] e show ?thesis by auto
  qed
qed

theorem pg_agrees_with_sqlite_witness:
  "case (append_ledger_entry ''now'' sample_entry init_tables, pg_append_ledger_entry True sample_entry empty_pg) of
      ((Inr n, s'), (Inr m, p')) \<Rightarrow> n = m \<and> pg_ledger p' = db_ledger s'
    | ((Inl _, s'), (Inl _, p')) \<Rightarrow> pg_ledger p' = db_ledger s'
    | _ \<Rightarrow> False"
  by (rule pg_agrees_with_sqlite [OF ledger_ok_init]) (simp_all add: init_tables_def empty_pg_def)

text \<open>
  What \<open>append_ledger_entry\<close> stored is read back: after a call that returned \<open>n\<close>, both \<open>get_latest_ledger_entry\<close> and
  \<open>get_ledger_entry\<close> with the number \<open>n\<close> give the proof, with its keys in canonical order.
\<close>

theorem pg_append_read_back:
  assumes "pg_ok p" "plain pd" "wf_val pd" "pg_append_ledger_entry True pd p = (Inr n, p')"
  shows "\<exists>t i ph. pg_checks pd = Inr (t, i, n, ph) \<and> pg_get_latest_ledger_entry p' i t = Inr (Some (norm pd)) \<and>
    pg_get_ledger_entry p' i n t = Inr (Some (norm pd))"
proof -
  obtain t i ph r where r: "pg_checks pd = Inr (t, i, n, ph)" "canonical_json pd = Inr (lr_proof_json r)"
    "pg_latest (pg_ledger p') i t = Some r"
    "db_first (\<lambda>r. row_of t i r \<and> lr_sequence_id r = n) (pg_ledger p') = Some r"
    by (rule pg_append_reads [OF assms(1,4)])
  have "json_dumps False pd = Some (lr_proof_json r)" using r(2) by (auto simp: canonical_json_def)
  then have "loads_text (lr_proof_json r) = Inr (norm pd)"
    unfolding loads_text_def by (simp only: body_loads_dumps [OF assms(2,3)] opt_res_simps)
  then have row: "loads_row (Some r) = Inr (Some (norm pd))" unfolding loads_row_def option.case by (simp only: rbind.simps)
  have "pg_get_latest_ledger_entry p' i t = Inr (Some (norm pd))" "pg_get_ledger_entry p' i n t = Inr (Some (norm pd))"
    unfolding pg_get_latest_ledger_entry_def pg_get_ledger_entry_def r(3,4) by (fact row)+
  with r(1) show ?thesis by blast
qed

lemma sample_entry_pg:
  "(case pg_append_ledger_entry True sample_entry empty_pg of (Inr n, p) \<Rightarrow> n = 1 | _ \<Rightarrow> False)"
  by code_simp

theorem pg_append_read_back_witness:
  "\<exists>p' t i ph. pg_append_ledger_entry True sample_entry empty_pg = (Inr 1, p') \<and> pg_checks sample_entry = Inr (t, i, 1, ph) \<and>
     pg_get_latest_ledger_entry p' i t = Inr (Some (norm sample_entry))"
proof -
  obtain r p' where e: "pg_append_ledger_entry True sample_entry empty_pg = (r, p')" by fastforce
  then have e: "pg_append_ledger_entry True sample_entry empty_pg = (Inr 1, p')"
    using sample_entry_pg by (auto split: sum.splits)
  have "plain sample_entry" "wf_val sample_entry" by code_simp+
  from pg_append_read_back [OF pg_ok_empty this e] e show ?thesis by blast
qed

text \<open>
  A call whose commit succeeded but whose answer was lost is retried and then fails, although its row is in the ledger: the
  second attempt finds the row of the first one and stops with an error.
\<close>

theorem lost_commit_reported_as_failure:
  "case hardened_append 3 (\<lambda>a. quiet_world (if a = 0 then CommitLost (Some ''08006'') else Commits)) sample_entry fresh_store of
      (res, st, waits) \<Rightarrow> res = Inl (PyExc TypeError) \<and> length (pg_ledger (hs_primary st)) = 1 \<and> waits = [0]"
  by code_simp

theorem append_at_most_once_witness:
  "\<exists>st. (case hardened_append 3 (\<lambda>a. quiet_world (if a = 0 then CommitLost (Some ''08006'') else Commits)) sample_entry fresh_store
     of (res, st', waits) \<Rightarrow> st = st' \<and> pg_ok (hs_primary st'))"
proof -
  obtain res st' waits where e: "hardened_append 3 (\<lambda>a. quiet_world (if a = 0 then CommitLost (Some ''08006'') else Commits))
      sample_entry fresh_store = (res, st', waits)" by (metis prod.collapse)
  from append_at_most_once [OF _ e] e show ?thesis by (auto simp: fresh_store_def pg_ok_empty)
qed

text \<open>
  Every read goes to the replica when there is one; it goes to the primary when the pool of the replica is
  exhausted, and it counts that exhaustion.  A read changes neither database.
\<close>

theorem replica_reads:
  assumes "hs_has_replica st" "q (hs_replica st) \<noteq> Inl StorageUnavailable" "hs_read rc pc q st = (r, st')"
  shows "hs_primary st' = hs_primary st \<and> hs_replica st' = hs_replica st \<and>
    r = (case rc of Connected \<Rightarrow> q (hs_replica st) | ConnectError code \<Rightarrow> Inl (PgError code)
         | PoolExhausted \<Rightarrow> (case pc of Connected \<Rightarrow> q (hs_primary st) | ConnectError code \<Rightarrow> Inl (PgError code)
             | PoolExhausted \<Rightarrow> Inl StorageUnavailable)) \<and>
    po_exhausted (hs_read_pool st') = po_exhausted (hs_read_pool st) + (if rc = PoolExhausted then 1 else 0)"
  using assms by (auto simp: hs_read_def acquire_def Let_def split: conn_outcome.splits prod.splits sum.splits if_splits)

theorem replica_reads_witness:
  "\<exists>st'. hs_read PoolExhausted Connected (\<lambda>s. Inr (length (pg_ledger s))) fresh_store = (Inr 0, st') \<and>
     po_exhausted (hs_read_pool st') = 1"
proof -
  obtain r st' where e: "hs_read PoolExhausted Connected (\<lambda>s. Inr (length (pg_ledger s))) fresh_store = (r, st')" by fastforce
  from replica_reads [OF _ _ e] e show ?thesis by (auto simp: fresh_store_def empty_pg_def new_pool_def)
qed

text \<open>
  A replica that cannot be reached makes every read fail, with the primary at hand: \<open>psycopg2\<close> reports it with
  an error that is neither a pool error nor, having no code, a transient one.
\<close>

theorem unreachable_replica_fails_reads:
  assumes "hs_has_replica st" "0 < m"
  shows "hardened_query m (\<lambda>a. (ConnectError None, Connected)) q st = (Inl (PgError None), st, [])"
proof -
  obtain k where "m = Suc k" using assms(2) gr0_implies_Suc by blast
  with assms(1) show ?thesis
    by (simp add: hardened_query_def with_retry_def hs_read_def acquire_def Let_def)
qed

theorem unreachable_replica_fails_reads_witness:
  "hardened_get_ledger_count 3 (\<lambda>a. (ConnectError None, Connected)) None ''default'' fresh_store = (Inl (PgError None), fresh_store, [])"
  unfolding hardened_get_ledger_count_def by (rule unreachable_replica_fails_reads) (simp_all add: fresh_store_def)

text \<open>
  \<open>PostgreSQLStorage\<close> accepts an entry for an instance that belongs to another tenant; \<open>SQLiteStorage\<close> refuses it.
\<close>

theorem pg_accepts_foreign_instance:
  "case ledger_row_of sample_entry ''other'' ''i'' 1 genesis_hash of
      Inr r \<Rightarrow>
        fst (append_ledger_entry ''now'' sample_entry (init_tables\<lparr>db_ledger := [r]\<rparr>)) =
          Inl (LedgerError ''i'' ''default'' ''other'') \<and>
        fst (pg_append_ledger_entry True sample_entry (empty_pg\<lparr>pg_ledger := [r]\<rparr>)) = Inr 1
    | _ \<Rightarrow> False"
  by code_simp

text \<open>
  A registered protocol is read back, from both stores; registering another specification under its hash changes nothing.
\<close>

lemma add_protocol_get:
  assumes "h \<notin> fst ` set (pg_protocols s)" "body_loads t = Some v"
  shows "pg_get_protocol (add_protocol h u (add_protocol h t s)) h = Inr (Some v)"
proof -
  have "map_of (pg_protocols s) h = None" using assms(1) by (simp add: map_of_eq_None_iff)
  with assms show ?thesis by (simp add: pg_get_protocol_def add_protocol_def loads_text_def map_add_def)
qed

theorem pg_protocol_round_trip:
  assumes "h \<notin> fst ` set (pg_protocols s)" "plain spec" "wf_val spec" "pg_register_protocol h spec s = (Inr (), s')"
  shows "pg_get_protocol s' h = Inr (Some (norm spec)) \<and>
    (\<forall>spec'. pg_get_protocol (snd (pg_register_protocol h spec' s')) h = Inr (Some (norm spec)))"
proof -
  from assms(4) obtain t where t: "json_dumps False spec = Some t" "s' = add_protocol h t s"
    by (auto simp: pg_register_protocol_def canonical_json_def split: sum.splits)
  note l = add_protocol_get [OF assms(1) body_loads_dumps [OF assms(2,3) t(1)]]
  have same: "add_protocol h t (add_protocol h t s) = add_protocol h t s" by (simp add: add_protocol_def)
  have "pg_get_protocol s' h = Inr (Some (norm spec))" using l [of t] unfolding same t(2) .
  moreover have "snd (pg_register_protocol h spec' s') = s' \<or> (\<exists>u. snd (pg_register_protocol h spec' s') = add_protocol h u s')" for spec'
    by (auto simp: pg_register_protocol_def split: sum.splits)
  ultimately show ?thesis using l unfolding t(2) by metis
qed

theorem pg_protocol_round_trip_witness:
  "\<exists>s'. pg_register_protocol ''h'' (PyDict [(KStr ''a'', PyInt 1)]) empty_pg = (Inr (), s') \<and>
     pg_get_protocol s' ''h'' = Inr (Some (norm (PyDict [(KStr ''a'', PyInt 1)])))"
proof -
  let ?v = "PyDict [(KStr ''a'', PyInt 1)]"
  obtain r s' where e: "pg_register_protocol ''h'' ?v empty_pg = (r, s')" by fastforce
  have "case fst (pg_register_protocol ''h'' ?v empty_pg) of Inr _ \<Rightarrow> True | _ \<Rightarrow> False" by code_simp
  with e have e: "pg_register_protocol ''h'' ?v empty_pg = (Inr (), s')" by (auto split: sum.splits)
  have "plain ?v" "wf_val ?v" by code_simp+
  moreover have "''h'' \<notin> fst ` set (pg_protocols empty_pg)" by (simp add: empty_pg_def)
  ultimately show ?thesis using pg_protocol_round_trip [OF _ _ _ e] e by blast
qed

end
