(* ===== verification/Pii.thy ===== *)
theory Pii
  imports Exceptions
begin

text \<open>
  \<open>provable_ai/pii.py\<close>: sensitive fields of the inputs of a decision are replaced by their digests before they
  are stored.  The theorems show that a scrubbed dictionary passes \<open>assert_no_pii\<close>, keeps its other fields and is a
  fixed point, what its hash commits to, and that nested fields are not looked at.
\<close>

definition SENSITIVE_FIELDS :: "string list" where
  "SENSITIVE_FIELDS =
     [''name'', ''full_name'', ''first_name'', ''last_name'', ''given_name'', ''surname'',
      ''ssn'', ''social_security_number'', ''national_id'', ''passport'', ''passport_number'',
      ''driver_license'', ''tax_id'', ''ein'',
      ''email'', ''email_address'', ''phone'', ''phone_number'', ''mobile'',
      ''address'', ''street_address'', ''city'', ''zip_code'', ''postal_code'',
      ''account_number'', ''bank_account'', ''routing_number'',
      ''card_number'', ''credit_card'', ''cvv'', ''card_cvv'',
      ''dob'', ''date_of_birth'', ''birth_date'', ''diagnosis'', ''condition'']"

definition hash_sensitive :: "ext \<Rightarrow> pyval \<Rightarrow> string res" where
  "hash_sensitive x v =
     rbind (case v of PyStr s \<Rightarrow> Inr (utf8 s)
            | _ \<Rightarrow> rbind (opt_res TypeError (json_dumps False v)) (\<lambda>t. Inr (utf8 t))) (\<lambda>raw.
     Inr (''sha256:'' @ hexdigest x raw))"

definition is_hashed :: "pyval \<Rightarrow> bool" where
  "is_hashed v = (case v of PyStr s \<Rightarrow> startswith s ''sha256:'' \<and> length s = 71 | _ \<Rightarrow> False)"

text \<open>\<open>key.lower() in SENSITIVE_FIELDS\<close>; a key that is no string has no \<open>lower\<close>.\<close>

fun sensitive_key :: "pykey \<Rightarrow> bool res" where
  "sensitive_key (KStr k) = Inr (lower k \<in> set SENSITIVE_FIELDS)"
| "sensitive_key _ = Inl AttributeError"

definition scrub_item :: "ext \<Rightarrow> pykey \<times> pyval \<Rightarrow> (pykey \<times> pyval) res" where
  "scrub_item x p =
     rbind (sensitive_key (fst p)) (\<lambda>sens.
       if sens \<and> \<not> is_hashed (snd p) then rbind (hash_sensitive x (snd p)) (\<lambda>h. Inr (fst p, PyStr h)) else Inr p)"

definition scrub_inputs :: "ext \<Rightarrow> pydict \<Rightarrow> pydict res" where
  "scrub_inputs x inputs = rmap_list (scrub_item x) inputs"

definition scrub_inputs_full :: "ext \<Rightarrow> pydict \<Rightarrow> string res" where
  "scrub_inputs_full x inputs =
     rbind (scrub_inputs x inputs) (\<lambda>scrubbed.
     rbind (opt_res TypeError (json_dumps False (PyDict scrubbed))) (\<lambda>canonical.
     Inr (hexdigest x (utf8 canonical))))"

definition pii_violation :: "pykey \<times> pyval \<Rightarrow> bool res" where
  "pii_violation p = rbind (sensitive_key (fst p)) (\<lambda>sens. Inr (sens \<and> \<not> is_hashed (snd p)))"

definition assert_no_pii :: "pydict \<Rightarrow> unit res" where
  "assert_no_pii data = rbind (rmap_list pii_violation data) (\<lambda>vs. rcheck (\<not> list_ex id vs) (ValueError ''PII violation''))"

subsection \<open>Properties\<close>

lemma hash_sensitive_hashed: "digest_ok x \<Longrightarrow> hash_sensitive x v = Inr h \<Longrightarrow> is_hashed (PyStr h)"
  by (auto simp: hash_sensitive_def is_hashed_def startswith_def length_hexdigest)

lemma scrub_item_clean:
  assumes "digest_ok x" "scrub_item x p = Inr q"
  shows "fst q = fst p \<and> pii_violation q = Inr False \<and> scrub_item x q = Inr q \<and> (sensitive_key (fst p) = Inr False \<longrightarrow> snd q = snd p)"
  using assms hash_sensitive_hashed [OF assms(1)]
  by (cases "sensitive_key (fst p)") (auto simp: scrub_item_def pii_violation_def split: if_splits)

lemma scrub_inputs_clean:
  assumes "digest_ok x"
  shows "scrub_inputs x d = Inr d' \<Longrightarrow> map fst d' = map fst d \<and> rmap_list pii_violation d' = Inr (map (\<lambda>_. False) d') \<and>
    scrub_inputs x d' = Inr d' \<and>
    list_all2 (\<lambda>p q. sensitive_key (fst p) = Inr False \<longrightarrow> snd q = snd p) d d'"
proof (induction d arbitrary: d')
  case (Cons p d)
  then obtain q e where "d' = q # e" "scrub_item x p = Inr q" "scrub_inputs x d = Inr e" by (auto simp: scrub_inputs_def)
  then show ?case using Cons.IH [of e] scrub_item_clean [OF assms, of p q] by (simp add: scrub_inputs_def)
qed (simp add: scrub_inputs_def)

text \<open>
  C40: What \<open>scrub_inputs\<close> returns passes \<open>assert_no_pii\<close>, has the same keys in the same order, the same values under keys that are
  not sensitive, and is not changed by scrubbing it again.
\<close>

theorem scrubbed_inputs_clean:
  assumes "digest_ok x" "scrub_inputs x d = Inr d'"
  shows "assert_no_pii d' = Inr () \<and> map fst d' = map fst d \<and> scrub_inputs x d' = Inr d' \<and>
    list_all2 (\<lambda>p q. sensitive_key (fst p) = Inr False \<longrightarrow> snd q = snd p) d d'"
  using scrub_inputs_clean [OF assms] by (simp add: assert_no_pii_def list_ex_iff)

theorem scrubbed_inputs_clean_witness:
  "\<exists>h. scrub_inputs sample_ext [(KStr ''Email'', PyStr ''a''), (KStr ''score'', PyInt 7)] = Inr [(KStr ''Email'', PyStr h), (KStr ''score'', PyInt 7)] \<and>
    assert_no_pii [(KStr ''Email'', PyStr h), (KStr ''score'', PyInt 7)] = Inr ()"
proof -
  have l: "lower ''Email'' = ''email''" "lower ''score'' = ''score''" by code_simp+
  have s: "\<exists>h. scrub_inputs sample_ext [(KStr ''Email'', PyStr ''a''), (KStr ''score'', PyInt 7)] = Inr [(KStr ''Email'', PyStr h), (KStr ''score'', PyInt 7)]"
    by (simp add: scrub_inputs_def scrub_item_def l SENSITIVE_FIELDS_def is_hashed_def hash_sensitive_def)
  then show ?thesis using scrubbed_inputs_clean [OF sample_ext_ok(1)] by blast
qed

text \<open>On string keys and values \<open>json.dumps\<close> takes, scrubbing and hashing never raise.\<close>

lemma scrub_item_plain: "is_KStr (fst p) \<Longrightarrow> plain (snd p) \<Longrightarrow> \<exists>q. scrub_item x p = Inr q \<and> is_KStr (fst q) \<and> plain (snd q) \<and> fst q = fst p"
  by (cases p; cases "fst p"; cases "snd p") (auto simp: scrub_item_def hash_sensitive_def json_dumps_plain simp del: json_dumps.simps)

lemma scrub_inputs_plain: "plain (PyDict d) \<Longrightarrow> \<exists>e. scrub_inputs x d = Inr e \<and> plain (PyDict e) \<and> map fst e = map fst d"
proof (induction d)
  case (Cons p d)
  then obtain q e where "scrub_item x p = Inr q" "is_KStr (fst q)" "plain (snd q)" "fst q = fst p" "scrub_inputs x d = Inr e"
    "plain (PyDict e)" "map fst e = map fst d"
    using scrub_item_plain [of p x] by auto
  then show ?case by (simp add: scrub_inputs_def)
qed (simp add: scrub_inputs_def)

text \<open>
  The stored hash commits to the scrubbed inputs: two inputs with the same \<open>scrub_inputs_full\<close> have the same scrubbed
  dictionaries up to the order of keys, unless SHA-256 collides on their texts.
\<close>

theorem inputs_hash_binding:
  assumes "plain (PyDict d)" "plain (PyDict e)" "scrub_inputs x d = Inr d'" "scrub_inputs x e = Inr e'"
    "wf_val (PyDict d')" "wf_val (PyDict e')" "scrub_inputs_full x d = scrub_inputs_full x e"
    "inj_on (x_sha256 x) {utf8 (emit False (norm (PyDict d'))), utf8 (emit False (norm (PyDict e')))}"
  shows "norm (PyDict d') = norm (PyDict e')"
proof -
  have p: "plain (PyDict d')" "plain (PyDict e')" using scrub_inputs_plain [OF assms(1), of x] scrub_inputs_plain [OF assms(2), of x] assms(3,4) by auto
  have "x_sha256 x (utf8 (emit False (norm (PyDict d')))) = x_sha256 x (utf8 (emit False (norm (PyDict e'))))"
    using assms(7) unfolding scrub_inputs_full_def assms(3,4) rbind.simps json_dumps_plain [OF p(1)] json_dumps_plain [OF p(2)] opt_res_simps
    by (simp add: hexdigest_eq_iff del: norm.simps emit.simps)
  then have "utf8 (emit False (norm (PyDict d'))) = utf8 (emit False (norm (PyDict e')))"
    by (rule inj_onD [OF assms(8)]) simp_all
  then have "emit False (norm (PyDict d')) = emit False (norm (PyDict e'))" unfolding utf8_inj .
  then have "json_dumps False (PyDict d') = json_dumps False (PyDict e')"
    by (simp only: json_dumps_plain [OF p(1)] json_dumps_plain [OF p(2)])
  then show ?thesis using p assms(5,6) by (intro json_dumps_inj)
qed

text \<open>A sensitive field inside another dictionary is neither hashed nor reported.\<close>

theorem nested_pii_kept:
  assumes "lower k \<notin> set SENSITIVE_FIELDS"
  shows "scrub_inputs x [(KStr k, PyDict d)] = Inr [(KStr k, PyDict d)] \<and> assert_no_pii [(KStr k, PyDict d)] = Inr ()"
  using assms by (simp add: scrub_inputs_def scrub_item_def assert_no_pii_def pii_violation_def)

theorem nested_pii_kept_witness:
  "assert_no_pii [(KStr ''applicant'', PyDict [(KStr ''email'', PyStr ''a@b'')])] = Inr ()"
proof -
  have "lower ''applicant'' \<notin> set SENSITIVE_FIELDS" by (simp add: SENSITIVE_FIELDS_def lower_def lower_char_def cp_def)
  then show ?thesis by (rule nested_pii_kept [THEN conjunct2])
qed

end
