(* ===== verification/Repository.thy ===== *)
theory Repository
  imports Pii Storage
begin

text \<open>
  The SQLAlchemy layer: the tables of \<open>provable_ai/models.py\<close> and the repositories \<open>TenantRepository\<close>,
  \<open>KeyRegistryRepository\<close>, \<open>LedgerRepository\<close> and \<open>AuditLogRepository\<close> of \<open>provable_ai/repositories.py\<close>, on PostgreSQL.  A
  session sees the committed database with its own changes; a flush that violates a constraint rolls them back and
  makes the session unusable until \<open>rollback\<close>.  The clock and \<open>datetime.fromisoformat\<close> are arguments.

  The module uses the names \<open>SigningFailed\<close> and \<open>IntegrityError\<close> without importing them: a statement that evaluates
  one of them raises \<open>NameError\<close>.
\<close>

subsection \<open>Tables\<close>

record tenant_row =
  tn_tenant_id :: string
  tn_name :: string
  tn_is_active :: bool

datatype key_status = KeyActive | KeyRetired

record orm_key =
  ok_tenant_id :: string
  ok_key_id :: string
  ok_public_key :: string
  ok_status :: key_status
  ok_algorithm :: string
  ok_created_at :: int
  ok_retired_at :: "int option"
  ok_created_by :: string

text \<open>Columns that the code fills from the proof without looking at them keep the Python value.\<close>

record orm_row =
  ow_id :: nat
  ow_tenant_id :: string
  ow_instance_id :: string
  ow_sequence_id :: int
  ow_previous_hash :: string
  ow_current_hash :: string
  ow_signature :: string
  ow_key_id :: pyval
  ow_public_key :: string
  ow_from_state :: pyval
  ow_to_state :: pyval
  ow_reason_code :: pyval
  ow_policy_rule :: pyval
  ow_model_version :: pyval
  ow_agent_version :: pyval
  ow_policy_version :: pyval
  ow_inputs_hash :: string
  ow_determinism_mode :: pyval
  ow_random_seed :: pyval
  ow_external_calls_hash :: pyval
  ow_proof_json :: string
  ow_schema_version :: string
  ow_timestamp :: pyval

record audit_row =
  au_tenant_id :: string
  au_event_type :: string
  au_trace_id :: string
  au_actor :: string
  au_context_json :: string
  au_ledger_id :: "nat option"
  au_level :: string
  au_recorded_at :: int

record orm_db =
  om_tenants :: "tenant_row list"
  om_keys :: "orm_key list"
  om_ledger :: "orm_row list"
  om_audit :: "audit_row list"

text \<open>\<open>VARCHAR(n)\<close> columns, nullable or not.\<close>

definition varchar :: "nat \<Rightarrow> pyval \<Rightarrow> bool" where
  "varchar n v = (case v of PyStr s \<Rightarrow> length s \<le> n | _ \<Rightarrow> False)"

definition varchar_null :: "nat \<Rightarrow> pyval \<Rightarrow> bool" where
  "varchar_null n v \<longleftrightarrow> v = PyNone \<or> varchar n v"

definition has_tenant :: "string \<Rightarrow> orm_db \<Rightarrow> bool" where
  "has_tenant t d \<longleftrightarrow> t \<in> tn_tenant_id ` set (om_tenants d)"

definition tenant_insertable :: "tenant_row \<Rightarrow> orm_db \<Rightarrow> bool" where
  "tenant_insertable r d \<longleftrightarrow> length (tn_tenant_id r) \<le> 128 \<and> length (tn_name r) \<le> 256 \<and> \<not> has_tenant (tn_tenant_id r) d"

definition key_insertable :: "orm_key \<Rightarrow> orm_db \<Rightarrow> bool" where
  "key_insertable r d \<longleftrightarrow> has_tenant (ok_tenant_id r) d \<and> length (ok_key_id r) \<le> 128 \<and> length (ok_public_key r) = 64 \<and>
     ok_algorithm r = ''ed25519'' \<and> length (ok_created_by r) \<le> 128 \<and>
     \<not> list_ex (\<lambda>q. ok_tenant_id q = ok_tenant_id r \<and> ok_key_id q = ok_key_id r) (om_keys d)"

definition orm_row_of :: "string \<Rightarrow> string \<Rightarrow> orm_row \<Rightarrow> bool" where
  "orm_row_of tenant_id instance_id r \<longleftrightarrow> ow_tenant_id r = tenant_id \<and> ow_instance_id r = instance_id"

definition row_insertable :: "orm_row \<Rightarrow> orm_db \<Rightarrow> bool" where
  "row_insertable r d \<longleftrightarrow> has_tenant (ow_tenant_id r) d \<and> length (ow_instance_id r) \<le> 256 \<and>
     1 \<le> ow_sequence_id r \<and> ow_sequence_id r < 2 ^ 31 \<and>
     length (ow_previous_hash r) = 64 \<and> length (ow_current_hash r) = 64 \<and> length (ow_signature r) = 128 \<and>
     varchar 128 (ow_key_id r) \<and> length (ow_public_key r) = 64 \<and>
     varchar 128 (ow_from_state r) \<and> varchar 128 (ow_to_state r) \<and> varchar 256 (ow_reason_code r) \<and> varchar 256 (ow_policy_rule r) \<and>
     varchar 128 (ow_model_version r) \<and> varchar 128 (ow_agent_version r) \<and> varchar 128 (ow_policy_version r) \<and>
     length (ow_inputs_hash r) \<le> 64 \<and>
     ow_determinism_mode r \<in> {PyStr ''strict_deterministic'', PyStr ''replay_with_seed'', PyStr ''replay_with_recorded_io''} \<and>
     varchar_null 256 (ow_random_seed r) \<and> varchar_null 64 (ow_external_calls_hash r) \<and>
     length (ow_schema_version r) \<le> 16 \<and> (case ow_timestamp r of PyStr _ \<Rightarrow> True | _ \<Rightarrow> False) \<and>
     \<not> list_ex (\<lambda>q. orm_row_of (ow_tenant_id r) (ow_instance_id r) q \<and>
        (ow_sequence_id q = ow_sequence_id r \<or> ow_current_hash q = ow_current_hash r)) (om_ledger d)"

definition audit_insertable :: "audit_row \<Rightarrow> orm_db \<Rightarrow> bool" where
  "audit_insertable r d \<longleftrightarrow> has_tenant (au_tenant_id r) d \<and>
     au_event_type r \<in> set [''decision_recorded'', ''key_created'', ''key_rotated'', ''governance_rejected'', ''verification_run'',
       ''tenant_created'', ''chain_error'', ''signing_error'', ''tenant_deactivated''] \<and>
     length (au_trace_id r) \<le> 36 \<and> length (au_actor r) \<le> 128 \<and> au_level r \<in> set [''info'', ''warning'', ''error''] \<and>
     (case au_ledger_id r of None \<Rightarrow> True | Some k \<Rightarrow> k \<in> ow_id ` set (om_ledger d))"

subsection \<open>Sessions\<close>

datatype orm_error = OrmExc exc | NameError string | DatabaseError | PendingRollback | MultipleResultsFound

type_synonym 'a orm_res = "orm_error + 'a"

text \<open>\<open>se_next\<close> is the sequence of the ledger's ids, which no rollback takes back.\<close>

record session =
  se_base :: orm_db
  se_db :: orm_db
  se_failed :: bool
  se_next :: nat

type_synonym 'a orm = "session \<Rightarrow> 'a orm_res \<times> session"

definition orm_ret :: "'a \<Rightarrow> 'a orm" where
  "orm_ret a s = (Inr a, s)"

definition orm_raise :: "orm_error \<Rightarrow> 'a orm" where
  "orm_raise e s = (Inl e, s)"

definition orm_bind :: "'a orm \<Rightarrow> ('a \<Rightarrow> 'b orm) \<Rightarrow> 'b orm" where
  "orm_bind m f s = (case m s of (Inl e, s') \<Rightarrow> (Inl e, s') | (Inr a, s') \<Rightarrow> f a s')"

definition orm_lift :: "'a res \<Rightarrow> 'a orm" where
  "orm_lift r = (case r of Inl e \<Rightarrow> orm_raise (OrmExc e) | Inr a \<Rightarrow> orm_ret a)"

text \<open>\<open>session.execute\<close> of a query.\<close>

definition orm_exec :: "(orm_db \<Rightarrow> 'a) \<Rightarrow> 'a orm" where
  "orm_exec q s = (if se_failed s then (Inl PendingRollback, s) else (Inr (q (se_db s)), s))"

definition scalar_one_or_none :: "'a list \<Rightarrow> 'a option orm" where
  "scalar_one_or_none rows =
     (case rows of [] \<Rightarrow> orm_ret None | [r] \<Rightarrow> orm_ret (Some r) | _ \<Rightarrow> orm_raise MultipleResultsFound)"

text \<open>\<open>session.flush\<close> of one change.\<close>

definition orm_flush :: "(orm_db \<Rightarrow> bool) \<Rightarrow> (orm_db \<Rightarrow> orm_db) \<Rightarrow> unit orm" where
  "orm_flush ok upd s =
     (if se_failed s then (Inl PendingRollback, s)
      else if ok (se_db s) then (Inr (), s\<lparr>se_db := upd (se_db s)\<rparr>)
      else (Inl DatabaseError, s\<lparr>se_db := se_base s, se_failed := True\<rparr>))"

definition session_commit :: "unit orm" where
  "session_commit s = (if se_failed s then (Inl PendingRollback, s) else (Inr (), s\<lparr>se_base := se_db s\<rparr>))"

definition session_rollback :: "unit orm" where
  "session_rollback s = (Inr (), s\<lparr>se_db := se_base s, se_failed := False\<rparr>)"

subsection \<open>\<open>TenantRepository\<close>\<close>

definition tenant_get :: "string \<Rightarrow> tenant_row option orm" where
  "tenant_get tenant_id =
     orm_bind (orm_exec (\<lambda>d. filter (\<lambda>r. tn_tenant_id r = tenant_id) (om_tenants d))) scalar_one_or_none"

definition tenant_create :: "string \<Rightarrow> string \<Rightarrow> tenant_row orm" where
  "tenant_create tenant_id name =
     orm_bind (tenant_get tenant_id) (\<lambda>existing.
       case existing of
         Some _ \<Rightarrow> orm_raise (OrmExc (ValueError ''already exists''))
       | None \<Rightarrow>
           (let tenant = \<lparr>tn_tenant_id = tenant_id, tn_name = name, tn_is_active = True\<rparr>
            in orm_bind (orm_flush (tenant_insertable tenant) (\<lambda>d. d\<lparr>om_tenants := om_tenants d @ [tenant]\<rparr>)) (\<lambda>_.
               orm_ret tenant)))"

definition tenant_get_or_create :: "string \<Rightarrow> string option \<Rightarrow> tenant_row orm" where
  "tenant_get_or_create tenant_id name =
     orm_bind (tenant_get tenant_id) (\<lambda>tenant.
       case tenant of
         Some r \<Rightarrow> orm_ret r
       | None \<Rightarrow> tenant_create tenant_id (case name of Some n \<Rightarrow> if n \<noteq> [] then n else tenant_id | None \<Rightarrow> tenant_id))"

definition tenant_require :: "string \<Rightarrow> tenant_row orm" where
  "tenant_require tenant_id =
     orm_bind (tenant_get tenant_id) (\<lambda>tenant.
       case tenant of
         None \<Rightarrow> orm_raise (OrmExc (ValueError ''not found''))
       | Some r \<Rightarrow> if \<not> tn_is_active r then orm_raise (OrmExc (ValueError ''deactivated'')) else orm_ret r)"

subsection \<open>\<open>KeyRegistryRepository\<close>\<close>

definition active_of :: "string \<Rightarrow> orm_key \<Rightarrow> bool" where
  "active_of tenant_id r \<longleftrightarrow> ok_tenant_id r = tenant_id \<and> ok_status r = KeyActive"

definition orm_get_active_key :: "string \<Rightarrow> orm_key option orm" where
  "orm_get_active_key tenant_id = orm_bind (orm_exec (\<lambda>d. filter (active_of tenant_id) (om_keys d))) scalar_one_or_none"

definition retire_row :: "int \<Rightarrow> orm_key \<Rightarrow> orm_db \<Rightarrow> orm_db" where
  "retire_row now key d =
     d\<lparr>om_keys := map (\<lambda>r. if ok_tenant_id r = ok_tenant_id key \<and> ok_key_id r = ok_key_id key
          then r\<lparr>ok_status := KeyRetired, ok_retired_at := Some now\<rparr> else r) (om_keys d)\<rparr>"

definition orm_retire_key :: "int \<Rightarrow> orm_key \<Rightarrow> unit orm" where
  "orm_retire_key now key = orm_flush (\<lambda>_. True) (retire_row now key)"

definition orm_create_key :: "int \<Rightarrow> string \<Rightarrow> string \<Rightarrow> string \<Rightarrow> string \<Rightarrow> bool \<Rightarrow> orm_key orm" where
  "orm_create_key now tenant_id key_id public_key created_by retire_existing =
     (if \<not> lower_hex 64 public_key then orm_raise (OrmExc (ValueError ''public_key''))
      else orm_bind (orm_get_active_key tenant_id) (\<lambda>active.
        orm_bind (case active of
            None \<Rightarrow> orm_ret ()
          | Some k \<Rightarrow> if \<not> retire_existing then orm_raise (OrmExc (ValueError ''active key'')) else orm_retire_key now k) (\<lambda>_.
        let key = \<lparr>ok_tenant_id = tenant_id, ok_key_id = key_id, ok_public_key = public_key, ok_status = KeyActive,
              ok_algorithm = ''ed25519'', ok_created_at = now, ok_retired_at = None, ok_created_by = created_by\<rparr>
        in orm_bind (orm_flush (key_insertable key) (\<lambda>d. d\<lparr>om_keys := om_keys d @ [key]\<rparr>)) (\<lambda>_.
        orm_ret key))))"

definition orm_rotate_key :: "int \<Rightarrow> string \<Rightarrow> string \<Rightarrow> string \<Rightarrow> string \<Rightarrow> (orm_key \<times> orm_key option) orm" where
  "orm_rotate_key now tenant_id new_key_id new_public_key created_by =
     orm_bind (orm_get_active_key tenant_id) (\<lambda>retired.
     orm_bind (case retired of None \<Rightarrow> orm_ret () | Some k \<Rightarrow> orm_retire_key now k) (\<lambda>_.
     orm_bind (orm_create_key now tenant_id new_key_id new_public_key created_by False) (\<lambda>new_key.
     orm_ret (new_key, map_option (\<lambda>k. k\<lparr>ok_status := KeyRetired, ok_retired_at := Some now\<rparr>) retired))))"

definition orm_require_active_key :: "string \<Rightarrow> orm_key orm" where
  "orm_require_active_key tenant_id =
     orm_bind (orm_get_active_key tenant_id) (\<lambda>key.
       case key of None \<Rightarrow> orm_raise (NameError ''SigningFailed'') | Some k \<Rightarrow> orm_ret k)"

definition orm_get_by_key_id :: "string \<Rightarrow> string \<Rightarrow> orm_key option orm" where
  "orm_get_by_key_id tenant_id key_id =
     orm_bind (orm_exec (\<lambda>d. filter (\<lambda>r. ok_tenant_id r = tenant_id \<and> ok_key_id r = key_id) (om_keys d))) scalar_one_or_none"

definition orm_list_keys :: "string \<Rightarrow> orm_key list orm" where
  "orm_list_keys tenant_id =
     orm_exec (\<lambda>d. sort_key (\<lambda>r. - ok_created_at r) (filter (\<lambda>r. ok_tenant_id r = tenant_id) (om_keys d)))"

subsection \<open>\<open>LedgerRepository\<close>\<close>

definition orm_get_chain :: "string \<Rightarrow> string \<Rightarrow> orm_db \<Rightarrow> orm_row list" where
  "orm_get_chain tenant_id instance_id d = sort_key ow_sequence_id (filter (orm_row_of tenant_id instance_id) (om_ledger d))"

definition orm_get_latest :: "string \<Rightarrow> string \<Rightarrow> orm_db \<Rightarrow> orm_row option" where
  "orm_get_latest tenant_id instance_id d =
     (let rows = orm_get_chain tenant_id instance_id d in if rows = [] then None else Some (last rows))"

definition orm_get_by_sequence :: "string \<Rightarrow> string \<Rightarrow> int \<Rightarrow> orm_row option orm" where
  "orm_get_by_sequence tenant_id instance_id sequence_id =
     orm_bind (orm_exec (\<lambda>d. filter (\<lambda>r. orm_row_of tenant_id instance_id r \<and> ow_sequence_id r = sequence_id) (om_ledger d)))
       scalar_one_or_none"

definition orm_get_max_sequence :: "string \<Rightarrow> string \<Rightarrow> int orm" where
  "orm_get_max_sequence tenant_id instance_id =
     orm_exec (\<lambda>d. case orm_get_latest tenant_id instance_id d of None \<Rightarrow> 0 | Some r \<Rightarrow> ow_sequence_id r)"

definition orm_count :: "string \<Rightarrow> nat orm" where
  "orm_count tenant_id = orm_exec (\<lambda>d. length (filter (\<lambda>r. ow_tenant_id r = tenant_id) (om_ledger d)))"

text \<open>\<open>if conflict:\<close> is false for the tenant with the empty name.\<close>

definition check_cross_tenant :: "string \<Rightarrow> string \<Rightarrow> unit orm" where
  "check_cross_tenant instance_id tenant_id =
     orm_bind (orm_exec (\<lambda>d. db_first (\<lambda>r. ow_instance_id r = instance_id \<and> ow_tenant_id r \<noteq> tenant_id) (om_ledger d))) (\<lambda>conflict.
       case conflict of
         Some r \<Rightarrow> if ow_tenant_id r \<noteq> [] then orm_raise (OrmExc (LedgerError instance_id tenant_id (ow_tenant_id r))) else orm_ret ()
       | None \<Rightarrow> orm_ret ())"

definition orm_validate_chain :: "string \<Rightarrow> string \<Rightarrow> int \<Rightarrow> string \<Rightarrow> unit orm" where
  "orm_validate_chain tenant_id instance_id sequence_id previous_hash =
     orm_bind (orm_exec (orm_get_latest tenant_id instance_id)) (\<lambda>latest.
       case latest of
         None \<Rightarrow>
           if sequence_id \<noteq> 1 then orm_raise (OrmExc (SequenceGap 1 sequence_id None))
           else if previous_hash \<noteq> genesis_hash then orm_raise (OrmExc (ChainBroken sequence_id genesis_hash previous_hash None))
           else orm_ret ()
       | Some r \<Rightarrow>
           if sequence_id = ow_sequence_id r then orm_raise (OrmExc (DuplicateSequenceId sequence_id None))
           else if sequence_id \<noteq> ow_sequence_id r + 1
           then orm_raise (OrmExc (SequenceGap (ow_sequence_id r + 1) sequence_id None))
           else if previous_hash \<noteq> ow_current_hash r
           then orm_raise (OrmExc (ChainBroken sequence_id (ow_current_hash r) previous_hash None))
           else orm_ret ())"

text \<open>The check of \<open>_verify_signature_pre_insert\<close>; when it fails the handler evaluates \<open>SigningFailed\<close>.\<close>

definition signature_verifies :: "ext \<Rightarrow> string \<Rightarrow> string \<Rightarrow> string \<Rightarrow> bool" where
  "signature_verifies x current_hash sig_value pub_key =
     (case (fromhex pub_key, fromhex current_hash, fromhex sig_value) of
        (Some pk, Some m, Some s) \<Rightarrow> x_ed_verify x pk m s = NaclOk
      | _ \<Rightarrow> False)"

definition verify_signature_pre_insert :: "ext \<Rightarrow> string \<Rightarrow> string \<Rightarrow> string \<Rightarrow> unit orm" where
  "verify_signature_pre_insert x current_hash sig_value pub_key =
     (if length pub_key \<noteq> 64 \<or> signature_verifies x current_hash sig_value pub_key then orm_ret ()
      else orm_raise (NameError ''SigningFailed''))"

text \<open>The hash of the scrubbed inputs: \<open>raw_inputs\<close>, else \<open>metadata\<close>, else nothing.\<close>

definition orm_inputs_hash :: "ext \<Rightarrow> pyval \<Rightarrow> string res" where
  "orm_inputs_hash x dec_ctx =
     rbind (get_item dec_ctx ''raw_inputs'' PyNone) (\<lambda>raw.
     rbind (get_item dec_ctx ''metadata'' PyNone) (\<lambda>metadata.
     let inputs = if truthy raw then raw else metadata
     in if truthy inputs then (case inputs of PyDict d \<Rightarrow> scrub_inputs_full x d | _ \<Rightarrow> Inl AttributeError)
        else Inr (hexdigest x (utf8 ''{}''))))"

text \<open>The timestamp of the row, a \<open>datetime\<close> in ISO format; a value that is no string is passed on as it is.\<close>

definition orm_timestamp :: "(string \<Rightarrow> string option) \<Rightarrow> string \<Rightarrow> pyval \<Rightarrow> pyval res" where
  "orm_timestamp fromisoformat now ledger_dict =
     rbind (get_item ledger_dict ''timestamp'' (PyStr now)) (\<lambda>ts.
       case ts of
         PyStr s \<Rightarrow> rbind (opt_res (ValueError ''isoformat'')
             (fromisoformat (concat (map (\<lambda>c. if c = CHR ''Z'' then ''+00:00'' else [c]) s)))) (\<lambda>d. Inr (PyStr d))
       | v \<Rightarrow> Inr v)"

record append_args =
  aa_ledger :: pyval
  aa_signature :: pyval
  aa_governance :: pyval
  aa_decision :: pyval
  aa_determinism :: pyval
  aa_context :: pyval
  aa_instance_id :: string
  aa_sequence_id :: int
  aa_current_hash :: string
  aa_previous_hash :: string
  aa_sig_value :: string
  aa_pub_key :: string

definition orm_append_args :: "pyval \<Rightarrow> append_args res" where
  "orm_append_args pd =
     rbind (item pd ''ledger'') (\<lambda>ledger_dict.
     rbind (item pd ''signature'') (\<lambda>signature.
     rbind (item pd ''governance'') (\<lambda>governance.
     rbind (item pd ''decision'') (\<lambda>decision.
     rbind (item pd ''determinism'') (\<lambda>det.
     rbind (get_item pd ''decision_context'' (PyDict [])) (\<lambda>dec_ctx.
     rbind (str_item pd ''instance_id'') (\<lambda>instance_id.
     rbind (rbind (item ledger_dict ''sequence_id'') as_int) (\<lambda>sequence_id.
     rbind (str_item ledger_dict ''current_hash'') (\<lambda>current_hash.
     rbind (str_item ledger_dict ''previous_hash'') (\<lambda>previous_hash.
     rbind (str_item signature ''value'') (\<lambda>sig_value.
     rbind (str_item signature ''public_key'') (\<lambda>pub_key.
     Inr \<lparr>aa_ledger = ledger_dict, aa_signature = signature, aa_governance = governance, aa_decision = decision,
          aa_determinism = det, aa_context = dec_ctx, aa_instance_id = instance_id, aa_sequence_id = sequence_id,
          aa_current_hash = current_hash, aa_previous_hash = previous_hash, aa_sig_value = sig_value,
          aa_pub_key = pub_key\<rparr>))))))))))))"

text \<open>The row built in the \<open>try\<close> block.\<close>

definition orm_build_row ::
  "(string \<Rightarrow> string option) \<Rightarrow> string \<Rightarrow> string \<Rightarrow> append_args \<Rightarrow> string \<Rightarrow> string \<Rightarrow> nat \<Rightarrow> orm_row res" where
  "orm_build_row fromisoformat now tenant_id a inputs_hash proof_json new_id =
     rbind (orm_timestamp fromisoformat now (aa_ledger a)) (\<lambda>ts.
     rbind (item (aa_signature a) ''key_id'') (\<lambda>key_id.
     rbind (get_item (aa_decision a) ''from_state'' (PyStr [])) (\<lambda>from_state.
     rbind (get_item (aa_decision a) ''to_state'' (PyStr [])) (\<lambda>to_state.
     rbind (get_item (aa_context a) ''reason_code'' (PyStr [])) (\<lambda>reason_code.
     rbind (get_item (aa_context a) ''policy_rule'' (PyStr [])) (\<lambda>policy_rule.
     rbind (get_item (aa_governance a) ''model_version'' (PyStr [])) (\<lambda>model_version.
     rbind (get_item (aa_governance a) ''agent_version'' (PyStr [])) (\<lambda>agent_version.
     rbind (get_item (aa_governance a) ''policy_version'' (PyStr [])) (\<lambda>policy_version.
     rbind (get_item (aa_determinism a) ''mode'' (PyStr ''strict_deterministic'')) (\<lambda>mode.
     rbind (get_item (aa_determinism a) ''seed'' PyNone) (\<lambda>seed.
     rbind (get_item (aa_determinism a) ''external_calls_hash'' PyNone) (\<lambda>calls.
     Inr \<lparr>ow_id = new_id, ow_tenant_id = tenant_id, ow_instance_id = aa_instance_id a, ow_sequence_id = aa_sequence_id a,
          ow_previous_hash = aa_previous_hash a, ow_current_hash = aa_current_hash a, ow_signature = aa_sig_value a,
          ow_key_id = key_id, ow_public_key = aa_pub_key a, ow_from_state = from_state, ow_to_state = to_state,
          ow_reason_code = reason_code, ow_policy_rule = policy_rule, ow_model_version = model_version,
          ow_agent_version = agent_version, ow_policy_version = policy_version, ow_inputs_hash = inputs_hash,
          ow_determinism_mode = mode, ow_random_seed = seed, ow_external_calls_hash = calls,
          ow_proof_json = proof_json, ow_schema_version = ''v1'', ow_timestamp = ts\<rparr>))))))))))))"

text \<open>
  The \<open>try\<close> block: whatever it raises makes Python evaluate \<open>except IntegrityError\<close>, and so raises \<open>NameError\<close>.
\<close>

definition orm_try :: "'a orm \<Rightarrow> 'a orm" where
  "orm_try m s = (case m s of (Inl _, s') \<Rightarrow> (Inl (NameError ''IntegrityError''), s') | (Inr a, s') \<Rightarrow> (Inr a, s'))"

definition orm_insert_row :: "orm_row \<Rightarrow> orm_row orm" where
  "orm_insert_row r =
     orm_bind (\<lambda>s. orm_flush (row_insertable r) (\<lambda>d. d\<lparr>om_ledger := om_ledger d @ [r]\<rparr>) (s\<lparr>se_next := se_next s + 1\<rparr>)) (\<lambda>_. orm_ret r)"

definition orm_append :: "ext \<Rightarrow> (string \<Rightarrow> string option) \<Rightarrow> string \<Rightarrow> string \<Rightarrow> pyval \<Rightarrow> orm_row orm" where
  "orm_append x fromisoformat now tenant_id pd =
     orm_bind (orm_lift (orm_append_args pd)) (\<lambda>a.
     orm_bind (check_cross_tenant (aa_instance_id a) tenant_id) (\<lambda>_.
     orm_bind (if length (aa_sig_value a) \<noteq> 128 then orm_raise (NameError ''SigningFailed'') else orm_ret ()) (\<lambda>_.
     orm_bind (orm_validate_chain tenant_id (aa_instance_id a) (aa_sequence_id a) (aa_previous_hash a)) (\<lambda>_.
     orm_bind (verify_signature_pre_insert x (aa_current_hash a) (aa_sig_value a) (aa_pub_key a)) (\<lambda>_.
     orm_bind (orm_lift (orm_inputs_hash x (aa_context a))) (\<lambda>inputs_hash.
     orm_bind (orm_lift (canonical_json pd)) (\<lambda>proof_json.
     orm_try (\<lambda>s. orm_bind (orm_lift (orm_build_row fromisoformat now tenant_id a inputs_hash proof_json (se_next s)))
       orm_insert_row s))))))))"

subsection \<open>\<open>AuditLogRepository\<close>\<close>

definition audit_append :: "int \<Rightarrow> string \<Rightarrow> string \<Rightarrow> string \<Rightarrow> pyval \<Rightarrow> string \<Rightarrow> string \<Rightarrow> nat option \<Rightarrow> audit_row orm" where
  "audit_append now tenant_id event_type trace_id ctx actor level ledger_id =
     orm_bind (orm_lift (canonical_json ctx)) (\<lambda>context_json.
       let row = \<lparr>au_tenant_id = tenant_id, au_event_type = event_type, au_trace_id = trace_id, au_actor = actor,
             au_context_json = context_json, au_ledger_id = ledger_id, au_level = level, au_recorded_at = now\<rparr>
       in orm_bind (orm_flush (audit_insertable row) (\<lambda>d. d\<lparr>om_audit := om_audit d @ [row]\<rparr>)) (\<lambda>_. orm_ret row))"

definition audit_get_by_trace :: "string \<Rightarrow> string \<Rightarrow> audit_row list orm" where
  "audit_get_by_trace tenant_id trace_id =
     orm_exec (\<lambda>d. sort_key au_recorded_at (filter (\<lambda>r. au_tenant_id r = tenant_id \<and> au_trace_id r = trace_id) (om_audit d)))"

definition audit_get_recent :: "string \<Rightarrow> nat \<Rightarrow> audit_row list orm" where
  "audit_get_recent tenant_id n =
     orm_exec (\<lambda>d. take n (sort_key (\<lambda>r. - au_recorded_at r) (filter (\<lambda>r. au_tenant_id r = tenant_id) (om_audit d))))"

subsection \<open>The invariant\<close>

text \<open>The columns of a row that make the chain.\<close>

definition chain_row :: "orm_row \<Rightarrow> ledger_row" where
  "chain_row r =
     \<lparr>lr_tenant_id = ow_tenant_id r, lr_instance_id = ow_instance_id r, lr_sequence_id = ow_sequence_id r,
      lr_previous_hash = ow_previous_hash r, lr_current_hash = ow_current_hash r, lr_signature = ow_signature r,
      lr_key_id = [], lr_protocol_hash = [], lr_from_state = [], lr_to_state = [], lr_actor = [], lr_input_hash = ow_inputs_hash r,
      lr_output_hash = [], lr_model_version = [], lr_agent_version = [], lr_policy_version = [], lr_metadata_json = [],
      lr_proof_json = ow_proof_json r, lr_schema_version = ow_schema_version r, lr_version = 1, lr_timestamp = []\<rparr>"

lemma chain_row_simps [simp]:
  "lr_sequence_id (chain_row r) = ow_sequence_id r" "lr_previous_hash (chain_row r) = ow_previous_hash r"
  "lr_current_hash (chain_row r) = ow_current_hash r"
  by (simp_all add: chain_row_def)

definition orm_chains :: "orm_db \<Rightarrow> bool" where
  "orm_chains d \<longleftrightarrow> (\<forall>t i. rows_linked 0 genesis_hash (map chain_row (filter (orm_row_of t i) (om_ledger d))))"

definition orm_signed :: "ext \<Rightarrow> orm_db \<Rightarrow> bool" where
  "orm_signed x d \<longleftrightarrow> (\<forall>r\<in>set (om_ledger d). signature_verifies x (ow_current_hash r) (ow_signature r) (ow_public_key r))"

text \<open>An instance has one tenant, unless the tenant with the empty name uses it.\<close>

definition tenants_of :: "string \<Rightarrow> orm_db \<Rightarrow> string set" where
  "tenants_of i d = ow_tenant_id ` {r \<in> set (om_ledger d). ow_instance_id r = i}"

definition orm_isolated :: "orm_db \<Rightarrow> bool" where
  "orm_isolated d \<longleftrightarrow> (\<forall>i. [] \<in> tenants_of i d \<or> (\<exists>t. tenants_of i d \<subseteq> {t}))"

definition one_active :: "orm_db \<Rightarrow> bool" where
  "one_active d \<longleftrightarrow> (\<forall>t. length (filter (active_of t) (om_keys d)) \<le> 1)"

definition orm_inv :: "ext \<Rightarrow> orm_db \<Rightarrow> bool" where
  "orm_inv x d \<longleftrightarrow> orm_chains d \<and> orm_signed x d \<and> orm_isolated d \<and> one_active d"

definition extends_db :: "orm_db \<Rightarrow> orm_db \<Rightarrow> bool" where
  "extends_db d d' \<longleftrightarrow> (\<exists>rs. om_ledger d' = om_ledger d @ rs) \<and> (\<exists>rs. om_audit d' = om_audit d @ rs)"

lemma extends_db_refl [simp]: "extends_db d d" by (simp add: extends_db_def)

lemma extends_db_trans: "extends_db a b \<Longrightarrow> extends_db b c \<Longrightarrow> extends_db a c"
  unfolding extends_db_def by force

definition session_ok :: "ext \<Rightarrow> session \<Rightarrow> bool" where
  "session_ok x s \<longleftrightarrow> orm_inv x (se_base s) \<and> orm_inv x (se_db s) \<and> extends_db (se_base s) (se_db s)"

text \<open>
  Triples for the calls of a session: from a good session whose database satisfies \<open>P\<close> the call \<open>m\<close> leads to a good one
  with the same committed database, and if it returns, \<open>Q\<close> holds of the result and the database.
\<close>

definition valid :: "ext \<Rightarrow> (orm_db \<Rightarrow> bool) \<Rightarrow> 'a orm \<Rightarrow> ('a \<Rightarrow> orm_db \<Rightarrow> bool) \<Rightarrow> bool" where
  "valid x P m Q \<longleftrightarrow> (\<forall>s. session_ok x s \<longrightarrow> P (se_db s) \<longrightarrow> session_ok x (snd (m s)) \<and>
     se_base (snd (m s)) = se_base s \<and> (\<forall>a. fst (m s) = Inr a \<longrightarrow> Q a (se_db (snd (m s)))))"

named_theorems triples

lemma valid_ret [triples]: "(\<And>d. P d \<Longrightarrow> Q a d) \<Longrightarrow> valid x P (orm_ret a) Q"
  by (simp add: valid_def orm_ret_def)

lemma valid_raise [triples]: "valid x P (orm_raise e) Q"
  by (simp add: valid_def orm_raise_def)

lemma valid_bind:
  assumes "valid x P m Q" "\<And>a. valid x (Q a) (f a) R"
  shows "valid x P (orm_bind m f) R"
  unfolding valid_def
proof (intro allI impI)
  fix s assume s: "session_ok x s" "P (se_db s)"
  obtain r s' where m: "m s = (r, s')" by fastforce
  show "session_ok x (snd (orm_bind m f s)) \<and> se_base (snd (orm_bind m f s)) = se_base s \<and> (\<forall>a. fst (orm_bind m f s) = Inr a \<longrightarrow> R a (se_db (snd (orm_bind m f s))))"
    using assms(1) [unfolded valid_def, rule_format, OF s] assms(2) [unfolded valid_def, rule_format, of s']
    by (cases r) (auto simp: orm_bind_def m)
qed

lemma valid_lift [triples]: "(\<And>a d. P d \<Longrightarrow> r = Inr a \<Longrightarrow> Q a d) \<Longrightarrow> valid x P (orm_lift r) Q"
  by (cases r) (auto simp: orm_lift_def intro: triples)

lemma valid_exec [triples]: "(\<And>d. orm_inv x d \<Longrightarrow> P d \<Longrightarrow> Q (q d) d) \<Longrightarrow> valid x P (orm_exec q) Q"
  by (auto simp: valid_def orm_exec_def session_ok_def)

lemma valid_flush [triples]:
  "(\<And>d. orm_inv x d \<Longrightarrow> P d \<Longrightarrow> ok d \<Longrightarrow> orm_inv x (upd d) \<and> extends_db d (upd d) \<and> Q () (upd d)) \<Longrightarrow> valid x P (orm_flush ok upd) Q"
  by (auto simp: valid_def orm_flush_def session_ok_def intro: extends_db_trans)

lemma valid_try: "valid x P m Q \<Longrightarrow> valid x P (orm_try m) Q"
  by (fastforce simp: valid_def orm_try_def split: prod.splits sum.splits)

lemma valid_pre: "valid x P' m Q \<Longrightarrow> (\<And>d. P d \<Longrightarrow> P' d) \<Longrightarrow> valid x P m Q"
  by (auto simp: valid_def)

lemma valid_scalar [triples]:
  "(\<And>a d. P d \<Longrightarrow> rows = (case a of None \<Rightarrow> [] | Some r \<Rightarrow> [r]) \<Longrightarrow> Q a d) \<Longrightarrow> valid x P (scalar_one_or_none rows) Q"
  by (auto simp: scalar_one_or_none_def valid_def orm_ret_def orm_raise_def split: list.splits)

lemma valid_step: "valid x (\<lambda>_. True) m Q \<Longrightarrow> session_ok x s \<Longrightarrow> session_ok x (snd (m s)) \<and> se_base (snd (m s)) = se_base s"
  by (simp add: valid_def)

subsection \<open>The calls keep the invariant\<close>

lemma orm_inv_same:
  "orm_inv x d \<Longrightarrow> om_ledger d' = om_ledger d \<Longrightarrow> om_keys d' = om_keys d \<Longrightarrow> orm_inv x d'"
  by (simp add: orm_inv_def orm_chains_def orm_signed_def orm_isolated_def tenants_of_def one_active_def)

lemma orm_inv_keys:
  "orm_inv x d \<Longrightarrow> om_ledger d' = om_ledger d \<Longrightarrow> one_active d' \<Longrightarrow> orm_inv x d'"
  by (simp add: orm_inv_def orm_chains_def orm_signed_def orm_isolated_def tenants_of_def)

lemma tenant_get_valid [triples]: "(\<And>a d. P d \<Longrightarrow> Q a d) \<Longrightarrow> valid x P (tenant_get t) Q"
  unfolding tenant_get_def by (rule valid_bind [where Q = "\<lambda>_. P"]) (auto intro!: triples)

lemma flush_other_valid:
  assumes "\<And>d. om_ledger (upd d) = om_ledger d \<and> om_keys (upd d) = om_keys d \<and> (\<exists>rs. om_audit (upd d) = om_audit d @ rs)"
  shows "valid x P (orm_bind (orm_flush ok upd) (\<lambda>_. orm_ret a)) (\<lambda>_ _. True)"
proof (rule valid_bind [where Q = "\<lambda>_ _. True"])
  show "valid x P (orm_flush ok upd) (\<lambda>_ _. True)"
    using assms by (intro valid_flush) (auto intro: orm_inv_same simp: extends_db_def)
qed (rule valid_ret, simp)

lemma tenant_create_valid [triples]: "valid x P (tenant_create t n) (\<lambda>_ _. True)"
  unfolding tenant_create_def Let_def
proof (rule valid_bind [where Q = "\<lambda>_ _. True"], rule tenant_get_valid)
  let ?r = "\<lparr>tn_tenant_id = t, tn_name = n, tn_is_active = True\<rparr>"
  show "valid x (\<lambda>_. True) (case a of Some _ \<Rightarrow> orm_raise (OrmExc (ValueError ''already exists''))
      | None \<Rightarrow> orm_bind (orm_flush (tenant_insertable ?r) (\<lambda>d. d\<lparr>om_tenants := om_tenants d @ [?r]\<rparr>)) (\<lambda>_. orm_ret ?r)) (\<lambda>_ _. True)" for a
    by (cases a) (auto intro: valid_raise flush_other_valid)
qed simp

lemma tenant_get_or_create_valid: "valid x P (tenant_get_or_create t n) (\<lambda>_ _. True)"
  unfolding tenant_get_or_create_def
proof (rule valid_bind [where Q = "\<lambda>_ _. True"])
  show "valid x P (tenant_get t) (\<lambda>_ _. True)" by (rule tenant_get_valid) simp
  show "valid x (\<lambda>_. True) (case a of Some r \<Rightarrow> orm_ret r | None \<Rightarrow>
      tenant_create t (case n of Some n \<Rightarrow> if n \<noteq> [] then n else t | None \<Rightarrow> t)) (\<lambda>_ _. True)" for a
    by (cases a) (simp_all only: option.case valid_ret tenant_create_valid)
qed

lemma get_active_valid:
  "valid x P (orm_get_active_key t) (\<lambda>a d. filter (active_of t) (om_keys d) = (case a of None \<Rightarrow> [] | Some k \<Rightarrow> [k]))"
  unfolding orm_get_active_key_def
  by (rule valid_bind [where Q = "\<lambda>rows d. rows = filter (active_of t) (om_keys d)"]) (auto intro!: triples)

lemma filter_active_retire:
  "filter (active_of t) (om_keys (retire_row now k d)) =
     filter (\<lambda>r. active_of t r \<and> \<not> (ok_tenant_id r = ok_tenant_id k \<and> ok_key_id r = ok_key_id k)) (om_keys d)"
proof -
  let ?f = "\<lambda>r. if ok_tenant_id r = ok_tenant_id k \<and> ok_key_id r = ok_key_id k
    then r\<lparr>ok_status := KeyRetired, ok_retired_at := Some now\<rparr> else r"
  have "filter (active_of t) (map ?f ks) =
    filter (\<lambda>r. active_of t r \<and> \<not> (ok_tenant_id r = ok_tenant_id k \<and> ok_key_id r = ok_key_id k)) ks" for ks
    by (induction ks) (auto simp: active_of_def)
  then show ?thesis by (simp add: retire_row_def)
qed

lemma one_active_retire: "one_active d \<Longrightarrow> one_active (retire_row now k d)"
  unfolding one_active_def filter_active_retire filter_filter [symmetric] by (meson length_filter_le order_trans)

lemma retire_valid:
  "valid x (\<lambda>d. filter (active_of t) (om_keys d) = [k]) (orm_retire_key now k) (\<lambda>_ d. filter (active_of t) (om_keys d) = [])"
  unfolding orm_retire_key_def
proof (rule valid_flush)
  fix d assume d: "orm_inv x d" "filter (active_of t) (om_keys d) = [k]"
  have "filter (active_of t) (om_keys (retire_row now k d)) =
      filter (\<lambda>r. \<not> (ok_tenant_id r = ok_tenant_id k \<and> ok_key_id r = ok_key_id k)) (filter (active_of t) (om_keys d))"
    by (simp add: filter_active_retire conj_commute)
  moreover have "one_active (retire_row now k d)" using d(1) by (intro one_active_retire) (simp add: orm_inv_def)
  ultimately show "orm_inv x (retire_row now k d) \<and> extends_db d (retire_row now k d) \<and>
      filter (active_of t) (om_keys (retire_row now k d)) = []"
    using d orm_inv_keys [OF d(1), of "retire_row now k d"] by (simp add: retire_row_def extends_db_def)
qed

lemma retire_option_valid:
  "valid x (\<lambda>d. filter (active_of t) (om_keys d) = (case a of None \<Rightarrow> [] | Some k \<Rightarrow> [k]))
     (case a of None \<Rightarrow> orm_ret () | Some k \<Rightarrow> if b then orm_raise e else orm_retire_key now k)
     (\<lambda>_ d. filter (active_of t) (om_keys d) = [])"
  by (cases a) (auto intro!: valid_ret valid_raise retire_valid)

lemma one_active_insert:
  assumes "one_active d" "filter (active_of (ok_tenant_id k)) (om_keys d) = []"
  shows "one_active (d\<lparr>om_keys := om_keys d @ [k]\<rparr>)"
  unfolding one_active_def
proof
  fix t
  show "length (filter (active_of t) (om_keys (d\<lparr>om_keys := om_keys d @ [k]\<rparr>))) \<le> 1"
    using assms by (cases "active_of t k") (auto simp: one_active_def active_of_def)
qed

lemma create_key_valid:
  "valid x P (orm_create_key now t kid pub cb re) (\<lambda>k d. filter (active_of t) (om_keys d) = [k] \<and> ok_key_id k = kid \<and> ok_public_key k = pub)"
  unfolding orm_create_key_def Let_def
proof (cases "lower_hex 64 pub")
  case True
  let ?k = "\<lparr>ok_tenant_id = t, ok_key_id = kid, ok_public_key = pub, ok_status = KeyActive,
    ok_algorithm = ''ed25519'', ok_created_at = now, ok_retired_at = None, ok_created_by = cb\<rparr>"
  have "orm_inv x (d\<lparr>om_keys := om_keys d @ [?k]\<rparr>)" if "orm_inv x d" "filter (active_of t) (om_keys d) = []" for d
    using that by (intro orm_inv_keys [OF that(1)] one_active_insert) (simp_all add: orm_inv_def)
  then have f: "valid x (\<lambda>d. filter (active_of t) (om_keys d) = []) (orm_flush (key_insertable ?k) (\<lambda>d. d\<lparr>om_keys := om_keys d @ [?k]\<rparr>))
      (\<lambda>_ d. filter (active_of t) (om_keys d) = [?k])"
    by (intro valid_flush) (auto simp: active_of_def extends_db_def)
  show "valid x P (if \<not> lower_hex 64 pub then orm_raise (OrmExc (ValueError ''public_key''))
      else orm_bind (orm_get_active_key t) (\<lambda>active.
        orm_bind (case active of None \<Rightarrow> orm_ret ()
          | Some k \<Rightarrow> if \<not> re then orm_raise (OrmExc (ValueError ''active key'')) else orm_retire_key now k) (\<lambda>_.
        orm_bind (orm_flush (key_insertable ?k) (\<lambda>d. d\<lparr>om_keys := om_keys d @ [?k]\<rparr>)) (\<lambda>_. orm_ret ?k))))
      (\<lambda>k d. filter (active_of t) (om_keys d) = [k] \<and> ok_key_id k = kid \<and> ok_public_key k = pub)"
    using True by (auto intro!: valid_bind [OF get_active_valid] valid_bind [OF retire_option_valid] valid_bind [OF f] valid_ret)
qed (auto intro: valid_raise)

lemma rotate_key_valid:
  "valid x P (orm_rotate_key now t kid pub cb) (\<lambda>p d. filter (active_of t) (om_keys d) = [fst p] \<and> ok_key_id (fst p) = kid \<and> ok_public_key (fst p) = pub)"
proof -
  have r: "valid x (\<lambda>d. filter (active_of t) (om_keys d) = (case a of None \<Rightarrow> [] | Some k \<Rightarrow> [k]))
     (case a of None \<Rightarrow> orm_ret () | Some k \<Rightarrow> orm_retire_key now k) (\<lambda>_ d. filter (active_of t) (om_keys d) = [])" for a
    using retire_option_valid [of x t a False undefined now] by (cases a) simp_all
  show ?thesis unfolding orm_rotate_key_def
    by (auto intro!: valid_bind [OF get_active_valid] valid_bind [OF r] valid_bind [OF create_key_valid] valid_ret)
qed

text \<open>Appending a row that passed the checks.\<close>

lemma orm_latest_expected:
  assumes "orm_chains d"
  shows "case orm_get_latest t i d of
      None \<Rightarrow> filter (orm_row_of t i) (om_ledger d) = []
    | Some r \<Rightarrow> filter (orm_row_of t i) (om_ledger d) \<noteq> [] \<and> r = last (filter (orm_row_of t i) (om_ledger d)) \<and>
        ow_sequence_id r = int (length (filter (orm_row_of t i) (om_ledger d)))"
proof -
  let ?c = "filter (orm_row_of t i) (om_ledger d)"
  have l: "rows_linked 0 genesis_hash (map chain_row ?c)" using assms by (simp add: orm_chains_def)
  have "sorted (map ow_sequence_id ?c)" using rows_linked_sorted [OF l] by (simp add: o_def)
  then have "orm_get_chain t i d = ?c" unfolding orm_get_chain_def by (rule sort_key_id_if_sorted)
  then show ?thesis using rows_linked_last [OF l] by (simp add: orm_get_latest_def Let_def last_map)
qed

definition next_row :: "string \<Rightarrow> string \<Rightarrow> int \<Rightarrow> string \<Rightarrow> orm_db \<Rightarrow> bool" where
  "next_row t i n ph d \<longleftrightarrow> (let c = filter (orm_row_of t i) (om_ledger d) in
     n = int (length c) + 1 \<and> ph = (if c = [] then genesis_hash else ow_current_hash (last c)))"

definition own_instance :: "string \<Rightarrow> string \<Rightarrow> orm_db \<Rightarrow> bool" where
  "own_instance t i d \<longleftrightarrow> [] \<in> tenants_of i d \<or> tenants_of i d \<subseteq> {t}"

lemma cross_tenant_own:
  assumes "c = db_first (\<lambda>r. ow_instance_id r = i \<and> ow_tenant_id r \<noteq> t) (om_ledger d)" "case c of None \<Rightarrow> True | Some r \<Rightarrow> ow_tenant_id r = []"
  shows "own_instance t i d"
proof (cases c)
  case None
  with assms(1) [symmetric] show ?thesis by (auto simp: db_first_None own_instance_def tenants_of_def)
next
  case (Some r)
  with assms(2) db_first_SomeD [OF assms(1) [symmetric, unfolded Some]] have "r \<in> set (om_ledger d)" "ow_instance_id r = i" "[] = ow_tenant_id r" by auto
  then show ?thesis unfolding own_instance_def tenants_of_def by blast
qed

lemma cross_tenant_valid: "valid x (\<lambda>_. True) (check_cross_tenant i t) (\<lambda>_. own_instance t i)"
  unfolding check_cross_tenant_def
proof (rule valid_bind [where Q = "\<lambda>c d. c = db_first (\<lambda>r. ow_instance_id r = i \<and> ow_tenant_id r \<noteq> t) (om_ledger d)"], rule valid_exec)
  show "valid x (\<lambda>d. a = db_first (\<lambda>r. ow_instance_id r = i \<and> ow_tenant_id r \<noteq> t) (om_ledger d))
      (case a of Some r \<Rightarrow> if ow_tenant_id r \<noteq> [] then orm_raise (OrmExc (LedgerError i t (ow_tenant_id r))) else orm_ret ()
       | None \<Rightarrow> orm_ret ()) (\<lambda>_. own_instance t i)" for a
  proof (cases a)
    case None
    show ?thesis unfolding None option.case by (rule valid_ret, erule cross_tenant_own) (simp only: option.case)
  next
    case (Some r)
    show ?thesis
    proof (cases "ow_tenant_id r = []")
      case True
      show ?thesis unfolding Some option.case if_not_P [OF not_not [THEN iffD2, OF True]]
        by (rule valid_ret, erule cross_tenant_own) (simp only: option.case True)
    qed (simp add: Some valid_raise)
  qed
qed simp

lemma validate_chain_valid:
  "valid x Q (orm_validate_chain t i n ph) (\<lambda>_ d. Q d \<and> next_row t i n ph d)"
  unfolding orm_validate_chain_def
proof (rule valid_bind [where Q = "\<lambda>c d. orm_chains d \<and> Q d \<and> c = orm_get_latest t i d"], rule valid_exec)
  show "orm_chains d \<and> Q d \<and> orm_get_latest t i d = orm_get_latest t i d" if "orm_inv x d" "Q d" for d
    using that by (simp add: orm_inv_def)
  have n: "next_row t i n ph d" if "orm_chains d" "a = orm_get_latest t i d" "case a of None \<Rightarrow> n = 1 \<and> ph = genesis_hash
      | Some r \<Rightarrow> n = ow_sequence_id r + 1 \<and> ph = ow_current_hash r" for d a
    using orm_latest_expected [OF that(1), of t i] that(3) unfolding that(2) [symmetric]
    by (auto simp: next_row_def Let_def split: option.splits)
  show "valid x (\<lambda>d. orm_chains d \<and> Q d \<and> a = orm_get_latest t i d)
      (case a of None \<Rightarrow> if n \<noteq> 1 then orm_raise (OrmExc (SequenceGap 1 n None))
           else if ph \<noteq> genesis_hash then orm_raise (OrmExc (ChainBroken n genesis_hash ph None)) else orm_ret ()
       | Some r \<Rightarrow> if n = ow_sequence_id r then orm_raise (OrmExc (DuplicateSequenceId n None))
           else if n \<noteq> ow_sequence_id r + 1 then orm_raise (OrmExc (SequenceGap (ow_sequence_id r + 1) n None))
           else if ph \<noteq> ow_current_hash r then orm_raise (OrmExc (ChainBroken n (ow_current_hash r) ph None)) else orm_ret ())
      (\<lambda>_ d. Q d \<and> next_row t i n ph d)" for a
  proof (cases "case a of None \<Rightarrow> n = 1 \<and> ph = genesis_hash | Some r \<Rightarrow> n = ow_sequence_id r + 1 \<and> ph = ow_current_hash r")
    case True
    with n have r: "valid x (\<lambda>d. orm_chains d \<and> Q d \<and> a = orm_get_latest t i d) (orm_ret ()) (\<lambda>_ d. Q d \<and> next_row t i n ph d)"
      by (intro valid_ret) blast
    from True r show ?thesis by (cases a) simp_all
  next
    case False
    then show ?thesis by (cases a) (simp_all add: valid_raise)
  qed
qed

lemma orm_inv_append:
  assumes "orm_inv x d" "next_row t i (ow_sequence_id r) (ow_previous_hash r) d" "own_instance t i d"
    "signature_verifies x (ow_current_hash r) (ow_signature r) (ow_public_key r)" "ow_tenant_id r = t" "ow_instance_id r = i"
  shows "orm_inv x (d\<lparr>om_ledger := om_ledger d @ [r]\<rparr>)"
proof -
  let ?d = "d\<lparr>om_ledger := om_ledger d @ [r]\<rparr>"
  have "rows_linked 0 genesis_hash (map chain_row (filter (orm_row_of t' i') (om_ledger ?d)))" for t' i'
    using assms(1,2,5,6)
    by (cases "orm_row_of t' i' r")
      (auto simp: orm_inv_def orm_chains_def next_row_def Let_def rows_linked_append last_map orm_row_of_def)
  moreover have "tenants_of i' ?d = tenants_of i' d \<union> (if i' = i then {t} else {})" for i'
    using assms(5,6) by (auto simp: tenants_of_def)
  ultimately show ?thesis
    using assms(1,3,4) by (auto simp: orm_inv_def orm_chains_def orm_signed_def orm_isolated_def one_active_def own_instance_def)
qed

lemma orm_build_row_keys:
  "orm_build_row fi now t a ih pj k = Inr r \<Longrightarrow> ow_tenant_id r = t \<and> ow_instance_id r = aa_instance_id a \<and>
     ow_sequence_id r = aa_sequence_id a \<and> ow_previous_hash r = aa_previous_hash a \<and> ow_current_hash r = aa_current_hash a \<and>
     ow_signature r = aa_sig_value a \<and> ow_public_key r = aa_pub_key a \<and> ow_inputs_hash r = ih \<and> ow_proof_json r = pj"
  by (auto simp: orm_build_row_def)

text \<open>A row that is inserted has a key of 64 characters, so its signature was verified.\<close>

lemma insert_row_valid:
  assumes "length (ow_public_key r) \<noteq> 64 \<or> signature_verifies x (ow_current_hash r) (ow_signature r) (ow_public_key r)"
  shows "valid x (\<lambda>d. own_instance (ow_tenant_id r) (ow_instance_id r) d \<and>
      next_row (ow_tenant_id r) (ow_instance_id r) (ow_sequence_id r) (ow_previous_hash r) d) (orm_insert_row r) (\<lambda>_ _. True)"
proof -
  let ?u = "\<lambda>d. d\<lparr>om_ledger := om_ledger d @ [r]\<rparr>"
  have f: "valid x (\<lambda>d. own_instance (ow_tenant_id r) (ow_instance_id r) d \<and>
      next_row (ow_tenant_id r) (ow_instance_id r) (ow_sequence_id r) (ow_previous_hash r) d) (orm_flush (row_insertable r) ?u) (\<lambda>_ _. True)"
  proof (rule valid_flush)
    fix d assume d: "orm_inv x d" "own_instance (ow_tenant_id r) (ow_instance_id r) d \<and>
      next_row (ow_tenant_id r) (ow_instance_id r) (ow_sequence_id r) (ow_previous_hash r) d" "row_insertable r d"
    have "signature_verifies x (ow_current_hash r) (ow_signature r) (ow_public_key r)"
      using assms d(3) by (simp add: row_insertable_def)
    with d orm_inv_append [OF d(1), of "ow_tenant_id r" "ow_instance_id r" r]
    show "orm_inv x (?u d) \<and> extends_db d (?u d) \<and> True" by (simp add: extends_db_def)
  qed
  have "session_ok x (s\<lparr>se_next := k\<rparr>) = session_ok x s" for s k by (simp add: session_ok_def)
  with f show ?thesis
    unfolding orm_insert_row_def by (intro valid_bind [where Q = "\<lambda>_ _. True"] valid_ret) (auto simp: valid_def)
qed

lemma append_valid: "valid x (\<lambda>_. True) (orm_append x fi now t pd) (\<lambda>_ _. True)"
  unfolding orm_append_def
proof (rule valid_bind [OF valid_lift [where Q = "\<lambda>_ _. True"]], simp, rule valid_bind [OF cross_tenant_valid])
  fix a :: append_args and b
  let ?Q = "own_instance t (aa_instance_id a)"
  let ?R = "\<lambda>d. ?Q d \<and> next_row t (aa_instance_id a) (aa_sequence_id a) (aa_previous_hash a) d"
  let ?S = "length (aa_pub_key a) \<noteq> 64 \<or> signature_verifies x (aa_current_hash a) (aa_sig_value a) (aa_pub_key a)"
  have rows: "valid x (\<lambda>d. ?R d \<and> ?S) (\<lambda>s. orm_bind (orm_lift (orm_build_row fi now t a ih pj (se_next s))) orm_insert_row s) (\<lambda>_ _. True)" for ih pj
  proof -
    have "valid x (\<lambda>d. ?R d \<and> ?S) (orm_bind (orm_lift (orm_build_row fi now t a ih pj k)) orm_insert_row) (\<lambda>_ _. True)" for k
    proof (cases "orm_build_row fi now t a ih pj k")
      case (Inl e)
      then show ?thesis by (simp add: valid_def orm_bind_def orm_lift_def orm_raise_def)
    next
      case (Inr r)
      note k = orm_build_row_keys [OF Inr]
      have e: "orm_bind (orm_lift (orm_build_row fi now t a ih pj k)) orm_insert_row = orm_insert_row r"
        by (rule ext) (simp add: Inr orm_bind_def orm_lift_def orm_ret_def)
      show ?thesis
      proof (cases ?S)
        case True
        with k have "length (ow_public_key r) \<noteq> 64 \<or> signature_verifies x (ow_current_hash r) (ow_signature r) (ow_public_key r)" by simp
        from insert_row_valid [OF this] show ?thesis unfolding e using k by (auto intro: valid_pre)
      qed (simp add: valid_def)
    qed
    then show ?thesis unfolding valid_def by blast
  qed
  have sig: "valid x ?R (verify_signature_pre_insert x (aa_current_hash a) (aa_sig_value a) (aa_pub_key a)) (\<lambda>_ d. ?R d \<and> ?S)"
    by (auto simp: verify_signature_pre_insert_def intro: valid_ret valid_raise)
  have len: "valid x ?Q (if length (aa_sig_value a) \<noteq> 128 then orm_raise (NameError ''SigningFailed'') else orm_ret ()) (\<lambda>_. ?Q)"
    by (auto intro: valid_ret valid_raise)
  show "valid x ?Q
     (orm_bind (if length (aa_sig_value a) \<noteq> 128 then orm_raise (NameError ''SigningFailed'') else orm_ret ()) (\<lambda>_.
     orm_bind (orm_validate_chain t (aa_instance_id a) (aa_sequence_id a) (aa_previous_hash a)) (\<lambda>_.
     orm_bind (verify_signature_pre_insert x (aa_current_hash a) (aa_sig_value a) (aa_pub_key a)) (\<lambda>_.
     orm_bind (orm_lift (orm_inputs_hash x (aa_context a))) (\<lambda>inputs_hash.
     orm_bind (orm_lift (canonical_json pd)) (\<lambda>proof_json.
     orm_try (\<lambda>s. orm_bind (orm_lift (orm_build_row fi now t a inputs_hash proof_json (se_next s))) orm_insert_row s))))))) (\<lambda>_ _. True)"
    by (rule valid_bind [OF len], rule valid_bind [OF validate_chain_valid], rule valid_bind [OF sig],
        rule valid_bind [OF valid_lift [where Q = "\<lambda>_ d. ?R d \<and> ?S"]], assumption,
        rule valid_bind [OF valid_lift [where Q = "\<lambda>_ d. ?R d \<and> ?S"]], assumption, rule valid_try, rule rows)
qed

lemma audit_append_valid: "valid x (\<lambda>_. True) (audit_append now t ev tr ctx ac lv lid) (\<lambda>_ _. True)"
  unfolding audit_append_def Let_def
  by (rule valid_bind [OF valid_lift [where Q = "\<lambda>_ _. True"]], simp, rule flush_other_valid) simp

subsection \<open>Runs of a session\<close>

datatype orm_op =
    OrmTenant string string
  | OrmGetTenant string "string option"
  | OrmCreateKey int string string string string bool
  | OrmRotateKey int string string string string
  | OrmAppend string string pyval
  | OrmAudit int string string string pyval string string "nat option"
  | OrmCommit
  | OrmRollback

fun orm_step :: "ext \<Rightarrow> (string \<Rightarrow> string option) \<Rightarrow> orm_op \<Rightarrow> session \<Rightarrow> session" where
  "orm_step x fi (OrmTenant t n) s = snd (tenant_create t n s)"
| "orm_step x fi (OrmGetTenant t n) s = snd (tenant_get_or_create t n s)"
| "orm_step x fi (OrmCreateKey now t k p c r) s = snd (orm_create_key now t k p c r s)"
| "orm_step x fi (OrmRotateKey now t k p c) s = snd (orm_rotate_key now t k p c s)"
| "orm_step x fi (OrmAppend now t pd) s = snd (orm_append x fi now t pd s)"
| "orm_step x fi (OrmAudit now t ev tr ctx ac lv lid) s = snd (audit_append now t ev tr ctx ac lv lid s)"
| "orm_step x fi OrmCommit s = snd (session_commit s)"
| "orm_step x fi OrmRollback s = snd (session_rollback s)"

lemmas call_valid = tenant_create_valid tenant_get_or_create_valid create_key_valid rotate_key_valid append_valid audit_append_valid

lemma orm_step_ok:
  assumes "session_ok x s"
  shows "session_ok x (orm_step x fi q s) \<and> (\<exists>rs. om_ledger (se_base (orm_step x fi q s)) = om_ledger (se_base s) @ rs)"
proof (cases q)
  case OrmCommit
  with assms show ?thesis by (auto simp: session_commit_def session_ok_def extends_db_def)
next
  case OrmRollback
  with assms show ?thesis by (simp add: session_rollback_def session_ok_def)
qed (use valid_step [OF call_valid(1) assms] valid_step [OF call_valid(2) assms] valid_step [OF call_valid(3) assms]
    valid_step [OF call_valid(4) assms] valid_step [OF call_valid(5) assms] valid_step [OF call_valid(6) assms] in \<open>simp_all\<close>)

interpretation orm: append_only "orm_step x fi" "\<lambda>s. om_ledger (se_base s)" "session_ok x" for x fi
  by unfold_locales (use orm_step_ok in blast)+

definition empty_session :: session where
  "empty_session = (let d = \<lparr>om_tenants = [], om_keys = [], om_ledger = [], om_audit = []\<rparr>
     in \<lparr>se_base = d, se_db = d, se_failed = False, se_next = 1\<rparr>)"

lemma empty_session_ok: "session_ok x empty_session"
  by (simp add: session_ok_def empty_session_def Let_def orm_inv_def orm_chains_def orm_signed_def orm_isolated_def
      tenants_of_def one_active_def)

subsection \<open>Properties\<close>

text \<open>
  C36: Whatever a session does from an empty database, with commits, rollbacks and failed flushes in any order: in the committed
  database the rows of every tenant and instance are a chain, every row carries a signature that its public key
  verifies, an instance belongs to one tenant (unless the tenant with the empty name uses it), no tenant has two
  active keys, and committed rows stay where they are.
\<close>

theorem orm_history:
  fixes x :: ext and fi :: "string \<Rightarrow> string option" and qs qs' :: "orm_op list"
  defines "s \<equiv> fold (orm_step x fi) qs empty_session"
  shows "orm_chains (se_base s) \<and> orm_signed x (se_base s) \<and> orm_isolated (se_base s) \<and> one_active (se_base s) \<and>
    (\<exists>rs. om_ledger (se_base (fold (orm_step x fi) qs' s)) = om_ledger (se_base s) @ rs)"
proof -
  have "session_ok x s" unfolding s_def by (rule orm.run_inv [OF empty_session_ok])
  with orm.run_extends [OF this, of fi qs'] show ?thesis by (simp add: session_ok_def orm_inv_def)
qed

text \<open>
  After \<open>rotate_key\<close> returned, the new key is the only active key of the tenant.
\<close>

theorem rotate_key_active:
  assumes "session_ok x s" "orm_rotate_key now t kid pub cb s = (Inr (k, old), s')"
  shows "filter (active_of t) (om_keys (se_db s')) = [k] \<and> ok_key_id k = kid \<and> ok_public_key k = pub \<and>
    orm_get_active_key t s' = (Inr (Some k), s') \<and> session_ok x s'"
proof -
  have v: "session_ok x s'" "filter (active_of t) (om_keys (se_db s')) = [k]" "ok_key_id k = kid" "ok_public_key k = pub"
    using rotate_key_valid [of x "\<lambda>_. True" now t kid pub cb] assms by (auto simp: valid_def)
  moreover have "\<not> se_failed s'"
    using assms(2) by (auto simp: orm_rotate_key_def orm_create_key_def orm_bind_def orm_flush_def orm_raise_def orm_ret_def Let_def
        split: prod.splits sum.splits if_splits option.splits)
  ultimately show ?thesis by (simp add: orm_get_active_key_def orm_bind_def orm_exec_def scalar_one_or_none_def orm_ret_def)
qed

text \<open>A session of the tenant \<open>t\<close> with the active key \<open>k1\<close>.\<close>

definition sample_pub :: string where
  "sample_pub = replicate 64 (CHR ''a'')"

definition sample_session :: session where
  "sample_session = fold (orm_step sample_ext Some) [OrmTenant ''t'' ''T'', OrmCreateKey 1 ''t'' ''k1'' sample_pub ''system'' True] empty_session"

lemma sample_session_ok: "session_ok x sample_session"
proof -
  have "session_ok x (fold (orm_step x Some) [OrmTenant ''t'' ''T'', OrmCreateKey 1 ''t'' ''k1'' sample_pub ''system'' True] empty_session)"
    by (rule orm.run_inv [OF empty_session_ok])
  then show ?thesis by (simp add: sample_session_def)
qed

theorem rotate_key_active_witness:
  "\<exists>k old s'. orm_rotate_key 2 ''t'' ''k2'' sample_pub ''system'' sample_session = (Inr (k, old), s') \<and>
     orm_get_active_key ''t'' s' = (Inr (Some k), s') \<and> ok_key_id k = ''k2''"
proof -
  have c: "case fst (orm_rotate_key 2 ''t'' ''k2'' sample_pub ''system'' sample_session) of Inr _ \<Rightarrow> True | Inl _ \<Rightarrow> False"
    by code_simp
  obtain r s' where e: "orm_rotate_key 2 ''t'' ''k2'' sample_pub ''system'' sample_session = (r, s')" by fastforce
  with c obtain k old where "r = Inr (k, old)" by (cases r) auto
  with rotate_key_active [OF sample_session_ok [of sample_ext], of 2 "''t''" "''k2''" sample_pub "''system''" k old s'] e
  show ?thesis by auto
qed

text \<open>
  C37: \<open>rotate_key\<close> retires the active key before it looks at the new one: with a malformed public key it raises \<open>ValueError\<close> and
  leaves the tenant, in a session that can be committed, without an active key.
\<close>

theorem rotate_bad_key_strips_tenant:
  assumes "session_ok x s" "\<not> se_failed s" "\<not> lower_hex 64 pub" "filter (active_of t) (om_keys (se_db s)) = [k]"
  shows "\<exists>s'. orm_rotate_key now t kid pub cb s = (Inl (OrmExc (ValueError ''public_key'')), s') \<and> \<not> se_failed s' \<and>
    filter (active_of t) (om_keys (se_db s')) = [] \<and> orm_require_active_key t s' = (Inl (NameError ''SigningFailed''), s')"
proof -
  let ?s = "s\<lparr>se_db := retire_row now k (se_db s)\<rparr>"
  have "orm_retire_key now k s = (Inr (), ?s)" using assms(2) by (simp add: orm_retire_key_def orm_flush_def)
  then have "filter (active_of t) (om_keys (se_db ?s)) = []"
    using retire_valid [of x t k now] assms(1,4) by (auto simp: valid_def)
  moreover have "orm_rotate_key now t kid pub cb s = (Inl (OrmExc (ValueError ''public_key'')), ?s)"
    using assms(2-4) by (simp add: orm_rotate_key_def orm_bind_def orm_get_active_key_def orm_exec_def scalar_one_or_none_def
        orm_ret_def orm_retire_key_def orm_flush_def orm_create_key_def orm_raise_def)
  ultimately show ?thesis
    using assms(2) by (simp add: orm_require_active_key_def orm_get_active_key_def orm_bind_def orm_exec_def
        scalar_one_or_none_def orm_ret_def orm_raise_def)
qed

theorem rotate_bad_key_strips_tenant_witness:
  "\<exists>s'. orm_rotate_key 2 ''t'' ''k2'' ''bad'' ''system'' sample_session = (Inl (OrmExc (ValueError ''public_key'')), s') \<and>
     filter (active_of ''t'') (om_keys (se_db s')) = []"
proof -
  have c: "\<not> se_failed sample_session" "length (filter (active_of ''t'') (om_keys (se_db sample_session))) = 1" by code_simp+
  then obtain k where "filter (active_of ''t'') (om_keys (se_db sample_session)) = [k]" by (auto simp: length_Suc_conv)
  moreover have "\<not> lower_hex 64 ''bad''" by (simp add: lower_hex_def)
  ultimately show ?thesis
    using rotate_bad_key_strips_tenant [OF sample_session_ok [of sample_ext] c(1), of "''bad''" "''t''" k 2 "''k2''" "''system''"] by blast
qed

text \<open>
  \<open>LedgerRepository.append\<close> announces \<open>SigningFailed\<close> for a signature of the wrong length; the name is not imported, and the
  call raises \<open>NameError\<close>.  A number below the last one is announced as \<open>DuplicateSequenceId\<close> and reported as \<open>SequenceGap\<close>.
\<close>

theorem short_signature_raises_NameError:
  assumes "\<not> se_failed s" "orm_append_args pd = Inr a" "length (aa_sig_value a) \<noteq> 128"
    "\<And>r. r \<in> set (om_ledger (se_db s)) \<Longrightarrow> ow_instance_id r = aa_instance_id a \<Longrightarrow> ow_tenant_id r = t"
  shows "orm_append x fi now t pd s = (Inl (NameError ''SigningFailed''), s)"
proof -
  have "db_first (\<lambda>r. ow_instance_id r = aa_instance_id a \<and> ow_tenant_id r \<noteq> t) (om_ledger (se_db s)) = None"
    using assms(4) by (auto simp: db_first_None)
  with assms(1-3) show ?thesis
    by (simp add: orm_append_def orm_bind_def orm_lift_def orm_ret_def orm_raise_def check_cross_tenant_def orm_exec_def)
qed

definition short_signature_entry :: pyval where
  "short_signature_entry = PyDict [(KStr ''instance_id'', PyStr ''i''), (KStr ''decision'', PyDict []), (KStr ''governance'', PyDict []),
     (KStr ''determinism'', PyDict []),
     (KStr ''ledger'', PyDict [(KStr ''sequence_id'', PyInt 1), (KStr ''current_hash'', PyStr ''c''), (KStr ''previous_hash'', PyStr ''p'')]),
     (KStr ''signature'', PyDict [(KStr ''value'', PyStr ''s''), (KStr ''public_key'', PyStr ''p'')])]"

theorem short_signature_raises_NameError_witness:
  "orm_append sample_ext Some ''now'' ''t'' short_signature_entry empty_session = (Inl (NameError ''SigningFailed''), empty_session)"
proof -
  have c: "case orm_append_args short_signature_entry of Inr a \<Rightarrow> aa_sig_value a = ''s'' | Inl _ \<Rightarrow> False" by code_simp
  then obtain a where a: "orm_append_args short_signature_entry = Inr a" "aa_sig_value a = ''s''"
    by (cases "orm_append_args short_signature_entry") auto
  show ?thesis
    by (rule short_signature_raises_NameError [OF _ a(1)]) (simp_all add: empty_session_def Let_def a(2))
qed

theorem old_number_is_gap:
  assumes "\<not> se_failed s" "orm_get_latest t i (se_db s) = Some r" "n < ow_sequence_id r"
  shows "orm_validate_chain t i n ph s = (Inl (OrmExc (SequenceGap (ow_sequence_id r + 1) n None)), s)"
  using assms by (simp add: orm_validate_chain_def orm_bind_def orm_exec_def orm_raise_def)

text \<open>A proof that the tenant of \<open>sample_session\<close> can append; a signature of \<open>sample_ext\<close> is the key and the message.\<close>

definition sample_orm_entry :: pyval where
  "sample_orm_entry = PyDict [(KStr ''instance_id'', PyStr ''i''), (KStr ''decision'', PyDict []), (KStr ''governance'', PyDict []),
     (KStr ''determinism'', PyDict []),
     (KStr ''ledger'', PyDict [(KStr ''sequence_id'', PyInt 1), (KStr ''current_hash'', PyStr (replicate 64 (CHR ''1''))),
        (KStr ''previous_hash'', PyStr genesis_hash)]),
     (KStr ''signature'', PyDict [(KStr ''value'', PyStr (sample_pub @ replicate 64 (CHR ''1''))), (KStr ''key_id'', PyStr ''k1''),
        (KStr ''public_key'', PyStr sample_pub)])]"

lemma sample_orm_append:
  "case orm_append sample_ext Some ''now'' ''t'' sample_orm_entry sample_session of
      (Inr r, s) \<Rightarrow> \<not> se_failed s \<and> (case orm_get_latest ''t'' ''i'' (se_db s) of Some q \<Rightarrow> ow_sequence_id q = 1 | None \<Rightarrow> False)
    | _ \<Rightarrow> False"
  by code_simp

theorem old_number_is_gap_witness:
  "\<exists>s. orm_validate_chain ''t'' ''i'' 0 genesis_hash s = (Inl (OrmExc (SequenceGap 2 0 None)), s)"
proof -
  obtain s :: session and r where "\<not> se_failed s" "orm_get_latest ''t'' ''i'' (se_db s) = Some r" "ow_sequence_id r = 1"
    using sample_orm_append by (auto split: prod.splits sum.splits option.splits)
  with old_number_is_gap [of s "''t''" "''i''" r 0 genesis_hash] show ?thesis by auto
qed

end
