(* ===== verification/Spec2Isabelle.thy ===== *)
theory Spec2Isabelle
  imports Packages KeyRegistry Drift RateLimit Auth Siem Postgres Repository
begin

text \<open>
  This is a verification of the decision ledger of provable-ai (Zorynex): the library in
  \<open>src/provable_ai\<close> that records governance decisions as signed proofs in a hash chain per instance,
  verifies them offline, and keeps an audit log, a key registry and Merkle batches beside them.

  \<^bold>\<open>The parts and the theories.\<close>

  \<^item> \<open>Prelude\<close>, \<open>PyValue\<close>, \<open>Json\<close>, \<open>Sha256\<close>: hexadecimal text, UTF-8, the Python values that reach the
    code (\<open>pyval\<close>; dictionaries are association lists in insertion order), \<open>json.dumps\<close> with sorted keys
    and \<open>json.loads\<close> with their round trip, and SHA-256 computed from its definition.  \<open>JsonText\<close> has the spaced form and
    reads text with white space.
  \<^item> \<open>Exceptions\<close>: \<open>exceptions.py\<close> as the datatype \<open>exc\<close>, the result type \<open>'a res = exc + 'a\<close>, and the record
    \<open>ext\<close> of what the code calls outside the repository (SHA-256, Ed25519 of PyNaCl, the coercions of
    pydantic) with the hypotheses \<open>digest_ok\<close>, \<open>ed25519_ok\<close>, \<open>pydantic_ok\<close> about it; \<open>sample_ext\<close> shows that
    they can hold together.
  \<^item> \<open>Canonical\<close>, \<open>Schema\<close>, \<open>Verifier\<close>: \<open>canonical.py\<close>, \<open>schema.py\<close>, \<open>verifier.py\<close>.  A pydantic model is a
    record, its validators are the checks of \<open>..._init\<close> and \<open>..._validate\<close>; \<open>dump_proof\<close> is \<open>model_dump\<close>.
  \<^item> \<open>Signer\<close>, \<open>Failover\<close>: \<open>signer.py\<close> and \<open>signer_failover.py\<close>; the locale \<open>signer_contract\<close> is what a
    caller relies on, and \<open>Failover\<close> interprets it on the three signers.  What AWS KMS answers to a
    request, its algorithm included, is an argument (\<open>kms_world\<close>); \<open>kms_documented\<close> states what AWS documents of it.
  \<^item> \<open>ChainLog\<close>: the locales \<open>append_only\<close> and \<open>chained_log\<close> of append-only logs, and hash chains of rows;
    both are interpreted on the ledger, the audit log, the key registry and the anchor store.
  \<^item> \<open>Storage\<close>: \<open>storage.py\<close>.  A table is the list of its rows in insertion order, an \<open>INSERT\<close> checks the
    constraints of the schema, \<open>db\<close> is the database; \<open>ledger_ok\<close> is its invariant.
  \<^item> \<open>Engine\<close>, \<open>EngineProofs\<close>, \<open>EngineLive\<close>, \<open>ChainBinding\<close>: \<open>engine.py\<close>, the class \<open>GovernanceEngine\<close> and the
    facade \<open>Engine\<close>.  \<open>record_decision\<close> is the composition of the checks (\<open>prepare_decision\<close>), the signer and
    the insert, on a state with the database and the signer; \<open>facade_reach\<close> are the states a program
    reaches through the facade.
    \<open>Export\<close> is about \<open>export_proof\<close>: what a package contains and that the export closes the instance.
  \<^item> \<open>AuditLog\<close>, \<open>KeyRegistry\<close>, \<open>Merkle\<close>, \<open>Batch\<close>: \<open>audit_log.py\<close>, \<open>audit_keyregistry.py\<close>, the Merkle trees and
    the batch exports of \<open>audit_batch.py\<close>, and the standalone verifier \<open>verify/verify_batch.py\<close>, whose own loops are
    translated separately.  A call of \<open>record\<close> is split at its two reads and its insert (\<open>recorder_step\<close>).
  \<^item> \<open>Anchor\<close>, \<open>Drift\<close>: \<open>audit_anchor.py\<close> with \<open>verify/verify_anchor.py\<close>, and \<open>drift_detector.py\<close>, whose snapshots read
    the ledger and the audit log and are anchored.  A call of \<open>anchor\<close> is split at its two reads, so that
    overlapping calls can be stated.
  \<^item> \<open>Packages\<close>: the tools that check an exported package without the engine, \<open>verify/verify_package.py\<close>,
    \<open>verify/verify_signature.py\<close>, \<open>tools/offline_verify.py\<close> and \<open>tools/verify_core.py\<close>, on arbitrary Python values.
  \<^item> \<open>Auth\<close>, \<open>RateLimit\<close>, \<open>Webhook\<close>: \<open>server/auth.py\<close>, \<open>server/rate_limit.py\<close> and \<open>server/webhook.py\<close>, the guards
    in front of the server's endpoints.  The clocks, the environment variables and the request are arguments;
    the locale \<open>rate_layer\<close> is one sliding window, interpreted on each of the limiter's three layers, and
    \<open>webhook_run\<close> are the histories of a receiver.
  \<^item> \<open>Postgres\<close>: the class \<open>PostgreSQLStorage\<close> of \<open>repositories.py\<close> and \<open>postgres_storage.py\<close>.  A transaction meets a
    \<open>pg_world\<close>: whether it gets a connection and the lock, which rows are locked, and how its commit ends.
  \<^item> \<open>Repository\<close>: \<open>models.py\<close> and the SQLAlchemy repositories of \<open>repositories.py\<close>.  A call is a function on a
    \<open>session\<close> that may raise; \<open>valid\<close> are the triples in which its lemmas are stated, and the locale \<open>append_only\<close> is
    interpreted on the committed ledger.
  \<^item> \<open>Pii\<close>, \<open>Siem\<close>: \<open>pii.py\<close>, and \<open>siem.py\<close> with its router as a step relation of callers, worker threads and
    flushes (\<open>router_step\<close>, \<open>worker_step\<close>).

  \<^bold>\<open>What is shown.\<close>  For the engine: replay of every reachable instance succeeds, transitions that pass
  the checks succeed, recorded proofs verify, what is recorded is governed, failures change nothing,
  and an accepted chain is bound by its last hash (this theory).  For the logs: every run of calls one
  after the other leaves a chain that verifies, and its last hash commits to the history; every interleaving of recorders of the
  audit log leaves its numbers without a gap, and its chain valid when no insert falls between the two reads of a call (otherwise
  it can break, \<open>torn_reads_break_chain\<close>).
  For the key registry: rotation and the window in which a key was active, after any later operations.  For the Merkle trees:
  completeness of inclusion proofs, their soundness for paths of full depth and leaves of 32 bytes, and what a root
  commits to.  For exported packages: the
  independent tools accept whatever the engine exports, what their acceptance commits to and what it leaves
  open.  For anchors and snapshots: every run of the store verifies, the standalone verifier agrees with it, an
  anchored hash is found again, and an equal comparison of two snapshots of readable ledgers means equal latest hashes and audit
  records.  For the server's guards: who
  passes the permission check, how many requests pass the limiter in a minute, that signed webhooks are
  accepted and when one can be accepted twice.  For PostgreSQL: an append is recorded at most once whatever its
  attempts meet, the store agrees with SQLite, and every committed state of the repositories is chained, signed and
  isolated.  For the SIEM router: in every interleaving the messages and
  buffers of the transports are the result of sends that account for every event, and the queue drains.  For PII: scrubbed
  inputs are clean.  Theorems about hashes
  assume that SHA-256 does not collide on the finitely many messages hashed in the case at hand, never
  that it is injective.

  \<^bold>\<open>Termination.\<close>  Every loop of the modelled code is a total function; the Merkle loops halve the level
  and have termination proofs, and of the SIEM workers, which poll for ever, only finitely many steps change the state without new events.  Only the
  reader of JSON takes fuel, two units for each character of the text; \<open>jfuel_bound\<close> shows that this is
  enough for every text \<open>json.dumps\<close> writes.

  \<^bold>\<open>Not modelled.\<close>  The routes of the HTTP server, the command line tools, the SDK and the printing of reports: routing,
  argument parsing, network calls and text templates; the pool of psycopg2 behind \<open>database.py\<close>.  Threads appear only
  where the code relies on them: the health probe of the failover signer, concurrent recorders of the audit log,
  overlapping anchors and the SIEM workers.  Two PostgreSQL clients meet only through the locks and
  constraints a call sees.
\<close>

section \<open>Properties of the engine\<close>

text \<open>
  C1: In every state that the facade \<open>Engine\<close> reaches from an empty database, by compiling protocols,
  creating instances, running transitions, exporting proofs and changing the governance tables in any
  order, \<open>replay\<close> of a known instance returns \<open>True\<close> and the state the engine holds in memory: the proofs
  read back from the ledger verify as a chain and end in that state.
\<close>

theorem replay_valid:
  assumes "pydantic_ok x" "digest_ok x" "signer_ok x W sg" "facade_reach x W sg f"
    and "map_of (f_instances f) i = Some (st, h)"
  shows "replay x now f i = Inr (True, Some st)"
  using replay_facade [OF assms(1) facade_ok_reach [OF assms(1-4)] assms(5)] .

theorem replay_valid_witness:
  "replay sample_ext sample_now (snd sample_transition) ''i'' = Inr (True, Some ''b'')"
proof -
  obtain pid f' h where t: "sample_transition = (Inr (''b'', 1, pid), f')" "map_of (f_instances f') ''i'' = Some (''b'', h)"
    "facade_reach sample_ext {sample_world} sample_signer f'" by (rule sample_transition_ok)
  from replay_valid [OF _ _ _ t(3,2)] show ?thesis by (simp add: t(1))
qed

text \<open>
  C2: A transition that passes the checks of \<open>transition\<close> succeeds when the signer answers, in every reachable state of
  an engine and for well-formed arguments (\<open>transition_args_ok\<close>): the clock reads at least 20 characters ending in
  \<open>Z\<close>, the instance, the two states and the three versions are not empty, and the metadata is an object
  without floats.  It returns the target state, the next version and a proof id, moves the instance to
  the target state and adds exactly one row to its chain.
\<close>

theorem transition_progress:
  assumes "pydantic_ok x" "digest_ok x" "signer_ok x W sg" "facade_reach x W sg f" "w \<in> W"
    and "signer_available x w (e_signer (f_engine f))"
    and "transition_checks f i ts ih oh mv av pv mj = Inr (fs, h, v, md)"
    and "transition_args_ok now i fs ts mv av pv md"
  shows "\<exists>pid f'. transition x w now i ts ih oh mv av pv mj f = (Inr (ts, v, pid), f') \<and>
    map_of (f_instances f') i = Some (ts, h) \<and>
    length (get_ledger_chain (f_db f') i ''default'') = Suc (length (get_ledger_chain (f_db f) i ''default''))"
  using transition_succeeds [OF assms] by metis

text \<open>The metadata of the witness is a JSON text with white space.\<close>

theorem transition_progress_witness:
  "\<exists>pid f' h. transition sample_ext sample_world sample_now ''i'' ''b'' ''h'' ''k'' ''m'' ''g'' ''p'' ''{\"score\": 720}'' sample_start =
      (Inr (''b'', 1, pid), f') \<and> map_of (f_instances f') ''i'' = Some (''b'', h)"
proof -
  have "(case transition_checks sample_start ''i'' ''b'' ''h'' ''k'' ''m'' ''g'' ''p'' ''{\"score\": 720}'' of
     Inr (fs, h, v, md) \<Rightarrow> fs = ''a'' \<and> v = 1 \<and> md = PyDict [(KStr ''score'', PyInt 720)] | Inl _ \<Rightarrow> False)" by code_simp
  then obtain h where ck: "transition_checks sample_start ''i'' ''b'' ''h'' ''k'' ''m'' ''g'' ''p'' ''{\"score\": 720}'' =
      Inr (''a'', h, 1, PyDict [(KStr ''score'', PyInt 720)])" by (auto split: sum.splits prod.splits)
  have args: "transition_args_ok sample_now ''i'' ''a'' ''b'' ''m'' ''g'' ''p'' (PyDict [(KStr ''score'', PyInt 720)])" by code_simp
  show ?thesis
    using transition_progress [OF _ _ _ sample_start_reach _ sample_engine(4) ck args, of "{sample_world}"] by auto
qed

text \<open>
  C3: For an engine in a state that satisfies the invariant of reachable states (\<open>engine_ok\<close>) and a well-formed request
  (\<open>request_ok\<close>: the dictionaries of the metadata have each key once, and no random seed is given in the mode
  \<open>STRICT_DETERMINISTIC\<close>, which the engine does not check and \<open>verify_proof\<close> refuses): a decision that \<open>record_decision\<close> returns is stored as exactly one new row, and what \<open>json.loads\<close> reads back
  from that row is a proof that \<open>verify_proof\<close> accepts, as is the proof the caller got.
\<close>

theorem recorded_proof_verifies:
  assumes "pydantic_ok x" "digest_ok x" "engine_ok x W e" "w \<in> W" "request_ok rq"
    and "record_decision x w now rq e = (Inr p, e')"
  shows "\<exists>r pd v. db_ledger (e_db e') = db_ledger (e_db e) @ [r] \<and> lr_instance_id r = rq_instance_id rq \<and>
    lr_to_state r = rq_to_state rq \<and> dump_proof x p = Inr pd \<and> vr_valid (verify_proof x now' pd None None) \<and>
    json_loads (lr_proof_json r) = Some v \<and> vr_valid (verify_proof x now' v None None)"
proof -
  obtain r where r: "db_ledger (e_db e') = db_ledger (e_db e) @ [r]" "stored_proof x r p"
    "lr_instance_id r = rq_instance_id rq" "lr_to_state r = rq_to_state rq"
    using record_decision_ok [OF assms] by metis
  have j: "wf_proof p" "json_proof p" "proof_accepted x p" using r(2) unfolding stored_proof_def by blast+
  obtain pd where pd: "dump_proof x p = Inr pd" using dump_proof_json [OF assms(1) j(2)] by blast
  have "ProofV1_validate x pd = Inr p"
    using ProofV1_dump(1) [OF assms(1) _ j(1) _ pd] j(2) unfolding json_proof_def by blast
  then have "vr_valid (verify_proof x now' pd None None)" using j(3) by (simp add: verify_proof_valid_iff)
  moreover obtain v where v: "json_loads (lr_proof_json r) = Some v" "ProofV1_validate x v = Inr (norm_proof p)"
    using stored_proof_read [OF assms(1) r(2)] by metis
  moreover have "vr_valid (verify_proof x now' v None None)"
    using v(2) proof_accepted_norm [OF assms(1) j(2,3)] by (simp add: verify_proof_valid_iff)
  ultimately show ?thesis using r pd by blast
qed

theorem recorded_proof_verifies_witness:
  "\<exists>p e' r. record_decision sample_ext sample_world sample_now sample_request (f_engine sample_start) = (Inr p, e') \<and>
     db_ledger (e_db e') = [r] \<and> (\<exists>v. json_loads (lr_proof_json r) = Some v \<and>
       vr_valid (verify_proof sample_ext sample_now v None None))"
proof -
  obtain p e' where r: "record_decision sample_ext sample_world sample_now sample_request (f_engine sample_start) = (Inr p, e')"
    using sample_recorded by blast
  have "request_ok sample_request" by (simp add: sample_request_def transition_request_ok)
  from recorded_proof_verifies [OF _ _ sample_engine(1) _ this r, of sample_now] r
  show ?thesis by (auto simp: sample_engine(2))
qed

text \<open>
  C4: Whatever \<open>record_decision\<close> records is governed: the model, agent and policy versions are approved in
  the store at that moment, the metadata has no forbidden type, and the proof names exactly the requested
  states and versions, the hash of the previous row of its instance and the next sequence number.
\<close>

theorem record_decision_governed:
  assumes "record_decision x w now rq e = (Inr p, e')"
  shows "rq_model_version rq \<in> snd ` set (get_approved_models (e_db e)) \<and>
    rq_agent_version rq \<in> snd ` set (get_approved_agents (e_db e)) \<and>
    rq_policy_version rq \<in> snd ` set (get_approved_policies (e_db e)) \<and>
    plain (if truthy (rq_metadata rq) then rq_metadata rq else PyDict []) \<and>
    p_instance_id p = rq_instance_id rq \<and>
    p_decision p = \<lparr>d_from_state = rq_from_state rq, d_to_state = rq_to_state rq\<rparr> \<and>
    p_governance p = \<lparr>g_model_version = rq_model_version rq, g_agent_version = rq_agent_version rq,
      g_policy_version = rq_policy_version rq\<rparr> \<and>
    (\<exists>ph n. get_previous_hash_and_sequence (e_db e) (rq_instance_id rq) = Inr (ph, n) \<and>
      l_previous_hash (p_ledger p) = lower ph \<and> l_sequence_id (p_ledger p) = n)"
proof -
  obtain d dc g t ph n ch l sgn where p: "prepare_decision x (e_db e) rq = Inr (d, dc, g, t, ph, n, ch)"
    "Ledger_init n ph ch now = Inr l" "ProofV1_init PROOF_VERSION (rq_instance_id rq) d dc g t l sgn = Inr p"
    using assms by (rule record_decision_cases)
  note g = prepare_decision_governed [OF p(1)]
  have "l_previous_hash l = lower ph" "l_sequence_id l = n" using p(2) by (auto simp: Ledger_init_def validate_hex_iff)
  moreover have "p_instance_id p = rq_instance_id rq" "p_decision p = d" "p_governance p = g" "p_ledger p = l"
    using p(3) by (auto simp: ProofV1_init_def)
  ultimately show ?thesis using g [unfolded validate_governance_ok] by simp
qed

theorem record_decision_governed_witness:
  "\<exists>p e'. record_decision sample_ext sample_world sample_now sample_request (f_engine sample_start) = (Inr p, e') \<and>
     ''m'' \<in> snd ` set (get_approved_models (e_db (f_engine sample_start))) \<and>
     p_governance p = \<lparr>g_model_version = ''m'', g_agent_version = ''g'', g_policy_version = ''p''\<rparr>"
proof -
  obtain p e' where r: "record_decision sample_ext sample_world sample_now sample_request (f_engine sample_start) = (Inr p, e')"
    using sample_recorded by blast
  with record_decision_governed [OF r] show ?thesis
    by (auto simp: sample_request_def transition_request_def)
qed

text \<open>
  C5: A call of \<open>record_decision\<close> that raises leaves the ledger as it was and keeps the invariant of the
  engine, whichever step raised: governance, metadata, hashing, signing or the insert.
\<close>

theorem record_decision_failure:
  assumes "engine_ok x W e" "w \<in> W" "record_decision x w now rq e = (Inl err, e')"
  shows "engine_ok x W e' \<and> db_ledger (e_db e') = db_ledger (e_db e)"
  using record_decision_error [OF assms] .

theorem record_decision_failure_witness:
  "\<exists>err e'. record_decision sample_ext sample_world ''now'' sample_request (f_engine sample_start) = (Inl err, e') \<and>
     engine_ok sample_ext {sample_world} e' \<and> db_ledger (e_db e') = []"
proof (cases "record_decision sample_ext sample_world ''now'' sample_request (f_engine sample_start)")
  case (Pair r e')
  show ?thesis
  proof (cases r)
    case (Inl err)
    with record_decision_failure [OF sample_engine(1), of sample_world] Pair show ?thesis
      by (auto simp: sample_engine(2))
  next
    case (Inr p)
    with Pair obtain n ph ch l where "Ledger_init n ph ch ''now'' = Inr l"
      using record_decision_cases [of sample_ext sample_world "''now''" sample_request "f_engine sample_start" p e'] by metis
    then show ?thesis by (auto simp: Ledger_init_def)
  qed
qed

text \<open>
  The engine records a decision in strict mode that names a random seed, and \<open>verify_proof\<close> rejects
  the proof it returns: step 3 of \<open>record_decision\<close> does not test the seed in this mode,
  \<open>_validate_determinism_consistency\<close> does.
\<close>

theorem strict_seed_not_verifiable:
  assumes "pydantic_ok x" "digest_ok x" "wf_val (rq_metadata rq)"
    and "record_decision x w now rq e = (Inr p, e')"
    and "rq_determinism_mode rq = STRICT_DETERMINISTIC" "rq_random_seed rq \<noteq> None"
  shows "\<exists>pd. dump_proof x p = Inr pd \<and> \<not> vr_valid (verify_proof x now' pd eh es)"
proof -
  obtain d dc g t ph n ch l sgn pd sg1 pk sig where p: "prepare_decision x (e_db e) rq = Inr (d, dc, g, t, ph, n, ch)"
    "Ledger_init n ph ch now = Inr l" "ProofV1_init PROOF_VERSION (rq_instance_id rq) d dc g t l sgn = Inr p"
    "dump_proof x p = Inr pd" "Signature_init ED25519 (get_key_id x sg1) pk sig = Inr sgn"
    using assms(4) by (rule record_decision_cases)
  note pr = prepare_decision_ok [OF assms(1-3) p(1)]
  have pf: "p = \<lparr>p_type = PROOF_VERSION, p_instance_id = rq_instance_id rq, p_decision = d, p_decision_context = dc,
      p_governance = g, p_determinism = t, p_ledger = l, p_signature = sgn\<rparr>" "rq_instance_id rq \<noteq> []"
    using p(3) by (auto simp: ProofV1_init_def)
  have "determinism_inconsistent p"
    using prepare_decision_governed(6,7) [OF p(1)] assms(5,6) by (simp add: determinism_inconsistent_def pf)
  moreover have "wf_proof p"
    unfolding wf_proof_def using pr(4-12) Ledger_init_wf [OF p(2)] Signature_init_wf [OF p(5)] pf(2) by (simp add: pf(1))
  moreover have "plain (PyDict (dc_metadata (p_decision_context p)))"
    "wf_contribs (dc_feature_contributions (p_decision_context p))" using pr(2,3) by (simp_all add: pf(1) del: plain.simps)
  ultimately have "ProofV1_validate x pd = Inr p" "\<not> proof_accepted x p"
    using ProofV1_dump(1) [OF assms(1) _ _ _ p(4)] by (blast, simp add: proof_accepted_def)
  then show ?thesis using p(4) by (simp add: verify_proof_valid_iff)
qed

theorem strict_seed_not_verifiable_witness:
  "\<exists>p e' pd. record_decision sample_ext sample_world sample_now seeded_request (f_engine sample_start) = (Inr p, e') \<and>
     dump_proof sample_ext p = Inr pd \<and> \<not> vr_valid (verify_proof sample_ext sample_now pd None None)"
proof -
  obtain p e' where r: "record_decision sample_ext sample_world sample_now seeded_request (f_engine sample_start) = (Inr p, e')"
    using sample_recorded by blast
  have "rq_determinism_mode seeded_request = STRICT_DETERMINISTIC" "rq_random_seed seeded_request \<noteq> None"
    by (simp_all add: seeded_request_def sample_request_def transition_request_def)
  from strict_seed_not_verifiable [OF _ _ sample_complete(1) r this, of sample_now None None] r
  show ?thesis by auto
qed

text \<open>
  C6: The last hash of an accepted chain commits to the whole chain: two chains of proofs that
  \<open>verify_chain\<close> accepts and that end in the same hash have the same decisions, contexts, governance,
  determinism blocks, previous hashes and sequence numbers throughout, unless SHA-256 collides on the
  messages hashed for the two chains.
\<close>

theorem accepted_chain_binding:
  assumes "pydantic_ok x" "list_all (\<lambda>v. plain v \<and> wf_val v) vs" "list_all (\<lambda>v. plain v \<and> wf_val v) us"
    and "vr_valid (verify_chain x now vs)" "vr_valid (verify_chain x now us)"
    and "rmap_list (ProofV1_validate x) vs = Inr ps" "rmap_list (ProofV1_validate x) us = Inr qs"
    and "l_current_hash (p_ledger (last ps)) = l_current_hash (p_ledger (last qs))"
    and "inj_on (x_sha256 x) (hash_message x ` (set ps \<union> set qs))"
  shows "map signed_part ps = map signed_part qs"
proof -
  have "chain_ok x ps" "ps \<noteq> []" using verified_chain_ok [OF assms(1,4,2)] assms(6) by (metis sum.inject(2))+
  moreover have "chain_ok x qs" "qs \<noteq> []" using verified_chain_ok [OF assms(1,5,3)] assms(7) by (metis sum.inject(2))+
  ultimately show ?thesis using chain_binding [OF assms(1,9)] assms(8) by blast
qed

theorem accepted_chain_binding_witness:
  "\<exists>pd p. vr_valid (verify_chain sample_ext sample_now [pd]) \<and> vr_valid (verify_chain sample_ext sample_now [Json.norm pd]) \<and>
     ProofV1_validate sample_ext pd = Inr p \<and> ProofV1_validate sample_ext (Json.norm pd) = Inr (norm_proof p) \<and>
     signed_part p = signed_part (norm_proof p)"
proof -
  obtain p pd where p: "wf_proof p" "json_proof p" "proof_accepted sample_ext p" "dump_proof sample_ext p = Inr pd"
    "plain pd" "wf_val pd" "linked 0 genesis_hash [p]" by (rule sample_proof)
  have v: "ProofV1_validate sample_ext pd = Inr p" "ProofV1_validate sample_ext (Json.norm pd) = Inr (norm_proof p)"
    using ProofV1_dump [OF _ _ p(1) _ p(4)] p(2) unfolding json_proof_def by simp_all
  have a: "proof_accepted sample_ext (norm_proof p)" using proof_accepted_norm [OF _ p(2,3)] by simp
  have c: "vr_valid (verify_chain sample_ext sample_now [pd])" "vr_valid (verify_chain sample_ext sample_now [Json.norm pd])"
    using v a p(3,7) by (auto simp: verify_chain_valid_iff norm_proof_def)
  have m: "hash_message sample_ext (norm_proof p) = hash_message sample_ext p"
    by (rule hash_message_norm) (simp_all add: p(2))
  have "map signed_part [p] = map signed_part [norm_proof p]"
    using accepted_chain_binding [OF _ _ _ c, of "[p]" "[norm_proof p]"] v p(5,6) m by (simp del: norm.simps)
  with c v show ?thesis by auto
qed

end
